(* ===== verification/Dawgs_Prelude.thy ===== *)
theory Dawgs_Prelude
  imports Main "HOL-Library.Word" "HOL-Library.Sublist"
begin

text \<open>
  The vocabulary shared by the components of the development.

  \<^item> Types of the Go code: \<open>uint64\<close> is a 64-bit word, \<open>graph.ID\<close> is a \<open>uint64\<close>, a
    \<open>graph.Direction\<close> is one of three values.
  \<^item> A callback loop \<open>Each(func(x) bool)\<close> is \<open>each\<close>: it feeds the values of a sequence to
    a delegate that updates the captured variables and says whether to go on.
  \<^item> A \<open>for cond { body }\<close> loop is \<open>loop\<close>: a partial function whose value \<open>None\<close> stands
    for a run that does not return normally (it diverges, or its body panics). The rule
    \<open>loop_total\<close> gives termination and correctness at once.
  \<^item> A Go map is a partial function. Reading a missing key yields the zero value
    (\<open>map_get\<close>); \<open>range_order\<close> says that a list is an order in which a \<open>range\<close> over the map
    can enumerate its keys. Go leaves this order open, so it is an argument of the
    definitions that range over a map.
  \<^item> The third-party deque is a record of operations; the locale \<open>deque\<close> states its
    documented behaviour.
\<close>

section \<open>Basic types\<close>

type_synonym uint64 = "64 word"

text \<open>\<open>graph.Direction\<close> of src/graph/graph.go.\<close>

datatype direction = DirectionInbound | DirectionOutbound | DirectionBoth

named_theorems go_simps \<open>unfolding of model operations\<close>
named_theorems bm_simps \<open>contents of bitmaps after an operation\<close>

section \<open>Callback iteration\<close>

fun each :: "('a \<Rightarrow> 's \<Rightarrow> 's \<times> bool) \<Rightarrow> 'a list \<Rightarrow> 's \<Rightarrow> 's" where
  "each f [] s = s"
| "each f (x # xs) s = (case f x s of (s', goon) \<Rightarrow> if goon then each f xs s' else s')"

text \<open>A delegate that never stops makes \<open>each\<close> a fold.\<close>

lemma each_fold:
  "(\<And>x s. x \<in> set xs \<Longrightarrow> snd (f x s)) \<Longrightarrow> each f xs s = fold (\<lambda>x s. fst (f x s)) xs s"
proof (induction xs arbitrary: s)
  case (Cons x xs)
  from Cons.prems [of x s] have "snd (f x s)" by simp
  with Cons show ?case by (cases "f x s") auto
qed simp

lemma each_True [simp]:
  "each (\<lambda>x s. (g x s, True)) xs s = fold g xs s"
  by (induction xs arbitrary: s) auto

text \<open>A property every call of the delegate keeps holds after the iteration.\<close>

lemma each_invariant:
  assumes "P s" and "\<And>x s. x \<in> set xs \<Longrightarrow> P s \<Longrightarrow> P (fst (f x s))"
  shows "P (each f xs s)"
  using assms
proof (induction xs arbitrary: s)
  case (Cons x xs)
  obtain s' goon where f: "f x s = (s', goon)" by (cases "f x s")
  have "P s'" using Cons.prems(2) [of x s] Cons.prems(1) f by simp
  moreover have "P (each f xs s')" using \<open>P s'\<close> Cons.prems(2) by (intro Cons.IH) auto
  ultimately show ?case using f by simp
qed simp

lemma fold_invariant_mem:
  assumes "P s" and "\<And>x s. x \<in> set xs \<Longrightarrow> P s \<Longrightarrow> P (g x s)"
  shows "P (fold g xs s)"
  using assms by (induction xs arbitrary: s) auto

text \<open>Iteration that also tells whether the delegate let it run to the end.\<close>

fun each_on :: "('a \<Rightarrow> 's \<Rightarrow> 's \<times> bool) \<Rightarrow> 'a list \<Rightarrow> 's \<Rightarrow> 's \<times> bool" where
  "each_on f [] s = (s, True)"
| "each_on f (x # xs) s = (case f x s of (s', goon) \<Rightarrow> if goon then each_on f xs s' else (s', False))"

lemma fst_each_on: "fst (each_on f xs s) = each f xs s"
  by (induction xs arbitrary: s) (auto split: prod.split)

lemma each_append:
  "each f (xs @ ys) s = (case each_on f xs s of (s', goon) \<Rightarrow> if goon then each f ys s' else s')"
  by (induction xs arbitrary: s) (auto split: prod.split)

section \<open>Loops\<close>

partial_function (option) loop ::
    "('s \<Rightarrow> bool) \<Rightarrow> ('s \<Rightarrow> 's option) \<Rightarrow> 's \<Rightarrow> 's option" where
  [code]: "loop b c s = (if b s then Option.bind (c s) (loop b c) else Some s)"

lemma loop_done: "\<not> b s \<Longrightarrow> loop b c s = Some s"
  by (simp add: loop.simps)

lemma loop_step: "b s \<Longrightarrow> c s = Some s' \<Longrightarrow> loop b c s = loop b c s'"
  by (simp add: loop.simps)

lemma loop_panic: "b s \<Longrightarrow> c s = None \<Longrightarrow> loop b c s = None"
  by (simp add: loop.simps)

theorem loop_total:
  assumes "wf r" and "I s"
    and step: "\<And>s. I s \<Longrightarrow> b s \<Longrightarrow> \<exists>s'. c s = Some s' \<and> I s' \<and> (s', s) \<in> r"
  shows "\<exists>t. loop b c s = Some t \<and> I t \<and> \<not> b t"
  using assms(1,2)
proof (induction s rule: wf_induct_rule)
  case (less s)
  show ?case
  proof (cases "b s")
    case True
    with step less.prems obtain s' where "c s = Some s'" "I s'" "(s', s) \<in> r" by blast
    with less.IH True show ?thesis by (simp add: loop_step)
  next
    case False
    with less.prems show ?thesis by (simp add: loop_done)
  qed
qed

lemma loop_total_measure:
  fixes m :: "'s \<Rightarrow> nat"
  assumes "I s"
    and "\<And>s. I s \<Longrightarrow> b s \<Longrightarrow> \<exists>s'. c s = Some s' \<and> I s' \<and> m s' < m s"
  shows "\<exists>t. loop b c s = Some t \<and> I t \<and> \<not> b t"
  using assms loop_total [where r = "measure m" and I = I] by simp

text \<open>A \<open>for\<close> loop over a known sequence whose body may panic.\<close>

fun for_each :: "('a \<Rightarrow> 's \<Rightarrow> 's option) \<Rightarrow> 'a list \<Rightarrow> 's \<Rightarrow> 's option" where
  "for_each f [] s = Some s"
| "for_each f (x # xs) s = Option.bind (f x s) (for_each f xs)"

lemma for_each_append: "for_each f (xs @ ys) s = Option.bind (for_each f xs s) (for_each f ys)"
  by (induction xs arbitrary: s) (auto simp: bind_assoc split: bind_splits)

lemma fold_bind_for_each: "fold (\<lambda>x st. Option.bind st (f x)) xs (Some s) = for_each f xs s"
proof -
  have "fold (\<lambda>x st. Option.bind st (f x)) xs st = Option.bind st (for_each f xs)" for st
  proof (induction xs arbitrary: st)
    case Nil
    show ?case by (cases st) auto
  next
    case (Cons x xs)
    then show ?case by (cases st) auto
  qed
  then show ?thesis by simp
qed

text \<open>An invariant over the part of the sequence already seen gives totality and the result.\<close>

lemma for_each_total:
  assumes "I [] s"
    and "\<And>ys x zs s. xs = ys @ x # zs \<Longrightarrow> I ys s \<Longrightarrow> \<exists>s'. f x s = Some s' \<and> I (ys @ [x]) s'"
  shows "\<exists>s'. for_each f xs s = Some s' \<and> I xs s'"
proof -
  have "\<exists>s'. for_each f ys s = Some s' \<and> I ys s'" if "prefix ys xs" for ys
    using that
  proof (induction ys rule: rev_induct)
    case (snoc y ys)
    from snoc.prems obtain zs where "xs = ys @ y # zs" by (auto simp: prefix_def)
    moreover from snoc obtain s' where "for_each f ys s = Some s'" "I ys s'"
      using append_prefixD by blast
    ultimately show ?case using assms(2) by (fastforce simp: for_each_append)
  qed (use assms(1) in simp)
  then show ?thesis by simp
qed

text \<open>Writing into a slice panics outside of its range.\<close>

definition slice_set :: "'a list \<Rightarrow> nat \<Rightarrow> 'a \<Rightarrow> 'a list option" where
  "slice_set xs i v = (if i < length xs then Some (xs[i := v]) else None)"

definition slice_get :: "'a list \<Rightarrow> nat \<Rightarrow> 'a option" where
  "slice_get xs i = (if i < length xs then Some (xs ! i) else None)"

text \<open>The slice expression \<open>xs[a:b]\<close>.\<close>

definition slice_sub :: "'a list \<Rightarrow> nat \<Rightarrow> nat \<Rightarrow> 'a list option" where
  "slice_sub xs a b = (if a \<le> b \<and> b \<le> length xs then Some (take (b - a) (drop a xs)) else None)"

text \<open>Two independent computations in the body of one loop.\<close>

definition for_both ::
    "('a \<Rightarrow> 's \<Rightarrow> 's option) \<Rightarrow> ('a \<Rightarrow> 't \<Rightarrow> 't option) \<Rightarrow> 'a \<Rightarrow> 's \<times> 't \<Rightarrow> ('s \<times> 't) option" where
  "for_both f g x = (\<lambda>(s, t). Option.bind (f x s) (\<lambda>s'. Option.bind (g x t) (\<lambda>t'. Some (s', t'))))"

lemma for_each_both:
  "for_each f xs s = Some s' \<Longrightarrow> for_each g xs t = Some t' \<Longrightarrow>
   for_each (for_both f g) xs (s, t) = Some (s', t')"
  by (induction xs arbitrary: s t) (auto simp: for_both_def bind_eq_Some_conv)

section \<open>Go maps\<close>

definition map_get :: "('k \<rightharpoonup> 'v) \<Rightarrow> 'v \<Rightarrow> 'k \<Rightarrow> 'v" where
  [go_simps]: "map_get m zero k = (case m k of None \<Rightarrow> zero | Some v \<Rightarrow> v)"

definition range_order :: "('k \<rightharpoonup> 'v) \<Rightarrow> 'k list \<Rightarrow> bool" where
  "range_order m ks \<longleftrightarrow> distinct ks \<and> set ks = dom m"

lemma range_orderD: "range_order m ks \<Longrightarrow> k \<in> set ks \<longleftrightarrow> m k \<noteq> None"
  by (auto simp: range_order_def)

section \<open>Lists and words\<close>

lemma sorted_distinct_eqI:
  fixes xs ys :: "'a::linorder list"
  assumes "sorted xs" "distinct xs" "sorted ys" "distinct ys" "set xs = set ys"
  shows "xs = ys"
  using assms sorted_distinct_set_unique by blast

lemma map_upt_split:
  assumes "map f [0..<n] = ys @ x # zs"
  shows "length ys < n" "x = f (length ys)"
proof -
  from arg_cong [OF assms, of length] show n: "length ys < n" by simp
  then show "x = f (length ys)" using arg_cong [OF assms, of "\<lambda>xs. xs ! length ys"] by simp
qed

lemma map_nth_upt: "b \<le> length xs \<Longrightarrow> map ((!) xs) [a..<b] = take (b - a) (drop a xs)"
  by (rule nth_equalityI) auto

lemma length_concat_take_Suc:
  "i < length rows \<Longrightarrow> length (concat (take (Suc i) rows)) = length (concat (take i rows)) + length (rows ! i)"
  by (simp add: take_Suc_conv_app_nth)

lemma concat_row: "i < length rows \<Longrightarrow> concat rows = concat (take i rows) @ rows ! i @ concat (drop (Suc i) rows)"
  by (metis concat_append concat.simps(2) id_take_nth_drop)

lemma length_concat_take_le: "length (concat (take i rows)) \<le> length (concat rows)"
  by (metis append_take_drop_id concat_append le_add1 length_append)

lemma finite_uint64 [simp]: "finite (A :: uint64 set)"
  by (rule finite)

lemma distinct_uint64_length: "distinct (xs :: uint64 list) \<Longrightarrow> length xs \<le> 2 ^ 64"
proof -
  assume "distinct xs"
  then have "length xs = card (set xs)" by (simp add: distinct_card)
  also have "\<dots> \<le> card (UNIV :: uint64 set)" by (rule card_mono) auto
  also have "\<dots> = 2 ^ 64" by (simp add: card_word)
  finally show ?thesis .
qed

lemma unat_of_nat_64 [simp]: "n < 2 ^ 64 \<Longrightarrow> unat (of_nat n :: uint64) = n"
  by (simp add: unat_of_nat take_bit_nat_eq_self)

lemma of_nat_64_eq_iff [simp]:
  "i < 2 ^ 64 \<Longrightarrow> j < 2 ^ 64 \<Longrightarrow> (of_nat i :: uint64) = of_nat j \<longleftrightarrow> i = j"
  by (metis unat_of_nat_64)

section \<open>Relations\<close>

lemma closed_rtrancl_subset:
  assumes "r `` X \<subseteq> X" and "x \<in> X" and "(x, y) \<in> r\<^sup>*"
  shows "y \<in> X"
  using assms(3,1,2) by induction auto

lemma trancl_subset_closed:
  assumes "r `` {x} \<subseteq> V" and "r `` V \<subseteq> V"
  shows "r\<^sup>+ `` {x} \<subseteq> V"
proof
  fix y
  assume "y \<in> r\<^sup>+ `` {x}"
  then have "(x, y) \<in> r\<^sup>+" by simp
  then show "y \<in> V"
    by induction (use assms in auto)
qed

section \<open>The deque of github.com/gammazero/deque\<close>

text \<open>
  The methods the code calls. Popping an empty deque panics (\<open>None\<close>).
\<close>

record ('q, 'a) deque_ops =
  dq_New :: 'q
  dq_PushBack :: "'q \<Rightarrow> 'a \<Rightarrow> 'q"
  dq_PopFront :: "'q \<Rightarrow> ('a \<times> 'q) option"
  dq_PopBack :: "'q \<Rightarrow> ('a \<times> 'q) option"
  dq_Back :: "'q \<Rightarrow> 'a option"
  dq_Front :: "'q \<Rightarrow> 'a option"
  dq_Len :: "'q \<Rightarrow> nat"

text \<open>\<open>items\<close> lists the content of a deque from front to back.\<close>

locale deque =
  fixes D :: "('q, 'a) deque_ops" and items :: "'q \<Rightarrow> 'a list"
  assumes dq_items_New [simp]: "items (dq_New D) = []"
    and dq_items_PushBack [simp]: "items (dq_PushBack D q x) = items q @ [x]"
    and dq_PopFront_Nil: "items q = [] \<Longrightarrow> dq_PopFront D q = None"
    and dq_PopFront_Cons: "items q = x # xs \<Longrightarrow> \<exists>q'. dq_PopFront D q = Some (x, q') \<and> items q' = xs"
    and dq_PopBack_Nil: "items q = [] \<Longrightarrow> dq_PopBack D q = None"
    and dq_PopBack_snoc: "items q = xs @ [x] \<Longrightarrow> \<exists>q'. dq_PopBack D q = Some (x, q') \<and> items q' = xs"
    and dq_Back_Nil: "items q = [] \<Longrightarrow> dq_Back D q = None"
    and dq_Back_snoc: "items q = xs @ [x] \<Longrightarrow> dq_Back D q = Some x"
    and dq_Front_Nil: "items q = [] \<Longrightarrow> dq_Front D q = None"
    and dq_Front_Cons: "items q = x # xs \<Longrightarrow> dq_Front D q = Some x"
    and dq_Len_items [simp]: "dq_Len D q = length (items q)"
begin

lemma PopFront_nonempty:
  assumes "0 < dq_Len D q"
  obtains x q' where "dq_PopFront D q = Some (x, q')" "items q = x # items q'"
proof -
  from assms obtain x xs where "items q = x # xs" by (cases "items q") auto
  with dq_PopFront_Cons [OF this] that show thesis by auto
qed

lemma PopBack_nonempty:
  assumes "0 < dq_Len D q"
  obtains x q' where "dq_PopBack D q = Some (x, q')" "items q = items q' @ [x]"
proof -
  from assms obtain xs x where "items q = xs @ [x]" by (cases "items q" rule: rev_cases) auto
  with dq_PopBack_snoc [OF this] that show thesis by auto
qed

lemma items_fold_PushBack: "items (fold (\<lambda>x q. dq_PushBack D q x) xs q) = items q @ xs"
  by (induction xs arbitrary: q) auto

end

text \<open>A list satisfies these laws: the instance on which the witnesses evaluate.\<close>

definition list_deque :: "('a list, 'a) deque_ops" where
  "list_deque = \<lparr>
     dq_New = [],
     dq_PushBack = (\<lambda>q x. q @ [x]),
     dq_PopFront = (\<lambda>q. case q of [] \<Rightarrow> None | x # xs \<Rightarrow> Some (x, xs)),
     dq_PopBack = (\<lambda>q. if q = [] then None else Some (last q, butlast q)),
     dq_Back = (\<lambda>q. if q = [] then None else Some (last q)),
     dq_Front = (\<lambda>q. case q of [] \<Rightarrow> None | x # xs \<Rightarrow> Some x),
     dq_Len = length \<rparr>"

interpretation ldq: deque list_deque "\<lambda>q. q"
  by unfold_locales (simp_all add: list_deque_def)

end
