(* ===== verification/Card_Bitmap.thy ===== *)
theory Card_Bitmap
  imports Dawgs_Prelude
begin

text \<open>
  The package src/cardinality: the provider interface, the 64-bit bitmap that every container
  of the repository stores its sets in, and the commutative collections of bitmaps.

  The bitmap itself is github.com/RoaringBitmap/roaring/v2/roaring64, a third-party package: it
  is the record \<open>roaring64_ops\<close>, an argument of every definition that uses a bitmap. The locale
  \<open>roaring64\<close> states the documented behaviour of its methods through the array of its values
  (\<open>ToArray\<close>), which is sorted and free of duplicates. The instance \<open>list_bitmap\<close> (sorted
  lists) shows that the laws can hold and lets witnesses evaluate.

  A Go bitmap is a pointer that methods update in place; here an update returns the new bitmap.
\<close>

section \<open>The roaring bitmap\<close>

record 'b roaring64_ops =
  rb_New :: 'b
  rb_AddMany :: "'b \<Rightarrow> uint64 list \<Rightarrow> 'b"
  rb_Add :: "'b \<Rightarrow> uint64 \<Rightarrow> 'b"
  rb_CheckedAdd :: "'b \<Rightarrow> uint64 \<Rightarrow> bool \<times> 'b"
  rb_Remove :: "'b \<Rightarrow> uint64 \<Rightarrow> 'b"
  rb_Contains :: "'b \<Rightarrow> uint64 \<Rightarrow> bool"
  rb_Or :: "'b \<Rightarrow> 'b \<Rightarrow> 'b"
  rb_And :: "'b \<Rightarrow> 'b \<Rightarrow> 'b"
  rb_Xor :: "'b \<Rightarrow> 'b \<Rightarrow> 'b"
  rb_AndNot :: "'b \<Rightarrow> 'b \<Rightarrow> 'b"
  rb_GetCardinality :: "'b \<Rightarrow> uint64"
  rb_ToArray :: "'b \<Rightarrow> uint64 list"
  rb_Iterator :: "'b \<Rightarrow> uint64 list"
  rb_Clear :: "'b \<Rightarrow> 'b"
  rb_Clone :: "'b \<Rightarrow> 'b"

text \<open>The set of values a bitmap holds.\<close>

abbreviation elems :: "'b roaring64_ops \<Rightarrow> 'b \<Rightarrow> uint64 set" where
  "elems R b \<equiv> set (rb_ToArray R b)"

locale roaring64 =
  fixes R :: "'b roaring64_ops"
  assumes rb_sorted [simp]: "sorted (rb_ToArray R b)"
    and rb_distinct [simp]: "distinct (rb_ToArray R b)"
    and elems_New: "elems R (rb_New R) = {}"
    and elems_AddMany: "elems R (rb_AddMany R b xs) = elems R b \<union> set xs"
    and elems_Add: "elems R (rb_Add R b x) = insert x (elems R b)"
    and fst_CheckedAdd: "fst (rb_CheckedAdd R b x) = (x \<notin> elems R b)"
    and elems_CheckedAdd: "elems R (snd (rb_CheckedAdd R b x)) = insert x (elems R b)"
    and elems_Remove: "elems R (rb_Remove R b x) = elems R b - {x}"
    and rb_Contains_elems: "rb_Contains R b x = (x \<in> elems R b)"
    and elems_Or: "elems R (rb_Or R b c) = elems R b \<union> elems R c"
    and elems_And: "elems R (rb_And R b c) = elems R b \<inter> elems R c"
    and elems_Xor: "elems R (rb_Xor R b c) = (elems R b - elems R c) \<union> (elems R c - elems R b)"
    and elems_AndNot: "elems R (rb_AndNot R b c) = elems R b - elems R c"
    and rb_GetCardinality_length: "rb_GetCardinality R b = of_nat (length (rb_ToArray R b))"
    and rb_Iterator_ToArray: "rb_Iterator R b = rb_ToArray R b"
    and elems_Clear: "elems R (rb_Clear R b) = {}"
    and elems_Clone: "elems R (rb_Clone R b) = elems R b"

section \<open>bitmap64\<close>

text \<open>
  src/cardinality/roaring64.go. The binary operations switch on the dynamic type of the other
  provider: a \<open>bitmap64\<close> is handed to roaring, any other \<open>Duplex\<close> is read through its \<open>Each\<close>,
  and a provider that is not a \<open>Duplex\<close> (a HyperLogLog \<open>Simplex\<close>) matches no case and
  leaves the bitmap as it is.
\<close>

datatype 'b provider =
    Bitmap64 'b
  | OtherDuplex "uint64 list"
  | OtherProvider

definition NewBitmap64 :: "'b roaring64_ops \<Rightarrow> 'b" where
  [go_simps]: "NewBitmap64 R = rb_New R"

definition bitmap64_Add :: "'b roaring64_ops \<Rightarrow> 'b \<Rightarrow> uint64 list \<Rightarrow> 'b" where
  [go_simps]: "bitmap64_Add R b values = rb_AddMany R b values"

definition NewBitmap64With :: "'b roaring64_ops \<Rightarrow> uint64 list \<Rightarrow> 'b" where
  [go_simps]: "NewBitmap64With R values = bitmap64_Add R (NewBitmap64 R) values"

definition bitmap64_Clear :: "'b roaring64_ops \<Rightarrow> 'b \<Rightarrow> 'b" where
  [go_simps]: "bitmap64_Clear R b = rb_Clear R b"

definition bitmap64_Each :: "'b roaring64_ops \<Rightarrow> 'b \<Rightarrow> (uint64 \<Rightarrow> 's \<Rightarrow> 's \<times> bool) \<Rightarrow> 's \<Rightarrow> 's" where
  [go_simps]: "bitmap64_Each R b delegate s = each delegate (rb_Iterator R b) s"

definition bitmap64_Slice :: "'b roaring64_ops \<Rightarrow> 'b \<Rightarrow> uint64 list" where
  [go_simps]: "bitmap64_Slice R b = rb_ToArray R b"

definition bitmap64_Contains :: "'b roaring64_ops \<Rightarrow> 'b \<Rightarrow> uint64 \<Rightarrow> bool" where
  [go_simps]: "bitmap64_Contains R b x = rb_Contains R b x"

definition bitmap64_CheckedAdd :: "'b roaring64_ops \<Rightarrow> 'b \<Rightarrow> uint64 \<Rightarrow> bool \<times> 'b" where
  [go_simps]: "bitmap64_CheckedAdd R b x = rb_CheckedAdd R b x"

definition bitmap64_Remove :: "'b roaring64_ops \<Rightarrow> 'b \<Rightarrow> uint64 \<Rightarrow> 'b" where
  [go_simps]: "bitmap64_Remove R b x = rb_Remove R b x"

definition bitmap64_Xor :: "'b roaring64_ops \<Rightarrow> 'b \<Rightarrow> 'b provider \<Rightarrow> 'b" where
  [go_simps]: "bitmap64_Xor R b p = (case p of
       Bitmap64 c \<Rightarrow> rb_Xor R b c
     | OtherDuplex vs \<Rightarrow>
         rb_Xor R b (each (\<lambda>v providerCopy. (rb_Add R providerCopy v, True)) vs (rb_New R))
     | OtherProvider \<Rightarrow> b)"

definition bitmap64_Or :: "'b roaring64_ops \<Rightarrow> 'b \<Rightarrow> 'b provider \<Rightarrow> 'b" where
  [go_simps]: "bitmap64_Or R b p = (case p of
       Bitmap64 c \<Rightarrow> rb_Or R b c
     | OtherDuplex vs \<Rightarrow> each (\<lambda>v s. (bitmap64_Add R s [v], True)) vs b
     | OtherProvider \<Rightarrow> b)"

text \<open>
  \<open>And\<close> and \<open>AndNot\<close> of another \<open>bitmap64\<close>. (For a foreign \<open>Duplex\<close> the code removes values
  while the roaring iterator runs; that behaviour is roaring's own and is left out.)
\<close>

definition bitmap64_And :: "'b roaring64_ops \<Rightarrow> 'b \<Rightarrow> 'b \<Rightarrow> 'b" where
  [go_simps]: "bitmap64_And R b c = rb_And R b c"

definition bitmap64_AndNot :: "'b roaring64_ops \<Rightarrow> 'b \<Rightarrow> 'b \<Rightarrow> 'b" where
  [go_simps]: "bitmap64_AndNot R b c = rb_AndNot R b c"

definition bitmap64_Cardinality :: "'b roaring64_ops \<Rightarrow> 'b \<Rightarrow> uint64" where
  [go_simps]: "bitmap64_Cardinality R b = rb_GetCardinality R b"

definition bitmap64_Clone :: "'b roaring64_ops \<Rightarrow> 'b \<Rightarrow> 'b" where
  [go_simps]: "bitmap64_Clone R b = rb_Clone R b"

text \<open>The values a provider shows to a binary operation.\<close>

fun provider_elems :: "'b roaring64_ops \<Rightarrow> 'b provider \<Rightarrow> uint64 set" where
  "provider_elems R (Bitmap64 c) = elems R c"
| "provider_elems R (OtherDuplex vs) = set vs"
| "provider_elems R OtherProvider = {}"

section \<open>The duplex contract\<close>

text \<open>
  What \<open>cardinality.Duplex\<close> promises its clients: the operations act on a finite set of
  \<open>uint64\<close> values, enumerated in increasing order by \<open>Each\<close> and \<open>Slice\<close>.
\<close>

locale duplex =
  fixes New :: 'd
    and Add :: "'d \<Rightarrow> uint64 list \<Rightarrow> 'd"
    and CheckedAdd :: "'d \<Rightarrow> uint64 \<Rightarrow> bool \<times> 'd"
    and Remove :: "'d \<Rightarrow> uint64 \<Rightarrow> 'd"
    and Contains :: "'d \<Rightarrow> uint64 \<Rightarrow> bool"
    and Or :: "'d \<Rightarrow> 'd \<Rightarrow> 'd"
    and Xor :: "'d \<Rightarrow> 'd \<Rightarrow> 'd"
    and And :: "'d \<Rightarrow> 'd \<Rightarrow> 'd"
    and AndNot :: "'d \<Rightarrow> 'd \<Rightarrow> 'd"
    and Clone :: "'d \<Rightarrow> 'd"
    and Card :: "'d \<Rightarrow> uint64"
    and Slice :: "'d \<Rightarrow> uint64 list"
  assumes New_set: "set (Slice New) = {}"
    and Add_set: "set (Slice (Add d xs)) = set (Slice d) \<union> set xs"
    and CheckedAdd_set: "set (Slice (snd (CheckedAdd d x))) = insert x (set (Slice d))"
    and CheckedAdd_new: "fst (CheckedAdd d x) \<longleftrightarrow> x \<notin> set (Slice d)"
    and Remove_set: "set (Slice (Remove d x)) = set (Slice d) - {x}"
    and Contains_set: "Contains d x \<longleftrightarrow> x \<in> set (Slice d)"
    and Or_set: "set (Slice (Or d e)) = set (Slice d) \<union> set (Slice e)"
    and Xor_set: "set (Slice (Xor d e)) = (set (Slice d) - set (Slice e)) \<union> (set (Slice e) - set (Slice d))"
    and And_set: "set (Slice (And d e)) = set (Slice d) \<inter> set (Slice e)"
    and AndNot_set: "set (Slice (AndNot d e)) = set (Slice d) - set (Slice e)"
    and Clone_set: "set (Slice (Clone d)) = set (Slice d)"
    and Card_set: "Card d = of_nat (card (set (Slice d)))"
    and Slice_sorted: "sorted (Slice d)"
    and Slice_distinct: "distinct (Slice d)"
begin

text \<open>Two duplexes with the same values are enumerated alike, and the set algebra follows.\<close>

lemma Slice_eqI: "set (Slice d) = set (Slice e) \<Longrightarrow> Slice d = Slice e"
  by (rule sorted_distinct_eqI) (auto intro: Slice_sorted Slice_distinct)

lemma Slice_sorted_list: "Slice d = sorted_list_of_set (set (Slice d))"
  by (metis Slice_distinct Slice_sorted sorted_list_of_set.idem_if_sorted_distinct)

lemma Or_comm: "Slice (Or d e) = Slice (Or e d)"
  by (rule Slice_eqI) (auto simp: Or_set)

lemma Or_idem: "Slice (Or d d) = Slice d"
  by (rule Slice_eqI) (auto simp: Or_set)

lemma Xor_cancel: "Slice (Xor (Xor d e) e) = Slice d"
  by (rule Slice_eqI) (auto simp: Xor_set)

lemma AndNot_And_partition:
  "set (Slice (AndNot d e)) \<union> set (Slice (And d e)) = set (Slice d)"
  by (auto simp: AndNot_set And_set)

lemma CheckedAdd_Contains: "Contains (snd (CheckedAdd d x)) y \<longleftrightarrow> y = x \<or> Contains d y"
  by (auto simp: Contains_set CheckedAdd_set)

end

section \<open>The bitmap meets the contract\<close>

context roaring64
begin

lemma rb_New_ToArray [simp]: "rb_ToArray R (rb_New R) = []"
  using elems_New by simp

lemma NewBitmap64_ToArray [simp]: "rb_ToArray R (NewBitmap64 R) = []"
  by (simp add: NewBitmap64_def)

lemma elems_NewBitmap64 [simp, bm_simps]: "elems R (NewBitmap64 R) = {}"
  by (simp add: NewBitmap64_def)

lemma elems_NewBitmap64With [simp, bm_simps]: "elems R (NewBitmap64With R xs) = set xs"
  by (simp add: go_simps elems_AddMany elems_New)

lemma elems_bitmap64_Add [simp, bm_simps]: "elems R (bitmap64_Add R b xs) = elems R b \<union> set xs"
  by (simp add: go_simps elems_AddMany)

lemma elems_bitmap64_Remove [simp, bm_simps]: "elems R (bitmap64_Remove R b x) = elems R b - {x}"
  by (simp add: go_simps elems_Remove)

lemma fst_bitmap64_CheckedAdd [simp, bm_simps]:
  "fst (bitmap64_CheckedAdd R b x) \<longleftrightarrow> x \<notin> elems R b"
  by (simp add: go_simps fst_CheckedAdd)

lemma elems_bitmap64_CheckedAdd [simp, bm_simps]:
  "elems R (snd (bitmap64_CheckedAdd R b x)) = insert x (elems R b)"
  by (simp add: go_simps elems_CheckedAdd)

lemma bitmap64_Contains_iff [simp, bm_simps]: "bitmap64_Contains R b x \<longleftrightarrow> x \<in> elems R b"
  by (simp add: go_simps rb_Contains_elems)

lemma elems_bitmap64_Clone [simp, bm_simps]: "elems R (bitmap64_Clone R b) = elems R b"
  by (simp add: go_simps elems_Clone)

lemma elems_bitmap64_Clear [simp, bm_simps]: "elems R (bitmap64_Clear R b) = {}"
  by (simp only: go_simps elems_Clear)

lemma elems_fold_Add:
  "elems R (fold (\<lambda>v s. rb_Add R s v) vs b) = elems R b \<union> set vs"
  by (induction vs arbitrary: b) (auto simp: elems_Add)

lemma elems_fold_bitmap64_Add:
  "elems R (fold (\<lambda>v s. bitmap64_Add R s [v]) vs b) = elems R b \<union> set vs"
  by (induction vs arbitrary: b) auto

lemma elems_bitmap64_Or [simp, bm_simps]:
  "elems R (bitmap64_Or R b p) = elems R b \<union> provider_elems R p"
  by (cases p) (auto simp: bitmap64_Or_def elems_Or elems_fold_bitmap64_Add)

lemma elems_bitmap64_Xor [simp, bm_simps]:
  "elems R (bitmap64_Xor R b p) =
     (elems R b - provider_elems R p) \<union> (provider_elems R p - elems R b)"
  by (cases p) (auto simp: bitmap64_Xor_def elems_Xor elems_fold_Add)

lemma elems_bitmap64_And [simp, bm_simps]: "elems R (bitmap64_And R b c) = elems R b \<inter> elems R c"
  by (simp add: go_simps elems_And)

lemma elems_bitmap64_AndNot [simp, bm_simps]:
  "elems R (bitmap64_AndNot R b c) = elems R b - elems R c"
  by (simp add: go_simps elems_AndNot)

lemma bitmap64_Each_ToArray [simp]:
  "bitmap64_Each R b f s = each f (rb_ToArray R b) s"
  by (simp add: bitmap64_Each_def rb_Iterator_ToArray)

lemma bitmap64_Slice_eq [simp]: "bitmap64_Slice R b = rb_ToArray R b"
  by (simp add: go_simps)

lemma ToArray_sorted_list: "rb_ToArray R b = sorted_list_of_set (elems R b)"
  by (metis rb_distinct rb_sorted sorted_list_of_set.idem_if_sorted_distinct)

lemma ToArray_eqI: "elems R b = elems R c \<Longrightarrow> rb_ToArray R b = rb_ToArray R c"
  by (rule sorted_distinct_eqI) simp_all

lemma bitmap64_Cardinality_card: "bitmap64_Cardinality R b = of_nat (card (elems R b))"
  by (simp add: go_simps rb_GetCardinality_length distinct_card)

end

sublocale roaring64 \<subseteq> dup: duplex
  "NewBitmap64 R" "bitmap64_Add R" "bitmap64_CheckedAdd R" "bitmap64_Remove R"
  "bitmap64_Contains R" "\<lambda>b c. bitmap64_Or R b (Bitmap64 c)" "\<lambda>b c. bitmap64_Xor R b (Bitmap64 c)"
  "bitmap64_And R" "bitmap64_AndNot R" "bitmap64_Clone R" "bitmap64_Cardinality R" "bitmap64_Slice R"
  by unfold_locales (auto simp: bitmap64_Cardinality_card)

section \<open>An instance on lists\<close>

text \<open>A bag of values whose array is sorted and stripped of duplicates.\<close>

definition list_bitmap :: "uint64 list roaring64_ops" where
  "list_bitmap = \<lparr>
     rb_New = [],
     rb_AddMany = (\<lambda>b xs. b @ xs),
     rb_Add = (\<lambda>b x. b @ [x]),
     rb_CheckedAdd = (\<lambda>b x. if List.member b x then (False, b) else (True, b @ [x])),
     rb_Remove = (\<lambda>b x. removeAll x b),
     rb_Contains = List.member,
     rb_Or = (\<lambda>b c. b @ c),
     rb_And = (\<lambda>b c. filter (List.member c) b),
     rb_Xor = (\<lambda>b c. filter (\<lambda>x. \<not> List.member c x) b @ filter (\<lambda>x. \<not> List.member b x) c),
     rb_AndNot = (\<lambda>b c. filter (\<lambda>x. \<not> List.member c x) b),
     rb_GetCardinality = (\<lambda>b. of_nat (length (remdups b))),
     rb_ToArray = (\<lambda>b. sort (remdups b)),
     rb_Iterator = (\<lambda>b. sort (remdups b)),
     rb_Clear = (\<lambda>b. []),
     rb_Clone = (\<lambda>b. b) \<rparr>"

interpretation lbm: roaring64 list_bitmap
  by unfold_locales (auto simp: list_bitmap_def)

end
