(* ===== verification/Dg_Digraph.thy ===== *)
theory Dg_Digraph
  imports Card_Bitmap
begin

text \<open>
  src/container/digraph.go: the interface \<open>DirectedGraph\<close>, what the package computes through it
  (degrees, adjacency, dimensions, reachability, the breadth-first tree) and the kind maps.

  A Go interface value is its method table: \<open>DirectedGraph\<close> is a record with the node count, the
  nodes \<open>EachNode\<close> delivers, in order, and the neighbours \<open>EachAdjacentNode\<close> delivers for a node
  and a direction. The package's queue is the third-party deque, a parameter.
\<close>

section \<open>Directions and the graph interface\<close>

fun Direction_Reverse :: "direction \<Rightarrow> direction" where
  "Direction_Reverse DirectionInbound = DirectionOutbound"
| "Direction_Reverse DirectionOutbound = DirectionInbound"
| "Direction_Reverse DirectionBoth = DirectionBoth"

lemma Direction_Reverse_Reverse [simp]: "Direction_Reverse (Direction_Reverse d) = d"
  by (cases d) auto

record DirectedGraph =
  dg_NumNodes :: uint64
  dg_nodes :: "uint64 list"
  dg_adjacent :: "uint64 \<Rightarrow> direction \<Rightarrow> uint64 list"

definition EachNode :: "DirectedGraph \<Rightarrow> (uint64 \<Rightarrow> 's \<Rightarrow> 's \<times> bool) \<Rightarrow> 's \<Rightarrow> 's" where
  [go_simps]: "EachNode g delegate s = each delegate (dg_nodes g) s"

definition EachAdjacentNode ::
    "DirectedGraph \<Rightarrow> uint64 \<Rightarrow> direction \<Rightarrow> (uint64 \<Rightarrow> 's \<Rightarrow> 's \<times> bool) \<Rightarrow> 's \<Rightarrow> 's" where
  [go_simps]: "EachAdjacentNode g node dir delegate s = each delegate (dg_adjacent g node dir) s"

text \<open>The adjacency relation a graph shows in a direction.\<close>

definition adj_rel :: "DirectedGraph \<Rightarrow> direction \<Rightarrow> uint64 rel" where
  "adj_rel g dir = {(u, v). v \<in> set (dg_adjacent g u dir)}"

lemma adj_rel_iff [simp]: "(u, v) \<in> adj_rel g dir \<longleftrightarrow> v \<in> set (dg_adjacent g u dir)"
  by (simp add: adj_rel_def)

lemma adj_rel_Image: "adj_rel g dir `` {u} = set (dg_adjacent g u dir)"
  by (auto simp: adj_rel_def)

text \<open>
  What clients of a graph rely on: nodes are listed once and counted, adjacency stays inside
  the graph, and the inbound neighbours are the converse of the outbound ones.
\<close>

locale directed_graph =
  fixes g :: DirectedGraph
  assumes nodes_distinct: "distinct (dg_nodes g)"
    and NumNodes_nodes: "dg_NumNodes g = of_nat (length (dg_nodes g))"
    and adjacent_nodes: "v \<in> set (dg_adjacent g u dir) \<Longrightarrow> u \<in> set (dg_nodes g) \<and> v \<in> set (dg_nodes g)"
    and adjacent_converse: "v \<in> set (dg_adjacent g u DirectionOutbound) \<longleftrightarrow>
                            u \<in> set (dg_adjacent g v DirectionInbound)"
    and adjacent_both: "set (dg_adjacent g u DirectionBoth) =
                        set (dg_adjacent g u DirectionOutbound) \<union> set (dg_adjacent g u DirectionInbound)"
begin

lemma adj_rel_Reverse: "adj_rel g (Direction_Reverse dir) = (adj_rel g dir)\<inverse>"
  using adjacent_converse adjacent_both by (cases dir) (auto simp: adj_rel_def)

lemma adj_rel_nodes: "adj_rel g dir \<subseteq> set (dg_nodes g) \<times> set (dg_nodes g)"
  using adjacent_nodes by (auto simp: adj_rel_def)

lemma reach_nodes: "(u, v) \<in> (adj_rel g dir)\<^sup>* \<Longrightarrow> u \<in> set (dg_nodes g) \<Longrightarrow> v \<in> set (dg_nodes g)"
  by (induction rule: rtrancl_induct) (auto dest: adjacent_nodes)

end

section \<open>Degrees, adjacency and dimensions\<close>

definition Degrees :: "DirectedGraph \<Rightarrow> uint64 \<Rightarrow> direction \<Rightarrow> uint64" where
  "Degrees g node dir = EachAdjacentNode g node dir (\<lambda>adjacent degrees. (degrees + 1, True)) 0"

definition AdjacentNodes :: "DirectedGraph \<Rightarrow> uint64 \<Rightarrow> direction \<Rightarrow> uint64 list" where
  "AdjacentNodes g node dir =
     EachAdjacentNode g node dir (\<lambda>adjacent nodes. (nodes @ [adjacent], True)) []"

definition Dimensions :: "DirectedGraph \<Rightarrow> direction \<Rightarrow> uint64 \<times> uint64" where
  "Dimensions g dir =
     (dg_NumNodes g,
      EachNode g (\<lambda>node largestRow.
        (let degrees = Degrees g node dir in if degrees > largestRow then degrees else largestRow, True)) 0)"

lemma fold_snoc: "fold (\<lambda>x xs. xs @ [x]) ys zs = zs @ ys"
  by (induction ys arbitrary: zs) auto

lemma AdjacentNodes_eq [simp]: "AdjacentNodes g node dir = dg_adjacent g node dir"
  by (simp add: AdjacentNodes_def go_simps fold_snoc)

lemma Degrees_eq: "Degrees g node dir = of_nat (length (dg_adjacent g node dir))"
proof -
  have "fold (\<lambda>_ n. n + 1) xs m = m + of_nat (length xs)" for xs :: "uint64 list" and m :: uint64
    by (induction xs arbitrary: m) auto
  then show ?thesis by (simp add: Degrees_def go_simps)
qed

section \<open>Reach\<close>

definition visit_adjacent ::
    "'b roaring64_ops \<Rightarrow> ('q \<Rightarrow> uint64 \<Rightarrow> 'q) \<Rightarrow> uint64 \<Rightarrow> 'b \<times> 'q \<Rightarrow> ('b \<times> 'q) \<times> bool" where
  "visit_adjacent R push adjacent = (\<lambda>(vis, q).
     case bitmap64_CheckedAdd R vis adjacent of
       (fresh, vis') \<Rightarrow> ((vis', if fresh then push q adjacent else q), True))"

definition Reach ::
    "'b roaring64_ops \<Rightarrow> ('q, uint64) deque_ops \<Rightarrow> DirectedGraph \<Rightarrow> uint64 \<Rightarrow> direction \<Rightarrow> 'b option" where
  "Reach R D g nodeID dir =
     map_option fst
       (loop (\<lambda>(vis, q). dq_Len D q > 0)
          (\<lambda>(vis, q). case dq_PopFront D q of
             None \<Rightarrow> None
           | Some (nextNode, q') \<Rightarrow>
               Some (EachAdjacentNode g nextNode dir (visit_adjacent R (dq_PushBack D)) (vis, q')))
          (NewBitmap64 R, dq_PushBack D (dq_New D) nodeID))"

text \<open>Visiting a list of neighbours marks them all and pushes the fresh ones once, in order.\<close>

fun fresh_of :: "uint64 set \<Rightarrow> uint64 list \<Rightarrow> uint64 list" where
  "fresh_of V [] = []"
| "fresh_of V (x # xs) = (if x \<in> V then fresh_of V xs else x # fresh_of (insert x V) xs)"

lemma set_fresh_of: "set (fresh_of V xs) = set xs - V"
  by (induction V xs rule: fresh_of.induct) auto

lemma distinct_fresh_of: "distinct (fresh_of V xs)"
  by (induction V xs rule: fresh_of.induct) (auto simp: set_fresh_of)

context roaring64
begin

lemma visit_adjacent_result:
  "\<exists>vis'. each (visit_adjacent R push) xs (vis, q) = (vis', fold (\<lambda>x q. push q x) (fresh_of (elems R vis) xs) q)
     \<and> elems R vis' = elems R vis \<union> set xs"
proof (induction xs arbitrary: vis q)
  case (Cons x xs)
  obtain fr vis1 where c: "bitmap64_CheckedAdd R vis x = (fr, vis1)" by fastforce
  then have "fr = (x \<notin> elems R vis)" "elems R vis1 = insert x (elems R vis)"
    using fst_bitmap64_CheckedAdd [of vis x] elems_bitmap64_CheckedAdd [of vis x] by auto
  then show ?case
    using Cons.IH [of vis1 "if fr then push q x else q"]
    by (auto simp: visit_adjacent_def c insert_absorb)
qed simp

end

locale reach_env = roaring64 R + deque D items
  for R :: "'b roaring64_ops" and D :: "('q, uint64) deque_ops" and items :: "'q \<Rightarrow> uint64 list"

text \<open>
  The loop of \<open>Reach\<close>: what has been visited was reached, whatever was visited and is not queued
  has had its neighbours visited; each step shrinks the unvisited nodes and the queue.
\<close>

definition reach_inv :: "uint64 rel \<Rightarrow> uint64 \<Rightarrow> uint64 set \<Rightarrow> uint64 list \<Rightarrow> bool" where
  "reach_inv E n V Q \<longleftrightarrow> V \<subseteq> E\<^sup>+ `` {n} \<and> set Q \<subseteq> insert n V \<and>
     (\<forall>u \<in> insert n V. u \<notin> set Q \<longrightarrow> E `` {u} \<subseteq> V)"

lemma reach_inv_step:
  assumes "reach_inv E n V (x # Q)" and "V' = V \<union> E `` {x}" and "set Q' = set Q \<union> (V' - V)"
  shows "reach_inv E n V' Q'"
proof -
  have "x = n \<or> (n, x) \<in> E\<^sup>+" using assms(1) by (auto simp: reach_inv_def)
  then have "E `` {x} \<subseteq> E\<^sup>+ `` {n}" by (auto intro: trancl_into_trancl)
  then show ?thesis using assms by (auto simp: reach_inv_def)
qed

lemma reach_inv_final:
  assumes "reach_inv E n V []"
  shows "V = E\<^sup>+ `` {n}"
  using assms trancl_subset_closed [of E n V] by (auto simp: reach_inv_def)

lemma card_fresh_step:
  fixes V V' :: "uint64 set"
  assumes "V' = V \<union> set xs" and "length Q' = length Q + card (V' - V)"
  shows "card (- V') + length Q' < card (- V) + Suc (length Q)"
proof -
  have "card (- V) = card (- V') + card (V' - V)"
    using assms(1) by (subst card_Un_disjoint [symmetric]) (auto intro: arg_cong [where f = card])
  with assms(2) show ?thesis by simp
qed

context reach_env
begin

lemma Reach_step:
  assumes inv: "reach_inv (adj_rel g dir) n (elems R vis) (items q)" and "dq_Len D q > 0"
  shows "\<exists>vis' q'. (case dq_PopFront D q of None \<Rightarrow> None
      | Some (nextNode, q') \<Rightarrow>
          Some (EachAdjacentNode g nextNode dir (visit_adjacent R (dq_PushBack D)) (vis, q'))) =
        Some (vis', q') \<and> reach_inv (adj_rel g dir) n (elems R vis') (items q') \<and>
      card (- elems R vis') + length (items q') < card (- elems R vis) + length (items q)"
proof -
  from assms(2) obtain x q1 where pop: "dq_PopFront D q = Some (x, q1)" "items q = x # items q1"
    by (rule PopFront_nonempty)
  let ?new = "fresh_of (elems R vis) (dg_adjacent g x dir)"
  from visit_adjacent_result [of "dq_PushBack D" "dg_adjacent g x dir" vis q1]
  obtain vis' where vis': "each (visit_adjacent R (dq_PushBack D)) (dg_adjacent g x dir) (vis, q1) =
      (vis', fold (\<lambda>x q. dq_PushBack D q x) ?new q1)"
    "elems R vis' = elems R vis \<union> set (dg_adjacent g x dir)" by blast
  let ?q' = "fold (\<lambda>x q. dq_PushBack D q x) ?new q1"
  have q': "items ?q' = items q1 @ ?new" by (rule items_fold_PushBack)
  have new: "set ?new = elems R vis' - elems R vis" using vis'(2) by (auto simp: set_fresh_of)
  have "reach_inv (adj_rel g dir) n (elems R vis') (items ?q')"
    by (rule reach_inv_step [OF inv [unfolded pop(2)]]) (use vis'(2) q' new in \<open>auto simp: adj_rel_Image\<close>)
  moreover have "length (items ?q') = length (items q1) + card (elems R vis' - elems R vis)"
    using q' distinct_fresh_of new by (metis distinct_card length_append)
  from card_fresh_step [OF vis'(2) this]
  have "card (- elems R vis') + length (items ?q') < card (- elems R vis) + length (items q)"
    by (simp add: pop(2))
  ultimately show ?thesis using pop(1) vis'(1) by (simp add: EachAdjacentNode_def)
qed

lemma Reach_result:
  "\<exists>vis. Reach R D g n dir = Some vis \<and> elems R vis = (adj_rel g dir)\<^sup>+ `` {n}"
proof -
  let ?I = "\<lambda>(vis, q). reach_inv (adj_rel g dir) n (elems R vis) (items q)"
  let ?m = "\<lambda>(vis, q). card (- elems R vis) + length (items q)"
  let ?c = "\<lambda>(vis, q). case dq_PopFront D q of None \<Rightarrow> None
      | Some (nextNode, q') \<Rightarrow>
          Some (EachAdjacentNode g nextNode dir (visit_adjacent R (dq_PushBack D)) (vis, q'))"
  have "\<exists>t. loop (\<lambda>(vis, q). dq_Len D q > 0) ?c (NewBitmap64 R, dq_PushBack D (dq_New D) n) = Some t \<and>
      ?I t \<and> \<not> (\<lambda>(vis, q). dq_Len D q > 0) t"
  proof (rule loop_total_measure [where m = ?m])
    show "?I (NewBitmap64 R, dq_PushBack D (dq_New D) n)"
      by (simp add: reach_inv_def)
  next
    fix s
    assume s: "?I s" "(\<lambda>(vis, q). dq_Len D q > 0) s"
    obtain vis q where "s = (vis, q)" by (cases s)
    with s Reach_step [of g dir n vis q] show "\<exists>s'. ?c s = Some s' \<and> ?I s' \<and> ?m s' < ?m s"
      by (auto simp del: dq_Len_items)
  qed
  then obtain vis q where run: "loop (\<lambda>(vis, q). dq_Len D q > 0) ?c
      (NewBitmap64 R, dq_PushBack D (dq_New D) n) = Some (vis, q)"
    and "reach_inv (adj_rel g dir) n (elems R vis) []" by auto
  from reach_inv_final [OF this(2)] run show ?thesis by (simp add: Reach_def)
qed

end

interpretation lreach: reach_env list_bitmap list_deque "\<lambda>q. q"
  by unfold_locales

section \<open>The breadth-first tree\<close>

text \<open>The weight is a \<open>float64\<close> that \<open>BFSTree\<close> leaves at its zero value; its type is a parameter.\<close>

record 'w PathTerminal =
  pt_Node :: uint64
  pt_Weight :: 'w
  pt_Distance :: nat

definition bfs_adjacent ::
    "'b roaring64_ops \<Rightarrow> ('q, 'w::zero PathTerminal) deque_ops \<Rightarrow> nat \<Rightarrow> uint64 \<Rightarrow>
     'b \<times> 'q \<times> 'w PathTerminal list \<Rightarrow> ('b \<times> 'q \<times> 'w PathTerminal list) \<times> bool" where
  "bfs_adjacent R D distance adjacentNodeID = (\<lambda>(vis, q, terminals).
     case bitmap64_CheckedAdd R vis adjacentNodeID of
       (isnew, vis') \<Rightarrow>
         (let terminalCursor = \<lparr>pt_Node = adjacentNodeID, pt_Weight = 0, pt_Distance = distance + 1\<rparr>
          in if isnew then ((vis', dq_PushBack D q terminalCursor, terminals @ [terminalCursor]), True)
             else ((vis', q, terminals), True)))"

definition BFSTree ::
    "'b roaring64_ops \<Rightarrow> ('q, 'w::zero PathTerminal) deque_ops \<Rightarrow> DirectedGraph \<Rightarrow> uint64 \<Rightarrow> direction \<Rightarrow>
     'w PathTerminal list option" where
  "BFSTree R D g nodeID dir =
     map_option (\<lambda>(vis, q, terminals). terminals)
       (loop (\<lambda>(vis, q, terminals). dq_Len D q > 0)
          (\<lambda>(vis, q, terminals). case dq_PopFront D q of
             None \<Rightarrow> None
           | Some (nextCursor, q') \<Rightarrow>
               Some (EachAdjacentNode g (pt_Node nextCursor) dir
                 (bfs_adjacent R D (pt_Distance nextCursor)) (vis, q', terminals)))
          (NewBitmap64 R,
           dq_PushBack D (dq_New D) \<lparr>pt_Node = nodeID, pt_Weight = 0, pt_Distance = 0\<rparr>, []))"

locale tree_env = roaring64 R + deque D items
  for R :: "'b roaring64_ops" and D :: "('q, 'w::zero PathTerminal) deque_ops"
    and items :: "'q \<Rightarrow> 'w PathTerminal list"
begin

lemma bfs_adjacent_result:
  "\<exists>vis' q' new.
     each (bfs_adjacent R D d) xs (vis, q, terminals) = (vis', q', terminals @ new) \<and>
     items q' = items q @ new \<and> elems R vis' = elems R vis \<union> set xs \<and>
     map pt_Node new = fresh_of (elems R vis) xs \<and> (\<forall>t \<in> set new. pt_Distance t = Suc d)"
proof (induction xs arbitrary: vis q terminals)
  case (Cons x xs)
  obtain fr vis1 where c: "bitmap64_CheckedAdd R vis x = (fr, vis1)" by fastforce
  then have fr: "fr = (x \<notin> elems R vis)" "elems R vis1 = insert x (elems R vis)"
    using fst_bitmap64_CheckedAdd [of vis x] elems_bitmap64_CheckedAdd [of vis x] by auto
  let ?t = "\<lparr>pt_Node = x, pt_Weight = 0, pt_Distance = d + 1\<rparr> :: 'w PathTerminal"
  show ?case
  proof (cases fr)
    case True
    from Cons.IH [of vis1 "dq_PushBack D q ?t" "terminals @ [?t]"] obtain vis' q' new where
      "each (bfs_adjacent R D d) xs (vis1, dq_PushBack D q ?t, terminals @ [?t]) =
        (vis', q', (terminals @ [?t]) @ new)"
      "items q' = items (dq_PushBack D q ?t) @ new" "elems R vis' = elems R vis1 \<union> set xs"
      "map pt_Node new = fresh_of (elems R vis1) xs" "\<forall>t \<in> set new. pt_Distance t = Suc d"
      by blast
    then show ?thesis
      using True fr c by (intro exI [of _ vis'] exI [of _ q'] exI [of _ "?t # new"])
        (simp add: bfs_adjacent_def [of R D d x] Let_def)
  next
    case False
    with Cons.IH [of vis1 q terminals] fr c show ?thesis
      by (simp add: bfs_adjacent_def [of R D d x] Let_def insert_absorb)
  qed
qed simp

end

text \<open>
  The loop of \<open>BFSTree\<close>, on the list \<open>T\<close> of all cursors ever queued (the root first): the queue
  holds a final part of it, the distances grow along it by at most one over the next
  cursor, and every cursor that left the queue has its neighbours in \<open>T\<close>, one step further at
  most.
\<close>

definition tree_inv ::
    "uint64 rel \<Rightarrow> uint64 \<Rightarrow> 'w PathTerminal list \<Rightarrow> 'w PathTerminal list \<Rightarrow> 'w PathTerminal list \<Rightarrow> bool" where
  "tree_inv E n past Q T \<longleftrightarrow>
     past @ Q = T \<and> T \<noteq> [] \<and> pt_Node (hd T) = n \<and> pt_Distance (hd T) = 0 \<and>
     distinct (map pt_Node (tl T)) \<and> sorted (map pt_Distance T) \<and>
     (\<forall>t \<in> set (tl T). 0 < pt_Distance t) \<and>
     (\<forall>t \<in> set T. (n, pt_Node t) \<in> E ^^ pt_Distance t) \<and>
     (Q \<noteq> [] \<longrightarrow> (\<forall>t \<in> set T. pt_Distance t \<le> Suc (pt_Distance (hd Q)))) \<and>
     (\<forall>c \<in> set past. \<forall>v. (pt_Node c, v) \<in> E \<longrightarrow>
        (\<exists>t \<in> set (tl T). pt_Node t = v \<and> pt_Distance t \<le> Suc (pt_Distance c)))"

lemma sorted_const: "\<forall>t \<in> set ts. f t = (k :: nat) \<Longrightarrow> sorted (map f ts)"
  by (induction ts) auto

lemma tree_inv_step:
  assumes inv: "tree_inv E n past (c # Q) T"
    and nodes: "distinct (map pt_Node new)" "pt_Node ` set new = E `` {pt_Node c} - pt_Node ` set (tl T)"
    and dist: "\<forall>t \<in> set new. pt_Distance t = Suc (pt_Distance c)"
  shows "tree_inv E n (past @ [c]) (Q @ new) (T @ new)"
proof -
  note inv' = inv [unfolded tree_inv_def]
  have T: "past @ c # Q = T" "T \<noteq> []" and cT: "c \<in> set T" using inv' by auto
  have le: "\<forall>t \<in> set T. pt_Distance t \<le> Suc (pt_Distance c)" using inv' by simp
  have srt: "sorted (map pt_Distance T)" using inv' by simp
  have "sorted (map pt_Distance (T @ new))"
    using sorted_const [OF dist] srt le dist by (simp add: sorted_append)
  moreover have "\<forall>t \<in> set (T @ new). (n, pt_Node t) \<in> E ^^ pt_Distance t"
  proof -
    have "(n, pt_Node c) \<in> E ^^ pt_Distance c" using inv' cT by blast
    moreover have "(pt_Node c, pt_Node t) \<in> E" if "t \<in> set new" for t
      using that nodes(2) by (metis Diff_iff Image_singleton_iff imageI)
    ultimately have "\<forall>t \<in> set new. (n, pt_Node t) \<in> E ^^ pt_Distance t"
      using dist by auto
    then show ?thesis using inv' by auto
  qed
  moreover have "Q @ new \<noteq> [] \<longrightarrow>
      (\<forall>t \<in> set (T @ new). pt_Distance t \<le> Suc (pt_Distance (hd (Q @ new))))"
  proof
    assume ne: "Q @ new \<noteq> []"
    have "pt_Distance c \<le> pt_Distance (hd (Q @ new))"
    proof (cases Q)
      case Nil
      with ne dist show ?thesis by (cases new) auto
    next
      case (Cons a Q')
      then have "sorted (map pt_Distance (past @ c # a # Q'))" using srt T(1) by simp
      then show ?thesis using Cons by (simp add: sorted_append)
    qed
    moreover have "pt_Distance t \<le> Suc (pt_Distance c)" if "t \<in> set (T @ new)" for t
      using that le dist by auto
    ultimately show "\<forall>t \<in> set (T @ new). pt_Distance t \<le> Suc (pt_Distance (hd (Q @ new)))"
      by (meson Suc_le_mono le_trans)
  qed
  moreover have "\<exists>t \<in> set (tl (T @ new)). pt_Node t = v \<and> pt_Distance t \<le> Suc (pt_Distance c')"
    if c': "c' \<in> set (past @ [c])" and v: "(pt_Node c', v) \<in> E" for c' v
  proof (cases "c' \<in> set past")
    case True
    with v inv' have "\<exists>t \<in> set (tl T). pt_Node t = v \<and> pt_Distance t \<le> Suc (pt_Distance c')" by blast
    then show ?thesis using T(2) by auto
  next
    case False
    then have [simp]: "c' = c" using c' by simp
    show ?thesis
    proof (cases "v \<in> pt_Node ` set (tl T)")
      case True
      with le T(2) show ?thesis by (auto dest: list.set_sel(2))
    next
      case False
      with v nodes(2) have "v \<in> pt_Node ` set new" by auto
      with dist T(2) show ?thesis by auto
    qed
  qed
  moreover have "distinct (map pt_Node (tl (T @ new)))"
    using inv' nodes T(2) by auto
  moreover have "\<forall>t \<in> set (tl (T @ new)). 0 < pt_Distance t"
    using inv' dist T(2) by auto
  moreover have "(past @ [c]) @ Q @ new = T @ new" "T @ new \<noteq> []" "pt_Node (hd (T @ new)) = n"
    "pt_Distance (hd (T @ new)) = 0"
    using T inv' by auto
  ultimately show ?thesis unfolding tree_inv_def by blast
qed

text \<open>The least positive number of steps from one node to another.\<close>

definition hops :: "uint64 rel \<Rightarrow> uint64 \<Rightarrow> uint64 \<Rightarrow> nat" where
  "hops E n v = (LEAST k. 0 < k \<and> (n, v) \<in> E ^^ k)"

lemma tree_inv_final:
  assumes inv: "tree_inv E n past [] T"
  shows "pt_Node ` set (tl T) = E\<^sup>+ `` {n}"
    and "t \<in> set (tl T) \<Longrightarrow> pt_Distance t = hops E n (pt_Node t)"
proof -
  note inv' = inv [unfolded tree_inv_def]
  have past: "past = T" "T \<noteq> []" using inv' by auto
  have short: "\<exists>t \<in> set (tl T). pt_Node t = v \<and> pt_Distance t \<le> k"
    if "(n, v) \<in> E ^^ k" "0 < k" for k v
    using that
  proof (induction k arbitrary: v)
    case (Suc k)
    from Suc.prems obtain u where u: "(n, u) \<in> E ^^ k" "(u, v) \<in> E" by auto
    have "\<exists>c \<in> set T. pt_Node c = u \<and> pt_Distance c \<le> k"
    proof (cases "k = 0")
      case True
      then show ?thesis using u inv' past by (intro bexI [of _ "hd T"]) auto
    next
      case False
      then show ?thesis using Suc.IH [OF u(1)] past(2) by (auto dest: list.set_sel(2))
    qed
    then obtain c where "c \<in> set T" "pt_Node c = u" "pt_Distance c \<le> k" by blast
    with inv' past u(2) show ?case by (meson Suc_le_mono le_trans)
  qed simp
  have sound: "(n, pt_Node t) \<in> E ^^ pt_Distance t" "0 < pt_Distance t" if "t \<in> set (tl T)" for t
    using that inv' past by (auto dest: list.set_sel(2))
  show "pt_Node ` set (tl T) = E\<^sup>+ `` {n}"
  proof
    show "pt_Node ` set (tl T) \<subseteq> E\<^sup>+ `` {n}"
      using sound by (fastforce simp: trancl_power)
    show "E\<^sup>+ `` {n} \<subseteq> pt_Node ` set (tl T)"
      using short by (fastforce simp: trancl_power)
  qed
  assume t: "t \<in> set (tl T)"
  have "hops E n (pt_Node t) = pt_Distance t"
    unfolding hops_def
  proof (rule Least_equality)
    show "0 < pt_Distance t \<and> (n, pt_Node t) \<in> E ^^ pt_Distance t" using sound [OF t] by simp
  next
    fix k
    assume "0 < k \<and> (n, pt_Node t) \<in> E ^^ k"
    then obtain t' where "t' \<in> set (tl T)" "pt_Node t' = pt_Node t" "pt_Distance t' \<le> k"
      using short by blast
    moreover from this t inv' have "t' = t" by (auto simp: distinct_map dest: inj_onD)
    ultimately show "pt_Distance t \<le> k" by simp
  qed
  then show "pt_Distance t = hops E n (pt_Node t)" ..
qed

context tree_env
begin

lemma BFSTree_result:
  "\<exists>ts. BFSTree R D g n dir = Some ts \<and> distinct (map pt_Node ts) \<and>
     sorted (map pt_Distance ts) \<and> pt_Node ` set ts = (adj_rel g dir)\<^sup>+ `` {n} \<and>
     (\<forall>t \<in> set ts. pt_Distance t = hops (adj_rel g dir) n (pt_Node t))"
proof -
  let ?E = "adj_rel g dir"
  let ?root = "\<lparr>pt_Node = n, pt_Weight = 0, pt_Distance = 0\<rparr> :: 'w PathTerminal"
  let ?b = "\<lambda>(vis, q, terminals). dq_Len D q > 0"
  let ?c = "\<lambda>(vis, q, terminals). case dq_PopFront D q of None \<Rightarrow> None
      | Some (nextCursor, q') \<Rightarrow>
          Some (EachAdjacentNode g (pt_Node nextCursor) dir
            (bfs_adjacent R D (pt_Distance nextCursor)) (vis, q', terminals))"
  let ?I = "\<lambda>(vis, q, terminals). elems R vis = pt_Node ` set terminals \<and>
      (\<exists>past. tree_inv ?E n past (items q) (?root # terminals))"
  let ?m = "\<lambda>(vis, q, terminals). card (- elems R vis) + length (items q)"
  let ?s0 = "(NewBitmap64 R, dq_PushBack D (dq_New D) ?root, [])"
  have "\<exists>t. loop ?b ?c ?s0 = Some t \<and> ?I t \<and> \<not> ?b t"
  proof (rule loop_total_measure [where m = ?m])
    show "?I ?s0" by (auto simp: tree_inv_def intro!: exI [of _ "[]"])
  next
    fix s
    assume s: "?I s" "?b s"
    obtain vis q terminals where [simp]: "s = (vis, q, terminals)" by (cases s) auto
    from s(2) obtain c q1 where pop: "dq_PopFront D q = Some (c, q1)" "items q = c # items q1"
      by (auto simp del: dq_Len_items elim: PopFront_nonempty)
    from s(1) obtain past where inv: "tree_inv ?E n past (c # items q1) (?root # terminals)"
      and vis: "elems R vis = pt_Node ` set terminals" by (auto simp: pop(2))
    let ?adj = "dg_adjacent g (pt_Node c) dir"
    from bfs_adjacent_result [of "pt_Distance c" ?adj vis q1 terminals] obtain vis' q' new where
      ev: "each (bfs_adjacent R D (pt_Distance c)) ?adj (vis, q1, terminals) = (vis', q', terminals @ new)"
      "items q' = items q1 @ new" "elems R vis' = elems R vis \<union> set ?adj"
      and new: "map pt_Node new = fresh_of (elems R vis) ?adj" "\<forall>t \<in> set new. pt_Distance t = Suc (pt_Distance c)"
      by blast
    have nodes: "pt_Node ` set new = set ?adj - elems R vis"
      by (metis new(1) list.set_map set_fresh_of)
    have "tree_inv ?E n (past @ [c]) (items q1 @ new) ((?root # terminals) @ new)"
    proof (rule tree_inv_step [OF inv])
      show "distinct (map pt_Node new)" by (simp add: new(1) distinct_fresh_of)
      show "pt_Node ` set new = ?E `` {pt_Node c} - pt_Node ` set (tl (?root # terminals))"
        using nodes vis by (simp add: adj_rel_Image)
    qed (rule new(2))
    moreover have "elems R vis' = pt_Node ` set (terminals @ new)" using ev(3) nodes vis by auto
    moreover have "length (items q') = length (items q1) + card (elems R vis' - elems R vis)"
    proof -
      have "length new = card (pt_Node ` set new)"
        by (metis new(1) distinct_card distinct_fresh_of length_map list.set_map)
      moreover have "pt_Node ` set new = elems R vis' - elems R vis" using nodes ev(3) by auto
      ultimately show ?thesis by (simp add: ev(2))
    qed
    from card_fresh_step [OF ev(3) this]
    have "card (- elems R vis') + length (items q') < card (- elems R vis) + length (items q)"
      by (simp add: pop(2))
    ultimately show "\<exists>s'. ?c s = Some s' \<and> ?I s' \<and> ?m s' < ?m s"
      using pop(1) ev(1,2) by (auto simp: EachAdjacentNode_def)
  qed
  then obtain vis q ts past where run: "loop ?b ?c ?s0 = Some (vis, q, ts)"
    and inv: "tree_inv ?E n past [] (?root # ts)" by auto
  from run have "BFSTree R D g n dir = Some ts" by (simp add: BFSTree_def)
  then show ?thesis
    using tree_inv_final [OF inv] inv by (auto simp: tree_inv_def)
qed

end

interpretation ltree: tree_env list_bitmap "list_deque :: ('w::zero PathTerminal list, 'w PathTerminal) deque_ops" "\<lambda>q. q"
  by unfold_locales

section \<open>Properties\<close>

text \<open>A small graph for the witnesses: 1 to 2 and 3, both to 4.\<close>

definition example_graph :: DirectedGraph where
  "example_graph = \<lparr>dg_NumNodes = 4, dg_nodes = [1, 2, 3, 4],
     dg_adjacent = (\<lambda>u dir.
       let outs = (if u = 1 then [2, 3] else if u = 2 \<or> u = 3 then [4] else []);
           ins = (if u = 4 then [2, 3] else if u = 2 \<or> u = 3 then [1] else [])
       in case dir of DirectionOutbound \<Rightarrow> outs | DirectionInbound \<Rightarrow> ins | DirectionBoth \<Rightarrow> outs @ ins)\<rparr>"

interpretation example_dg: directed_graph example_graph
  by unfold_locales (auto simp: example_graph_def Let_def split: direction.splits if_splits)

text \<open>C10. \<open>Reach\<close> terminates on every graph and returns exactly the nodes that one or more steps
  in the given direction lead to; the start is among them only if it lies on a cycle.\<close>

theorem Reach_correct:
  assumes "roaring64 R" and "deque D items"
  shows "\<exists>vis. Reach R D g n dir = Some vis \<and>
     set (bitmap64_Slice R vis) = {v. (n, v) \<in> (adj_rel g dir)\<^sup>+}"
  using reach_env.Reach_result [OF reach_env.intro [OF assms], of g n dir]
  by (auto simp: bitmap64_Slice_def)

theorem Reach_correct_witness:
  "Reach list_bitmap list_deque example_graph 1 DirectionOutbound = Some [2, 3, 4] \<and>
   {v. (1, v) \<in> (adj_rel example_graph DirectionOutbound)\<^sup>+} = {2, 3, 4}"
proof -
  have run: "Reach list_bitmap list_deque example_graph 1 DirectionOutbound = Some [2, 3, 4]"
    by code_simp
  have "set (bitmap64_Slice list_bitmap [2, 3, 4]) = {2, 3, 4}" by code_simp
  then show ?thesis
    using Reach_correct [OF lbm.roaring64_axioms ldq.deque_axioms, of example_graph 1 DirectionOutbound] run
    by auto
qed

text \<open>C15. \<open>BFSTree\<close> terminates and returns one terminal per reachable node, in order of distance, and
  the distance of each terminal is the length of a shortest path to its node.\<close>

theorem BFSTree_shortest:
  assumes "roaring64 R" and "deque (D :: ('q, 'w::zero PathTerminal) deque_ops) items"
  shows "\<exists>ts. BFSTree R D g n dir = Some ts \<and>
     distinct (map pt_Node ts) \<and> sorted (map pt_Distance ts) \<and>
     pt_Node ` set ts = {v. (n, v) \<in> (adj_rel g dir)\<^sup>+} \<and>
     (\<forall>t \<in> set ts. pt_Distance t = hops (adj_rel g dir) n (pt_Node t))"
  using tree_env.BFSTree_result [OF tree_env.intro [OF assms], of g n dir] by (simp add: Image_singleton)

theorem BFSTree_shortest_witness:
  "map_option (map (\<lambda>t. (pt_Node t, pt_Distance t)))
     (BFSTree list_bitmap (list_deque :: (int PathTerminal list, int PathTerminal) deque_ops)
        example_graph 1 DirectionOutbound) = Some [(2, 1), (3, 1), (4, 2)] \<and>
   hops (adj_rel example_graph DirectionOutbound) 1 4 = 2"
proof -
  have run: "map_option (map (\<lambda>t. (pt_Node t, pt_Distance t)))
     (BFSTree list_bitmap (list_deque :: (int PathTerminal list, int PathTerminal) deque_ops)
        example_graph 1 DirectionOutbound) = Some [(2, 1), (3, 1), (4, 2)]" by code_simp
  from BFSTree_shortest [OF lbm.roaring64_axioms ldq.deque_axioms, of example_graph 1 DirectionOutbound]
  obtain ts :: "int PathTerminal list" where
    ts: "BFSTree list_bitmap list_deque example_graph 1 DirectionOutbound = Some ts"
      "\<forall>t \<in> set ts. pt_Distance t = hops (adj_rel example_graph DirectionOutbound) 1 (pt_Node t)" by blast
  from run ts(1) have "map (\<lambda>t. (pt_Node t, pt_Distance t)) ts = [(2, 1), (3, 1), (4, 2)]" by simp
  then have "\<exists>t \<in> set ts. (pt_Node t, pt_Distance t) = (4, 2)" by auto
  with ts(2) run show ?thesis by auto
qed

end
