(* ===== verification/Dg_Builder.thy ===== *)
theory Dg_Builder
  imports Dg_Digraph
begin

text \<open>
  src/container/util/builder.go: \<open>BuildGraph\<close> fills a \<open>DigraphBuilder\<close> (src/container/digraph.go)
  from a map of adjacency lists. The builder's methods are arguments; the locale
  \<open>digraph_builder\<close> states what a builder promises of \<open>AddNode\<close> and \<open>AddEdge\<close> through the
  nodes and edges it holds, and gives the nodes and edges that \<open>BuildGraph\<close> collects.
\<close>

definition BuildGraph ::
    "('s \<Rightarrow> uint64 \<Rightarrow> 's) \<Rightarrow> ('s \<Rightarrow> uint64 \<Rightarrow> uint64 \<Rightarrow> 's) \<Rightarrow> ('s \<Rightarrow> 'g) \<Rightarrow> 's \<Rightarrow>
     (uint64 \<rightharpoonup> uint64 list) \<Rightarrow> uint64 list \<Rightarrow> 'g" where
  "BuildGraph AddNode AddEdge Build new adj order =
     Build (fold (\<lambda>src s. fold (\<lambda>dst s. AddEdge (AddNode s dst) src dst) (map_get adj [] src) (AddNode s src))
             order new)"

text \<open>The nodes and edges a map of adjacency lists stands for.\<close>

definition adj_nodes :: "(uint64 \<rightharpoonup> uint64 list) \<Rightarrow> uint64 set" where
  "adj_nodes adj = dom adj \<union> (\<Union>vs \<in> ran adj. set vs)"

definition adj_edges :: "(uint64 \<rightharpoonup> uint64 list) \<Rightarrow> uint64 rel" where
  "adj_edges adj = {(u, v). \<exists>vs. adj u = Some vs \<and> v \<in> set vs}"

locale digraph_builder =
  fixes AddNode :: "'s \<Rightarrow> uint64 \<Rightarrow> 's"
    and AddEdge :: "'s \<Rightarrow> uint64 \<Rightarrow> uint64 \<Rightarrow> 's"
    and new :: 's
    and inv :: "'s \<Rightarrow> bool"
    and nodes :: "'s \<Rightarrow> uint64 set"
    and edges :: "'s \<Rightarrow> uint64 rel"
  assumes inv_new: "inv new" and nodes_new: "nodes new = {}" and edges_new: "edges new = {}"
    and inv_AddNode: "inv s \<Longrightarrow> inv (AddNode s u)"
    and nodes_AddNode: "inv s \<Longrightarrow> nodes (AddNode s u) = insert u (nodes s)"
    and edges_AddNode: "inv s \<Longrightarrow> edges (AddNode s u) = edges s"
    and inv_AddEdge: "inv s \<Longrightarrow> inv (AddEdge s u v)"
    and nodes_AddEdge: "inv s \<Longrightarrow> nodes (AddEdge s u v) = insert u (insert v (nodes s))"
    and edges_AddEdge: "inv s \<Longrightarrow> edges (AddEdge s u v) = insert (u, v) (edges s)"
begin

lemmas builder_simps = inv_AddNode nodes_AddNode edges_AddNode inv_AddEdge nodes_AddEdge edges_AddEdge

lemma build_row:
  fixes src defines "row \<equiv> \<lambda>dst s. AddEdge (AddNode s dst) src dst"
  assumes "inv s"
  shows "inv (fold row dsts s) \<and> edges (fold row dsts s) = edges s \<union> {src} \<times> set dsts \<and>
    (src \<in> nodes s \<longrightarrow> nodes (fold row dsts s) = nodes s \<union> set dsts)"
  using assms(2) by (induction dsts arbitrary: s) (auto simp: row_def builder_simps)

lemma build_rows:
  fixes adj
  defines "row \<equiv> \<lambda>src s. fold (\<lambda>dst s. AddEdge (AddNode s dst) src dst) (map_get adj [] src) (AddNode s src)"
  assumes "inv s"
  shows "inv (fold row srcs s) \<and>
    edges (fold row srcs s) = edges s \<union> {(u, v). u \<in> set srcs \<and> v \<in> set (map_get adj [] u)} \<and>
    nodes (fold row srcs s) = nodes s \<union> set srcs \<union> (\<Union>u \<in> set srcs. set (map_get adj [] u))"
  using assms(2)
proof (induction srcs arbitrary: s)
  case (Cons src srcs)
  note r = build_row [OF inv_AddNode [OF Cons.prems, of src], of src "map_get adj [] src"]
  show ?case
    using Cons.IH [OF conjunct1 [OF r]] r Cons.prems by (auto simp: row_def builder_simps)
qed simp

lemma BuildGraph_result:
  assumes "range_order adj order"
  shows "\<exists>s. BuildGraph AddNode AddEdge Build new adj order = Build s \<and> inv s \<and>
     nodes s = adj_nodes adj \<and> edges s = adj_edges adj"
proof -
  have order: "set order = dom adj" using assms by (simp add: range_order_def)
  have "{(u, v). u \<in> set order \<and> v \<in> set (map_get adj [] u)} = adj_edges adj"
    "set order \<union> (\<Union>u \<in> set order. set (map_get adj [] u)) = adj_nodes adj"
    by (auto simp: adj_edges_def adj_nodes_def order map_get_def ran_def split: option.splits)
  then show ?thesis
    using build_rows [OF inv_new, of adj order] by (auto simp: BuildGraph_def nodes_new edges_new)
qed

end

end
