(* ===== verification/Dg_Adjacency.thy ===== *)
theory Dg_Adjacency
  imports Dg_Builder
begin

text \<open>
  src/container/adjacencymap.go: the mutable directed graph that keeps, per node, a bitmap of its
  outbound and one of its inbound neighbours. Its abstraction is a set of nodes and a set of
  edges. The maps of the code are ranged over in an unspecified order, an argument here.
\<close>

section \<open>The model\<close>

type_synonym 'b AdjacencyMap = "uint64 \<rightharpoonup> 'b"

record 'b adjacencyMapDigraph =
  am_inbound :: "'b AdjacencyMap"
  am_outbound :: "'b AdjacencyMap"
  am_nodes :: 'b

definition NewAdjacencyMapGraph :: "'b roaring64_ops \<Rightarrow> 'b adjacencyMapDigraph" where
  "NewAdjacencyMapGraph R =
     \<lparr>am_inbound = Map.empty, am_outbound = Map.empty, am_nodes = NewBitmap64 R\<rparr>"

definition am_AddNode :: "'b roaring64_ops \<Rightarrow> 'b adjacencyMapDigraph \<Rightarrow> uint64 \<Rightarrow> 'b adjacencyMapDigraph" where
  "am_AddNode R s node = s\<lparr>am_nodes := bitmap64_Add R (am_nodes s) [node]\<rparr>"

text \<open>Add a value to the bitmap of a key, creating the bitmap when the key is new.\<close>

definition add_to_index :: "'b roaring64_ops \<Rightarrow> 'b AdjacencyMap \<Rightarrow> uint64 \<Rightarrow> uint64 \<Rightarrow> 'b AdjacencyMap" where
  "add_to_index R m k v =
     (case m k of
        Some edgeBitmap \<Rightarrow> m(k \<mapsto> bitmap64_Add R edgeBitmap [v])
      | None \<Rightarrow> m(k \<mapsto> bitmap64_Add R (NewBitmap64 R) [v]))"

definition am_AddEdge ::
    "'b roaring64_ops \<Rightarrow> 'b adjacencyMapDigraph \<Rightarrow> uint64 \<Rightarrow> uint64 \<Rightarrow> 'b adjacencyMapDigraph" where
  "am_AddEdge R s start end' = s\<lparr>
     am_outbound := add_to_index R (am_outbound s) start end',
     am_inbound := add_to_index R (am_inbound s) end' start,
     am_nodes := bitmap64_Add R (am_nodes s) [start, end']\<rparr>"

definition BuildAdjacencyMapGraph ::
    "'b roaring64_ops \<Rightarrow> (uint64 \<rightharpoonup> uint64 list) \<Rightarrow> uint64 list \<Rightarrow> 'b adjacencyMapDigraph" where
  "BuildAdjacencyMapGraph R adj order =
     fold (\<lambda>src digraph.
         fold (\<lambda>dst digraph. am_AddEdge R (am_AddNode R digraph dst) src dst)
           (map_get adj [] src) (am_AddNode R digraph src))
       order (NewAdjacencyMapGraph R)"

definition am_NumNodes :: "'b roaring64_ops \<Rightarrow> 'b adjacencyMapDigraph \<Rightarrow> uint64" where
  "am_NumNodes R s = bitmap64_Cardinality R (am_nodes s)"

definition am_NumEdges :: "'b roaring64_ops \<Rightarrow> 'b adjacencyMapDigraph \<Rightarrow> uint64" where
  "am_NumEdges R s = bitmap64_Cardinality R (am_nodes s)"

definition am_getAdjacent ::
    "'b roaring64_ops \<Rightarrow> 'b adjacencyMapDigraph \<Rightarrow> uint64 \<Rightarrow> direction \<Rightarrow> 'b option" where
  "am_getAdjacent R s node dir = (case dir of
       DirectionOutbound \<Rightarrow> am_outbound s node
     | DirectionInbound \<Rightarrow> am_inbound s node
     | DirectionBoth \<Rightarrow>
         (case am_outbound s node of
            Some out \<Rightarrow>
              (case am_inbound s node of
                 Some inb \<Rightarrow> Some (bitmap64_Or R (bitmap64_Clone R out) (Bitmap64 inb))
               | None \<Rightarrow> Some out)
          | None \<Rightarrow> am_inbound s node))"

definition am_AdjacentNodes ::
    "'b roaring64_ops \<Rightarrow> 'b adjacencyMapDigraph \<Rightarrow> uint64 \<Rightarrow> direction \<Rightarrow> uint64 list" where
  "am_AdjacentNodes R s node dir =
     (case am_getAdjacent R s node dir of Some adjacent \<Rightarrow> bitmap64_Slice R adjacent | None \<Rightarrow> [])"

definition am_Degrees :: "'b roaring64_ops \<Rightarrow> 'b adjacencyMapDigraph \<Rightarrow> uint64 \<Rightarrow> direction \<Rightarrow> uint64" where
  "am_Degrees R s node dir =
     (case am_getAdjacent R s node dir of Some adjacent \<Rightarrow> bitmap64_Cardinality R adjacent | None \<Rightarrow> 0)"

definition am_EachNode ::
    "'b roaring64_ops \<Rightarrow> 'b adjacencyMapDigraph \<Rightarrow> (uint64 \<Rightarrow> 's \<Rightarrow> 's \<times> bool) \<Rightarrow> 's \<Rightarrow> 's" where
  "am_EachNode R s delegate = bitmap64_Each R (am_nodes s) delegate"

definition am_EachAdjacentNode ::
    "'b roaring64_ops \<Rightarrow> 'b adjacencyMapDigraph \<Rightarrow> uint64 \<Rightarrow> direction \<Rightarrow>
     (uint64 \<Rightarrow> 's \<Rightarrow> 's \<times> bool) \<Rightarrow> 's \<Rightarrow> 's" where
  "am_EachAdjacentNode R s node dir delegate st =
     (case am_getAdjacent R s node dir of
        Some adjacent \<Rightarrow> bitmap64_Each R adjacent delegate st
      | None \<Rightarrow> st)"

text \<open>The graph as a value of the interface.\<close>

definition am_DirectedGraph :: "'b roaring64_ops \<Rightarrow> 'b adjacencyMapDigraph \<Rightarrow> DirectedGraph" where
  "am_DirectedGraph R s = \<lparr>
     dg_NumNodes = am_NumNodes R s,
     dg_nodes = rb_Iterator R (am_nodes s),
     dg_adjacent = (\<lambda>node dir.
       case am_getAdjacent R s node dir of Some adjacent \<Rightarrow> rb_Iterator R adjacent | None \<Rightarrow> [])\<rparr>"

text \<open>
  \<open>Normalize\<close> renames the nodes to 0, 1, 2, ... in the order of the node bitmap. \<open>inOrder\<close> and
  \<open>outOrder\<close> are the orders in which the code ranges over the two maps. The index from old to new
  names is kept with its length, as \<open>len(idIndex)\<close> supplies the next name.
\<close>

definition normalize_index ::
    "'b roaring64_ops \<Rightarrow> uint64 list \<Rightarrow> uint64 \<Rightarrow> ('b \<times> (uint64 \<rightharpoonup> uint64) \<times> nat \<times> uint64 list) option" where
  "normalize_index R nodes numNodes =
     for_each (\<lambda>node (newNodes, idIndex, len, reverseIDIndex).
         let normalID = of_nat len
         in case slice_set reverseIDIndex (unat normalID) node of
              None \<Rightarrow> None
            | Some reverseIDIndex' \<Rightarrow>
                Some (bitmap64_Add R newNodes [normalID], idIndex(node \<mapsto> normalID),
                      (if idIndex node = None then Suc len else len), reverseIDIndex'))
       nodes (NewBitmap64 R, Map.empty, 0, replicate (unat numNodes) 0)"

definition normalize_adjacency ::
    "'b roaring64_ops \<Rightarrow> (uint64 \<rightharpoonup> uint64) \<Rightarrow> 'b AdjacencyMap \<Rightarrow> uint64 list \<Rightarrow> 'b AdjacencyMap" where
  "normalize_adjacency R idIndex m order =
     fold (\<lambda>originID new.
         case m originID of
           None \<Rightarrow> new
         | Some originAdjacentBitmap \<Rightarrow>
             new(map_get idIndex 0 originID \<mapsto>
               bitmap64_Each R originAdjacentBitmap
                 (\<lambda>originAdjacent normalAdjacent.
                    (bitmap64_Add R normalAdjacent [map_get idIndex 0 originAdjacent], True))
                 (NewBitmap64 R)))
       order Map.empty"

definition am_Normalize ::
    "'b roaring64_ops \<Rightarrow> 'b adjacencyMapDigraph \<Rightarrow> uint64 list \<Rightarrow> uint64 list \<Rightarrow>
     (uint64 list \<times> 'b adjacencyMapDigraph) option" where
  "am_Normalize R s inOrder outOrder =
     map_option (\<lambda>(newNodes, idIndex, len, reverseIDIndex).
         (reverseIDIndex,
          \<lparr>am_inbound = normalize_adjacency R idIndex (am_inbound s) inOrder,
           am_outbound = normalize_adjacency R idIndex (am_outbound s) outOrder,
           am_nodes = newNodes\<rparr>))
       (normalize_index R (rb_Iterator R (am_nodes s)) (am_NumNodes R s))"

section \<open>Abstraction and invariant\<close>

definition index_rel :: "'b roaring64_ops \<Rightarrow> 'b AdjacencyMap \<Rightarrow> uint64 rel" where
  "index_rel R m = {(k, v). \<exists>b. m k = Some b \<and> v \<in> elems R b}"

definition am_nodeset :: "'b roaring64_ops \<Rightarrow> 'b adjacencyMapDigraph \<Rightarrow> uint64 set" where
  "am_nodeset R s = elems R (am_nodes s)"

definition am_edges :: "'b roaring64_ops \<Rightarrow> 'b adjacencyMapDigraph \<Rightarrow> uint64 rel" where
  "am_edges R s = index_rel R (am_outbound s)"

definition am_inv :: "'b roaring64_ops \<Rightarrow> 'b adjacencyMapDigraph \<Rightarrow> bool" where
  "am_inv R s \<longleftrightarrow> index_rel R (am_inbound s) = (am_edges R s)\<inverse> \<and>
     am_edges R s \<subseteq> am_nodeset R s \<times> am_nodeset R s \<and>
     dom (am_inbound s) \<subseteq> am_nodeset R s \<and> dom (am_outbound s) \<subseteq> am_nodeset R s"

context roaring64
begin

lemma index_rel_empty [simp]: "index_rel R Map.empty = {}"
  by (simp add: index_rel_def)

lemma index_rel_upd:
  "index_rel R (m(k \<mapsto> b)) = {(u, v) \<in> index_rel R m. u \<noteq> k} \<union> {k} \<times> elems R b"
  by (auto simp: index_rel_def split: if_splits)

lemma index_rel_add [simp]: "index_rel R (add_to_index R m k v) = insert (k, v) (index_rel R m)"
  by (auto simp: add_to_index_def index_rel_upd split: option.splits) (auto simp: index_rel_def)

lemma dom_add_to_index [simp]: "dom (add_to_index R m k v) = insert k (dom m)"
  by (auto simp: add_to_index_def split: option.splits)

lemma am_New [simp]:
  "am_nodeset R (NewAdjacencyMapGraph R) = {}" "am_edges R (NewAdjacencyMapGraph R) = {}"
  "am_inv R (NewAdjacencyMapGraph R)"
  by (simp_all add: am_nodeset_def am_edges_def am_inv_def NewAdjacencyMapGraph_def)

lemma am_AddNode [simp]:
  "am_nodeset R (am_AddNode R s n) = insert n (am_nodeset R s)"
  "am_edges R (am_AddNode R s n) = am_edges R s"
  "am_inv R s \<Longrightarrow> am_inv R (am_AddNode R s n)"
  by (auto simp: am_nodeset_def am_edges_def am_inv_def am_AddNode_def)

lemma am_AddEdge [simp]:
  "am_nodeset R (am_AddEdge R s u v) = insert u (insert v (am_nodeset R s))"
  "am_edges R (am_AddEdge R s u v) = insert (u, v) (am_edges R s)"
  "am_inv R s \<Longrightarrow> am_inv R (am_AddEdge R s u v)"
  by (auto simp: am_nodeset_def am_edges_def am_inv_def am_AddEdge_def)

end

sublocale roaring64 \<subseteq> amb: digraph_builder "am_AddNode R" "am_AddEdge R" "NewAdjacencyMapGraph R"
    "am_inv R" "am_nodeset R" "am_edges R"
  by unfold_locales simp_all

context roaring64
begin

lemma BuildAdjacencyMapGraph_result:
  assumes "range_order adj order"
  shows "am_edges R (BuildAdjacencyMapGraph R adj order) = adj_edges adj"
    and "am_nodeset R (BuildAdjacencyMapGraph R adj order) = adj_nodes adj"
    and "am_inv R (BuildAdjacencyMapGraph R adj order)"
  using amb.BuildGraph_result [OF assms, of id] by (auto simp: BuildGraph_def BuildAdjacencyMapGraph_def)

lemma set_am_getAdjacent:
  assumes "am_inv R s"
  shows "set (dg_adjacent (am_DirectedGraph R s) u dir) =
     (case dir of DirectionOutbound \<Rightarrow> am_edges R s `` {u}
      | DirectionInbound \<Rightarrow> (am_edges R s)\<inverse> `` {u}
      | DirectionBoth \<Rightarrow> (am_edges R s \<union> (am_edges R s)\<inverse>) `` {u})"
proof -
  have out: "am_edges R s `` {u} = (case am_outbound s u of None \<Rightarrow> {} | Some b \<Rightarrow> elems R b)"
    by (auto simp: am_edges_def index_rel_def split: option.splits)
  have "(am_edges R s)\<inverse> `` {u} = index_rel R (am_inbound s) `` {u}"
    using assms by (simp add: am_inv_def)
  then have inb: "(am_edges R s)\<inverse> `` {u} = (case am_inbound s u of None \<Rightarrow> {} | Some b \<Rightarrow> elems R b)"
    by (auto simp: index_rel_def split: option.splits)
  show ?thesis
    by (cases dir) (auto simp: am_DirectedGraph_def am_getAdjacent_def rb_Iterator_ToArray out inb
        Un_Image simp del: Image_singleton_iff split: option.splits)
qed

lemma dg_nodes_am [simp]: "dg_nodes (am_DirectedGraph R s) = rb_ToArray R (am_nodes s)"
  by (simp add: am_DirectedGraph_def rb_Iterator_ToArray)

lemma am_AdjacentNodes_eq: "am_AdjacentNodes R s u dir = dg_adjacent (am_DirectedGraph R s) u dir"
  by (simp add: am_AdjacentNodes_def am_DirectedGraph_def rb_Iterator_ToArray split: option.splits)

lemma am_Degrees_eq:
  "am_Degrees R s u dir = of_nat (length (dg_adjacent (am_DirectedGraph R s) u dir))"
  by (simp add: am_Degrees_def am_DirectedGraph_def rb_Iterator_ToArray bitmap64_Cardinality_def
      rb_GetCardinality_length split: option.splits)

end

section \<open>The graph meets the interface\<close>

locale adjacency_graph = roaring64 R
  for R :: "'b roaring64_ops" +
  fixes s :: "'b adjacencyMapDigraph"
  assumes am_wf: "am_inv R s"

sublocale adjacency_graph \<subseteq> am: directed_graph "am_DirectedGraph R s"
proof unfold_locales
  fix u v dir
  assume "v \<in> set (dg_adjacent (am_DirectedGraph R s) u dir)"
  then show "u \<in> set (dg_nodes (am_DirectedGraph R s)) \<and> v \<in> set (dg_nodes (am_DirectedGraph R s))"
    using am_wf by (auto simp: set_am_getAdjacent [OF am_wf] am_inv_def am_nodeset_def split: direction.splits)
next
  fix u v
  show "v \<in> set (dg_adjacent (am_DirectedGraph R s) u DirectionOutbound) \<longleftrightarrow>
      u \<in> set (dg_adjacent (am_DirectedGraph R s) v DirectionInbound)"
    by (simp add: set_am_getAdjacent [OF am_wf])
next
  fix u
  show "set (dg_adjacent (am_DirectedGraph R s) u DirectionBoth) =
      set (dg_adjacent (am_DirectedGraph R s) u DirectionOutbound) \<union>
      set (dg_adjacent (am_DirectedGraph R s) u DirectionInbound)"
    by (simp add: set_am_getAdjacent [OF am_wf] Un_Image)
qed (simp_all add: am_DirectedGraph_def am_NumNodes_def rb_Iterator_ToArray bitmap64_Cardinality_def
      rb_GetCardinality_length)

context adjacency_graph
begin

lemmas meets_interface = am.directed_graph_axioms

lemma am_adj_rel:
  "adj_rel (am_DirectedGraph R s) DirectionOutbound = am_edges R s"
  "adj_rel (am_DirectedGraph R s) DirectionInbound = (am_edges R s)\<inverse>"
  "adj_rel (am_DirectedGraph R s) DirectionBoth = am_edges R s \<union> (am_edges R s)\<inverse>"
  by (auto simp: adj_rel_def set_am_getAdjacent [OF am_wf])

end

section \<open>Normalization\<close>

context roaring64
begin

lemma normalize_index_result:
  assumes "distinct N" and "length N < 2 ^ 64"
  shows "\<exists>nn idx. normalize_index R N (of_nat (length N)) = Some (nn, idx, length N, N) \<and>
     elems R nn = of_nat ` {..<length N} \<and> dom idx = set N \<and>
     (\<forall>i < length N. idx (N ! i) = Some (of_nat i))"
proof -
  let ?n = "length N"
  let ?I = "\<lambda>ys (nn, idx, len, rv). len = length ys \<and> rv = ys @ replicate (?n - length ys) 0 \<and>
      elems R nn = of_nat ` {..<length ys} \<and> dom idx = set ys \<and>
      (\<forall>i < length ys. idx (ys ! i) = Some (of_nat i :: uint64))"
  have "\<exists>s'. normalize_index R N (of_nat ?n) = Some s' \<and> ?I N s'"
    unfolding normalize_index_def
  proof (rule for_each_total [where I = ?I])
    show "?I [] (NewBitmap64 R, Map.empty, 0, replicate (unat (of_nat ?n :: uint64)) 0)"
      using assms(2) by simp
  next
    fix ys x zs and st :: "'b \<times> (uint64 \<rightharpoonup> uint64) \<times> nat \<times> uint64 list"
    assume N: "N = ys @ x # zs" and I: "?I ys st"
    obtain nn idx len rv where st: "st = (nn, idx, len, rv)" by (cases st) auto
    have len: "length ys < 2 ^ 64" "length ys < ?n" using N assms(2) by auto
    have new: "idx x = None" using I st N assms(1) by (auto simp: domIff [symmetric])
    have rv: "rv[length ys := x] = (ys @ [x]) @ replicate (?n - Suc (length ys)) 0"
      using I st len by (simp add: list_update_append N Suc_diff_le)
    have "(idx(x \<mapsto> of_nat (length ys))) ((ys @ [x]) ! i) = Some (of_nat i)"
      if "i < length (ys @ [x])" for i
      using that I st N assms(1) by (auto simp: nth_append less_Suc_eq)
    then show "\<exists>s'. (\<lambda>node (newNodes, idIndex, len, reverseIDIndex).
          let normalID = of_nat len
          in case slice_set reverseIDIndex (unat normalID) node of None \<Rightarrow> None
             | Some reverseIDIndex' \<Rightarrow>
                 Some (bitmap64_Add R newNodes [normalID], idIndex(node \<mapsto> normalID),
                       if idIndex node = None then Suc len else len, reverseIDIndex')) x st =
          Some s' \<and> ?I (ys @ [x]) s'"
      using I st len new rv by (auto simp: slice_set_def Let_def lessThan_Suc)
  qed
  then show ?thesis by auto
qed

lemma fold_normal_Add:
  "elems R (fold (\<lambda>v b. bitmap64_Add R b [f v]) vs b) = elems R b \<union> f ` set vs"
  by (induction vs arbitrary: b) auto

lemma normalize_adjacency_result:
  assumes order: "range_order m order" and inj: "inj_on (map_get idx 0) (dom m)"
  shows "index_rel R (normalize_adjacency R idx m order) =
      map_prod (map_get idx 0) (map_get idx 0) ` index_rel R m"
    and "dom (normalize_adjacency R idx m order) = map_get idx 0 ` dom m"
proof -
  let ?f = "map_get idx 0"
  let ?step = "\<lambda>originID new. case m originID of None \<Rightarrow> new
      | Some b \<Rightarrow> new(?f originID \<mapsto>
          bitmap64_Each R b (\<lambda>v acc. (bitmap64_Add R acc [?f v], True)) (NewBitmap64 R))"
  have "set ys \<subseteq> dom m \<Longrightarrow> distinct ys \<Longrightarrow>
      index_rel R (fold ?step ys Map.empty) = map_prod ?f ?f ` {(u, v) \<in> index_rel R m. u \<in> set ys} \<and>
      dom (fold ?step ys Map.empty) = ?f ` set ys" for ys
  proof (induction ys rule: rev_induct)
    case (snoc y ys)
    then obtain b where b: "m y = Some b" by auto
    have fresh: "?f y \<notin> ?f ` set ys"
      using snoc.prems inj by (auto simp: inj_on_def) (metis domI subsetD)
    have IH: "index_rel R (fold ?step ys Map.empty) = map_prod ?f ?f ` {(u, v) \<in> index_rel R m. u \<in> set ys}"
      "dom (fold ?step ys Map.empty) = ?f ` set ys" using snoc by auto
    let ?B = "bitmap64_Each R b (\<lambda>v acc. (bitmap64_Add R acc [?f v], True)) (NewBitmap64 R)"
    have B: "elems R ?B = ?f ` elems R b" by (simp add: fold_normal_Add)
    have run: "fold ?step (ys @ [y]) Map.empty = (fold ?step ys Map.empty)(?f y \<mapsto> ?B)"
      using b by simp
    have old: "{(u, v) \<in> index_rel R (fold ?step ys Map.empty). u \<noteq> ?f y} =
        index_rel R (fold ?step ys Map.empty)"
      using fresh IH(1) by (force simp: image_iff)
    have new: "{(u, v) \<in> index_rel R m. u \<in> set (ys @ [y])} =
        {(u, v) \<in> index_rel R m. u \<in> set ys} \<union> {y} \<times> elems R b"
      using b by (auto simp: index_rel_def)
    have "map_prod ?f ?f ` ({y} \<times> elems R b) = {?f y} \<times> ?f ` elems R b" by force
    then show ?case
      unfolding run index_rel_upd old new image_Un B dom_fun_upd using IH by simp
  qed simp
  from this [of order] order
  show "index_rel R (normalize_adjacency R idx m order) = map_prod ?f ?f ` index_rel R m"
    and "dom (normalize_adjacency R idx m order) = ?f ` dom m"
    by (auto simp: range_order_def normalize_adjacency_def index_rel_def)
qed

end

context adjacency_graph
begin

lemma am_Normalize_result:
  assumes orders: "range_order (am_inbound s) inOrder" "range_order (am_outbound s) outOrder"
    and small: "length (rb_ToArray R (am_nodes s)) < 2 ^ 64"
  defines "N \<equiv> rb_ToArray R (am_nodes s)"
  shows "\<exists>g'. am_Normalize R s inOrder outOrder = Some (N, g') \<and> am_inv R g' \<and>
     am_nodeset R g' = of_nat ` {..<length N} \<and>
     (\<forall>i < length N. \<forall>j < length N.
        (of_nat i, of_nat j) \<in> am_edges R g' \<longleftrightarrow> (N ! i, N ! j) \<in> am_edges R s)"
proof -
  have N: "distinct N" "set N = am_nodeset R s" "length N < 2 ^ 64"
    using small by (simp_all add: N_def am_nodeset_def)
  from normalize_index_result [OF N(1,3)] obtain nn idx where
    ix: "normalize_index R N (of_nat (length N)) = Some (nn, idx, length N, N)"
      "elems R nn = of_nat ` {..<length N}" "\<forall>i < length N. idx (N ! i) = Some (of_nat i)" by blast
  let ?f = "map_get idx 0"
  have f: "?f (N ! i) = of_nat i" if "i < length N" for i
    using ix(3) that by (simp add: map_get_def)
  have inj: "inj_on ?f (set N)"
  proof (rule inj_onI)
    fix x y
    assume "x \<in> set N" "y \<in> set N" "?f x = ?f y"
    then obtain i j where ij: "i < length N" "j < length N" "x = N ! i" "y = N ! j"
      "(of_nat i :: uint64) = of_nat j"
      using f by (auto simp: in_set_conv_nth)
    from arg_cong [OF this(5), of unat] have "i = j" using ij(1,2) N(3) by simp
    with ij show "x = y" by simp
  qed
  let ?g' = "\<lparr>am_inbound = normalize_adjacency R idx (am_inbound s) inOrder,
    am_outbound = normalize_adjacency R idx (am_outbound s) outOrder, am_nodes = nn\<rparr>"
  have run: "am_Normalize R s inOrder outOrder = Some (N, ?g')"
    using ix(1) by (simp add: am_Normalize_def am_NumNodes_def rb_Iterator_ToArray
        bitmap64_Cardinality_def rb_GetCardinality_length N_def)
  have sub: "am_edges R s \<subseteq> set N \<times> set N" "dom (am_inbound s) \<subseteq> set N" "dom (am_outbound s) \<subseteq> set N"
    and conv: "index_rel R (am_inbound s) = (am_edges R s)\<inverse>"
    using am_wf N(2) by (auto simp: am_inv_def)
  have out: "am_edges R ?g' = map_prod ?f ?f ` am_edges R s"
    "dom (am_outbound ?g') = ?f ` dom (am_outbound s)"
    using normalize_adjacency_result [OF orders(2) inj_on_subset [OF inj sub(3)]]
    by (simp_all add: am_edges_def)
  have inb: "index_rel R (am_inbound ?g') = map_prod ?f ?f ` (am_edges R s)\<inverse>"
    "dom (am_inbound ?g') = ?f ` dom (am_inbound s)"
    using normalize_adjacency_result [OF orders(1) inj_on_subset [OF inj sub(2)]] conv by simp_all
  have "?f ` set N = of_nat ` {..<length N}"
    using f by (force simp: in_set_conv_nth image_iff)
  then have nodes: "am_nodeset R ?g' = ?f ` set N" "am_nodeset R ?g' = of_nat ` {..<length N}"
    using ix(2) by (simp_all add: am_nodeset_def)
  have "am_inv R ?g'"
    unfolding am_inv_def out inb nodes(1) using sub by force
  moreover have "(of_nat i, of_nat j) \<in> am_edges R ?g' \<longleftrightarrow> (N ! i, N ! j) \<in> am_edges R s"
    if "i < length N" "j < length N" for i j
  proof -
    have "(of_nat i, of_nat j) = map_prod ?f ?f (N ! i, N ! j)" using that f by simp
    moreover have "inj_on (map_prod ?f ?f) (set N \<times> set N)" using inj by (rule map_prod_inj_on [OF _ inj])
    moreover have "(N ! i, N ! j) \<in> set N \<times> set N" using that by simp
    ultimately show ?thesis
      unfolding out using sub(1) by (simp only: inj_on_image_mem_iff)
  qed
  ultimately show ?thesis using run nodes(2) by blast
qed

end

section \<open>Properties\<close>

text \<open>The graph with the edges 1 to 2, 1 to 3, 2 to 4 and 3 to 4, built by the code.\<close>

definition example_adjacency :: "uint64 \<rightharpoonup> uint64 list" where
  "example_adjacency = [1 \<mapsto> [2, 3], 2 \<mapsto> [4], 3 \<mapsto> [4]]"

lemma example_adjacency_order: "range_order example_adjacency [3, 1, 2]"
  by (auto simp: range_order_def example_adjacency_def split: if_splits)

interpretation example_am: adjacency_graph list_bitmap
  "BuildAdjacencyMapGraph list_bitmap example_adjacency [3, 1, 2]"
  by unfold_locales (rule lbm.BuildAdjacencyMapGraph_result [OF example_adjacency_order])

text \<open>C19. Whatever order the code ranges over the input map in, \<open>BuildAdjacencyMapGraph\<close> builds a graph
  that satisfies the interface, with the keys and targets of the map as nodes and exactly
  its edges, listed without duplicates in both directions.\<close>

theorem BuildAdjacencyMapGraph_edges:
  assumes "roaring64 R" and "range_order adj order"
  defines "g \<equiv> am_DirectedGraph R (BuildAdjacencyMapGraph R adj order)"
  shows "directed_graph g \<and>
     set (dg_nodes g) = adj_nodes adj \<and>
     adj_rel g DirectionOutbound = adj_edges adj \<and>
     adj_rel g DirectionInbound = (adj_rel g DirectionOutbound)\<inverse> \<and>
     (\<forall>u dir. distinct (dg_adjacent g u dir))"
proof -
  note r = roaring64.BuildAdjacencyMapGraph_result [OF assms(1,2)]
  have loc: "adjacency_graph R (BuildAdjacencyMapGraph R adj order)"
    using assms(1) r(3) by (simp add: adjacency_graph_def adjacency_graph_axioms_def)
  have "distinct (dg_adjacent g u dir)" for u dir
    using assms(1) by (auto simp: g_def am_DirectedGraph_def roaring64.rb_Iterator_ToArray
        roaring64.rb_distinct split: option.splits)
  moreover have "directed_graph g"
    unfolding g_def by (rule adjacency_graph.meets_interface [OF loc])
  ultimately show ?thesis
    using adjacency_graph.am_adj_rel [OF loc] r roaring64.dg_nodes_am [OF assms(1)]
    by (simp add: g_def am_nodeset_def)
qed

theorem BuildAdjacencyMapGraph_edges_witness:
  "adj_rel (am_DirectedGraph list_bitmap (BuildAdjacencyMapGraph list_bitmap example_adjacency [3, 1, 2]))
     DirectionOutbound = {(1, 2), (1, 3), (2, 4), (3, 4)}"
proof -
  have "adj_edges example_adjacency = {(1, 2), (1, 3), (2, 4), (3, 4)}"
    by (auto simp: example_adjacency_def adj_edges_def split: if_splits)
  then show ?thesis
    using BuildAdjacencyMapGraph_edges [OF lbm.roaring64_axioms example_adjacency_order] by simp
qed

text \<open>C20. \<open>Normalize\<close> renumbers the nodes: it returns the sorted list of the original identifiers
  and a graph on the identifiers 0, 1, and so on that has an edge between two positions exactly
  when the original graph has one between the identifiers at these positions.\<close>

theorem am_Normalize_isomorphic:
  assumes "adjacency_graph R s"
    and "range_order (am_inbound s) inOrder" and "range_order (am_outbound s) outOrder"
    and "length (rb_ToArray R (am_nodes s)) < 2 ^ 64"
  shows "\<exists>N g'. am_Normalize R s inOrder outOrder = Some (N, g') \<and>
     N = dg_nodes (am_DirectedGraph R s) \<and> adjacency_graph R g' \<and>
     am_nodeset R g' = of_nat ` {..<length N} \<and>
     (\<forall>i < length N. \<forall>j < length N.
        (of_nat i, of_nat j) \<in> am_edges R g' \<longleftrightarrow> (N ! i, N ! j) \<in> am_edges R s)"
proof -
  have R: "roaring64 R" using assms(1) by (simp add: adjacency_graph_def)
  then show ?thesis
    using adjacency_graph.am_Normalize_result [OF assms]
    by (auto simp: adjacency_graph_def adjacency_graph_axioms_def roaring64.dg_nodes_am)
qed

theorem am_Normalize_isomorphic_witness:
  "\<exists>N g'. am_Normalize list_bitmap (BuildAdjacencyMapGraph list_bitmap [7 \<mapsto> [5]] [7]) [5] [7] = Some (N, g') \<and>
     N = [5, 7] \<and> (1, 0) \<in> am_edges list_bitmap g'"
proof -
  let ?s = "BuildAdjacencyMapGraph list_bitmap [7 \<mapsto> [5]] [7]"
  have order: "range_order [7 \<mapsto> [5]] [7]" by (simp add: range_order_def)
  note r = lbm.BuildAdjacencyMapGraph_result [OF order]
  have loc: "adjacency_graph list_bitmap ?s"
    by unfold_locales (rule r(3))
  have s: "dom (am_inbound ?s) = {5}" "dom (am_outbound ?s) = {7}"
    by (simp_all add: BuildAdjacencyMapGraph_def NewAdjacencyMapGraph_def am_AddNode_def am_AddEdge_def
        map_get_def)
  have nodes: "rb_ToArray list_bitmap (am_nodes ?s) = [5, 7]" by code_simp
  have edge: "(7, 5) \<in> am_edges list_bitmap ?s" unfolding r(1) by (simp add: adj_edges_def)
  from am_Normalize_isomorphic [OF loc, of "[5]" "[7]"] obtain N g' where
    g': "am_Normalize list_bitmap ?s [5] [7] = Some (N, g')" "N = [5, 7]"
    "\<forall>i < length N. \<forall>j < length N.
        (of_nat i, of_nat j) \<in> am_edges list_bitmap g' \<longleftrightarrow> (N ! i, N ! j) \<in> am_edges list_bitmap ?s"
    by (auto simp: s nodes range_order_def)
  from g'(3) [rule_format, of 1 0] g'(2) edge have "(1, 0) \<in> am_edges list_bitmap g'" by simp
  with g' show ?thesis by blast
qed

text \<open>\<open>NumEdges\<close> of the adjacency map graph does not count edges: it returns the
  cardinality of the node bitmap, as \<open>NumNodes\<close> does. The graph with the one edge from 1 to 2
  reports two edges.\<close>

theorem am_NumEdges_counts_nodes:
  "am_NumEdges R s = am_NumNodes R s \<and>
   am_NumEdges list_bitmap (BuildAdjacencyMapGraph list_bitmap [1 \<mapsto> [2]] [1]) = 2 \<and>
   am_edges list_bitmap (BuildAdjacencyMapGraph list_bitmap [1 \<mapsto> [2]] [1]) = {(1, 2)}"
proof -
  have order: "range_order [1 \<mapsto> [2]] [1]" by (simp add: range_order_def)
  have "am_NumEdges list_bitmap (BuildAdjacencyMapGraph list_bitmap [1 \<mapsto> [2]] [1]) = 2"
    by code_simp
  moreover have "am_edges list_bitmap (BuildAdjacencyMapGraph list_bitmap [1 \<mapsto> [2]] [1]) = {(1, 2)}"
    unfolding lbm.BuildAdjacencyMapGraph_result(1) [OF order] by (auto simp: adj_edges_def split: if_splits)
  ultimately show ?thesis by (simp add: am_NumEdges_def am_NumNodes_def)
qed

end
