(* ===== verification/Dg_Csr.thy ===== *)
theory Dg_Csr
  imports Dg_Adjacency
begin

text \<open>
  src/container/csr.go: the directed graph in compressed sparse row form and its builder. The
  builder numbers the nodes densely in the order they first appear and keeps one bitmap of
  dense indices per node and direction; \<open>Build\<close> computes the offsets by prefix sums and writes
  the neighbours of all nodes into one array per direction.

  Reads and writes of slices outside of their range are panics (\<open>None\<close>), so the theorems that
  \<open>Build\<close> and the accessors return \<open>Some\<close> include that no index is out of range.
\<close>

section \<open>The graph\<close>

record csrDigraph =
  cs_idToDenseIdx :: "uint64 \<rightharpoonup> uint64"
  cs_denseIdxToID :: "uint64 list"
  cs_outOffsets :: "uint64 list"
  cs_outAdj :: "uint64 list"
  cs_inOffsets :: "uint64 list"
  cs_inAdj :: "uint64 list"

definition cs_idx :: "csrDigraph \<Rightarrow> uint64 \<Rightarrow> uint64 option" where
  "cs_idx g node = cs_idToDenseIdx g node"

text \<open>The neighbours in the array \<open>adj\<close> from \<open>offsets[idx]\<close> to \<open>offsets[idx+1]\<close>.\<close>

definition csr_slice :: "uint64 list \<Rightarrow> uint64 list \<Rightarrow> uint64 \<Rightarrow> uint64 list option" where
  "csr_slice offsets adj idx =
     Option.bind (slice_get offsets (unat idx)) (\<lambda>start.
       Option.bind (slice_get offsets (unat (idx + 1))) (\<lambda>end.
         slice_sub adj (unat start) (unat end)))"

definition csrRange :: "csrDigraph \<Rightarrow> uint64 \<Rightarrow> direction \<Rightarrow> uint64 list option" where
  "csrRange g idx dir = (case dir of
     DirectionOutbound \<Rightarrow> csr_slice (cs_outOffsets g) (cs_outAdj g) idx
   | DirectionInbound \<Rightarrow> csr_slice (cs_inOffsets g) (cs_inAdj g) idx
   | DirectionBoth \<Rightarrow>
       Option.bind (csr_slice (cs_outOffsets g) (cs_outAdj g) idx) (\<lambda>out.
         Option.bind (csr_slice (cs_inOffsets g) (cs_inAdj g) idx) (\<lambda>inn. Some (out @ inn))))"

definition cs_NumNodes :: "csrDigraph \<Rightarrow> uint64" where
  "cs_NumNodes g = of_nat (length (cs_denseIdxToID g))"

definition cs_NumEdges :: "csrDigraph \<Rightarrow> uint64" where
  "cs_NumEdges g = of_nat (length (cs_outAdj g))"

definition cs_Nodes :: "'b roaring64_ops \<Rightarrow> csrDigraph \<Rightarrow> 'b" where
  "cs_Nodes R g = NewBitmap64With R (cs_denseIdxToID g)"

definition cs_EachNode :: "csrDigraph \<Rightarrow> (uint64 \<Rightarrow> 's \<Rightarrow> 's \<times> bool) \<Rightarrow> 's \<Rightarrow> 's" where
  "cs_EachNode g delegate s = each delegate (cs_denseIdxToID g) s"

definition cs_AdjacentNodes :: "csrDigraph \<Rightarrow> uint64 \<Rightarrow> direction \<Rightarrow> uint64 list option" where
  "cs_AdjacentNodes g node dir = (case cs_idx g node of None \<Rightarrow> Some [] | Some idx \<Rightarrow> csrRange g idx dir)"

definition csr_width :: "uint64 list \<Rightarrow> uint64 \<Rightarrow> uint64 option" where
  "csr_width offsets idx =
     Option.bind (slice_get offsets (unat (idx + 1))) (\<lambda>end.
       Option.bind (slice_get offsets (unat idx)) (\<lambda>start. Some (end - start)))"

definition cs_Degrees :: "csrDigraph \<Rightarrow> uint64 \<Rightarrow> direction \<Rightarrow> uint64 option" where
  "cs_Degrees g node dir = (case cs_idx g node of None \<Rightarrow> Some 0 | Some idx \<Rightarrow>
     (case dir of
        DirectionOutbound \<Rightarrow> csr_width (cs_outOffsets g) idx
      | DirectionInbound \<Rightarrow> csr_width (cs_inOffsets g) idx
      | DirectionBoth \<Rightarrow>
          Option.bind (csr_width (cs_outOffsets g) idx) (\<lambda>out.
            Option.bind (csr_width (cs_inOffsets g) idx) (\<lambda>inn. Some (out + inn)))))"

text \<open>
  The loop \<open>for next, end := offsets[idx], offsets[idx+1]; next < end; next++\<close> around a delegate;
  the flag tells whether the delegate let the loop run to its end.
\<close>

fun csr_scan :: "uint64 list \<Rightarrow> (uint64 \<Rightarrow> 's \<Rightarrow> 's \<times> bool) \<Rightarrow> nat list \<Rightarrow> 's \<Rightarrow> ('s \<times> bool) option" where
  "csr_scan adj delegate [] s = Some (s, True)"
| "csr_scan adj delegate (next # rest) s = Option.bind (slice_get adj next) (\<lambda>v.
     case delegate v s of (s', goon) \<Rightarrow> if goon then csr_scan adj delegate rest s' else Some (s', False))"

definition csr_scan_idx ::
    "uint64 list \<Rightarrow> uint64 list \<Rightarrow> uint64 \<Rightarrow> (uint64 \<Rightarrow> 's \<Rightarrow> 's \<times> bool) \<Rightarrow> 's \<Rightarrow> ('s \<times> bool) option" where
  "csr_scan_idx offsets adj idx delegate s =
     Option.bind (slice_get offsets (unat idx)) (\<lambda>next.
       Option.bind (slice_get offsets (unat (idx + 1))) (\<lambda>end.
         csr_scan adj delegate [unat next..<unat end] s))"

definition cs_EachAdjacentNode ::
    "csrDigraph \<Rightarrow> uint64 \<Rightarrow> direction \<Rightarrow> (uint64 \<Rightarrow> 's \<Rightarrow> 's \<times> bool) \<Rightarrow> 's \<Rightarrow> 's option" where
  "cs_EachAdjacentNode g node dir delegate s = (case cs_idx g node of None \<Rightarrow> Some s | Some idx \<Rightarrow>
     (case dir of
        DirectionOutbound \<Rightarrow> map_option fst (csr_scan_idx (cs_outOffsets g) (cs_outAdj g) idx delegate s)
      | DirectionInbound \<Rightarrow> map_option fst (csr_scan_idx (cs_inOffsets g) (cs_inAdj g) idx delegate s)
      | DirectionBoth \<Rightarrow>
          Option.bind (csr_scan_idx (cs_outOffsets g) (cs_outAdj g) idx delegate s) (\<lambda>(s', goon).
            if goon then map_option fst (csr_scan_idx (cs_inOffsets g) (cs_inAdj g) idx delegate s')
            else Some s')))"

text \<open>The graph as a \<open>DirectedGraph\<close>: what its iterators deliver.\<close>

definition cs_DirectedGraph :: "csrDigraph \<Rightarrow> DirectedGraph" where
  "cs_DirectedGraph g = \<lparr>dg_NumNodes = cs_NumNodes g, dg_nodes = cs_denseIdxToID g,
     dg_adjacent = (\<lambda>node dir.
       case cs_EachAdjacentNode g node dir (\<lambda>adjacent nodes. (nodes @ [adjacent], True)) [] of
         None \<Rightarrow> [] | Some nodes \<Rightarrow> nodes)\<rparr>"

definition cs_Normalize :: "csrDigraph \<Rightarrow> uint64 list \<times> csrDigraph" where
  "cs_Normalize g =
     (let dense = map of_nat [0..<length (cs_denseIdxToID g)] in
      (cs_denseIdxToID g,
       \<lparr>cs_idToDenseIdx = fold (\<lambda>denseIdx m. m(denseIdx \<mapsto> denseIdx)) dense Map.empty,
        cs_denseIdxToID = dense,
        cs_outOffsets = cs_outOffsets g,
        cs_outAdj = map (map_get (cs_idToDenseIdx g) 0) (cs_outAdj g),
        cs_inOffsets = cs_inOffsets g,
        cs_inAdj = map (map_get (cs_idToDenseIdx g) 0) (cs_inAdj g)\<rparr>))"

section \<open>The builder\<close>

record 'b CSRDigraphBuilder =
  cb_idToDenseIdx :: "uint64 \<rightharpoonup> uint64"
  cb_denseIdxToID :: "uint64 list"
  cb_outTmp :: "'b AdjacencyMap"
  cb_inTmp :: "'b AdjacencyMap"

definition NewCSRDigraphBuilder :: "'b CSRDigraphBuilder" where
  "NewCSRDigraphBuilder =
     \<lparr>cb_idToDenseIdx = Map.empty, cb_denseIdxToID = [], cb_outTmp = Map.empty, cb_inTmp = Map.empty\<rparr>"

definition ensureNode ::
    "'b roaring64_ops \<Rightarrow> 'b CSRDigraphBuilder \<Rightarrow> uint64 \<Rightarrow> uint64 \<times> 'b CSRDigraphBuilder" where
  "ensureNode R s nodeID = (case cb_idToDenseIdx s nodeID of
     Some idx \<Rightarrow> (idx, s)
   | None \<Rightarrow>
       (let idx = of_nat (length (cb_denseIdxToID s)) in
        (idx, s\<lparr>cb_idToDenseIdx := (cb_idToDenseIdx s)(nodeID \<mapsto> idx),
                cb_denseIdxToID := cb_denseIdxToID s @ [nodeID],
                cb_outTmp := (cb_outTmp s)(idx \<mapsto> NewBitmap64 R),
                cb_inTmp := (cb_inTmp s)(idx \<mapsto> NewBitmap64 R)\<rparr>)))"

definition cb_AddNode :: "'b roaring64_ops \<Rightarrow> 'b CSRDigraphBuilder \<Rightarrow> uint64 \<Rightarrow> 'b CSRDigraphBuilder" where
  "cb_AddNode R s node = snd (ensureNode R s node)"

definition cb_AddEdge ::
    "'b roaring64_ops \<Rightarrow> 'b CSRDigraphBuilder \<Rightarrow> uint64 \<Rightarrow> uint64 \<Rightarrow> 'b CSRDigraphBuilder" where
  "cb_AddEdge R s start end =
     (let (startIdx, s1) = ensureNode R s start;
          (endIdx, s2) = ensureNode R s1 end
      in s2\<lparr>cb_outTmp := add_to_index R (cb_outTmp s2) startIdx endIdx,
            cb_inTmp := add_to_index R (cb_inTmp s2) endIdx startIdx\<rparr>)"

text \<open>The body of the prefix sum loop, for one direction.\<close>

definition csr_count ::
    "'b roaring64_ops \<Rightarrow> 'b AdjacencyMap \<Rightarrow> uint64 \<Rightarrow> uint64 \<times> uint64 list \<Rightarrow> (uint64 \<times> uint64 list) option" where
  "csr_count R tmp nextNode = (\<lambda>(total, offsets).
     Option.bind (tmp nextNode) (\<lambda>b.
       let total' = total + bitmap64_Cardinality R b in
       map_option (Pair total') (slice_set offsets (unat (nextNode + 1)) total')))"

text \<open>The body of the loop that writes the neighbours, for one direction.\<close>

definition csr_write ::
    "uint64 list \<Rightarrow> uint64 \<Rightarrow> uint64 list \<times> uint64 \<Rightarrow> (uint64 list \<times> uint64) option" where
  "csr_write ids adjacentDenseIndex = (\<lambda>(adj, denseIdx).
     Option.bind (slice_get ids (unat adjacentDenseIndex)) (\<lambda>nodeID.
       map_option (\<lambda>adj'. (adj', denseIdx + 1)) (slice_set adj (unat denseIdx) nodeID)))"

definition csr_fill ::
    "'b roaring64_ops \<Rightarrow> 'b AdjacencyMap \<Rightarrow> uint64 list \<Rightarrow> uint64 list \<Rightarrow> uint64 \<Rightarrow> uint64 list \<Rightarrow> uint64 list option" where
  "csr_fill R tmp ids offsets nextNode adj =
     Option.bind (slice_get offsets (unat nextNode)) (\<lambda>denseIdx.
       Option.bind (tmp nextNode) (\<lambda>b.
         map_option fst (for_each (csr_write ids) (rb_Iterator R b) (adj, denseIdx))))"

definition cb_Build :: "'b roaring64_ops \<Rightarrow> 'b CSRDigraphBuilder \<Rightarrow> csrDigraph option" where
  "cb_Build R s =
     (let ids = cb_denseIdxToID s;
          numNodes = of_nat (length ids) :: uint64;
          nodes = map of_nat [0..<unat numNodes] :: uint64 list;
          zeros = replicate (unat (numNodes + 1)) (0 :: uint64)
      in Option.bind
           (for_each (for_both (csr_count R (cb_outTmp s)) (csr_count R (cb_inTmp s))) nodes
              ((0, zeros), (0, zeros)))
           (\<lambda>((outTotal, outOffsets), (inTotal, inOffsets)).
              Option.bind
                (for_each
                   (for_both (csr_fill R (cb_outTmp s) ids outOffsets) (csr_fill R (cb_inTmp s) ids inOffsets))
                   nodes (replicate (unat outTotal) 0, replicate (unat inTotal) 0))
                (\<lambda>(outAdj, inAdj).
                   Some \<lparr>cs_idToDenseIdx = cb_idToDenseIdx s, cs_denseIdxToID = ids,
                         cs_outOffsets = outOffsets, cs_outAdj = outAdj,
                         cs_inOffsets = inOffsets, cs_inAdj = inAdj\<rparr>)))"

definition csr_BuildGraph ::
    "'b roaring64_ops \<Rightarrow> (uint64 \<rightharpoonup> uint64 list) \<Rightarrow> uint64 list \<Rightarrow> csrDigraph option" where
  "csr_BuildGraph R = BuildGraph (cb_AddNode R) (cb_AddEdge R) (cb_Build R) NewCSRDigraphBuilder"

section \<open>The builder refines a set of nodes and a set of edges\<close>

text \<open>The dense indices of \<open>n\<close> nodes.\<close>

abbreviation dense :: "nat \<Rightarrow> uint64 set" where
  "dense n \<equiv> of_nat ` {..<n}"

definition cb_nodeset :: "'b CSRDigraphBuilder \<Rightarrow> uint64 set" where
  "cb_nodeset s = set (cb_denseIdxToID s)"

definition cb_edges :: "'b roaring64_ops \<Rightarrow> 'b CSRDigraphBuilder \<Rightarrow> uint64 rel" where
  "cb_edges R s = {(u, v). \<exists>i j. cb_idToDenseIdx s u = Some i \<and> cb_idToDenseIdx s v = Some j \<and>
     (i, j) \<in> index_rel R (cb_outTmp s)}"

definition idx_inv :: "(uint64 \<rightharpoonup> uint64) \<Rightarrow> uint64 list \<Rightarrow> bool" where
  "idx_inv idTo ids \<longleftrightarrow> distinct ids \<and> dom idTo = set ids \<and> (\<forall>i < length ids. idTo (ids ! i) = Some (of_nat i))"

definition cb_inv :: "'b roaring64_ops \<Rightarrow> 'b CSRDigraphBuilder \<Rightarrow> bool" where
  "cb_inv R s \<longleftrightarrow> idx_inv (cb_idToDenseIdx s) (cb_denseIdxToID s) \<and>
     (let n = length (cb_denseIdxToID s) in
      dom (cb_outTmp s) = dense n \<and> dom (cb_inTmp s) = dense n \<and>
      index_rel R (cb_outTmp s) \<subseteq> dense n \<times> dense n \<and>
      index_rel R (cb_inTmp s) = (index_rel R (cb_outTmp s))\<inverse>)"

lemma idx_inv_Some:
  assumes "idx_inv idTo ids"
  shows "idTo u = Some i \<longleftrightarrow> (\<exists>k < length ids. u = ids ! k \<and> i = of_nat k)"
proof
  assume u: "idTo u = Some i"
  with assms have "u \<in> set ids" by (auto simp: idx_inv_def)
  then obtain k where "k < length ids" "u = ids ! k" by (auto simp: in_set_conv_nth)
  with u assms show "\<exists>k < length ids. u = ids ! k \<and> i = of_nat k" by (auto simp: idx_inv_def)
qed (use assms in \<open>auto simp: idx_inv_def\<close>)

lemma idx_inv_inj:
  assumes "idx_inv idTo ids" "idTo u = Some i" "idTo v = Some i"
  shows "u = v"
proof -
  have "length ids \<le> 2 ^ 64" using assms(1) distinct_uint64_length [of ids] by (simp add: idx_inv_def)
  with assms(2,3) show ?thesis by (auto simp: idx_inv_Some [OF assms(1)])
qed

lemma idx_inv_dense: "idx_inv idTo ids \<Longrightarrow> idTo u = Some i \<Longrightarrow> i \<in> dense (length ids)"
  by (auto simp: idx_inv_Some)

text \<open>A node that is not registered yet leaves a dense index free.\<close>

lemma dense_fresh:
  assumes "idx_inv idTo ids" "idTo u = None"
  shows "length ids < 2 ^ 64" and "of_nat (length ids) \<notin> dense (length ids)"
proof -
  have "distinct (u # ids)" using assms by (auto simp: idx_inv_def)
  from distinct_uint64_length [OF this] show n: "length ids < 2 ^ 64" by simp
  then show "of_nat (length ids) \<notin> dense (length ids)" by auto
qed

lemma idx_inv_snoc:
  assumes "idx_inv idTo ids" "idTo u = None"
  shows "idx_inv (idTo(u \<mapsto> of_nat (length ids))) (ids @ [u])"
  using assms by (auto simp: idx_inv_def nth_append less_Suc_eq)

lemma dense_Suc: "dense (Suc n) = insert (of_nat n) (dense n)"
  by (simp add: lessThan_Suc)

lemma index_rel_fresh: "k \<notin> dom m \<Longrightarrow> elems R b = {} \<Longrightarrow> index_rel R (m(k \<mapsto> b)) = index_rel R m"
  by (auto simp: index_rel_def split: if_splits)

context roaring64
begin

lemma ensureNode_result:
  assumes inv: "cb_inv R s"
  obtains i s' where "ensureNode R s u = (i, s')" "cb_inv R s'" "cb_idToDenseIdx s' u = Some i"
    "cb_nodeset s' = insert u (cb_nodeset s)" "cb_edges R s' = cb_edges R s"
    "cb_idToDenseIdx s \<subseteq>\<^sub>m cb_idToDenseIdx s'"
proof (cases "cb_idToDenseIdx s u")
  case (Some i)
  then have "ensureNode R s u = (i, s)" "u \<in> cb_nodeset s"
    using inv by (auto simp: ensureNode_def cb_inv_def idx_inv_def cb_nodeset_def)
  with Some inv that show ?thesis by (simp add: insert_absorb)
next
  case None
  let ?n = "length (cb_denseIdxToID s)"
  let ?i = "of_nat ?n :: uint64"
  let ?s' = "s\<lparr>cb_idToDenseIdx := (cb_idToDenseIdx s)(u \<mapsto> ?i), cb_denseIdxToID := cb_denseIdxToID s @ [u],
    cb_outTmp := (cb_outTmp s)(?i \<mapsto> NewBitmap64 R), cb_inTmp := (cb_inTmp s)(?i \<mapsto> NewBitmap64 R)\<rparr>"
  have idx: "idx_inv (cb_idToDenseIdx s) (cb_denseIdxToID s)"
    and dom: "dom (cb_outTmp s) = dense ?n" "dom (cb_inTmp s) = dense ?n"
    and rel: "index_rel R (cb_outTmp s) \<subseteq> dense ?n \<times> dense ?n"
      "index_rel R (cb_inTmp s) = (index_rel R (cb_outTmp s))\<inverse>"
    using inv by (auto simp: cb_inv_def Let_def)
  note fresh = dense_fresh(2) [OF idx None]
  have keep: "index_rel R (cb_outTmp ?s') = index_rel R (cb_outTmp s)"
    "index_rel R (cb_inTmp ?s') = index_rel R (cb_inTmp s)"
    using fresh dom by (simp_all add: index_rel_fresh)
  have run: "ensureNode R s u = (?i, ?s')" using None by (simp add: ensureNode_def Let_def)
  have "cb_inv R ?s'"
    using idx_inv_snoc [OF idx None] dom rel keep
    by (auto simp: cb_inv_def Let_def dense_Suc simp del: fun_upd_apply)
  moreover have "cb_edges R ?s' = cb_edges R s"
    using rel(1) fresh None unfolding cb_edges_def keep by (auto split: if_splits)
  moreover have "cb_idToDenseIdx s \<subseteq>\<^sub>m cb_idToDenseIdx ?s'"
    using None by (auto simp: map_le_def)
  ultimately show ?thesis using that [OF run] by (simp add: cb_nodeset_def)
qed

lemma cb_AddNode_result:
  assumes "cb_inv R s"
  shows "cb_inv R (cb_AddNode R s u)" "cb_nodeset (cb_AddNode R s u) = insert u (cb_nodeset s)"
    "cb_edges R (cb_AddNode R s u) = cb_edges R s"
proof -
  obtain i s' where "ensureNode R s u = (i, s')" "cb_inv R s'"
    "cb_nodeset s' = insert u (cb_nodeset s)" "cb_edges R s' = cb_edges R s"
    by (rule ensureNode_result [OF assms])
  then show "cb_inv R (cb_AddNode R s u)" "cb_nodeset (cb_AddNode R s u) = insert u (cb_nodeset s)"
    "cb_edges R (cb_AddNode R s u) = cb_edges R s"
    by (simp_all add: cb_AddNode_def)
qed

lemma cb_AddEdge_result:
  assumes inv: "cb_inv R s"
  shows "cb_inv R (cb_AddEdge R s u v)" "cb_nodeset (cb_AddEdge R s u v) = insert u (insert v (cb_nodeset s))"
    "cb_edges R (cb_AddEdge R s u v) = insert (u, v) (cb_edges R s)"
proof -
  obtain i s1 where s1: "ensureNode R s u = (i, s1)" "cb_inv R s1" "cb_idToDenseIdx s1 u = Some i"
    "cb_nodeset s1 = insert u (cb_nodeset s)" "cb_edges R s1 = cb_edges R s"
    by (rule ensureNode_result [OF inv])
  obtain j s2 where s2: "ensureNode R s1 v = (j, s2)" "cb_inv R s2" "cb_idToDenseIdx s2 v = Some j"
    "cb_nodeset s2 = insert v (cb_nodeset s1)" "cb_edges R s2 = cb_edges R s1"
    "cb_idToDenseIdx s1 \<subseteq>\<^sub>m cb_idToDenseIdx s2"
    by (rule ensureNode_result [OF s1(2)])
  have i: "cb_idToDenseIdx s2 u = Some i" using s1(3) s2(6) by (metis domI map_le_def)
  have idx: "idx_inv (cb_idToDenseIdx s2) (cb_denseIdxToID s2)" using s2(2) by (simp add: cb_inv_def)
  let ?t = "s2\<lparr>cb_outTmp := add_to_index R (cb_outTmp s2) i j, cb_inTmp := add_to_index R (cb_inTmp s2) j i\<rparr>"
  have run: "cb_AddEdge R s u v = ?t" by (simp add: cb_AddEdge_def s1(1) s2(1))
  have mem: "i \<in> dense (length (cb_denseIdxToID s2))" "j \<in> dense (length (cb_denseIdxToID s2))"
    using idx_inv_dense [OF idx] i s2(3) by auto
  show "cb_inv R (cb_AddEdge R s u v)"
    using s2(2) mem unfolding run by (auto simp: cb_inv_def Let_def)
  show "cb_nodeset (cb_AddEdge R s u v) = insert u (insert v (cb_nodeset s))"
    using s1(4) s2(4) unfolding run by (auto simp: cb_nodeset_def)
  have "cb_idToDenseIdx s2 x = Some i \<longleftrightarrow> x = u" "cb_idToDenseIdx s2 x = Some j \<longleftrightarrow> x = v" for x
    using i s2(3) idx_inv_inj [OF idx _ i, of x] idx_inv_inj [OF idx _ s2(3), of x] by blast+
  then have "cb_edges R ?t = insert (u, v) (cb_edges R s2)"
    by (auto simp: cb_edges_def)
  then show "cb_edges R (cb_AddEdge R s u v) = insert (u, v) (cb_edges R s)"
    unfolding run using s1(5) s2(5) by simp
qed

end

sublocale roaring64 \<subseteq> csb: digraph_builder "cb_AddNode R" "cb_AddEdge R" NewCSRDigraphBuilder
    "cb_inv R" cb_nodeset "cb_edges R"
  by unfold_locales (simp_all add: cb_AddNode_result cb_AddEdge_result,
      simp_all add: NewCSRDigraphBuilder_def cb_inv_def idx_inv_def cb_nodeset_def cb_edges_def index_rel_def)

section \<open>Rows of the compressed form\<close>

text \<open>The arrays of one direction hold the concatenation of one row per node.\<close>

definition csr_rows :: "uint64 list \<Rightarrow> uint64 list \<Rightarrow> uint64 list list \<Rightarrow> bool" where
  "csr_rows offsets adj rows \<longleftrightarrow> adj = concat rows \<and> length offsets = Suc (length rows) \<and>
     (\<forall>i \<le> length rows. offsets ! i = of_nat (length (concat (take i rows)))) \<and>
     Suc (length rows) < 2 ^ 64 \<and> length adj < 2 ^ 64"

lemma csr_rows_offsets:
  assumes "csr_rows offsets adj rows" "i < length rows"
  shows "slice_get offsets (unat (of_nat i :: uint64)) = Some (of_nat (length (concat (take i rows))))"
    and "slice_get offsets (unat (of_nat i + 1 :: uint64)) = Some (of_nat (length (concat (take (Suc i) rows))))"
proof -
  have "unat (of_nat i :: uint64) = i" "unat (of_nat (Suc i) :: uint64) = Suc i"
    by (rule unat_of_nat_64, use assms in \<open>simp add: csr_rows_def\<close>)+
  moreover have "of_nat i + 1 = (of_nat (Suc i) :: uint64)" by simp
  ultimately show "slice_get offsets (unat (of_nat i :: uint64)) = Some (of_nat (length (concat (take i rows))))"
    "slice_get offsets (unat (of_nat i + 1 :: uint64)) = Some (of_nat (length (concat (take (Suc i) rows))))"
    using assms unfolding csr_rows_def by (auto simp: slice_get_def simp del: of_nat_Suc take_Suc)
qed

lemma csr_rows_unat:
  assumes "csr_rows offsets adj rows"
  shows "unat (of_nat (length (concat (take i rows))) :: uint64) = length (concat (take i rows))"
  by (rule unat_of_nat_64) (use assms length_concat_take_le [of i rows] in \<open>auto simp: csr_rows_def\<close>)

lemma csr_rows_row:
  assumes "csr_rows offsets adj rows" "i < length rows"
  shows "take (length (concat (take (Suc i) rows)) - length (concat (take i rows)))
      (drop (length (concat (take i rows))) adj) = rows ! i"
  using assms concat_row [OF assms(2)] by (simp add: csr_rows_def length_concat_take_Suc del: take_Suc)

lemma csr_slice_row:
  assumes "csr_rows offsets adj rows" "i < length rows"
  shows "csr_slice offsets adj (of_nat i) = Some (rows ! i)"
proof -
  have "length (concat (take i rows)) \<le> length (concat (take (Suc i) rows))"
    "length (concat (take (Suc i) rows)) \<le> length adj"
    using assms length_concat_take_Suc [OF assms(2)] length_concat_take_le [of "Suc i" rows]
    by (simp_all add: csr_rows_def del: take_Suc)
  then show ?thesis
    by (simp add: csr_slice_def csr_rows_offsets [OF assms] csr_rows_unat [OF assms(1)]
        slice_sub_def csr_rows_row [OF assms] del: take_Suc)
qed

lemma csr_width_row:
  assumes "csr_rows offsets adj rows" "i < length rows"
  shows "csr_width offsets (of_nat i) = Some (of_nat (length (rows ! i)))"
  by (simp add: csr_width_def csr_rows_offsets [OF assms] length_concat_take_Suc [OF assms(2)] del: take_Suc)

lemma csr_scan_each:
  "\<forall>i \<in> set is. i < length adj \<Longrightarrow> csr_scan adj delegate is s = Some (each_on delegate (map ((!) adj) is) s)"
  by (induction "is" arbitrary: s) (auto simp: slice_get_def split: prod.split)

lemma csr_scan_row:
  assumes "csr_rows offsets adj rows" "i < length rows"
  shows "csr_scan_idx offsets adj (of_nat i) delegate s = Some (each_on delegate (rows ! i) s)"
proof -
  have le: "length (concat (take (Suc i) rows)) \<le> length adj"
    using assms length_concat_take_le [of "Suc i" rows] by (simp add: csr_rows_def del: take_Suc)
  then have "csr_scan adj delegate [length (concat (take i rows))..<length (concat (take (Suc i) rows))] s =
      Some (each_on delegate (rows ! i) s)"
    by (subst csr_scan_each) (auto simp: map_nth_upt csr_rows_row [OF assms] simp del: take_Suc)
  then show ?thesis
    by (simp add: csr_scan_idx_def csr_rows_offsets [OF assms] csr_rows_unat [OF assms(1)] del: take_Suc)
qed

section \<open>Build\<close>

text \<open>The rows that the builder's bitmaps stand for.\<close>

definition tmp_rows :: "'b roaring64_ops \<Rightarrow> 'b AdjacencyMap \<Rightarrow> uint64 list \<Rightarrow> uint64 list list" where
  "tmp_rows R tmp ids = map (\<lambda>i. map (\<lambda>a. ids ! unat a) (rb_ToArray R (the (tmp (of_nat i))))) [0..<length ids]"

lemma csr_write_result:
  assumes "\<forall>a \<in> set xs. unat a < length ids" "length xs \<le> length B" "length A + length B < 2 ^ 64"
  shows "for_each (csr_write ids) xs (A @ B, of_nat (length A)) =
     Some (A @ map (\<lambda>a. ids ! unat a) xs @ drop (length xs) B, of_nat (length A + length xs))"
  using assms
proof (induction xs arbitrary: A B)
  case (Cons x xs)
  then obtain c B' where B: "B = c # B'" by (cases B) auto
  have "unat (of_nat (length A) :: uint64) = length A" using Cons.prems by (intro unat_of_nat_64) simp
  then have "csr_write ids x (A @ B, of_nat (length A)) =
      Some ((A @ [ids ! unat x]) @ B', of_nat (length (A @ [ids ! unat x])))"
    using Cons.prems(1) by (simp add: csr_write_def slice_get_def slice_set_def B)
  then show ?case
    using Cons.prems Cons.IH [of B' "A @ [ids ! unat x]"] B by simp
qed simp

context roaring64
begin

lemma csr_count_result:
  assumes dom: "dom tmp = dense (length ids)" and n: "Suc (length ids) < 2 ^ 64"
  shows "\<exists>offsets. for_each (csr_count R tmp) (map of_nat [0..<length ids]) (0, replicate (Suc (length ids)) 0) =
      Some (of_nat (length (concat (tmp_rows R tmp ids))), offsets) \<and>
    length offsets = Suc (length ids) \<and>
    (\<forall>i \<le> length ids. offsets ! i = of_nat (length (concat (take i (tmp_rows R tmp ids)))))"
proof -
  let ?rows = "tmp_rows R tmp ids"
  let ?sum = "\<lambda>i. of_nat (length (concat (take i ?rows))) :: uint64"
  have len: "length ?rows = length ids" by (simp add: tmp_rows_def)
  let ?I = "\<lambda>ys (total, offsets). total = ?sum (length ys) \<and> length offsets = Suc (length ids) \<and>
    (\<forall>i \<le> length ys. offsets ! i = ?sum i)"
  have "\<exists>st. for_each (csr_count R tmp) (map of_nat [0..<length ids]) (0, replicate (Suc (length ids)) 0) = Some st \<and>
      ?I (map of_nat [0..<length ids] :: uint64 list) st"
  proof (rule for_each_total)
    fix ys zs :: "uint64 list" and x st
    assume split: "map of_nat [0..<length ids] = ys @ x # zs" and I: "?I ys st"
    obtain total offsets where st: "st = (total, offsets)" by (cases st)
    let ?k = "length ys"
    have k: "?k < length ids" "x = of_nat ?k" using map_upt_split [OF split] by auto
    then obtain b where b: "tmp x = Some b" using dom by blast
    have "rb_ToArray R b = rb_ToArray R (the (tmp (of_nat ?k)))" using b k by simp
    then have card: "?sum ?k + bitmap64_Cardinality R b = ?sum (Suc ?k)"
      using k len length_concat_take_Suc [of ?k ?rows]
      by (simp add: tmp_rows_def bitmap64_Cardinality_def rb_GetCardinality_length del: take_Suc)
    have "unat (of_nat (Suc ?k) :: uint64) = Suc ?k" using k n by (intro unat_of_nat_64) simp
    then have "csr_count R tmp x st = Some (?sum (Suc ?k), offsets[Suc ?k := ?sum (Suc ?k)])"
      using I k b card by (simp add: csr_count_def st slice_set_def Let_def add.commute)
    moreover have "?I (ys @ [x]) (?sum (Suc ?k), offsets[Suc ?k := ?sum (Suc ?k)])"
      using I k by (auto simp: st nth_list_update le_Suc_eq)
    ultimately show "\<exists>s'. csr_count R tmp x st = Some s' \<and> ?I (ys @ [x]) s'" by blast
  qed simp
  then show ?thesis using len by auto
qed

lemma csr_fill_result:
  assumes dom: "dom tmp = dense (length ids)" and rel: "index_rel R tmp \<subseteq> dense (length ids) \<times> dense (length ids)"
    and rows: "csr_rows offsets (concat (tmp_rows R tmp ids)) (tmp_rows R tmp ids)"
  shows "for_each (csr_fill R tmp ids offsets) (map of_nat [0..<length ids])
      (replicate (length (concat (tmp_rows R tmp ids))) 0) = Some (concat (tmp_rows R tmp ids))"
proof -
  let ?rows = "tmp_rows R tmp ids"
  let ?sum = "\<lambda>i. length (concat (take i ?rows))"
  let ?T = "length (concat ?rows)"
  have len: "length ?rows = length ids" by (simp add: tmp_rows_def)
  have small: "Suc (length ids) < 2 ^ 64" "?T < 2 ^ 64" using rows by (simp_all add: csr_rows_def len)
  let ?I = "\<lambda>ys adj. adj = concat (take (length ys) ?rows) @ replicate (?T - ?sum (length ys)) 0"
  have "\<exists>st. for_each (csr_fill R tmp ids offsets) (map of_nat [0..<length ids]) (replicate ?T 0) = Some st \<and>
      ?I (map of_nat [0..<length ids] :: uint64 list) st"
  proof (rule for_each_total)
    fix ys zs :: "uint64 list" and x adj
    assume split: "map of_nat [0..<length ids] = ys @ x # zs" and I: "?I ys adj"
    let ?k = "length ys"
    have k: "?k < length ids" "x = of_nat ?k" using map_upt_split [OF split] by auto
    then obtain b where b: "tmp x = Some b" using dom by blast
    let ?A = "concat (take ?k ?rows)" and ?B = "replicate (?T - ?sum ?k) (0 :: uint64)"
    have row: "?rows ! ?k = map (\<lambda>a. ids ! unat a) (rb_ToArray R b)" using k b by (simp add: tmp_rows_def)
    have "\<forall>a \<in> elems R b. a \<in> dense (length ids)" using rel b by (auto simp: index_rel_def)
    then have mem: "\<forall>a \<in> elems R b. unat a < length ids" using small by auto
    have next_sum: "?sum (Suc ?k) = ?sum ?k + length (rb_ToArray R b)"
      using k length_concat_take_Suc [of ?k ?rows] by (simp add: len row del: take_Suc)
    have le: "?sum (Suc ?k) \<le> ?T" by (rule length_concat_take_le)
    have "for_each (csr_write ids) (rb_ToArray R b) (?A @ ?B, of_nat (length ?A)) =
        Some (?A @ map (\<lambda>a. ids ! unat a) (rb_ToArray R b) @ drop (length (rb_ToArray R b)) ?B,
          of_nat (length ?A + length (rb_ToArray R b)))"
      using mem next_sum le small by (intro csr_write_result) simp_all
    then have "csr_fill R tmp ids offsets x adj =
        Some (concat (take (Suc ?k) ?rows) @ replicate (?T - ?sum (Suc ?k)) 0)"
      using csr_rows_offsets(1) [OF rows, of ?k] k b row next_sum
      by (simp add: csr_fill_def I rb_Iterator_ToArray take_Suc_conv_app_nth len del: take_Suc)
    then show "\<exists>s'. csr_fill R tmp ids offsets x adj = Some s' \<and> ?I (ys @ [x]) s'" by simp
  qed simp
  then show ?thesis by (simp add: len)
qed

end

section \<open>The graph meets the interface\<close>

definition csr_repr :: "csrDigraph \<Rightarrow> uint64 list list \<Rightarrow> uint64 list list \<Rightarrow> bool" where
  "csr_repr g outRows inRows \<longleftrightarrow>
     (let ids = cs_denseIdxToID g in
      idx_inv (cs_idToDenseIdx g) ids \<and>
      length outRows = length ids \<and> length inRows = length ids \<and>
      csr_rows (cs_outOffsets g) (cs_outAdj g) outRows \<and> csr_rows (cs_inOffsets g) (cs_inAdj g) inRows \<and>
      (\<forall>row \<in> set outRows \<union> set inRows. distinct row \<and> set row \<subseteq> set ids) \<and>
      (\<forall>i < length ids. \<forall>j < length ids. ids ! j \<in> set (outRows ! i) \<longleftrightarrow> ids ! i \<in> set (inRows ! j)))"

definition csr_wf :: "csrDigraph \<Rightarrow> bool" where
  "csr_wf g \<longleftrightarrow> (\<exists>outRows inRows. csr_repr g outRows inRows)"

definition row_of :: "uint64 list list \<Rightarrow> uint64 list list \<Rightarrow> nat \<Rightarrow> direction \<Rightarrow> uint64 list" where
  "row_of outRows inRows i dir = (case dir of
     DirectionOutbound \<Rightarrow> outRows ! i | DirectionInbound \<Rightarrow> inRows ! i
   | DirectionBoth \<Rightarrow> outRows ! i @ inRows ! i)"

lemma csr_repr_idx:
  assumes "csr_repr g outRows inRows"
  obtains (absent) "cs_idx g node = None" "node \<notin> set (cs_denseIdxToID g)"
  | (row) i where "i < length (cs_denseIdxToID g)" "node = cs_denseIdxToID g ! i" "cs_idx g node = Some (of_nat i)"
proof (cases "cs_idx g node")
  case None
  with assms absent show ?thesis by (auto simp: csr_repr_def Let_def cs_idx_def idx_inv_def)
next
  case (Some k)
  have "idx_inv (cs_idToDenseIdx g) (cs_denseIdxToID g)" using assms by (simp add: csr_repr_def Let_def)
  with Some row show ?thesis by (auto simp: cs_idx_def idx_inv_Some)
qed

lemma cs_EachAdjacentNode_row:
  assumes "csr_repr g outRows inRows" "i < length (cs_denseIdxToID g)" "cs_idx g node = Some (of_nat i)"
  shows "cs_EachAdjacentNode g node dir delegate s = Some (each delegate (row_of outRows inRows i dir) s)"
proof -
  have rows: "csr_rows (cs_outOffsets g) (cs_outAdj g) outRows" "csr_rows (cs_inOffsets g) (cs_inAdj g) inRows"
    "i < length outRows" "i < length inRows"
    using assms by (auto simp: csr_repr_def Let_def)
  show ?thesis
    by (cases dir) (auto simp: cs_EachAdjacentNode_def assms(3) csr_scan_row [OF rows(1,3)]
        csr_scan_row [OF rows(2,4)] row_of_def each_append fst_each_on split: prod.split)
qed

lemma cs_adjacent_row:
  assumes "csr_repr g outRows inRows" "i < length (cs_denseIdxToID g)" "cs_idx g node = Some (of_nat i)"
  shows "dg_adjacent (cs_DirectedGraph g) node dir = row_of outRows inRows i dir"
  by (simp add: cs_DirectedGraph_def cs_EachAdjacentNode_row [OF assms] fold_snoc)

lemma cs_EachAdjacentNode_absent: "cs_idx g node = None \<Longrightarrow> cs_EachAdjacentNode g node dir delegate s = Some s"
  by (simp add: cs_EachAdjacentNode_def)

lemma cs_adjacent_absent: "cs_idx g node = None \<Longrightarrow> dg_adjacent (cs_DirectedGraph g) node dir = []"
  by (simp add: cs_DirectedGraph_def cs_EachAdjacentNode_absent)

lemma cs_adjacent_index:
  assumes "csr_repr g outRows inRows" "i < length (cs_denseIdxToID g)"
  shows "dg_adjacent (cs_DirectedGraph g) (cs_denseIdxToID g ! i) dir = row_of outRows inRows i dir"
proof -
  have "cs_idx g (cs_denseIdxToID g ! i) = Some (of_nat i)"
    using assms by (simp add: cs_idx_def csr_repr_def Let_def idx_inv_def)
  then show ?thesis by (rule cs_adjacent_row [OF assms])
qed

locale csr_graph =
  fixes g :: csrDigraph
  assumes csr_ok: "csr_wf g"
begin

text \<open>The iterator, the neighbour slice and the degree agree and never go out of range.\<close>

lemma cs_EachAdjacentNode_each:
  "cs_EachAdjacentNode g node dir delegate s = Some (each delegate (dg_adjacent (cs_DirectedGraph g) node dir) s)"
proof -
  obtain outRows inRows where r: "csr_repr g outRows inRows" using csr_ok by (auto simp: csr_wf_def)
  show ?thesis
    by (rule csr_repr_idx [OF r, of node])
      (simp_all add: cs_EachAdjacentNode_row [OF r] cs_adjacent_row [OF r] cs_adjacent_absent
        cs_EachAdjacentNode_absent)
qed

lemma cs_AdjacentNodes_eq: "cs_AdjacentNodes g node dir = Some (dg_adjacent (cs_DirectedGraph g) node dir)"
proof -
  obtain outRows inRows where r: "csr_repr g outRows inRows" using csr_ok by (auto simp: csr_wf_def)
  have rows: "csr_rows (cs_outOffsets g) (cs_outAdj g) outRows" "csr_rows (cs_inOffsets g) (cs_inAdj g) inRows"
    "length outRows = length (cs_denseIdxToID g)" "length inRows = length (cs_denseIdxToID g)"
    using r by (auto simp: csr_repr_def Let_def)
  show ?thesis
    by (rule csr_repr_idx [OF r, of node], cases dir)
      (auto simp: cs_AdjacentNodes_def cs_adjacent_absent cs_adjacent_row [OF r] csrRange_def rows
        csr_slice_row [OF rows(1)] csr_slice_row [OF rows(2)] row_of_def split: direction.splits)
qed

lemma cs_Degrees_eq: "cs_Degrees g node dir = Some (of_nat (length (dg_adjacent (cs_DirectedGraph g) node dir)))"
proof -
  obtain outRows inRows where r: "csr_repr g outRows inRows" using csr_ok by (auto simp: csr_wf_def)
  have rows: "csr_rows (cs_outOffsets g) (cs_outAdj g) outRows" "csr_rows (cs_inOffsets g) (cs_inAdj g) inRows"
    "length outRows = length (cs_denseIdxToID g)" "length inRows = length (cs_denseIdxToID g)"
    using r by (auto simp: csr_repr_def Let_def)
  show ?thesis
    by (rule csr_repr_idx [OF r, of node], cases dir)
      (auto simp: cs_Degrees_def cs_adjacent_absent cs_adjacent_row [OF r] rows
        csr_width_row [OF rows(1)] csr_width_row [OF rows(2)] row_of_def split: direction.splits)
qed

end

lemma csr_adjacent_iff:
  assumes "csr_repr g outRows inRows"
  shows "v \<in> set (dg_adjacent (cs_DirectedGraph g) u dir) \<longleftrightarrow>
    (\<exists>i < length (cs_denseIdxToID g). u = cs_denseIdxToID g ! i \<and> v \<in> set (row_of outRows inRows i dir))"
proof (rule csr_repr_idx [OF assms, of u])
  assume "cs_idx g u = None" "u \<notin> set (cs_denseIdxToID g)"
  then show ?thesis by (auto simp: cs_adjacent_absent)
next
  fix i
  assume i: "i < length (cs_denseIdxToID g)" "u = cs_denseIdxToID g ! i" "cs_idx g u = Some (of_nat i)"
  have "distinct (cs_denseIdxToID g)" using assms by (simp add: csr_repr_def Let_def idx_inv_def)
  then show ?thesis using i(1,2) by (auto simp: cs_adjacent_index [OF assms] nth_eq_iff_index_eq)
qed

lemma csr_repr_row_nodes:
  assumes "csr_repr g outRows inRows" "i < length (cs_denseIdxToID g)" "v \<in> set (row_of outRows inRows i dir)"
  shows "v \<in> set (cs_denseIdxToID g)"
proof -
  have "\<forall>row \<in> set outRows \<union> set inRows. set row \<subseteq> set (cs_denseIdxToID g)"
    "i < length outRows" "i < length inRows"
    using assms by (simp_all add: csr_repr_def Let_def)
  with assms(3) show ?thesis by (fastforce simp: row_of_def split: direction.splits)
qed

sublocale csr_graph \<subseteq> cs: directed_graph "cs_DirectedGraph g"
proof -
  obtain outRows inRows where r: "csr_repr g outRows inRows" using csr_ok by (auto simp: csr_wf_def)
  let ?ids = "cs_denseIdxToID g"
  have nodes: "dg_nodes (cs_DirectedGraph g) = ?ids" by (simp add: cs_DirectedGraph_def)
  have both: "ids ! j \<in> set (outRows ! i) \<longleftrightarrow> ids ! i \<in> set (inRows ! j)"
    if "ids = ?ids" "i < length ids" "j < length ids" for i j ids
    using r that by (simp add: csr_repr_def Let_def)
  show "directed_graph (cs_DirectedGraph g)"
  proof
    show "distinct (dg_nodes (cs_DirectedGraph g))"
      using r by (simp add: nodes csr_repr_def Let_def idx_inv_def)
    show "dg_NumNodes (cs_DirectedGraph g) = of_nat (length (dg_nodes (cs_DirectedGraph g)))"
      by (simp add: cs_DirectedGraph_def cs_NumNodes_def)
  next
    fix u v dir
    assume "v \<in> set (dg_adjacent (cs_DirectedGraph g) u dir)"
    then show "u \<in> set (dg_nodes (cs_DirectedGraph g)) \<and> v \<in> set (dg_nodes (cs_DirectedGraph g))"
      unfolding nodes csr_adjacent_iff [OF r] using csr_repr_row_nodes [OF r] by auto
  next
    fix u v
    show "v \<in> set (dg_adjacent (cs_DirectedGraph g) u DirectionOutbound) \<longleftrightarrow>
        u \<in> set (dg_adjacent (cs_DirectedGraph g) v DirectionInbound)"
    proof (cases "u \<in> set ?ids \<and> v \<in> set ?ids")
      case True
      then obtain i j where "i < length ?ids" "u = ?ids ! i" "j < length ?ids" "v = ?ids ! j"
        by (auto simp: in_set_conv_nth)
      then show ?thesis using both [OF refl, of i j] by (simp add: cs_adjacent_index [OF r] row_of_def)
    next
      case False
      then show ?thesis unfolding csr_adjacent_iff [OF r] using csr_repr_row_nodes [OF r] by auto
    qed
  next
    fix u
    show "set (dg_adjacent (cs_DirectedGraph g) u DirectionBoth) =
        set (dg_adjacent (cs_DirectedGraph g) u DirectionOutbound) \<union>
        set (dg_adjacent (cs_DirectedGraph g) u DirectionInbound)"
      by (rule csr_repr_idx [OF r, of u]) (simp_all add: cs_adjacent_absent cs_adjacent_row [OF r] row_of_def)
  qed
qed

section \<open>Build gives a graph with the builder's nodes and edges\<close>

context roaring64
begin

lemma tmp_rows_card:
  assumes "dom tmp = dense (length ids)" "length ids < 2 ^ 64"
  shows "length (concat (tmp_rows R tmp ids)) = card (index_rel R tmp)"
proof -
  let ?b = "\<lambda>u. the (tmp u)"
  have "index_rel R tmp = (SIGMA u : dom tmp. elems R (?b u))"
    by (auto simp: index_rel_def)
  then have "card (index_rel R tmp) = (\<Sum>u \<in> dense (length ids). card (elems R (?b u)))"
    unfolding assms(1) by (simp add: card_SigmaI)
  also have "\<dots> = (\<Sum>i < length ids. length (rb_ToArray R (?b (of_nat i))))"
    by (subst sum.reindex) (use assms(2) in \<open>auto simp: inj_on_def distinct_card\<close>)
  also have "\<dots> = length (concat (tmp_rows R tmp ids))"
    by (simp add: tmp_rows_def length_concat comp_def interv_sum_list_conv_sum_set_nat atLeast0LessThan)
  finally show ?thesis by simp
qed

text \<open>The rows hold the neighbours of the builder's bitmaps.\<close>

lemma tmp_rows_mem:
  assumes "idx_inv idTo ids" "dom tmp = dense (length ids)" "index_rel R tmp \<subseteq> dense (length ids) \<times> dense (length ids)"
    "i < length ids" "j < length ids"
  shows "ids ! j \<in> set (tmp_rows R tmp ids ! i) \<longleftrightarrow> (of_nat i, of_nat j) \<in> index_rel R tmp"
proof -
  have n: "length ids \<le> 2 ^ 64" using assms(1) distinct_uint64_length [of ids] by (simp add: idx_inv_def)
  obtain b where b: "tmp (of_nat i) = Some b" using assms(2,4) by blast
  have mem: "\<forall>a \<in> elems R b. \<exists>k < length ids. a = of_nat k" using assms(3) b by (auto simp: index_rel_def)
  have "ids ! j \<in> set (tmp_rows R tmp ids ! i) \<longleftrightarrow> (\<exists>a \<in> elems R b. ids ! j = ids ! unat a)"
    using assms(4) b by (auto simp: tmp_rows_def)
  also have "\<dots> \<longleftrightarrow> of_nat j \<in> elems R b"
  proof
    assume "\<exists>a \<in> elems R b. ids ! j = ids ! unat a"
    then obtain a where a: "a \<in> elems R b" "ids ! j = ids ! unat a" by blast
    with mem obtain k where "k < length ids" "a = of_nat k" by blast
    with a have "of_nat k \<in> elems R b" "k < length ids" "ids ! j = ids ! unat (of_nat k :: uint64)" by auto
    then show "of_nat j \<in> elems R b"
      using assms(1,5) n by (simp add: idx_inv_def nth_eq_iff_index_eq)
  qed (use assms(5) n in force)
  also have "\<dots> \<longleftrightarrow> (of_nat i, of_nat j) \<in> index_rel R tmp" using b by (simp add: index_rel_def)
  finally show ?thesis .
qed

lemma tmp_rows_row:
  assumes "idx_inv idTo ids" "dom tmp = dense (length ids)" "index_rel R tmp \<subseteq> dense (length ids) \<times> dense (length ids)"
    "row \<in> set (tmp_rows R tmp ids)"
  shows "distinct row" "set row \<subseteq> set ids"
proof -
  have n: "length ids \<le> 2 ^ 64" using assms(1) distinct_uint64_length [of ids] by (simp add: idx_inv_def)
  from assms(4) obtain i where i: "i < length ids" "row = map (\<lambda>a. ids ! unat a) (rb_ToArray R (the (tmp (of_nat i))))"
    by (auto simp: tmp_rows_def)
  from i(1) obtain b where b: "tmp (of_nat i) = Some b" using assms(2) by blast
  have "{of_nat i} \<times> elems R b \<subseteq> index_rel R tmp" using b by (auto simp: index_rel_def)
  with assms(3) have "elems R b \<subseteq> dense (length ids)" by blast
  then have mem: "\<forall>a \<in> elems R b. unat a < length ids" using n by auto
  show "set row \<subseteq> set ids" using i(2) b mem by auto
  have "inj_on (\<lambda>a. ids ! unat a) (elems R b)"
    using mem assms(1) by (auto simp: inj_on_def idx_inv_def nth_eq_iff_index_eq intro: word_unat_eq_iff [THEN iffD2])
  then show "distinct row" using i(2) b by (simp add: distinct_map)
qed

lemma card_cb_edges:
  assumes "cb_inv R s"
  shows "card (index_rel R (cb_outTmp s)) = card (cb_edges R s)"
proof -
  let ?ids = "cb_denseIdxToID s"
  have idx: "idx_inv (cb_idToDenseIdx s) ?ids"
    and rel: "index_rel R (cb_outTmp s) \<subseteq> dense (length ?ids) \<times> dense (length ?ids)"
    using assms by (auto simp: cb_inv_def Let_def)
  have n: "length ?ids \<le> 2 ^ 64" using idx distinct_uint64_length [of ?ids] by (simp add: idx_inv_def)
  let ?f = "\<lambda>i :: uint64. ?ids ! unat i"
  have f: "cb_idToDenseIdx s u = Some i \<longleftrightarrow> i \<in> dense (length ?ids) \<and> u = ?f i" for u i
    using n by (auto simp: idx_inv_Some [OF idx])
  have inj: "inj_on (map_prod ?f ?f) (dense (length ?ids) \<times> dense (length ?ids))"
    using idx n by (intro map_prod_inj_on) (auto simp: inj_on_def idx_inv_def nth_eq_iff_index_eq)
  have "cb_edges R s = map_prod ?f ?f ` index_rel R (cb_outTmp s)"
  proof -
    have "cb_edges R s = {(?f i, ?f j) |i j. (i, j) \<in> index_rel R (cb_outTmp s)}"
      unfolding cb_edges_def f using rel by blast
    then show ?thesis by force
  qed
  then show ?thesis using card_image [OF inj_on_subset [OF inj rel]] by simp
qed

lemma cb_Build_result:
  assumes inv: "cb_inv R s" and n: "Suc (length (cb_denseIdxToID s)) < 2 ^ 64" and m: "card (cb_edges R s) < 2 ^ 64"
  shows "\<exists>g. cb_Build R s = Some g \<and> csr_wf g \<and> cs_denseIdxToID g = cb_denseIdxToID s \<and>
     adj_rel (cs_DirectedGraph g) DirectionOutbound = cb_edges R s \<and>
     cs_NumEdges g = of_nat (card (cb_edges R s))"
proof -
  let ?ids = "cb_denseIdxToID s"
  let ?out = "tmp_rows R (cb_outTmp s) ?ids" and ?in = "tmp_rows R (cb_inTmp s) ?ids"
  have idx: "idx_inv (cb_idToDenseIdx s) ?ids"
    and dom: "dom (cb_outTmp s) = dense (length ?ids)" "dom (cb_inTmp s) = dense (length ?ids)"
    and rel: "index_rel R (cb_outTmp s) \<subseteq> dense (length ?ids) \<times> dense (length ?ids)"
    and conv: "index_rel R (cb_inTmp s) = (index_rel R (cb_outTmp s))\<inverse>"
    using inv by (auto simp: cb_inv_def Let_def)
  then have rel': "index_rel R (cb_inTmp s) \<subseteq> dense (length ?ids) \<times> dense (length ?ids)" by auto
  have len: "length ?out = length ?ids" "length ?in = length ?ids" by (simp_all add: tmp_rows_def)
  have n': "length ?ids < 2 ^ 64" using n by simp
  have tot: "length (concat ?out) = card (cb_edges R s)" "length (concat ?in) = card (cb_edges R s)"
    unfolding tmp_rows_card [OF dom(1) n'] tmp_rows_card [OF dom(2) n'] conv card_inverse card_cb_edges [OF inv]
    by (rule refl)+
  obtain oo where oo: "for_each (csr_count R (cb_outTmp s)) (map of_nat [0..<length ?ids]) (0, replicate (Suc (length ?ids)) 0) =
      Some (of_nat (length (concat ?out)), oo)" "csr_rows oo (concat ?out) ?out"
    using csr_count_result [OF dom(1) n] n m tot(1) by (auto simp: csr_rows_def len)
  obtain io where io: "for_each (csr_count R (cb_inTmp s)) (map of_nat [0..<length ?ids]) (0, replicate (Suc (length ?ids)) 0) =
      Some (of_nat (length (concat ?in)), io)" "csr_rows io (concat ?in) ?in"
    using csr_count_result [OF dom(2) n] n m tot(2) by (auto simp: csr_rows_def len)
  let ?g = "\<lparr>cs_idToDenseIdx = cb_idToDenseIdx s, cs_denseIdxToID = ?ids, cs_outOffsets = oo,
    cs_outAdj = concat ?out, cs_inOffsets = io, cs_inAdj = concat ?in\<rparr>"
  have w: "unat (of_nat (length ?ids) :: uint64) = length ?ids" "unat (of_nat (length ?ids) + 1 :: uint64) = Suc (length ?ids)"
    "unat (of_nat (length (concat ?out)) :: uint64) = length (concat ?out)"
    "unat (of_nat (length (concat ?in)) :: uint64) = length (concat ?in)"
    using n' m tot unat_of_nat_64 [OF n] by (simp_all add: add.commute)
  have run: "cb_Build R s = Some ?g"
    using for_each_both [OF oo(1) io(1)]
      for_each_both [OF csr_fill_result [OF dom(1) rel oo(2)] csr_fill_result [OF dom(2) rel' io(2)]]
    unfolding cb_Build_def Let_def w by (simp only: bind.bind_lunit prod.case w)
  have mem: "?ids ! j \<in> set (?out ! i) \<longleftrightarrow> (of_nat i, of_nat j) \<in> index_rel R (cb_outTmp s)"
    "?ids ! i \<in> set (?in ! j) \<longleftrightarrow> (of_nat i, of_nat j) \<in> index_rel R (cb_outTmp s)"
    if "i < length ?ids" "j < length ?ids" for i j
    using tmp_rows_mem [OF idx dom(1) rel that] tmp_rows_mem [OF idx dom(2) rel' that(2,1)] conv by auto
  have rows: "\<forall>row \<in> set ?out \<union> set ?in. distinct row \<and> set row \<subseteq> set ?ids"
    using tmp_rows_row [OF idx dom(1) rel] tmp_rows_row [OF idx dom(2) rel'] by blast
  have repr: "csr_repr ?g ?out ?in"
    using idx len oo(2) io(2) rows mem by (simp add: csr_repr_def)
  have "adj_rel (cs_DirectedGraph ?g) DirectionOutbound = cb_edges R s"
  proof (rule set_eqI, clarify)
    fix u v
    have "(u, v) \<in> adj_rel (cs_DirectedGraph ?g) DirectionOutbound \<longleftrightarrow>
        (\<exists>i < length ?ids. \<exists>j < length ?ids. u = ?ids ! i \<and> v = ?ids ! j \<and> ?ids ! j \<in> set (?out ! i))"
      (is "_ \<longleftrightarrow> ?R")
    proof
      assume "(u, v) \<in> adj_rel (cs_DirectedGraph ?g) DirectionOutbound"
      then obtain i where i: "i < length ?ids" "u = ?ids ! i" "v \<in> set (?out ! i)"
        unfolding adj_rel_iff csr_adjacent_iff [OF repr] by (auto simp: row_of_def)
      have "?out ! i \<in> set ?out \<union> set ?in" using i(1) len by simp
      with rows i(3) have "v \<in> set ?ids" by blast
      then obtain j where "j < length ?ids" "v = ?ids ! j" by (auto simp: in_set_conv_nth)
      with i show ?R by blast
    next
      assume ?R
      then show "(u, v) \<in> adj_rel (cs_DirectedGraph ?g) DirectionOutbound"
        unfolding adj_rel_iff csr_adjacent_iff [OF repr] by (auto simp: row_of_def)
    qed
    also have "\<dots> \<longleftrightarrow> (\<exists>i < length ?ids. \<exists>j < length ?ids. u = ?ids ! i \<and> v = ?ids ! j \<and>
        (of_nat i, of_nat j) \<in> index_rel R (cb_outTmp s))"
      by (simp add: mem(1) cong: conj_cong)
    also have "\<dots> \<longleftrightarrow> (u, v) \<in> cb_edges R s"
      by (auto simp: cb_edges_def idx_inv_Some [OF idx])
    finally show "(u, v) \<in> adj_rel (cs_DirectedGraph ?g) DirectionOutbound \<longleftrightarrow> (u, v) \<in> cb_edges R s" .
  qed
  with run repr tot show ?thesis by (auto simp: csr_wf_def cs_NumEdges_def)
qed

end

section \<open>Normalization keeps the compressed form\<close>

lemma fold_identity: "fold (\<lambda>x m. m(x \<mapsto> x)) xs m = (\<lambda>x. if x \<in> set xs then Some x else m x)"
  by (induction xs arbitrary: m) auto

lemma csr_rows_map:
  assumes "csr_rows offsets adj rows"
  shows "csr_rows offsets (map f adj) (map (map f) rows)"
  using assms by (auto simp: csr_rows_def take_map simp flip: map_concat)

context csr_graph
begin

lemma cs_Normalize_result:
  defines "ids \<equiv> cs_denseIdxToID g"
  obtains g' where "cs_Normalize g = (ids, g')" "csr_wf g'" "cs_denseIdxToID g' = map of_nat [0..<length ids]"
    "\<And>i dir. i < length ids \<Longrightarrow> map Some (dg_adjacent (cs_DirectedGraph g') (of_nat i) dir) =
       map (cs_idToDenseIdx g) (dg_adjacent (cs_DirectedGraph g) (ids ! i) dir)"
proof -
  obtain outRows inRows where r: "csr_repr g outRows inRows" using csr_ok by (auto simp: csr_wf_def)
  then have idx: "idx_inv (cs_idToDenseIdx g) ids"
    and len: "length outRows = length ids" "length inRows = length ids"
    and rows: "csr_rows (cs_outOffsets g) (cs_outAdj g) outRows" "csr_rows (cs_inOffsets g) (cs_inAdj g) inRows"
    and mem: "\<forall>row \<in> set outRows \<union> set inRows. distinct row \<and> set row \<subseteq> set ids"
    and both: "\<forall>i < length ids. \<forall>j < length ids. ids ! j \<in> set (outRows ! i) \<longleftrightarrow> ids ! i \<in> set (inRows ! j)"
    by (simp_all add: csr_repr_def Let_def ids_def)
  let ?f = "map_get (cs_idToDenseIdx g) 0"
  let ?dense = "map of_nat [0..<length ids] :: uint64 list"
  have n: "length ids < 2 ^ 64" using rows(1) len by (simp add: csr_rows_def)
  have f: "?f (ids ! i) = of_nat i" "cs_idToDenseIdx g (ids ! i) = Some (of_nat i)" if "i < length ids" for i
    using idx that by (simp_all add: idx_inv_def map_get_def)
  have inj: "inj_on ?f (set ids)" using n by (auto simp: inj_on_def in_set_conv_nth f)
  define g' where "g' = snd (cs_Normalize g)"
  have g': "g' = \<lparr>cs_idToDenseIdx = (\<lambda>x. if x \<in> set ?dense then Some x else None), cs_denseIdxToID = ?dense,
      cs_outOffsets = cs_outOffsets g, cs_outAdj = map ?f (cs_outAdj g),
      cs_inOffsets = cs_inOffsets g, cs_inAdj = map ?f (cs_inAdj g)\<rparr>"
    by (simp add: g'_def cs_Normalize_def Let_def fold_identity ids_def del: set_map)
  have row: "outRows ! i \<in> set outRows \<union> set inRows" "inRows ! i \<in> set outRows \<union> set inRows" if "i < length ids" for i
    using that len by auto
  have "csr_repr g' (map (map ?f) outRows) (map (map ?f) inRows)"
    unfolding csr_repr_def Let_def g'
  proof (intro conjI, simp_all only: csrDigraph.simps)
    show "idx_inv (\<lambda>x. if x \<in> set ?dense then Some x else None) ?dense"
      using n by (auto simp: idx_inv_def distinct_map inj_on_def split: if_splits)
    show "csr_rows (cs_outOffsets g) (map ?f (cs_outAdj g)) (map (map ?f) outRows)"
      "csr_rows (cs_inOffsets g) (map ?f (cs_inAdj g)) (map (map ?f) inRows)"
      by (rule csr_rows_map, fact)+
    have sub: "?f ` set ids \<subseteq> set ?dense" using f by (auto simp: in_set_conv_nth)
    show "\<forall>row \<in> set (map (map ?f) outRows) \<union> set (map (map ?f) inRows). distinct row \<and> set row \<subseteq> set ?dense"
    proof
      fix row
      assume "row \<in> set (map (map ?f) outRows) \<union> set (map (map ?f) inRows)"
      then obtain row0 where row0: "row0 \<in> set outRows \<union> set inRows" "row = map ?f row0" by auto
      with mem have "distinct row0" "set row0 \<subseteq> set ids" by blast+
      with row0(2) sub show "distinct row \<and> set row \<subseteq> set ?dense"
        using inj_on_subset [OF inj] by (simp only: distinct_map list.set_map) blast
    qed
    show "\<forall>i < length ?dense. \<forall>j < length ?dense. ?dense ! j \<in> set (map (map ?f) outRows ! i) \<longleftrightarrow>
        ?dense ! i \<in> set (map (map ?f) inRows ! j)"
    proof (intro allI impI)
      fix i j
      assume "i < length ?dense" "j < length ?dense"
      then have ij: "i < length ids" "j < length ids" by simp_all
      have "?dense ! j \<in> set (map (map ?f) outRows ! i) \<longleftrightarrow> ?f (ids ! j) \<in> ?f ` set (outRows ! i)"
        using ij len f by simp
      also have "\<dots> \<longleftrightarrow> ids ! j \<in> set (outRows ! i)"
        using inj mem row ij by (intro inj_on_image_mem_iff) auto
      also have "\<dots> \<longleftrightarrow> ids ! i \<in> set (inRows ! j)" using both ij by simp
      also have "\<dots> \<longleftrightarrow> ?f (ids ! i) \<in> ?f ` set (inRows ! j)"
        using inj mem row ij by (intro inj_on_image_mem_iff [symmetric]) auto
      also have "\<dots> \<longleftrightarrow> ?dense ! i \<in> set (map (map ?f) inRows ! j)" using ij len f by simp
      finally show "?dense ! j \<in> set (map (map ?f) outRows ! i) \<longleftrightarrow> ?dense ! i \<in> set (map (map ?f) inRows ! j)" .
    qed
  qed (simp_all add: len)
  note r' = this
  have "map Some (dg_adjacent (cs_DirectedGraph g') (of_nat i) dir) =
      map (cs_idToDenseIdx g) (dg_adjacent (cs_DirectedGraph g) (ids ! i) dir)" if i: "i < length ids" for i dir
  proof -
    have "set (row_of outRows inRows i dir) \<subseteq> set ids"
      using csr_repr_row_nodes [OF r] i by (auto simp: ids_def)
    then have "map (cs_idToDenseIdx g) (row_of outRows inRows i dir) = map (Some \<circ> ?f) (row_of outRows inRows i dir)"
      using idx by (auto simp: idx_inv_def map_get_def split: option.splits)
    moreover have "row_of (map (map ?f) outRows) (map (map ?f) inRows) i dir = map ?f (row_of outRows inRows i dir)"
      using i len by (simp add: row_of_def split: direction.splits)
    moreover have "dg_adjacent (cs_DirectedGraph g') (of_nat i) dir = row_of (map (map ?f) outRows) (map (map ?f) inRows) i dir"
      using cs_adjacent_index [OF r', of i dir] i by (simp add: g')
    ultimately show ?thesis using cs_adjacent_index [OF r, of i dir] i by (simp add: ids_def)
  qed
  moreover have "cs_Normalize g = (ids, g')" by (simp add: g'_def cs_Normalize_def Let_def ids_def)
  ultimately show ?thesis using that [of g'] r' by (auto simp: csr_wf_def g')
qed

lemma cs_distinct: "dir \<noteq> DirectionBoth \<Longrightarrow> distinct (dg_adjacent (cs_DirectedGraph g) u dir)"
proof -
  assume dir: "dir \<noteq> DirectionBoth"
  obtain outRows inRows where r: "csr_repr g outRows inRows" using csr_ok by (auto simp: csr_wf_def)
  then have rows: "\<forall>row \<in> set outRows \<union> set inRows. distinct row"
    "length outRows = length (cs_denseIdxToID g)" "length inRows = length (cs_denseIdxToID g)"
    by (auto simp: csr_repr_def Let_def)
  show ?thesis
    by (rule csr_repr_idx [OF r, of u])
      (use dir rows in \<open>auto simp: cs_adjacent_absent cs_adjacent_row [OF r] row_of_def split: direction.splits\<close>)
qed

lemma cs_Degrees_both:
  "cs_Degrees g u DirectionBoth = Some (of_nat (length (dg_adjacent (cs_DirectedGraph g) u DirectionOutbound)) +
     of_nat (length (dg_adjacent (cs_DirectedGraph g) u DirectionInbound)))"
proof -
  obtain outRows inRows where r: "csr_repr g outRows inRows" using csr_ok by (auto simp: csr_wf_def)
  show ?thesis
    by (rule csr_repr_idx [OF r, of u])
      (simp_all add: cs_Degrees_eq cs_adjacent_absent cs_adjacent_row [OF r] row_of_def)
qed

lemmas meets_interface = cs.directed_graph_axioms

end

section \<open>Properties\<close>

context roaring64
begin

lemma csr_BuildGraph_result:
  assumes "range_order adj order" "Suc (card (adj_nodes adj)) < 2 ^ 64" "card (adj_edges adj) < 2 ^ 64"
  obtains g where "csr_BuildGraph R adj order = Some g" "csr_wf g"
    "set (cs_denseIdxToID g) = adj_nodes adj" "adj_rel (cs_DirectedGraph g) DirectionOutbound = adj_edges adj"
    "cs_NumEdges g = of_nat (card (adj_edges adj))"
proof -
  obtain s where s: "csr_BuildGraph R adj order = cb_Build R s" "cb_inv R s" "cb_nodeset s = adj_nodes adj"
    "cb_edges R s = adj_edges adj"
    using csb.BuildGraph_result [OF assms(1), of "cb_Build R"] by (auto simp: csr_BuildGraph_def)
  have "length (cb_denseIdxToID s) = card (adj_nodes adj)"
    using s(2,3) by (simp add: cb_inv_def idx_inv_def cb_nodeset_def flip: distinct_card)
  then show ?thesis
    using cb_Build_result [OF s(2)] assms s that by (auto simp: cb_nodeset_def)
qed

end

text \<open>C4. \<open>BuildGraph\<close> with the CSR builder never goes out of range of a slice, and gives a graph that satisfies
  the interface, with the nodes and exactly the edges of the input, whatever order the code ranges over
  the input in; \<open>NumEdges\<close> is the number of distinct edges, and \<open>AdjacentNodes\<close>, \<open>Degrees\<close> and
  \<open>EachAdjacentNode\<close> agree on the neighbours of every node.\<close>

theorem csr_BuildGraph_correct:
  assumes "roaring64 R" and "range_order adj order"
    and "Suc (card (adj_nodes adj)) < 2 ^ 64" and "card (adj_edges adj) < 2 ^ 64"
  shows "\<exists>g. csr_BuildGraph R adj order = Some g \<and> directed_graph (cs_DirectedGraph g) \<and>
     set (dg_nodes (cs_DirectedGraph g)) = adj_nodes adj \<and>
     adj_rel (cs_DirectedGraph g) DirectionOutbound = adj_edges adj \<and>
     cs_NumEdges g = of_nat (card (adj_edges adj)) \<and>
     (\<forall>node dir. cs_AdjacentNodes g node dir = Some (dg_adjacent (cs_DirectedGraph g) node dir) \<and>
        cs_Degrees g node dir = Some (Degrees (cs_DirectedGraph g) node dir))"
proof -
  obtain g where g: "csr_BuildGraph R adj order = Some g" "csr_wf g"
    "set (cs_denseIdxToID g) = adj_nodes adj" "adj_rel (cs_DirectedGraph g) DirectionOutbound = adj_edges adj"
    "cs_NumEdges g = of_nat (card (adj_edges adj))"
    by (rule roaring64.csr_BuildGraph_result [OF assms])
  have loc: "csr_graph g" using g(2) by (rule csr_graph.intro)
  show ?thesis
    using g csr_graph.meets_interface [OF loc] csr_graph.cs_AdjacentNodes_eq [OF loc]
      csr_graph.cs_Degrees_eq [OF loc]
    by (simp add: Degrees_eq) (simp add: cs_DirectedGraph_def)
qed

lemma example_adjacency_sets:
  "adj_nodes example_adjacency = {1, 2, 3, 4}"
  "adj_edges example_adjacency = {(1, 2), (1, 3), (2, 4), (3, 4)}"
  by (auto simp: example_adjacency_def adj_nodes_def adj_edges_def split: if_splits)

theorem csr_BuildGraph_correct_witness:
  "\<exists>g. csr_BuildGraph list_bitmap example_adjacency [3, 1, 2] = Some g \<and> cs_NumEdges g = 4 \<and>
     (1, 3) \<in> adj_rel (cs_DirectedGraph g) DirectionOutbound"
proof -
  have "card {(1, 2), (1, 3), (2, 4), (3, 4) :: uint64 \<times> uint64} = 4" "card {1, 2, 3, 4 :: uint64} = 4" by simp_all
  then show ?thesis
    using csr_BuildGraph_correct [OF lbm.roaring64_axioms example_adjacency_order]
    by (auto simp: example_adjacency_sets simp del: adj_rel_iff)
qed

interpretation example_csr: csr_graph "the (csr_BuildGraph list_bitmap example_adjacency [3, 1, 2])"
proof
  have "Suc (card (adj_nodes example_adjacency)) < 2 ^ 64" "card (adj_edges example_adjacency) < 2 ^ 64"
    by (simp_all add: example_adjacency_sets)
  then obtain g where "csr_BuildGraph list_bitmap example_adjacency [3, 1, 2] = Some g" "csr_wf g"
    by (rule lbm.csr_BuildGraph_result [OF example_adjacency_order])
  then show "csr_wf (the (csr_BuildGraph list_bitmap example_adjacency [3, 1, 2]))" by simp
qed

text \<open>The two graph implementations agree: built from the same adjacency lists, the CSR graph and the adjacency
  map graph have the same nodes, the same adjacency in every direction and the same outbound and
  inbound degrees. They differ in the degree of a node in both directions: the CSR graph adds the two
  degrees and counts a neighbour on both sides twice, the adjacency map counts it once.\<close>

theorem csr_agrees_with_adjacency_map:
  assumes "roaring64 R" and "range_order adj order" and "range_order adj order'"
    and "Suc (card (adj_nodes adj)) < 2 ^ 64" and "card (adj_edges adj) < 2 ^ 64"
  defines "a \<equiv> BuildAdjacencyMapGraph R adj order'"
  shows "\<exists>g. csr_BuildGraph R adj order = Some g \<and>
     set (dg_nodes (cs_DirectedGraph g)) = set (dg_nodes (am_DirectedGraph R a)) \<and>
     (\<forall>dir. adj_rel (cs_DirectedGraph g) dir = adj_rel (am_DirectedGraph R a) dir) \<and>
     (\<forall>u. cs_Degrees g u DirectionOutbound = Some (am_Degrees R a u DirectionOutbound) \<and>
          cs_Degrees g u DirectionInbound = Some (am_Degrees R a u DirectionInbound) \<and>
          cs_Degrees g u DirectionBoth =
            Some (am_Degrees R a u DirectionOutbound + am_Degrees R a u DirectionInbound))"
proof -
  obtain g where g: "csr_BuildGraph R adj order = Some g" "csr_wf g"
    "set (cs_denseIdxToID g) = adj_nodes adj" "adj_rel (cs_DirectedGraph g) DirectionOutbound = adj_edges adj"
    "cs_NumEdges g = of_nat (card (adj_edges adj))"
    by (rule roaring64.csr_BuildGraph_result [OF assms(1,2,4,5)])
  note r = roaring64.BuildAdjacencyMapGraph_result [OF assms(1,3)]
  have loc: "csr_graph g" using g(2) by (rule csr_graph.intro)
  have loc': "adjacency_graph R a"
    using assms(1) r(3) by (simp add: adjacency_graph_def adjacency_graph_axioms_def a_def)
  note dg = csr_graph.meets_interface [OF loc] and dg' = adjacency_graph.meets_interface [OF loc']
  have out: "adj_rel (cs_DirectedGraph g) DirectionOutbound = adj_rel (am_DirectedGraph R a) DirectionOutbound"
    using g(4) r(1) adjacency_graph.am_adj_rel(1) [OF loc'] by (simp add: a_def)
  have inn: "adj_rel (cs_DirectedGraph g) DirectionInbound = adj_rel (am_DirectedGraph R a) DirectionInbound"
    using out directed_graph.adj_rel_Reverse [OF dg, of DirectionOutbound]
      directed_graph.adj_rel_Reverse [OF dg', of DirectionOutbound] by simp
  have both: "adj_rel h DirectionBoth = adj_rel h DirectionOutbound \<union> adj_rel h DirectionInbound"
    if "directed_graph h" for h
    using directed_graph.adjacent_both [OF that] by (auto simp: adj_rel_def)
  have all: "adj_rel (cs_DirectedGraph g) dir = adj_rel (am_DirectedGraph R a) dir" for dir
    by (cases dir) (simp_all add: out inn both [OF dg] both [OF dg'])
  have len: "length (dg_adjacent (cs_DirectedGraph g) u dir) = length (dg_adjacent (am_DirectedGraph R a) u dir)"
    if "dir \<noteq> DirectionBoth" for u dir
  proof -
    have "set (dg_adjacent (cs_DirectedGraph g) u dir) = set (dg_adjacent (am_DirectedGraph R a) u dir)"
      using all [of dir] by (simp only: adj_rel_Image [symmetric])
    moreover have "distinct (dg_adjacent (am_DirectedGraph R a) u dir)"
      using assms(1) by (auto simp: am_DirectedGraph_def roaring64.rb_Iterator_ToArray
          roaring64.rb_distinct split: option.splits)
    ultimately show ?thesis
      using csr_graph.cs_distinct [OF loc that] by (metis distinct_card)
  qed
  have deg: "cs_Degrees g u DirectionOutbound = Some (am_Degrees R a u DirectionOutbound)"
    "cs_Degrees g u DirectionInbound = Some (am_Degrees R a u DirectionInbound)"
    for u
    unfolding csr_graph.cs_Degrees_eq [OF loc] roaring64.am_Degrees_eq [OF assms(1)] by (simp_all add: len)
  have "cs_Degrees g u DirectionBoth = Some (am_Degrees R a u DirectionOutbound + am_Degrees R a u DirectionInbound)" for u
    unfolding csr_graph.cs_Degrees_both [OF loc] roaring64.am_Degrees_eq [OF assms(1)] by (simp add: len)
  note deg = deg this
  have "set (dg_nodes (cs_DirectedGraph g)) = set (dg_nodes (am_DirectedGraph R a))"
    using g(3) r(2) by (simp add: roaring64.dg_nodes_am [OF assms(1)] am_nodeset_def a_def) (simp add: cs_DirectedGraph_def)
  then show ?thesis using g(1) all deg by blast
qed

theorem csr_agrees_with_adjacency_map_witness:
  "\<exists>g. csr_BuildGraph list_bitmap [1 \<mapsto> [2], 2 \<mapsto> [1]] [1, 2] = Some g \<and>
     cs_Degrees g 1 DirectionBoth = Some 2 \<and>
     am_Degrees list_bitmap (BuildAdjacencyMapGraph list_bitmap [1 \<mapsto> [2], 2 \<mapsto> [1]] [2, 1]) 1 DirectionBoth = 1"
proof -
  let ?adj = "[1 \<mapsto> [2], 2 \<mapsto> [1]] :: uint64 \<rightharpoonup> uint64 list"
  have o: "range_order ?adj [1, 2]" "range_order ?adj [2, 1]" by (auto simp: range_order_def)
  have sets: "adj_nodes ?adj = {1, 2}" "adj_edges ?adj = {(1, 2), (2, 1)}"
    by (auto simp: adj_nodes_def adj_edges_def split: if_splits)
  have c: "Suc (card (adj_nodes ?adj)) < 2 ^ 64" "card (adj_edges ?adj) < 2 ^ 64" by (simp_all add: sets)
  let ?a = "BuildAdjacencyMapGraph list_bitmap ?adj [2, 1]"
  have "am_Degrees list_bitmap ?a 1 DirectionBoth = 1" "am_Degrees list_bitmap ?a 1 DirectionOutbound = 1"
    "am_Degrees list_bitmap ?a 1 DirectionInbound = 1"
    by code_simp+
  then show ?thesis
    using csr_agrees_with_adjacency_map [OF lbm.roaring64_axioms o c] by auto
qed

text \<open>\<open>Normalize\<close> of the CSR graph returns the original identifiers in dense order and a graph on the dense
  indices whose adjacency lists are the original ones, in the same order, with every identifier
  replaced by its index.\<close>

theorem cs_Normalize_relabels:
  assumes "csr_graph g"
  shows "\<exists>g'. cs_Normalize g = (cs_denseIdxToID g, g') \<and> csr_graph g' \<and>
     dg_nodes (cs_DirectedGraph g') = map of_nat [0..<length (cs_denseIdxToID g)] \<and>
     (\<forall>i < length (cs_denseIdxToID g). \<forall>dir. map Some (dg_adjacent (cs_DirectedGraph g') (of_nat i) dir) =
       map (cs_idToDenseIdx g) (dg_adjacent (cs_DirectedGraph g) (cs_denseIdxToID g ! i) dir))"
proof -
  obtain g' where "cs_Normalize g = (cs_denseIdxToID g, g')" "csr_wf g'"
    "cs_denseIdxToID g' = map of_nat [0..<length (cs_denseIdxToID g)]"
    "\<And>i dir. i < length (cs_denseIdxToID g) \<Longrightarrow> map Some (dg_adjacent (cs_DirectedGraph g') (of_nat i) dir) =
       map (cs_idToDenseIdx g) (dg_adjacent (cs_DirectedGraph g) (cs_denseIdxToID g ! i) dir)"
    by (rule csr_graph.cs_Normalize_result [OF assms]) blast
  then show ?thesis by (auto simp: csr_graph_def cs_DirectedGraph_def)
qed

theorem cs_Normalize_relabels_witness:
  "\<exists>g'. cs_Normalize (the (csr_BuildGraph list_bitmap example_adjacency [3, 1, 2])) = ([3, 4, 1, 2], g') \<and>
     dg_nodes (cs_DirectedGraph g') = [0, 1, 2, 3]"
proof -
  have ids: "cs_denseIdxToID (the (csr_BuildGraph list_bitmap example_adjacency [3, 1, 2])) = [3, 4, 1, 2]"
    by code_simp
  show ?thesis
    using cs_Normalize_relabels [OF example_csr.csr_graph_axioms] by (auto simp: ids upt_rec)
qed

end
