(* ===== verification/Algo_Scc.thy ===== *)
theory Algo_Scc
  imports Dg_Csr
begin

text \<open>
  src/algo/scc.go: \<open>StronglyConnectedComponents\<close>, Tarjan's algorithm with an explicit stack of
  cursors instead of recursion.

  The two Go slices used as stacks (\<open>stack\<close>, \<open>dfsStack\<close>) are lists with the top of the stack at
  the head. \<open>tarjan_step\<close> is one iteration of the loop over \<open>dfsStack\<close>; popping an empty Tarjan
  stack is a panic (\<open>None\<close>). The first sections hold the model, the next ones the
  invariant as conditions on sets of nodes (\<open>reach_ok\<close>) with one lemma per kind of step, the last
  ones the invariant of the program state, termination and the theorems.
\<close>

section \<open>The algorithm\<close>

record descentCursor =
  dc_id :: uint64
  dc_branches :: "uint64 list"
  dc_branchIdx :: nat

record 'b tarjan =
  tj_index :: nat
  tj_discIdx :: "uint64 \<rightharpoonup> nat"
  tj_lowLink :: "uint64 \<rightharpoonup> nat"
  tj_onStack :: 'b
  tj_stack :: "uint64 list"
  tj_dfsStack :: "descentCursor list"
  tj_components :: "'b list"
  tj_nodeToComp :: "uint64 \<rightharpoonup> uint64"

definition tarjan_init :: "'b roaring64_ops \<Rightarrow> 'b tarjan" where
  "tarjan_init R = \<lparr>tj_index = 0, tj_discIdx = Map.empty, tj_lowLink = Map.empty,
     tj_onStack = NewBitmap64 R, tj_stack = [], tj_dfsStack = [], tj_components = [], tj_nodeToComp = Map.empty\<rparr>"

definition tarjanPush :: "'b roaring64_ops \<Rightarrow> uint64 \<Rightarrow> 'b tarjan \<Rightarrow> 'b tarjan" where
  "tarjanPush R v s = s\<lparr>tj_discIdx := (tj_discIdx s)(v \<mapsto> tj_index s),
     tj_lowLink := (tj_lowLink s)(v \<mapsto> tj_index s),
     tj_index := tj_index s + 1,
     tj_stack := v # tj_stack s,
     tj_onStack := bitmap64_Add R (tj_onStack s) [v]\<rparr>"

text \<open>Pushing a fresh cursor and the vertex, both for a start node and for an unvisited neighbour.\<close>

definition descend :: "'b roaring64_ops \<Rightarrow> DirectedGraph \<Rightarrow> uint64 \<Rightarrow> 'b tarjan \<Rightarrow> 'b tarjan" where
  "descend R g v s = tarjanPush R v (s\<lparr>tj_dfsStack :=
     \<lparr>dc_id = v, dc_branches = AdjacentNodes g v DirectionOutbound, dc_branchIdx = 0\<rparr> # tj_dfsStack s\<rparr>)"

text \<open>The inner loop that unwinds the Tarjan stack down to the root of a component.\<close>

fun unwind ::
    "'b roaring64_ops \<Rightarrow> uint64 \<Rightarrow> uint64 \<Rightarrow> uint64 list \<Rightarrow> 'b \<Rightarrow> 'b \<Rightarrow> (uint64 \<rightharpoonup> uint64) \<Rightarrow>
     (uint64 list \<times> 'b \<times> 'b \<times> (uint64 \<rightharpoonup> uint64)) option" where
  "unwind R compIdx root [] onStack compBitmap nodeToComp = None"
| "unwind R compIdx root (vertex # rest) onStack compBitmap nodeToComp =
     (let onStack' = bitmap64_Remove R onStack vertex;
          compBitmap' = bitmap64_Add R compBitmap [vertex];
          nodeToComp' = nodeToComp(vertex \<mapsto> compIdx)
      in if vertex = root then Some (rest, onStack', compBitmap', nodeToComp')
         else unwind R compIdx root rest onStack' compBitmap' nodeToComp')"

definition lower :: "(uint64 \<rightharpoonup> nat) \<Rightarrow> uint64 \<Rightarrow> nat \<Rightarrow> (uint64 \<rightharpoonup> nat)" where
  "lower lowLink v bound = (if map_get lowLink 0 v > bound then lowLink(v \<mapsto> bound) else lowLink)"

text \<open>The branch that descends into the next neighbour.\<close>

definition tarjan_branch ::
    "'b roaring64_ops \<Rightarrow> DirectedGraph \<Rightarrow> 'b tarjan \<Rightarrow> descentCursor \<Rightarrow> descentCursor list \<Rightarrow> 'b tarjan" where
  "tarjan_branch R g s nextEntry rest =
     (let neighbour = dc_branches nextEntry ! dc_branchIdx nextEntry;
          s1 = s\<lparr>tj_dfsStack := nextEntry\<lparr>dc_branchIdx := dc_branchIdx nextEntry + 1\<rparr> # rest\<rparr>
      in if tj_discIdx s1 neighbour = None then descend R g neighbour s1
         else if bitmap64_Contains R (tj_onStack s1) neighbour
         then s1\<lparr>tj_lowLink := lower (tj_lowLink s1) (dc_id nextEntry) (map_get (tj_discIdx s1) 0 neighbour)\<rparr>
         else s1)"

text \<open>The branch that pops a finished cursor, propagates its low-link and emits a component.\<close>

definition tarjan_pop ::
    "'b roaring64_ops \<Rightarrow> 'b tarjan \<Rightarrow> descentCursor \<Rightarrow> descentCursor list \<Rightarrow> 'b tarjan option" where
  "tarjan_pop R s nextEntry rest =
     (let v = dc_id nextEntry;
          s1 = s\<lparr>tj_dfsStack := rest,
                 tj_lowLink := (case rest of [] \<Rightarrow> tj_lowLink s
                   | parent # _ \<Rightarrow> lower (tj_lowLink s) (dc_id parent) (map_get (tj_lowLink s) 0 v))\<rparr>
      in if map_get (tj_lowLink s1) 0 v = map_get (tj_discIdx s1) 0 v
         then map_option (\<lambda>(stack, onStack, compBitmap, nodeToComp).
                s1\<lparr>tj_stack := stack, tj_onStack := onStack, tj_nodeToComp := nodeToComp,
                   tj_components := tj_components s1 @ [compBitmap]\<rparr>)
              (unwind R (of_nat (length (tj_components s1))) v (tj_stack s1) (tj_onStack s1)
                 (NewBitmap64 R) (tj_nodeToComp s1))
         else Some s1)"

definition tarjan_step :: "'b roaring64_ops \<Rightarrow> DirectedGraph \<Rightarrow> 'b tarjan \<Rightarrow> 'b tarjan option" where
  "tarjan_step R g s = (case tj_dfsStack s of
     [] \<Rightarrow> None
   | nextEntry # rest \<Rightarrow>
       if dc_branchIdx nextEntry < length (dc_branches nextEntry)
       then Some (tarjan_branch R g s nextEntry rest)
       else tarjan_pop R s nextEntry rest)"

definition tarjan_start :: "'b roaring64_ops \<Rightarrow> DirectedGraph \<Rightarrow> uint64 \<Rightarrow> 'b tarjan \<Rightarrow> 'b tarjan option" where
  "tarjan_start R g start s =
     (if tj_discIdx s start \<noteq> None then Some s
      else loop (\<lambda>s. tj_dfsStack s \<noteq> []) (tarjan_step R g) (descend R g start s))"

definition StronglyConnectedComponents ::
    "'b roaring64_ops \<Rightarrow> DirectedGraph \<Rightarrow> ('b list \<times> (uint64 \<rightharpoonup> uint64)) option" where
  "StronglyConnectedComponents R g =
     map_option (\<lambda>s. (tj_components s, tj_nodeToComp s))
       (EachNode g (\<lambda>start st. (Option.bind st (tarjan_start R g start), True)) (Some (tarjan_init R)))"

section \<open>Strongly connected components of a relation\<close>

definition scc_of :: "'a rel \<Rightarrow> 'a \<Rightarrow> 'a set" where
  "scc_of E v = {u. (v, u) \<in> E\<^sup>* \<and> (u, v) \<in> E\<^sup>*}"

lemma scc_of_self [simp]: "v \<in> scc_of E v"
  by (simp add: scc_of_def)

lemma scc_of_eq: "u \<in> scc_of E v \<Longrightarrow> scc_of E u = scc_of E v"
  by (auto simp: scc_of_def intro: rtrancl_trans)

section \<open>The invariant on sets of nodes\<close>

text \<open>
  \<open>D\<close> and \<open>low\<close> are the discovery index and the low-link, \<open>S\<close> the nodes on the Tarjan stack, \<open>Q\<close> those on
  the path of cursors, \<open>pr\<close> the edges already looked at. Every node of the stack reaches
  every later one and some path node found before it; a low-link is the index of a stack node
  the path node reaches; and an edge that was looked at and jumps below a path node is
  recorded in the low-link of that node or of a later one.
\<close>

definition reach_ok ::
    "uint64 rel \<Rightarrow> (uint64 \<Rightarrow> nat) \<Rightarrow> (uint64 \<Rightarrow> nat) \<Rightarrow> uint64 set \<Rightarrow> uint64 set \<Rightarrow> uint64 rel \<Rightarrow> bool" where
  "reach_ok E D low S Q pr \<longleftrightarrow>
     (\<forall>x \<in> S. \<forall>y \<in> S. D x \<le> D y \<longrightarrow> (x, y) \<in> E\<^sup>*) \<and>
     (\<forall>u \<in> S. \<exists>p \<in> Q. D p \<le> D u \<and> (u, p) \<in> E\<^sup>*) \<and>
     (\<forall>p \<in> Q. low p \<le> D p \<and> (\<exists>x \<in> S. D x = low p \<and> (p, x) \<in> E\<^sup>*)) \<and>
     (\<forall>u x q. (u, x) \<in> pr \<longrightarrow> u \<in> S \<longrightarrow> x \<in> S \<longrightarrow> q \<in> Q \<longrightarrow> D x < D q \<longrightarrow> D q \<le> D u \<longrightarrow>
        (\<exists>p \<in> Q. D q \<le> D p \<and> low p \<le> D x))"

lemma reach_okD:
  assumes "reach_ok E D low S Q pr"
  shows "x \<in> S \<Longrightarrow> y \<in> S \<Longrightarrow> D x \<le> D y \<Longrightarrow> (x, y) \<in> E\<^sup>*"
    and "u \<in> S \<Longrightarrow> \<exists>p \<in> Q. D p \<le> D u \<and> (u, p) \<in> E\<^sup>*"
    and "p \<in> Q \<Longrightarrow> low p \<le> D p"
    and "p \<in> Q \<Longrightarrow> \<exists>x \<in> S. D x = low p \<and> (p, x) \<in> E\<^sup>*"
    and "(u, x) \<in> pr \<Longrightarrow> u \<in> S \<Longrightarrow> x \<in> S \<Longrightarrow> q \<in> Q \<Longrightarrow> D x < D q \<Longrightarrow> D q \<le> D u \<Longrightarrow>
           \<exists>p \<in> Q. D q \<le> D p \<and> low p \<le> D x"
  using assms unfolding reach_ok_def by simp_all

lemma reach_okI:
  assumes "\<And>x y. x \<in> S \<Longrightarrow> y \<in> S \<Longrightarrow> D x \<le> D y \<Longrightarrow> (x, y) \<in> E\<^sup>*"
    and "\<And>u. u \<in> S \<Longrightarrow> \<exists>p \<in> Q. D p \<le> D u \<and> (u, p) \<in> E\<^sup>*"
    and "\<And>p. p \<in> Q \<Longrightarrow> low p \<le> D p"
    and "\<And>p. p \<in> Q \<Longrightarrow> \<exists>x \<in> S. D x = low p \<and> (p, x) \<in> E\<^sup>*"
    and "\<And>u x q. (u, x) \<in> pr \<Longrightarrow> u \<in> S \<Longrightarrow> x \<in> S \<Longrightarrow> q \<in> Q \<Longrightarrow> D x < D q \<Longrightarrow> D q \<le> D u \<Longrightarrow>
           \<exists>p \<in> Q. D q \<le> D p \<and> low p \<le> D x"
  shows "reach_ok E D low S Q pr"
  using assms unfolding reach_ok_def by simp

text \<open>From any node of the stack the last node of the path is reachable.\<close>

lemma reach_ok_top:
  assumes "reach_ok E D low S Q pr" "Q \<subseteq> S" "w \<in> Q" "\<forall>p \<in> Q. D p \<le> D w" "u \<in> S"
  shows "(u, w) \<in> E\<^sup>*"
proof -
  from reach_okD(2) [OF assms(1,5)] obtain p where p: "p \<in> Q" "(u, p) \<in> E\<^sup>*" by blast
  with assms(2,3,4) have "(p, w) \<in> E\<^sup>*" by (intro reach_okD(1) [OF assms(1)]) auto
  with p(2) show ?thesis by (rule rtrancl_trans)
qed

text \<open>A new node is pushed on the stack and on the path.\<close>

lemma reach_ok_push:
  assumes ok: "reach_ok E D low S Q pr" and "Q \<subseteq> S" "n \<notin> S"
    and k: "\<forall>x \<in> S. D x < k" and reach: "\<forall>x \<in> S. (x, n) \<in> E\<^sup>*"
    and pr': "\<And>u x. (u, x) \<in> pr' \<Longrightarrow> u \<noteq> n \<and> (u \<in> S \<longrightarrow> x \<in> S \<longrightarrow> (u, x) \<in> pr)"
  shows "reach_ok E (D(n := k)) (low(n := k)) (insert n S) (insert n Q) pr'"
proof (rule reach_okI)
  fix x y
  assume "x \<in> insert n S" "y \<in> insert n S" "(D(n := k)) x \<le> (D(n := k)) y"
  then show "(x, y) \<in> E\<^sup>*"
    using reach k reach_okD(1) [OF ok] assms(3) by (cases "x = n"; cases "y = n") fastforce+
next
  fix u
  assume u: "u \<in> insert n S"
  show "\<exists>p \<in> insert n Q. (D(n := k)) p \<le> (D(n := k)) u \<and> (u, p) \<in> E\<^sup>*"
  proof (cases "u = n")
    case False
    with u reach_okD(2) [OF ok] obtain p where "p \<in> Q" "D p \<le> D u" "(u, p) \<in> E\<^sup>*" by blast
    moreover from this assms(2,3) have "p \<noteq> n" by auto
    ultimately show ?thesis using False by (intro bexI [of _ p]) auto
  qed auto
next
  fix p
  assume p: "p \<in> insert n Q"
  show "(low(n := k)) p \<le> (D(n := k)) p" using p reach_okD(3) [OF ok] by auto
  show "\<exists>x \<in> insert n S. (D(n := k)) x = (low(n := k)) p \<and> (p, x) \<in> E\<^sup>*"
  proof (cases "p = n")
    case False
    with p reach_okD(4) [OF ok] obtain x where "x \<in> S" "D x = low p" "(p, x) \<in> E\<^sup>*" by blast
    moreover from this assms(3) have "x \<noteq> n" by auto
    ultimately show ?thesis using False by (intro bexI [of _ x]) auto
  qed auto
next
  fix u x q
  assume a: "(u, x) \<in> pr'" "u \<in> insert n S" "x \<in> insert n S" "q \<in> insert n Q"
    "(D(n := k)) x < (D(n := k)) q" "(D(n := k)) q \<le> (D(n := k)) u"
  from pr' [OF a(1)] a(2) have u: "u \<noteq> n" "u \<in> S" by auto
  with a(6) k have q: "q \<noteq> n" by auto
  with a(4) have q': "q \<in> Q" by simp
  have "D q < k" using q' k assms(2) by blast
  with a(5) q have x: "x \<noteq> n" by auto
  with a(3) pr' [OF a(1)] u have "(u, x) \<in> pr" "x \<in> S" by auto
  with a u q q' x reach_okD(5) [OF ok, of u x q] obtain p where p: "p \<in> Q" "D q \<le> D p" "low p \<le> D x" by auto
  moreover from p(1) assms(2,3) have "p \<noteq> n" by auto
  ultimately show "\<exists>p \<in> insert n Q. (D(n := k)) q \<le> (D(n := k)) p \<and> (low(n := k)) p \<le> (D(n := k)) x"
    using q x by (intro bexI [of _ p]) auto
qed

text \<open>An edge from the last path node to a visited node is looked at.\<close>

lemma reach_ok_edge:
  assumes ok: "reach_ok E D low S Q pr"
    and v: "v \<in> Q" "(v, x0) \<in> E" and pr': "\<And>u x. (u, x) \<in> pr' \<Longrightarrow> (u, x) \<in> pr \<or> (u, x) = (v, x0)"
    and low': "\<And>p. low' p = (if p = v \<and> x0 \<in> S then min (low v) (D x0) else low p)"
  shows "reach_ok E D low' S Q pr'"
proof (rule reach_okI)
  fix p
  assume p: "p \<in> Q"
  show "low' p \<le> D p" using reach_okD(3) [OF ok p] by (auto simp: low')
  show "\<exists>x \<in> S. D x = low' p \<and> (p, x) \<in> E\<^sup>*"
    using reach_okD(4) [OF ok p] v(2) by (auto simp: low' min_def)
next
  fix u x q
  assume a: "(u, x) \<in> pr'" "u \<in> S" "x \<in> S" "q \<in> Q" "D x < D q" "D q \<le> D u"
  have le: "low' p \<le> low p" for p by (simp add: low')
  show "\<exists>p \<in> Q. D q \<le> D p \<and> low' p \<le> D x"
  proof (cases "(u, x) = (v, x0)")
    case True
    with a v show ?thesis by (intro bexI [of _ v]) (auto simp: low')
  next
    case False
    with pr' [OF a(1)] reach_okD(5) [OF ok _ a(2-6)] le show ?thesis by (meson le_trans)
  qed
qed (use reach_okD(1,2) [OF ok] in auto)

text \<open>A finished node that is not the root of a component leaves the path.\<close>

lemma reach_ok_join:
  assumes ok: "reach_ok E D low S Q pr" and sub: "Q \<subseteq> S"
    and w: "w \<in> Q" "low w < D w" and v: "v \<in> Q" "v \<noteq> w" "D v \<le> D w" "\<forall>p \<in> Q - {w}. D p \<le> D v"
    and low': "\<And>p. low' p = (if p = v then min (low v) (low w) else low p)"
  shows "reach_ok E D low' S (Q - {w}) pr"
proof (rule reach_okI)
  fix u
  assume "u \<in> S"
  then obtain p where p: "p \<in> Q" "D p \<le> D u" "(u, p) \<in> E\<^sup>*" using reach_okD(2) [OF ok] by blast
  show "\<exists>p \<in> Q - {w}. D p \<le> D u \<and> (u, p) \<in> E\<^sup>*"
  proof (cases "p = w")
    case True
    obtain x where x: "x \<in> S" "D x = low w" "(w, x) \<in> E\<^sup>*" using reach_okD(4) [OF ok w(1)] by blast
    obtain p' where p': "p' \<in> Q" "D p' \<le> D x" "(x, p') \<in> E\<^sup>*" using reach_okD(2) [OF ok x(1)] by blast
    have "(u, p') \<in> E\<^sup>*" using p(3) x(3) p'(3) True by (meson rtrancl_trans)
    moreover have "p' \<noteq> w" "D p' \<le> D u" using p'(2) x(2) w(2) p(2) True by auto
    ultimately show ?thesis using p'(1) by blast
  qed (use p in blast)
next
  fix p
  assume p: "p \<in> Q - {w}"
  show "low' p \<le> D p" using reach_okD(3) [OF ok, of p] p by (auto simp: low')
  have "(v, w) \<in> E\<^sup>*" using v(1,3) w(1) sub by (intro reach_okD(1) [OF ok]) auto
  then show "\<exists>x \<in> S. D x = low' p \<and> (p, x) \<in> E\<^sup>*"
    using reach_okD(4) [OF ok, of p] reach_okD(4) [OF ok w(1)] p
    by (auto simp: low' min_def intro: rtrancl_trans)
next
  fix u x q
  assume a: "(u, x) \<in> pr" "u \<in> S" "x \<in> S" "q \<in> Q - {w}" "D x < D q" "D q \<le> D u"
  then obtain p where p: "p \<in> Q" "D q \<le> D p" "low p \<le> D x" using reach_okD(5) [OF ok, of u x q] by blast
  show "\<exists>p \<in> Q - {w}. D q \<le> D p \<and> low' p \<le> D x"
  proof (cases "p = w")
    case True
    with p a(4) v show ?thesis by (intro bexI [of _ v]) (auto simp: low')
  next
    case False
    with p show ?thesis by (intro bexI [of _ p]) (auto simp: low')
  qed
qed (use reach_okD(1) [OF ok] in auto)

text \<open>The root of a component leaves the path, and its component the stack.\<close>

lemma reach_ok_root:
  assumes ok: "reach_ok E D low S Q pr" and w: "w \<in> Q" "low w = D w" "\<forall>p \<in> Q - {w}. D p < D w"
  shows "reach_ok E D low {u \<in> S. D u < D w} (Q - {w}) pr"
proof (rule reach_okI)
  fix u
  assume "u \<in> {u \<in> S. D u < D w}"
  with reach_okD(2) [OF ok, of u] show "\<exists>p \<in> Q - {w}. D p \<le> D u \<and> (u, p) \<in> E\<^sup>*" by fastforce
next
  fix p
  assume p: "p \<in> Q - {w}"
  then show low: "low p \<le> D p" using reach_okD(3) [OF ok] by blast
  obtain x where "x \<in> S" "D x = low p" "(p, x) \<in> E\<^sup>*" using p reach_okD(4) [OF ok] by blast
  moreover have "D p < D w" using p w(3) by blast
  ultimately show "\<exists>x \<in> {u \<in> S. D u < D w}. D x = low p \<and> (p, x) \<in> E\<^sup>*" using low by auto
next
  fix u x q
  assume a: "(u, x) \<in> pr" "u \<in> {u \<in> S. D u < D w}" "x \<in> {u \<in> S. D u < D w}" "q \<in> Q - {w}" "D x < D q" "D q \<le> D u"
  then obtain p where p: "p \<in> Q" "D q \<le> D p" "low p \<le> D x" using reach_okD(5) [OF ok, of u x q] by blast
  with a(3) w(2) have "p \<noteq> w" by auto
  with p show "\<exists>p \<in> Q - {w}. D q \<le> D p \<and> low p \<le> D x" by blast
qed (use reach_okD(1) [OF ok] in auto)

text \<open>When the last path node is a root, the stack from it upwards is its component.\<close>

lemma reach_ok_component:
  assumes ok: "reach_ok E D low S Q pr" and sub: "Q \<subseteq> S"
    and w: "w \<in> Q" "low w = D w" "\<forall>p \<in> Q - {w}. D p < D w"
    and seen: "\<And>u x. u \<in> S \<Longrightarrow> D w \<le> D u \<Longrightarrow> (u, x) \<in> E \<Longrightarrow> (u, x) \<in> pr \<and> x \<in> S \<union> B"
    and closed: "E `` B \<subseteq> B" and disj: "S \<inter> B = {}"
  defines "T \<equiv> {u \<in> S. D w \<le> D u}"
  shows "E `` T \<subseteq> T \<union> B" and "T = scc_of E w"
proof -
  show sub': "E `` T \<subseteq> T \<union> B"
  proof
    fix x
    assume "x \<in> E `` T"
    then obtain u where u: "u \<in> S" "D w \<le> D u" "(u, x) \<in> E" by (auto simp: T_def)
    note s = seen [OF u]
    show "x \<in> T \<union> B"
    proof (cases "x \<in> S \<and> D x < D w")
      case True
      with reach_okD(5) [OF ok, of u x w] s u w obtain p where p: "p \<in> Q" "D w \<le> D p" "low p \<le> D x" by blast
      with w(3) have "p = w" by (metis Diff_iff empty_iff insert_iff not_less)
      with p w(2) True show ?thesis by simp
    qed (use s in \<open>auto simp: T_def\<close>)
  qed
  have wS: "w \<in> S" using w(1) sub by blast
  have top: "\<forall>p \<in> Q. D p \<le> D w" using w(3) by (metis Diff_iff empty_iff insert_iff less_imp_le order_refl)
  show "T = scc_of E w"
  proof
    show "T \<subseteq> scc_of E w"
      using reach_okD(1) [OF ok wS] reach_ok_top [OF ok sub w(1) top] by (auto simp: T_def scc_of_def)
    show "scc_of E w \<subseteq> T"
    proof
      fix y
      assume y: "y \<in> scc_of E w"
      have "E `` (T \<union> B) \<subseteq> T \<union> B" using sub' closed by auto
      moreover have "w \<in> T" using wS by (simp add: T_def)
      ultimately have "y \<in> T \<union> B" using y closed_rtrancl_subset [of E "T \<union> B" w y] by (simp add: scc_of_def)
      moreover have "y \<notin> B"
        using y wS disj closed closed_rtrancl_subset [of E B y w] by (auto simp: scc_of_def)
      ultimately show "y \<in> T" by blast
    qed
  qed
qed

section \<open>The invariant of the program state\<close>

abbreviation tj_D :: "'b tarjan \<Rightarrow> uint64 \<Rightarrow> nat" where
  "tj_D s \<equiv> map_get (tj_discIdx s) 0"

abbreviation tj_L :: "'b tarjan \<Rightarrow> uint64 \<Rightarrow> nat" where
  "tj_L s \<equiv> map_get (tj_lowLink s) 0"

abbreviation tj_path :: "'b tarjan \<Rightarrow> uint64 list" where
  "tj_path s \<equiv> map dc_id (tj_dfsStack s)"

abbreviation out_rel :: "DirectedGraph \<Rightarrow> uint64 rel" where
  "out_rel g \<equiv> adj_rel g DirectionOutbound"

text \<open>The edges looked at: all edges of a finished node, those before the index of a cursor.\<close>

definition proc :: "uint64 rel \<Rightarrow> descentCursor list \<Rightarrow> uint64 rel" where
  "proc E cs = {(u, x) \<in> E. \<forall>c \<in> set cs. dc_id c = u \<longrightarrow> x \<in> set (take (dc_branchIdx c) (dc_branches c))}"

definition comp_nodes :: "'b roaring64_ops \<Rightarrow> 'b list \<Rightarrow> uint64 set" where
  "comp_nodes R C = (\<Union>b \<in> set C. elems R b)"

definition cursors_ok :: "DirectedGraph \<Rightarrow> descentCursor list \<Rightarrow> bool" where
  "cursors_ok g cs \<longleftrightarrow> (\<forall>c \<in> set cs. dc_branches c = dg_adjacent g (dc_id c) DirectionOutbound \<and>
     dc_branchIdx c \<le> length (dc_branches c))"

definition comps_ok :: "'b roaring64_ops \<Rightarrow> DirectedGraph \<Rightarrow> 'b list \<Rightarrow> (uint64 \<rightharpoonup> uint64) \<Rightarrow> bool" where
  "comps_ok R g C n2c \<longleftrightarrow>
     (\<forall>i < length C. (\<exists>v. elems R (C ! i) = scc_of (out_rel g) v) \<and>
        out_rel g `` elems R (C ! i) \<subseteq> comp_nodes R (take (Suc i) C) \<and>
        (\<forall>u. u \<in> elems R (C ! i) \<longleftrightarrow> n2c u = Some (of_nat i))) \<and>
     dom n2c = comp_nodes R C \<and> length C \<le> card (comp_nodes R C)"

definition frame_ok :: "'b roaring64_ops \<Rightarrow> DirectedGraph \<Rightarrow> 'b tarjan \<Rightarrow> bool" where
  "frame_ok R g s \<longleftrightarrow>
     sorted_wrt (\<lambda>x y. tj_D s y < tj_D s x) (tj_stack s) \<and>
     sorted_wrt (\<lambda>x y. tj_D s y < tj_D s x) (tj_path s) \<and>
     set (tj_path s) \<subseteq> set (tj_stack s) \<and>
     elems R (tj_onStack s) = set (tj_stack s) \<and>
     dom (tj_discIdx s) = set (tj_stack s) \<union> comp_nodes R (tj_components s) \<and>
     set (tj_stack s) \<inter> comp_nodes R (tj_components s) = {} \<and>
     dom (tj_discIdx s) \<subseteq> set (dg_nodes g) \<and>
     (\<forall>v \<in> dom (tj_discIdx s). tj_D s v < tj_index s) \<and>
     cursors_ok g (tj_dfsStack s)"

definition tj_inv :: "'b roaring64_ops \<Rightarrow> DirectedGraph \<Rightarrow> 'b tarjan \<Rightarrow> bool" where
  "tj_inv R g s \<longleftrightarrow> frame_ok R g s \<and> comps_ok R g (tj_components s) (tj_nodeToComp s) \<and>
     (\<forall>u \<in> set (tj_stack s). proc (out_rel g) (tj_dfsStack s) `` {u} \<subseteq> dom (tj_discIdx s)) \<and>
     reach_ok (out_rel g) (tj_D s) (tj_L s) (set (tj_stack s)) (set (tj_path s))
       (proc (out_rel g) (tj_dfsStack s))"

lemma map_get_upd: "map_get (m(v \<mapsto> k)) z = (map_get m z)(v := k)"
  by (auto simp: map_get_def)

lemma map_get_lower: "map_get (lower low v b) 0 p = (if p = v then min (map_get low 0 v) b else map_get low 0 p)"
  by (simp add: lower_def map_get_upd)

lemma sorted_wrt_cong_mem:
  "(\<And>x y. x \<in> set xs \<Longrightarrow> y \<in> set xs \<Longrightarrow> P x y = Q x y) \<Longrightarrow> sorted_wrt P xs = sorted_wrt Q xs"
  by (induction xs) auto

lemma proc_fresh:
  "(u, x) \<in> proc E (\<lparr>dc_id = n, dc_branches = bs, dc_branchIdx = 0\<rparr> # cs) \<longleftrightarrow> u \<noteq> n \<and> (u, x) \<in> proc E cs"
  by (auto simp: proc_def)

text \<open>Looking at one more branch.\<close>

lemma proc_advance:
  assumes "dc_branchIdx e < length (dc_branches e)"
    and "(u, x) \<in> proc E (e\<lparr>dc_branchIdx := dc_branchIdx e + 1\<rparr> # rest)"
  shows "(u, x) \<in> proc E (e # rest) \<or> u = dc_id e \<and> x = dc_branches e ! dc_branchIdx e"
  using assms by (auto simp: proc_def take_Suc_conv_app_nth)

lemma proc_finished:
  assumes "dc_branches e = bs" "set bs = E `` {dc_id e}" "dc_branchIdx e = length bs"
  shows "proc E (e # rest) = proc E rest"
  using assms by (auto simp: proc_def)

context roaring64
begin

lemma unwind_result:
  assumes "w \<notin> set A"
  shows "\<exists>on' cb'. unwind R k w (A @ w # B) on cb n2c =
       Some (B, on', cb', \<lambda>u. if u \<in> insert w (set A) then Some k else n2c u) \<and>
     elems R on' = elems R on - insert w (set A) \<and> elems R cb' = elems R cb \<union> insert w (set A)"
  using assms
proof (induction A arbitrary: on cb n2c)
  case (Cons a A)
  then have "w \<notin> set A" by simp
  then obtain on' cb' where
    r: "unwind R k w (A @ w # B) (bitmap64_Remove R on a) (bitmap64_Add R cb [a]) (n2c(a \<mapsto> k)) =
       Some (B, on', cb', \<lambda>u. if u \<in> insert w (set A) then Some k else (n2c(a \<mapsto> k)) u)"
    "elems R on' = elems R (bitmap64_Remove R on a) - insert w (set A)"
    "elems R cb' = elems R (bitmap64_Add R cb [a]) \<union> insert w (set A)"
    using Cons.IH by blast
  have "(\<lambda>u. if u \<in> insert w (set A) then Some k else (n2c(a \<mapsto> k)) u) =
      (\<lambda>u. if u \<in> insert w (set (a # A)) then Some k else n2c u)"
    by auto
  with r Cons.prems show ?case by (auto simp: Let_def)
qed (auto simp: Let_def)

end

locale scc_env = roaring64 R + directed_graph g
  for R :: "'b roaring64_ops" and g
begin

declare adj_rel_iff [simp del]

lemma out_nodes: "(u, v) \<in> out_rel g \<Longrightarrow> u \<in> set (dg_nodes g) \<and> v \<in> set (dg_nodes g)"
  using adj_rel_nodes by blast

lemma descend_inv:
  assumes inv: "tj_inv R g s" and path: "map dc_id cs = tj_path s" and cur: "cursors_ok g cs"
    and pr: "\<And>u x. (u, x) \<in> proc (out_rel g) cs \<Longrightarrow> u \<in> set (tj_stack s) \<Longrightarrow>
               (u, x) \<in> proc (out_rel g) (tj_dfsStack s) \<or> x = n"
    and n: "tj_discIdx s n = None" "n \<in> set (dg_nodes g)" "\<forall>x \<in> set (tj_stack s). (x, n) \<in> (out_rel g)\<^sup>*"
  shows "tj_inv R g (descend R g n (s\<lparr>tj_dfsStack := cs\<rparr>))"
proof -
  let ?t = "descend R g n (s\<lparr>tj_dfsStack := cs\<rparr>)"
  let ?c = "\<lparr>dc_id = n, dc_branches = dg_adjacent g n DirectionOutbound, dc_branchIdx = 0\<rparr>"
  have t: "tj_index ?t = tj_index s + 1" "tj_discIdx ?t = (tj_discIdx s)(n \<mapsto> tj_index s)"
    "tj_stack ?t = n # tj_stack s" "tj_dfsStack ?t = ?c # cs" "tj_components ?t = tj_components s"
    "tj_nodeToComp ?t = tj_nodeToComp s" "tj_D ?t = (tj_D s)(n := tj_index s)" "tj_L ?t = (tj_L s)(n := tj_index s)"
    "elems R (tj_onStack ?t) = insert n (elems R (tj_onStack s))"
    by (simp_all add: descend_def tarjanPush_def map_get_upd)
  have fr: "frame_ok R g s" and ok: "reach_ok (out_rel g) (tj_D s) (tj_L s) (set (tj_stack s)) (set (tj_path s))
       (proc (out_rel g) (tj_dfsStack s))"
    and seen: "\<forall>u \<in> set (tj_stack s). proc (out_rel g) (tj_dfsStack s) `` {u} \<subseteq> dom (tj_discIdx s)"
    and comps: "comps_ok R g (tj_components s) (tj_nodeToComp s)"
    using inv by (auto simp: tj_inv_def)
  have dom: "dom (tj_discIdx s) = set (tj_stack s) \<union> comp_nodes R (tj_components s)"
    and sub: "set (tj_path s) \<subseteq> set (tj_stack s)" and lt: "\<forall>v \<in> dom (tj_discIdx s). tj_D s v < tj_index s"
    using fr by (auto simp: frame_ok_def)
  have fresh: "n \<notin> set (tj_stack s)" "n \<notin> set (tj_path s)" "n \<notin> comp_nodes R (tj_components s)"
    using n(1) dom sub by auto
  have ltS: "\<forall>x \<in> set (tj_stack s). tj_D s x < tj_index s" using lt dom by auto
  have srt: "sorted_wrt (\<lambda>x y. tj_D ?t y < tj_D ?t x) xs = sorted_wrt (\<lambda>x y. tj_D s y < tj_D s x) xs"
    if "n \<notin> set xs" for xs
    unfolding t(7) using that by (intro sorted_wrt_cong_mem) auto
  have "sorted_wrt (\<lambda>x y. tj_D ?t y < tj_D ?t x) (tj_stack ?t)"
    using srt [OF fresh(1)] ltS fresh(1) fr unfolding t(3) sorted_wrt.simps t(7) frame_ok_def by auto
  moreover have "sorted_wrt (\<lambda>x y. tj_D ?t y < tj_D ?t x) (tj_path ?t)"
    using srt [OF fresh(2)] ltS fresh(2) fr sub
    unfolding t(4) list.map path descentCursor.simps sorted_wrt.simps t(7) frame_ok_def by auto
  moreover have "\<forall>v \<in> dom (tj_discIdx ?t). tj_D ?t v < tj_index ?t"
    using lt by (auto simp: t(1,2) map_get_upd less_SucI)
  moreover have "set (tj_path ?t) \<subseteq> set (tj_stack ?t)"
    unfolding t(3,4) list.map path descentCursor.simps list.set using sub by blast
  moreover have "cursors_ok g (tj_dfsStack ?t)"
    unfolding t(4) using cur by (auto simp: cursors_ok_def)
  moreover have "dom (tj_discIdx ?t) = set (tj_stack ?t) \<union> comp_nodes R (tj_components ?t)"
    "set (tj_stack ?t) \<inter> comp_nodes R (tj_components ?t) = {}" "dom (tj_discIdx ?t) \<subseteq> set (dg_nodes g)"
    "elems R (tj_onStack ?t) = set (tj_stack ?t)"
    unfolding t(2,3,5,9) dom_fun_upd using fr n(2) fresh(3) dom by (simp_all add: frame_ok_def)
  ultimately have "frame_ok R g ?t" unfolding frame_ok_def by blast
  moreover have "reach_ok (out_rel g) (tj_D ?t) (tj_L ?t) (set (tj_stack ?t)) (set (tj_path ?t))
      (proc (out_rel g) (tj_dfsStack ?t))"
    unfolding t(7,8) t(3,4) list.map list.set path descentCursor.simps
    by (rule reach_ok_push [OF ok sub fresh(1) ltS n(3)]) (use pr fresh(1) in \<open>auto simp: proc_fresh\<close>)
  moreover have "\<forall>u \<in> set (tj_stack ?t). proc (out_rel g) (tj_dfsStack ?t) `` {u} \<subseteq> dom (tj_discIdx ?t)"
  proof -
    have "x \<in> insert n (dom (tj_discIdx s))" if "(u, x) \<in> proc (out_rel g) cs" "u \<in> set (tj_stack s)" for u x
      using seen pr [OF that] that(2) by blast
    note seen' = this
    show ?thesis
    proof (intro ballI subsetI)
      fix u x
      assume "u \<in> set (tj_stack ?t)" "x \<in> proc (out_rel g) (tj_dfsStack ?t) `` {u}"
      then have "(u, x) \<in> proc (out_rel g) cs" "u \<in> set (tj_stack s)" by (auto simp: t(3,4) proc_fresh)
      then show "x \<in> dom (tj_discIdx ?t)" using seen' by (simp add: t(2))
    qed
  qed
  ultimately show ?thesis using comps by (simp add: tj_inv_def t(5,6))
qed

lemma tj_inv_top:
  assumes "tj_inv R g s" "tj_dfsStack s = e # rest"
  shows "dc_id e \<in> set (tj_path s)" "\<forall>p \<in> set (map dc_id rest). tj_D s p < tj_D s (dc_id e)"
    "\<forall>p \<in> set (tj_path s). tj_D s p \<le> tj_D s (dc_id e)" "set (tj_path s) \<subseteq> set (tj_stack s)"
  using assms by (auto simp: tj_inv_def frame_ok_def)

lemma branch_inv:
  assumes inv: "tj_inv R g s" and dfs: "tj_dfsStack s = e # rest" and idx: "dc_branchIdx e < length (dc_branches e)"
  shows "tj_inv R g (tarjan_branch R g s e rest)"
proof -
  let ?n = "dc_branches e ! dc_branchIdx e"
  let ?cs = "e\<lparr>dc_branchIdx := dc_branchIdx e + 1\<rparr> # rest"
  note top = tj_inv_top [OF inv dfs]
  have cur: "cursors_ok g (e # rest)" and ok: "reach_ok (out_rel g) (tj_D s) (tj_L s) (set (tj_stack s))
      (set (tj_path s)) (proc (out_rel g) (e # rest))"
    and seen: "\<forall>u \<in> set (tj_stack s). proc (out_rel g) (e # rest) `` {u} \<subseteq> dom (tj_discIdx s)"
    and on: "elems R (tj_onStack s) = set (tj_stack s)"
    using inv unfolding tj_inv_def frame_ok_def dfs by blast+
  then have cur': "cursors_ok g ?cs" using idx by (auto simp: cursors_ok_def)
  have path: "map dc_id ?cs = tj_path s" using dfs by simp
  have "?n \<in> set (dg_adjacent g (dc_id e) DirectionOutbound)" using cur idx by (simp add: cursors_ok_def)
  then have edge: "(dc_id e, ?n) \<in> out_rel g" by (simp add: adj_rel_def)
  note adv = proc_advance [OF idx, of _ _ "out_rel g" rest]
  show ?thesis
  proof (cases "tj_discIdx s ?n")
    case None
    have "\<forall>x \<in> set (tj_stack s). (x, ?n) \<in> (out_rel g)\<^sup>*"
      using reach_ok_top [OF ok top(4,1,3)] edge by (auto intro: rtrancl_into_rtrancl)
    then have "tj_inv R g (descend R g ?n (s\<lparr>tj_dfsStack := ?cs\<rparr>))"
      using out_nodes [OF edge] None adv by (intro descend_inv [OF inv path cur']) (auto simp: dfs)
    with None show ?thesis by (simp add: tarjan_branch_def)
  next
    case (Some k)
    let ?t = "tarjan_branch R g s e rest"
    have t: "?t = s\<lparr>tj_dfsStack := ?cs, tj_lowLink := tj_lowLink ?t\<rparr>"
      using Some by (simp add: tarjan_branch_def Let_def)
    have t': "tj_dfsStack ?t = ?cs" "tj_discIdx ?t = tj_discIdx s" "tj_stack ?t = tj_stack s" "tj_onStack ?t = tj_onStack s"
      "tj_components ?t = tj_components s" "tj_nodeToComp ?t = tj_nodeToComp s" "tj_index ?t = tj_index s"
      by (subst t, simp)+
    have low: "tj_L ?t p = (if p = dc_id e \<and> ?n \<in> set (tj_stack s) then min (tj_L s (dc_id e)) (tj_D s ?n) else tj_L s p)" for p
      using Some on by (auto simp: tarjan_branch_def Let_def map_get_lower)
    have "frame_ok R g ?t"
      using inv cur' unfolding tj_inv_def frame_ok_def t' path by blast
    moreover have "reach_ok (out_rel g) (tj_D ?t) (tj_L ?t) (set (tj_stack ?t)) (set (tj_path ?t)) (proc (out_rel g) (tj_dfsStack ?t))"
      unfolding t' path using adv by (intro reach_ok_edge [OF ok top(1) edge _ low]) blast
    moreover have "\<forall>u \<in> set (tj_stack ?t). proc (out_rel g) (tj_dfsStack ?t) `` {u} \<subseteq> dom (tj_discIdx ?t)"
    proof -
      have "x \<in> dom (tj_discIdx s)" if "(u, x) \<in> proc (out_rel g) ?cs" "u \<in> set (tj_stack s)" for u x
        using adv [OF that(1)] seen that(2) Some by blast
      then show ?thesis unfolding t' by blast
    qed
    moreover have "comps_ok R g (tj_components ?t) (tj_nodeToComp ?t)" using inv by (simp add: tj_inv_def t')
    ultimately show ?thesis by (simp add: tj_inv_def)
  qed
qed

lemma comp_nodes_snoc: "comp_nodes R (C @ [c]) = comp_nodes R C \<union> elems R c"
  by (auto simp: comp_nodes_def)

lemma comp_nodes_mem: "u \<in> comp_nodes R C \<longleftrightarrow> (\<exists>i < length C. u \<in> elems R (C ! i))"
  by (simp add: comp_nodes_def) (metis in_set_conv_nth)

lemma comps_ok_closed:
  assumes "comps_ok R g C n2c"
  shows "out_rel g `` comp_nodes R C \<subseteq> comp_nodes R C"
proof
  fix x
  assume "x \<in> out_rel g `` comp_nodes R C"
  then obtain u where u: "u \<in> comp_nodes R C" "(u, x) \<in> out_rel g" by blast
  then obtain i where "i < length C" "u \<in> elems R (C ! i)" by (auto simp: comp_nodes_mem)
  with u assms have "x \<in> comp_nodes R (take (Suc i) C)" unfolding comps_ok_def by blast
  then show "x \<in> comp_nodes R C" by (auto simp: comp_nodes_def dest: in_set_takeD)
qed

text \<open>Two nodes have the same component exactly when each reaches the other.\<close>

lemma comps_ok_mutual:
  assumes ok: "comps_ok R g C n2c" and u: "u \<in> comp_nodes R C"
  shows "n2c u = n2c v \<longleftrightarrow> v \<in> scc_of (out_rel g) u"
proof -
  from u obtain i where i: "i < length C" "u \<in> elems R (C ! i)" by (auto simp: comp_nodes_mem)
  have idx: "x \<in> elems R (C ! i) \<longleftrightarrow> n2c x = Some (of_nat i)" for x
    using ok i(1) unfolding comps_ok_def by blast
  from ok i(1) obtain w where w: "elems R (C ! i) = scc_of (out_rel g) w" unfolding comps_ok_def by blast
  with i(2) have "u \<in> scc_of (out_rel g) w" by simp
  with w have eq: "elems R (C ! i) = scc_of (out_rel g) u" by (simp add: scc_of_eq)
  have "n2c u = Some (of_nat i)" using idx i(2) by blast
  then have "n2c u = n2c v \<longleftrightarrow> n2c v = Some (of_nat i)" by metis
  also have "\<dots> \<longleftrightarrow> v \<in> scc_of (out_rel g) u" using idx [of v] eq by blast
  finally show ?thesis .
qed

lemma comps_ok_snoc:
  assumes ok: "comps_ok R g C n2c" and c: "elems R c = T" "T = scc_of (out_rel g) w"
    and closed: "out_rel g `` T \<subseteq> T \<union> comp_nodes R C" and disj: "T \<inter> comp_nodes R C = {}"
  shows "comps_ok R g (C @ [c]) (\<lambda>u. if u \<in> T then Some (of_nat (length C)) else n2c u)" (is "comps_ok R g _ ?n2c")
proof -
  let ?B = "comp_nodes R C"
  have w: "w \<in> T" using c(2) by simp
  have "card ?B < card (UNIV :: uint64 set)" using w disj by (intro psubset_card_mono) auto
  then have len: "length C < 2 ^ 64" using ok by (simp add: comps_ok_def card_word)
  have old: "u \<in> elems R (C ! i) \<longleftrightarrow> n2c u = Some (of_nat i)" if "i < length C" for i u
    using ok that by (simp add: comps_ok_def)
  have dom: "dom n2c = ?B" using ok by (simp add: comps_ok_def)
  have idx: "(of_nat i :: uint64) \<noteq> of_nat (length C)" if "i < length C" for i using that len by simp
  have "u \<in> elems R ((C @ [c]) ! i) \<longleftrightarrow> ?n2c u = Some (of_nat i)" if i: "i < length (C @ [c])" for i u
  proof (cases "i = length C")
    case True
    have "n2c u \<noteq> Some (of_nat (length C))" if "u \<notin> T"
    proof
      assume n: "n2c u = Some (of_nat (length C))"
      then have "u \<in> ?B" using dom by blast
      then obtain j where "j < length C" "u \<in> elems R (C ! j)" by (auto simp: comp_nodes_mem)
      with old [of j u] n idx [of j] show False by simp
    qed
    with True c(1) show ?thesis by (simp add: nth_append)
  next
    case False
    with i have i': "i < length C" by simp
    have "u \<in> ?B" if "u \<in> elems R (C ! i)" using that i' by (auto simp: comp_nodes_mem)
    then have "u \<notin> T" if "u \<in> elems R (C ! i)" using that disj by blast
    with i' old [OF i', of u] idx [OF i'] show ?thesis by (auto simp: nth_append)
  qed
  moreover have "\<exists>v. elems R ((C @ [c]) ! i) = scc_of (out_rel g) v" if "i < length (C @ [c])" for i
    using that ok c by (cases "i = length C") (auto simp: nth_append comps_ok_def)
  moreover have "out_rel g `` elems R ((C @ [c]) ! i) \<subseteq> comp_nodes R (take (Suc i) (C @ [c]))" if "i < length (C @ [c])" for i
    using that ok c(1) closed by (cases "i = length C") (auto simp: nth_append comps_ok_def comp_nodes_snoc)
  moreover have "dom ?n2c = comp_nodes R (C @ [c])"
  proof -
    have "dom ?n2c = dom n2c \<union> T" by (auto split: if_splits)
    then show ?thesis by (simp add: dom comp_nodes_snoc c(1))
  qed
  moreover have "length (C @ [c]) \<le> card (comp_nodes R (C @ [c]))"
  proof -
    have "card T \<ge> 1" using w by (metis One_nat_def Suc_leI card_gt_0_iff empty_iff finite_uint64)
    moreover have "card (comp_nodes R (C @ [c])) = card ?B + card T"
      using disj c(1) by (simp add: comp_nodes_snoc card_Un_disjoint Int_commute)
    ultimately show ?thesis using ok by (simp add: comps_ok_def)
  qed
  ultimately show ?thesis unfolding comps_ok_def by blast
qed

lemma pop_inv:
  assumes inv: "tj_inv R g s" and dfs: "tj_dfsStack s = e # rest" and idx: "\<not> dc_branchIdx e < length (dc_branches e)"
  shows "\<exists>t. tarjan_pop R s e rest = Some t \<and> tj_inv R g t \<and> tj_dfsStack t = rest \<and> tj_discIdx t = tj_discIdx s"
proof -
  let ?w = "dc_id e" and ?Q = "set (tj_path s)" and ?S = "tj_stack s"
  define low' where "low' = (case rest of [] \<Rightarrow> tj_lowLink s
      | parent # _ \<Rightarrow> lower (tj_lowLink s) (dc_id parent) (tj_L s ?w))"
  note top = tj_inv_top [OF inv dfs]
  have cur: "cursors_ok g (e # rest)" and comps: "comps_ok R g (tj_components s) (tj_nodeToComp s)"
    and srt: "sorted_wrt (\<lambda>x y. tj_D s y < tj_D s x) ?S" "sorted_wrt (\<lambda>x y. tj_D s y < tj_D s x) (map dc_id (e # rest))"
    and on: "elems R (tj_onStack s) = set ?S" and disj: "set ?S \<inter> comp_nodes R (tj_components s) = {}"
    and dom: "dom (tj_discIdx s) = set ?S \<union> comp_nodes R (tj_components s)"
    and ok: "reach_ok (out_rel g) (tj_D s) (tj_L s) (set ?S) ?Q (proc (out_rel g) (e # rest))"
    and seen: "\<forall>u \<in> set ?S. proc (out_rel g) (e # rest) `` {u} \<subseteq> dom (tj_discIdx s)"
    and lim: "dom (tj_discIdx s) \<subseteq> set (dg_nodes g)" "\<forall>v \<in> dom (tj_discIdx s). tj_D s v < tj_index s"
    using inv unfolding tj_inv_def frame_ok_def dfs by blast+
  have pr: "proc (out_rel g) (e # rest) = proc (out_rel g) rest"
    using cur idx by (intro proc_finished [OF refl]) (auto simp: cursors_ok_def adj_rel_Image)
  note ok = ok [unfolded pr] and seen = seen [unfolded pr]
  have Q: "?Q - {?w} = set (map dc_id rest)" using top(2) dfs by auto
  have cur': "cursors_ok g rest" using cur by (auto simp: cursors_ok_def)
  have low_w: "map_get low' 0 ?w = tj_L s ?w"
    using top(2) by (auto simp: low'_def map_get_lower split: list.split)
  let ?s1 = "s\<lparr>tj_dfsStack := rest, tj_lowLink := low'\<rparr>"
  show ?thesis
  proof (cases "tj_L s ?w = tj_D s ?w")
    case False
    with reach_okD(3) [OF ok top(1)] have less: "tj_L s ?w < tj_D s ?w" by simp
    obtain x where x: "x \<in> set ?S" "tj_D s x = tj_L s ?w" using reach_okD(4) [OF ok top(1)] by blast
    obtain p where p: "p \<in> ?Q" "tj_D s p \<le> tj_D s x" using reach_okD(2) [OF ok x(1)] by blast
    with x less have "p \<in> ?Q - {?w}" by auto
    then obtain parent more where rest: "rest = parent # more" using Q by (cases rest) auto
    have par: "dc_id parent \<in> ?Q" "dc_id parent \<noteq> ?w" "tj_D s (dc_id parent) \<le> tj_D s ?w"
      "\<forall>p \<in> ?Q - {?w}. tj_D s p \<le> tj_D s (dc_id parent)"
      using top(2) srt(2) unfolding Q rest dfs by auto
    have "reach_ok (out_rel g) (tj_D s) (map_get low' 0) (set ?S) (?Q - {?w}) (proc (out_rel g) rest)"
      by (rule reach_ok_join [OF ok top(4,1) less par]) (simp add: low'_def rest map_get_lower)
    moreover have "sorted_wrt (\<lambda>x y. tj_D s y < tj_D s x) (map dc_id rest)" "set (map dc_id rest) \<subseteq> set ?S"
      using srt(2) top(4) by (simp_all add: dfs)
    ultimately have "tj_inv R g ?s1"
      using comps srt(1) on disj dom lim cur' seen unfolding Q tj_inv_def frame_ok_def by simp
    moreover have "tarjan_pop R s e rest = Some ?s1"
      using False low_w by (simp add: tarjan_pop_def Let_def low'_def)
    ultimately show ?thesis by simp
  next
    case True
    have wS: "?w \<in> set ?S" using top(1,4) by blast
    then obtain A B where S: "?S = A @ ?w # B" "?w \<notin> set A" by (metis split_list_first)
    let ?T = "insert ?w (set A)" and ?C = "tj_components s"
    have T: "?T = {u \<in> set ?S. tj_D s ?w \<le> tj_D s u}" and B: "set B = {u \<in> set ?S. tj_D s u < tj_D s ?w}"
      using srt(1) unfolding S(1) by (auto simp: sorted_wrt_append)
    obtain on' cb where un: "unwind R (of_nat (length ?C)) ?w ?S (tj_onStack s) (NewBitmap64 R) (tj_nodeToComp s) =
         Some (B, on', cb, \<lambda>u. if u \<in> ?T then Some (of_nat (length ?C)) else tj_nodeToComp s u)"
      "elems R on' = elems R (tj_onStack s) - ?T" "elems R cb = ?T"
      using unwind_result [OF S(2), of "of_nat (length ?C)" B "tj_onStack s" "NewBitmap64 R" "tj_nodeToComp s"]
      unfolding S(1) by auto
    let ?t = "?s1\<lparr>tj_stack := B, tj_onStack := on', tj_components := ?C @ [cb],
      tj_nodeToComp := \<lambda>u. if u \<in> ?T then Some (of_nat (length ?C)) else tj_nodeToComp s u\<rparr>"
    have pop: "tarjan_pop R s e rest = Some ?t"
      using True low_w un(1) by (simp add: tarjan_pop_def Let_def low'_def)
    have lt: "\<forall>p \<in> ?Q - {?w}. tj_D s p < tj_D s ?w" using top(2) Q by simp
    have fin: "(u, x) \<in> proc (out_rel g) rest \<and> x \<in> set ?S \<union> comp_nodes R ?C"
      if "u \<in> set ?S" "tj_D s ?w \<le> tj_D s u" "(u, x) \<in> out_rel g" for u x
    proof -
      have "(u, x) \<in> proc (out_rel g) rest" using that(2,3) top(2) by (fastforce simp: proc_def)
      with seen that(1) dom show ?thesis by blast
    qed
    note comp = reach_ok_component [OF ok top(4,1) True lt fin comps_ok_closed [OF comps] disj, folded T]
    have split: "set ?S = set B \<union> ?T" "set B \<inter> ?T = {}" using T B by auto
    have "comps_ok R g (?C @ [cb]) (\<lambda>u. if u \<in> ?T then Some (of_nat (length ?C)) else tj_nodeToComp s u)"
      using comp disj split by (intro comps_ok_snoc [OF comps un(3)]) auto
    moreover have "reach_ok (out_rel g) (tj_D s) (map_get low' 0) (set B) (set (map dc_id rest)) (proc (out_rel g) rest)"
    proof -
      have "map_get low' 0 = tj_L s"
      proof (cases rest)
        case (Cons parent more)
        then have par: "dc_id parent \<in> ?Q - {?w}" using Q by simp
        have "tj_L s (dc_id parent) \<le> tj_D s (dc_id parent)" using par reach_okD(3) [OF ok] by blast
        moreover have "tj_D s (dc_id parent) < tj_D s ?w" using par lt by blast
        ultimately have "tj_L s (dc_id parent) \<le> tj_L s ?w" using True by simp
        then show ?thesis by (auto simp: low'_def Cons map_get_lower)
      qed (simp add: low'_def)
      then show ?thesis using reach_ok_root [OF ok top(1) True lt] unfolding B Q by simp
    qed
    moreover have "frame_ok R g ?t"
    proof -
      have "set (map dc_id rest) \<subseteq> set B" using lt top(4) unfolding Q [symmetric] B by blast
      moreover have "sorted_wrt (\<lambda>x y. tj_D s y < tj_D s x) B" "sorted_wrt (\<lambda>x y. tj_D s y < tj_D s x) (map dc_id rest)"
        using srt unfolding S(1) by (simp_all add: sorted_wrt_append)
      moreover have "elems R on' = set B" using un(2) on split by blast
      moreover have "dom (tj_discIdx s) = set B \<union> comp_nodes R (?C @ [cb])"
        unfolding comp_nodes_snoc un(3) dom split(1) by blast
      moreover have "set B \<inter> comp_nodes R (?C @ [cb]) = {}"
        unfolding comp_nodes_snoc un(3) using disj split by fast
      ultimately show ?thesis using lim cur' unfolding frame_ok_def by simp
    qed
    moreover have "\<forall>u \<in> set B. proc (out_rel g) rest `` {u} \<subseteq> dom (tj_discIdx s)" using seen B by blast
    ultimately have "tj_inv R g ?t" unfolding tj_inv_def by simp
    with pop show ?thesis by simp
  qed
qed

section \<open>Termination and the result\<close>

definition tarjan_rel :: "(('b tarjan) \<times> ('b tarjan)) set" where
  "tarjan_rel = measures [\<lambda>s. card (set (dg_nodes g) - dom (tj_discIdx s)),
     \<lambda>s. (\<Sum>c \<leftarrow> tj_dfsStack s. length (dc_branches c) - dc_branchIdx c) + length (tj_dfsStack s)]"

lemma tarjan_step_total:
  assumes inv: "tj_inv R g s" and "tj_dfsStack s \<noteq> []"
  shows "\<exists>t. tarjan_step R g s = Some t \<and> tj_inv R g t \<and> dom (tj_discIdx s) \<subseteq> dom (tj_discIdx t) \<and> (t, s) \<in> tarjan_rel"
proof -
  obtain e rest where dfs: "tj_dfsStack s = e # rest" using assms(2) by (cases "tj_dfsStack s") auto
  show ?thesis
  proof (cases "dc_branchIdx e < length (dc_branches e)")
    case True
    let ?t = "tarjan_branch R g s e rest" and ?n = "dc_branches e ! dc_branchIdx e"
    have t: "tj_inv R g ?t" by (rule branch_inv [OF inv dfs True])
    have "dom (tj_discIdx s) \<subseteq> dom (tj_discIdx ?t) \<and> (?t, s) \<in> tarjan_rel"
    proof (cases "tj_discIdx s ?n")
      case None
      then have d: "dom (tj_discIdx ?t) = insert ?n (dom (tj_discIdx s))"
        by (simp add: tarjan_branch_def Let_def descend_def tarjanPush_def)
      then have "?n \<in> set (dg_nodes g) - dom (tj_discIdx s)" using t None by (auto simp: tj_inv_def frame_ok_def)
      then have "card (set (dg_nodes g) - dom (tj_discIdx ?t)) < card (set (dg_nodes g) - dom (tj_discIdx s))"
        unfolding d by (intro psubset_card_mono) auto
      with d show ?thesis by (auto simp: tarjan_rel_def)
    next
      case (Some k)
      then have "tj_discIdx ?t = tj_discIdx s" "tj_dfsStack ?t = e\<lparr>dc_branchIdx := dc_branchIdx e + 1\<rparr> # rest"
        by (simp_all add: tarjan_branch_def Let_def)
      with True dfs show ?thesis by (simp add: tarjan_rel_def)
    qed
    with t True dfs show ?thesis by (simp add: tarjan_step_def)
  next
    case False
    from pop_inv [OF inv dfs False] obtain t where
      "tarjan_pop R s e rest = Some t" "tj_inv R g t" "tj_dfsStack t = rest" "tj_discIdx t = tj_discIdx s" by blast
    with False dfs show ?thesis by (simp add: tarjan_step_def tarjan_rel_def)
  qed
qed

lemma tj_inv_idle:
  assumes "tj_inv R g s" "tj_dfsStack s = []"
  shows "tj_stack s = []" "dom (tj_discIdx s) = comp_nodes R (tj_components s)"
proof -
  have "reach_ok (out_rel g) (tj_D s) (tj_L s) (set (tj_stack s)) (set (tj_path s)) (proc (out_rel g) (tj_dfsStack s))"
    using assms(1) by (simp add: tj_inv_def)
  from reach_okD(2) [OF this] assms(2) have "set (tj_stack s) = {}" by fastforce
  with assms(1) show "tj_stack s = []" "dom (tj_discIdx s) = comp_nodes R (tj_components s)"
    by (auto simp: tj_inv_def frame_ok_def)
qed

lemma tarjan_start_total:
  assumes inv: "tj_inv R g s" and idle: "tj_dfsStack s = []" and start: "start \<in> set (dg_nodes g)"
  shows "\<exists>t. tarjan_start R g start s = Some t \<and> tj_inv R g t \<and> tj_dfsStack t = [] \<and>
     insert start (dom (tj_discIdx s)) \<subseteq> dom (tj_discIdx t)"
proof (cases "tj_discIdx s start")
  case None
  let ?s0 = "descend R g start s"
  let ?I = "\<lambda>t. tj_inv R g t \<and> dom (tj_discIdx ?s0) \<subseteq> dom (tj_discIdx t)"
  have "tj_inv R g (descend R g start (s\<lparr>tj_dfsStack := []\<rparr>))"
    by (rule descend_inv [OF inv]) (use idle start None tj_inv_idle [OF inv idle] in \<open>auto simp: cursors_ok_def\<close>)
  moreover have "s\<lparr>tj_dfsStack := []\<rparr> = s" using idle by (cases s) simp
  ultimately have I: "?I ?s0" by simp
  have "\<exists>t. loop (\<lambda>s. tj_dfsStack s \<noteq> []) (tarjan_step R g) ?s0 = Some t \<and> ?I t \<and> \<not> tj_dfsStack t \<noteq> []"
  proof (rule loop_total [where r = tarjan_rel and I = ?I])
    show "wf tarjan_rel" by (simp add: tarjan_rel_def)
    show "?I ?s0" by (rule I)
  next
    fix u
    assume "?I u" "tj_dfsStack u \<noteq> []"
    with tarjan_step_total [of u] show "\<exists>t. tarjan_step R g u = Some t \<and> ?I t \<and> (t, u) \<in> tarjan_rel" by blast
  qed
  moreover have "dom (tj_discIdx ?s0) = insert start (dom (tj_discIdx s))"
    by (simp add: descend_def tarjanPush_def)
  ultimately show ?thesis using None by (auto simp: tarjan_start_def)
qed (use inv idle in \<open>auto simp: tarjan_start_def\<close>)

lemma tarjan_init_inv: "tj_inv R g (tarjan_init R)"
  by (simp add: tj_inv_def frame_ok_def comps_ok_def tarjan_init_def cursors_ok_def comp_nodes_def reach_ok_def)

theorem StronglyConnectedComponents_result:
  "\<exists>C n2c. StronglyConnectedComponents R g = Some (C, n2c) \<and> comps_ok R g C n2c \<and> comp_nodes R C = set (dg_nodes g)"
proof -
  let ?I = "\<lambda>ys s. tj_inv R g s \<and> tj_dfsStack s = [] \<and> set ys \<subseteq> dom (tj_discIdx s)"
  have "\<exists>s. for_each (tarjan_start R g) (dg_nodes g) (tarjan_init R) = Some s \<and> ?I (dg_nodes g) s"
  proof (rule for_each_total)
    show "?I [] (tarjan_init R)" using tarjan_init_inv by (simp add: tarjan_init_def)
  next
    fix ys x zs s
    assume "dg_nodes g = ys @ x # zs" "?I ys s"
    then have "x \<in> set (dg_nodes g)" "tj_inv R g s" "tj_dfsStack s = []" "set ys \<subseteq> dom (tj_discIdx s)" by auto
    with tarjan_start_total [of s x] show "\<exists>s'. tarjan_start R g x s = Some s' \<and> ?I (ys @ [x]) s'" by fastforce
  qed
  then obtain s where s: "for_each (tarjan_start R g) (dg_nodes g) (tarjan_init R) = Some s" "tj_inv R g s"
    "tj_dfsStack s = []" "set (dg_nodes g) \<subseteq> dom (tj_discIdx s)" by blast
  have "dom (tj_discIdx s) = set (dg_nodes g)" using s(2,4) by (auto simp: tj_inv_def frame_ok_def)
  with tj_inv_idle [OF s(2,3)] s(2) have "comps_ok R g (tj_components s) (tj_nodeToComp s)"
    "comp_nodes R (tj_components s) = set (dg_nodes g)" by (auto simp: tj_inv_def)
  with s(1) show ?thesis by (simp add: StronglyConnectedComponents_def EachNode_def fold_bind_for_each)
qed

end

section \<open>Properties\<close>

text \<open>The graph of the witnesses: the cycles 1, 2 and 3, 4, and an edge from the first to the second.\<close>

definition cycle_graph :: DirectedGraph where
  "cycle_graph = \<lparr>dg_NumNodes = 4, dg_nodes = [1, 2, 3, 4],
     dg_adjacent = (\<lambda>u dir.
       let outs = (if u = 1 then [2] else if u = 2 then [1, 3] else if u = 3 then [4] else if u = 4 then [3] else []);
           ins = (if u = 1 then [2] else if u = 2 then [1] else if u = 3 then [2, 4] else if u = 4 then [3] else [])
       in case dir of DirectionOutbound \<Rightarrow> outs | DirectionInbound \<Rightarrow> ins | DirectionBoth \<Rightarrow> outs @ ins)\<rparr>"

interpretation cycle_dg: directed_graph cycle_graph
  by unfold_locales (auto simp: cycle_graph_def Let_def split: direction.splits if_splits)

interpretation cycle_scc: scc_env list_bitmap cycle_graph
  by unfold_locales

text \<open>C1. \<open>StronglyConnectedComponents\<close> terminates without a panic on every graph. The components
  it returns are strongly connected components and cover the nodes of the graph; the returned map
  gives for every node the position of its component, so that two nodes map to the same component
  exactly when each is reachable from the other.\<close>

theorem StronglyConnectedComponents_correct:
  assumes "roaring64 R" and "directed_graph g"
  shows "\<exists>C n2c. StronglyConnectedComponents R g = Some (C, n2c) \<and>
     (\<forall>b \<in> set C. \<exists>v. elems R b = scc_of (adj_rel g DirectionOutbound) v) \<and>
     (\<Union>b \<in> set C. elems R b) = set (dg_nodes g) \<and> dom n2c = set (dg_nodes g) \<and>
     (\<forall>i < length C. \<forall>u. u \<in> elems R (C ! i) \<longleftrightarrow> n2c u = Some (of_nat i)) \<and>
     (\<forall>u \<in> set (dg_nodes g). \<forall>v \<in> set (dg_nodes g). n2c u = n2c v \<longleftrightarrow>
        (u, v) \<in> (adj_rel g DirectionOutbound)\<^sup>* \<and> (v, u) \<in> (adj_rel g DirectionOutbound)\<^sup>*)"
proof -
  let ?E = "adj_rel g DirectionOutbound"
  obtain C n2c where r: "StronglyConnectedComponents R g = Some (C, n2c)" "comps_ok R g C n2c"
    "comp_nodes R C = set (dg_nodes g)"
    using scc_env.StronglyConnectedComponents_result [OF scc_env.intro [OF assms]] by blast
  have idx: "u \<in> elems R (C ! i) \<longleftrightarrow> n2c u = Some (of_nat i)" and scc: "\<exists>v. elems R (C ! i) = scc_of ?E v"
    if "i < length C" for i u
    using r(2) that unfolding comps_ok_def by blast+
  have scc': "\<forall>b \<in> set C. \<exists>v. elems R b = scc_of ?E v"
  proof
    fix b
    assume "b \<in> set C"
    then obtain i where "i < length C" "C ! i = b" by (auto simp: in_set_conv_nth)
    with scc [of i] show "\<exists>v. elems R b = scc_of ?E v" by simp
  qed
  have mutual: "n2c u = n2c v \<longleftrightarrow> (u, v) \<in> ?E\<^sup>* \<and> (v, u) \<in> ?E\<^sup>*" if "u \<in> set (dg_nodes g)" for u v
    using scc_env.comps_ok_mutual [OF scc_env.intro [OF assms] r(2), of u v] that r(3) by (simp add: scc_of_def)
  have dom: "dom n2c = set (dg_nodes g)" using r(2,3) by (simp add: comps_ok_def)
  have idx': "\<forall>i < length C. \<forall>u. u \<in> elems R (C ! i) \<longleftrightarrow> n2c u = Some (of_nat i)" using idx by blast
  show ?thesis
    by (intro exI conjI, rule r(1), rule scc', rule r(3) [unfolded comp_nodes_def], rule dom, rule idx')
      (intro ballI, rule mutual)
qed

theorem StronglyConnectedComponents_correct_witness:
  "StronglyConnectedComponents list_bitmap cycle_graph \<noteq> None \<and>
   map_option fst (StronglyConnectedComponents list_bitmap cycle_graph) = Some [[4, 3], [2, 1]] \<and>
   (1, 2) \<in> (adj_rel cycle_graph DirectionOutbound)\<^sup>*"
proof -
  have run: "map_option fst (StronglyConnectedComponents list_bitmap cycle_graph) = Some [[4, 3], [2, 1]]"
    by code_simp
  have mem: "map_option (\<lambda>(C, n2c). n2c 1 = n2c 2) (StronglyConnectedComponents list_bitmap cycle_graph) = Some True"
    "1 \<in> set (dg_nodes cycle_graph)" "2 \<in> set (dg_nodes cycle_graph)"
    by code_simp+
  from StronglyConnectedComponents_correct [OF lbm.roaring64_axioms cycle_dg.directed_graph_axioms]
  obtain C n2c where "StronglyConnectedComponents list_bitmap cycle_graph = Some (C, n2c)"
    "\<forall>u \<in> set (dg_nodes cycle_graph). \<forall>v \<in> set (dg_nodes cycle_graph). n2c u = n2c v \<longleftrightarrow>
       (u, v) \<in> (adj_rel cycle_graph DirectionOutbound)\<^sup>* \<and> (v, u) \<in> (adj_rel cycle_graph DirectionOutbound)\<^sup>*"
    by blast
  with run mem show ?thesis by auto
qed

text \<open>C21. The components come out in reverse topological order: an edge leads from a node of a
  component to the same component or to one earlier in the list.\<close>

theorem StronglyConnectedComponents_reverse_topological:
  assumes "roaring64 R" and "directed_graph g"
    and "StronglyConnectedComponents R g = Some (C, n2c)"
    and "i < length C" and "u \<in> elems R (C ! i)" and "v \<in> set (dg_adjacent g u DirectionOutbound)"
  shows "\<exists>j \<le> i. v \<in> elems R (C ! j)"
proof -
  have "comps_ok R g C n2c"
    using scc_env.StronglyConnectedComponents_result [OF scc_env.intro [OF assms(1,2)]] assms(3) by auto
  then have "v \<in> comp_nodes R (take (Suc i) C)"
    using assms(4-6) unfolding comps_ok_def adj_rel_def by blast
  then obtain b where "b \<in> set (take (Suc i) C)" "v \<in> elems R b" by (auto simp: comp_nodes_def)
  moreover from this(1) obtain j where "j < length (take (Suc i) C)" "take (Suc i) C ! j = b"
    by (metis in_set_conv_nth)
  ultimately show ?thesis by (intro exI [of _ j]) auto
qed

theorem StronglyConnectedComponents_reverse_topological_witness:
  "\<exists>j \<le> 1. (3 :: uint64) \<in> elems list_bitmap ([[4, 3], [2, 1]] ! j)"
proof -
  have run: "map_option fst (StronglyConnectedComponents list_bitmap cycle_graph) = Some [[4, 3], [2, 1]]"
    and mem: "2 \<in> elems list_bitmap ([[4, 3], [2, 1]] ! 1)" "3 \<in> set (dg_adjacent cycle_graph 2 DirectionOutbound)"
    by code_simp+
  from run obtain n2c where "StronglyConnectedComponents list_bitmap cycle_graph = Some ([[4, 3], [2, 1]], n2c)"
    by (cases "StronglyConnectedComponents list_bitmap cycle_graph") auto
  from StronglyConnectedComponents_reverse_topological [OF lbm.roaring64_axioms cycle_dg.directed_graph_axioms this _ mem]
  show ?thesis by simp
qed

end
