(* ===== verification/Algo_Component.thy ===== *)
theory Algo_Component
  imports Algo_Scc
begin

text \<open>
  src/algo/scc.go, the type \<open>ComponentGraph\<close>: the graph whose nodes are the strongly connected
  components of an origin graph, the searches on it and its construction.

  \<open>NewComponentGraph\<close> asks after every neighbour whether its context is still alive; the answers
  are the argument \<open>live\<close>, one per question. The digraph field holds the CSR graph through the
  interface \<open>DirectedGraph\<close>.
\<close>

section \<open>The component graph and its lookups\<close>

record 'b ComponentGraph =
  cg_componentMembers :: "'b list"
  cg_memberComponentLookup :: "uint64 \<rightharpoonup> uint64"
  cg_digraph :: DirectedGraph

definition HasMember :: "'b ComponentGraph \<Rightarrow> uint64 \<Rightarrow> bool" where
  "HasMember s memberID \<longleftrightarrow> cg_memberComponentLookup s memberID \<noteq> None"

definition KnownMembers :: "'b roaring64_ops \<Rightarrow> 'b ComponentGraph \<Rightarrow> uint64 list \<Rightarrow> 'b" where
  "KnownMembers R s order = fold (\<lambda>memberID members. bitmap64_Add R members [memberID]) order (NewBitmap64 R)"

definition ContainingComponent :: "'b ComponentGraph \<Rightarrow> uint64 \<Rightarrow> uint64 option" where
  "ContainingComponent s memberID = cg_memberComponentLookup s memberID"

definition ComponentMembers :: "'b ComponentGraph \<Rightarrow> uint64 \<Rightarrow> 'b option" where
  "ComponentMembers s componentID = slice_get (cg_componentMembers s) (unat componentID)"

definition CollectComponentMembers ::
    "'b roaring64_ops \<Rightarrow> 'b ComponentGraph \<Rightarrow> uint64 \<Rightarrow> 'b \<Rightarrow> 'b option" where
  "CollectComponentMembers R s componentID members =
     map_option (\<lambda>b. bitmap64_Or R members (Bitmap64 b)) (slice_get (cg_componentMembers s) (unat componentID))"

definition ComponentHistogram :: "'b ComponentGraph \<Rightarrow> uint64 list \<Rightarrow> (uint64 \<rightharpoonup> uint64)" where
  "ComponentHistogram s originNodes =
     fold (\<lambda>originNode histogram. case ContainingComponent s originNode of
         None \<Rightarrow> histogram
       | Some component \<Rightarrow> histogram(component \<mapsto> map_get histogram 0 component + 1))
       originNodes Map.empty"

section \<open>The searches\<close>

text \<open>\<open>ComponentSearch\<close>: a breadth-first search that stops at the end component.\<close>

definition search_adjacent ::
    "'b roaring64_ops \<Rightarrow> ('q \<Rightarrow> uint64 \<Rightarrow> 'q) \<Rightarrow> uint64 \<Rightarrow> uint64 \<Rightarrow> 'b \<times> 'q \<times> bool \<Rightarrow> ('b \<times> 'q \<times> bool) \<times> bool" where
  "search_adjacent R push endComponent adjacentComponent = (\<lambda>(visited, traversals, _).
     let reachable = (adjacentComponent = endComponent) in
     if reachable then ((visited, traversals, True), False)
     else case bitmap64_CheckedAdd R visited adjacentComponent of
       (fresh, visited') \<Rightarrow>
         ((visited', if fresh then push traversals adjacentComponent else traversals, False), True))"

definition ComponentSearch ::
    "'b roaring64_ops \<Rightarrow> ('q, uint64) deque_ops \<Rightarrow> 'b ComponentGraph \<Rightarrow> uint64 \<Rightarrow> uint64 \<Rightarrow> direction \<Rightarrow> bool option" where
  "ComponentSearch R D s startComponent endComponent dir =
     (if startComponent = endComponent then Some True
      else map_option (\<lambda>(visited, traversals, reachable). reachable)
        (loop (\<lambda>(visited, traversals, reachable). \<not> reachable \<and> dq_Len D traversals > 0)
           (\<lambda>(visited, traversals, reachable). case dq_PopFront D traversals of
              None \<Rightarrow> None
            | Some (nextComponent, traversals') \<Rightarrow>
                Some (EachAdjacentNode (cg_digraph s) nextComponent dir
                  (search_adjacent R (dq_PushBack D) endComponent) (visited, traversals', reachable)))
           (NewBitmap64 R, dq_PushBack D (dq_New D) startComponent, False)))"

text \<open>
  \<open>ComponentReachable\<close>: a search from both ends. One step expands the shorter of the two
  queues; the loop ends when the searches meet or when no step is left.
\<close>

record ('b, 'q) bidirectional =
  bi_outboundQueue :: 'q
  bi_inboundQueue :: 'q
  bi_outboundComponents :: 'b
  bi_inboundComponents :: 'b
  bi_visitedComponents :: 'b
  bi_reachable :: bool

definition expand_adjacent ::
    "'b roaring64_ops \<Rightarrow> ('q \<Rightarrow> uint64 \<Rightarrow> 'q) \<Rightarrow> 'b \<Rightarrow> uint64 \<Rightarrow> 'b \<times> 'q \<times> bool \<Rightarrow> ('b \<times> 'q \<times> bool) \<times> bool" where
  "expand_adjacent R push others adjacentComponent = (\<lambda>(components, queue, reachable).
     case bitmap64_CheckedAdd R components adjacentComponent of (fresh, components') \<Rightarrow>
       let reachable' = (if fresh then bitmap64_Contains R others adjacentComponent else reachable) in
       ((components', if fresh then push queue adjacentComponent else queue, reachable'), \<not> reachable'))"

definition expand_outbound ::
    "'b roaring64_ops \<Rightarrow> ('q, uint64) deque_ops \<Rightarrow> DirectedGraph \<Rightarrow> direction \<Rightarrow> ('b, 'q) bidirectional \<Rightarrow>
     ('b, 'q) bidirectional option" where
  "expand_outbound R D g dir s = Option.bind (dq_PopFront D (bi_outboundQueue s)) (\<lambda>(nextComponent, queue).
     case bitmap64_CheckedAdd R (bi_visitedComponents s) nextComponent of (fresh, visited) \<Rightarrow>
       let s1 = s\<lparr>bi_outboundQueue := queue, bi_visitedComponents := visited\<rparr> in
       if \<not> fresh then Some s1
       else case EachAdjacentNode g nextComponent dir
              (expand_adjacent R (dq_PushBack D) (bi_inboundComponents s1))
              (bi_outboundComponents s1, bi_outboundQueue s1, bi_reachable s1) of
         (components, queue', reachable) \<Rightarrow>
           Some (s1\<lparr>bi_outboundComponents := components, bi_outboundQueue := queue', bi_reachable := reachable\<rparr>))"

definition expand_inbound ::
    "'b roaring64_ops \<Rightarrow> ('q, uint64) deque_ops \<Rightarrow> DirectedGraph \<Rightarrow> direction \<Rightarrow> ('b, 'q) bidirectional \<Rightarrow>
     ('b, 'q) bidirectional option" where
  "expand_inbound R D g dir s = Option.bind (dq_PopFront D (bi_inboundQueue s)) (\<lambda>(nextComponent, queue).
     case EachAdjacentNode g nextComponent (Direction_Reverse dir)
            (expand_adjacent R (dq_PushBack D) (bi_outboundComponents s))
            (bi_inboundComponents s, queue, bi_reachable s) of
       (components, queue', reachable) \<Rightarrow>
         Some (s\<lparr>bi_inboundComponents := components, bi_inboundQueue := queue', bi_reachable := reachable\<rparr>))"

definition bi_outbound_turn :: "('q, uint64) deque_ops \<Rightarrow> ('b, 'q) bidirectional \<Rightarrow> bool" where
  "bi_outbound_turn D s \<longleftrightarrow> dq_Len D (bi_outboundQueue s) > 0 \<and>
     dq_Len D (bi_outboundQueue s) \<le> dq_Len D (bi_inboundQueue s)"

definition bi_start :: "'b roaring64_ops \<Rightarrow> ('q, uint64) deque_ops \<Rightarrow> uint64 \<Rightarrow> uint64 \<Rightarrow> ('b, 'q) bidirectional" where
  "bi_start R D startComponent endComponent =
     \<lparr>bi_outboundQueue = dq_PushBack D (dq_New D) startComponent,
      bi_inboundQueue = dq_PushBack D (dq_New D) endComponent,
      bi_outboundComponents = bitmap64_Add R (NewBitmap64 R) [startComponent],
      bi_inboundComponents = bitmap64_Add R (NewBitmap64 R) [endComponent],
      bi_visitedComponents = NewBitmap64 R, bi_reachable = False\<rparr>"

definition ComponentReachable ::
    "'b roaring64_ops \<Rightarrow> ('q, uint64) deque_ops \<Rightarrow> 'b ComponentGraph \<Rightarrow> uint64 \<Rightarrow> uint64 \<Rightarrow> direction \<Rightarrow> bool option" where
  "ComponentReachable R D s startComponent endComponent dir =
     (if startComponent = endComponent then Some True
      else map_option bi_reachable
        (loop (\<lambda>st. \<not> bi_reachable st \<and> (bi_outbound_turn D st \<or> dq_Len D (bi_inboundQueue st) > 0))
           (\<lambda>st. if bi_outbound_turn D st then expand_outbound R D (cg_digraph s) dir st
                 else expand_inbound R D (cg_digraph s) dir st)
           (bi_start R D startComponent endComponent)))"

definition OriginReachable ::
    "'b roaring64_ops \<Rightarrow> ('q, uint64) deque_ops \<Rightarrow> 'b ComponentGraph \<Rightarrow> uint64 \<Rightarrow> uint64 \<Rightarrow> bool option" where
  "OriginReachable R D s startID endID =
     (case (ContainingComponent s startID, ContainingComponent s endID) of
        (Some startComponent, Some endComponent) \<Rightarrow>
          ComponentReachable R D s startComponent endComponent DirectionBoth
      | _ \<Rightarrow> Some False)"

section \<open>Construction\<close>

text \<open>One neighbour: an edge between different components, in the order the caller gives.\<close>

definition component_edge ::
    "'b roaring64_ops \<Rightarrow> (nat \<Rightarrow> bool) \<Rightarrow> (uint64 \<rightharpoonup> uint64) \<Rightarrow> bool \<Rightarrow> uint64 \<Rightarrow> uint64 \<Rightarrow>
     nat \<times> 'b CSRDigraphBuilder \<Rightarrow> (nat \<times> 'b CSRDigraphBuilder) \<times> bool" where
  "component_edge R live lookup inbound nodeComponent adjacent = (\<lambda>(asked, builder).
     let adjacentComponent = map_get lookup 0 adjacent in
     ((asked + 1,
       if nodeComponent \<noteq> adjacentComponent
       then if inbound then cb_AddEdge R builder adjacentComponent nodeComponent
            else cb_AddEdge R builder nodeComponent adjacentComponent
       else builder), live asked))"

definition component_node ::
    "'b roaring64_ops \<Rightarrow> (nat \<Rightarrow> bool) \<Rightarrow> (uint64 \<rightharpoonup> uint64) \<Rightarrow> DirectedGraph \<Rightarrow> uint64 \<Rightarrow>
     nat \<times> 'b CSRDigraphBuilder \<Rightarrow> (nat \<times> 'b CSRDigraphBuilder) \<times> bool" where
  "component_node R live lookup g node s =
     (let nodeComponent = map_get lookup 0 node;
          s1 = EachAdjacentNode g node DirectionInbound (component_edge R live lookup True nodeComponent) s;
          s2 = EachAdjacentNode g node DirectionOutbound (component_edge R live lookup False nodeComponent) s1
      in ((fst s2 + 1, snd s2), live (fst s2)))"

definition NewComponentGraph ::
    "'b roaring64_ops \<Rightarrow> (nat \<Rightarrow> bool) \<Rightarrow> DirectedGraph \<Rightarrow> 'b ComponentGraph option" where
  "NewComponentGraph R live originGraph =
     Option.bind (StronglyConnectedComponents R originGraph) (\<lambda>(componentMembers, memberComponentLookup).
       let builder = fold (\<lambda>componentID b. cb_AddNode R b (of_nat componentID)) [0..<length componentMembers]
             NewCSRDigraphBuilder;
           (_, builder') = EachNode originGraph (component_node R live memberComponentLookup originGraph) (0, builder)
       in map_option (\<lambda>digraph. \<lparr>cg_componentMembers = componentMembers,
              cg_memberComponentLookup = memberComponentLookup, cg_digraph = cs_DirectedGraph digraph\<rparr>)
            (cb_Build R builder'))"

section \<open>The search from both ends\<close>

definition bi_inv :: "uint64 rel \<Rightarrow> uint64 \<Rightarrow> uint64 \<Rightarrow> uint64 set \<Rightarrow> uint64 list \<Rightarrow> uint64 set \<Rightarrow> uint64 list \<Rightarrow> uint64 set \<Rightarrow> bool" where
  "bi_inv E a b V Q W P vis \<longleftrightarrow> a \<in> V \<and> b \<in> W \<and> V \<subseteq> E\<^sup>* `` {a} \<and> W \<subseteq> {x. (x, b) \<in> E\<^sup>*} \<and> V \<inter> W = {} \<and>
     set Q \<subseteq> V \<and> set P \<subseteq> W \<and>
     (\<forall>x \<in> V. x \<notin> set Q \<longrightarrow> E `` {x} \<subseteq> V) \<and> (\<forall>x \<in> W. x \<notin> set P \<longrightarrow> E\<inverse> `` {x} \<subseteq> W) \<and>
     (\<forall>x \<in> vis. E `` {x} \<subseteq> V)"

lemma bi_inv_skip:
  assumes "bi_inv E a b V (x # Q) W P vis" "x \<in> vis"
  shows "bi_inv E a b V Q W P vis"
proof -
  have "E `` {y} \<subseteq> V" if "y \<in> V" "y \<notin> set Q" for y
    using assms that by (cases "y = x") (auto simp: bi_inv_def)
  with assms(1) show ?thesis by (simp add: bi_inv_def)
qed

lemma bi_inv_out:
  assumes "bi_inv E a b V (x # Q) W P vis" "(V \<union> E `` {x}) \<inter> W = {}" "set Q' = set Q \<union> (E `` {x} - V)"
  shows "bi_inv E a b (V \<union> E `` {x}) Q' W P (insert x vis)"
proof -
  have "x \<in> E\<^sup>* `` {a}" using assms(1) by (auto simp: bi_inv_def)
  then have "E `` {x} \<subseteq> E\<^sup>* `` {a}" by (auto intro: rtrancl_into_rtrancl)
  with assms show ?thesis by (auto simp: bi_inv_def)
qed

lemma bi_inv_in:
  assumes "bi_inv E a b V Q W (x # P) vis" "V \<inter> (W \<union> E\<inverse> `` {x}) = {}" "set P' = set P \<union> (E\<inverse> `` {x} - W)"
  shows "bi_inv E a b V Q (W \<union> E\<inverse> `` {x}) P' vis"
proof -
  have "(x, b) \<in> E\<^sup>*" using assms(1) by (auto simp: bi_inv_def)
  then have "E\<inverse> `` {x} \<subseteq> {y. (y, b) \<in> E\<^sup>*}" by (auto intro: converse_rtrancl_into_rtrancl)
  with assms show ?thesis by (auto simp: bi_inv_def)
qed

text \<open>When the inbound queue is empty, everything that leads to the end has been found.\<close>

lemma bi_inv_exhausted:
  assumes "bi_inv E a b V Q W [] vis"
  shows "(a, b) \<notin> E\<^sup>*"
proof
  assume "(a, b) \<in> E\<^sup>*"
  then have "(b, a) \<in> (E\<inverse>)\<^sup>*" by (simp add: rtrancl_converse)
  then have "a \<in> W" using assms by (intro closed_rtrancl_subset [of "E\<inverse>" W b a]) (auto simp: bi_inv_def)
  with assms show False by (auto simp: bi_inv_def)
qed

text \<open>A neighbour seen from the other side connects the two ends.\<close>

lemma bi_inv_meet:
  assumes "bi_inv E a b V Q W P vis"
  shows "x \<in> V \<Longrightarrow> (x, y) \<in> E \<Longrightarrow> y \<in> W \<Longrightarrow> (a, b) \<in> E\<^sup>*"
proof -
  assume a: "x \<in> V" "(x, y) \<in> E" "y \<in> W"
  have "(a, x) \<in> E\<^sup>*" "(y, b) \<in> E\<^sup>*" using assms a by (auto simp: bi_inv_def)
  with a(2) show ?thesis by (meson rtrancl_into_rtrancl rtrancl_trans)
qed

context roaring64
begin

lemma expand_adjacent_result:
  assumes "elems R cs \<inter> elems R others = {}"
  shows "(\<exists>cs' q' x. each (expand_adjacent R push others) xs (cs, q, False) = (cs', q', True) \<and>
            x \<in> set xs \<and> x \<in> elems R others) \<or>
         (\<exists>cs'. each (expand_adjacent R push others) xs (cs, q, False) =
              (cs', fold (\<lambda>x q. push q x) (fresh_of (elems R cs) xs) q, False) \<and>
            elems R cs' = elems R cs \<union> set xs \<and> (elems R cs \<union> set xs) \<inter> elems R others = {})"
    (is "?meet cs q xs \<or> ?apart cs q xs")
  using assms
proof (induction xs arbitrary: cs q)
  case (Cons x xs)
  obtain fr cs1 where c: "bitmap64_CheckedAdd R cs x = (fr, cs1)" by fastforce
  then have fr: "fr = (x \<notin> elems R cs)" "elems R cs1 = insert x (elems R cs)"
    using fst_bitmap64_CheckedAdd [of cs x] elems_bitmap64_CheckedAdd [of cs x] by auto
  show ?case
  proof (cases "fr \<and> x \<in> elems R others")
    case True
    then have "each (expand_adjacent R push others) (x # xs) (cs, q, False) = (cs1, push q x, True)"
      by (simp add: expand_adjacent_def c)
    with True show ?thesis by (metis list.set_intros(1))
  next
    case False
    let ?q = "if fr then push q x else q"
    have step: "each (expand_adjacent R push others) (x # xs) (cs, q, False) =
        each (expand_adjacent R push others) xs (cs1, ?q, False)"
      using False by (auto simp: expand_adjacent_def c)
    have disj: "elems R cs1 \<inter> elems R others = {}" using False fr Cons.prems by auto
    have fold: "fold (\<lambda>x q. push q x) (fresh_of (elems R cs1) xs) ?q = fold (\<lambda>x q. push q x) (fresh_of (elems R cs) (x # xs)) q"
      using fr by (simp add: insert_absorb)
    from Cons.IH [OF disj, of ?q] show ?thesis
    proof
      assume "?meet cs1 ?q xs"
      then show ?thesis unfolding step by (metis list.set_intros(2))
    next
      assume "?apart cs1 ?q xs"
      then show ?thesis unfolding step fold using fr(2) by auto
    qed
  qed
qed auto

lemma search_adjacent_found:
  "e \<in> set xs \<Longrightarrow> \<exists>vis' q'. each (search_adjacent R push e) xs (vis, q, r) = (vis', q', True)"
  by (induction xs arbitrary: vis q r) (auto simp: search_adjacent_def Let_def split: prod.split)

lemma search_adjacent_missed:
  "e \<notin> set xs \<Longrightarrow> \<exists>vis'. each (search_adjacent R push e) xs (vis, q, False) =
     (vis', fold (\<lambda>x q. push q x) (fresh_of (elems R vis) xs) q, False) \<and> elems R vis' = elems R vis \<union> set xs"
proof (induction xs arbitrary: vis q)
  case (Cons x xs)
  obtain fr vis1 where c: "bitmap64_CheckedAdd R vis x = (fr, vis1)" by fastforce
  then have "fr = (x \<notin> elems R vis)" "elems R vis1 = insert x (elems R vis)"
    using fst_bitmap64_CheckedAdd [of vis x] elems_bitmap64_CheckedAdd [of vis x] by auto
  moreover have "e \<notin> set xs" "x \<noteq> e" using Cons.prems by auto
  ultimately show ?case
    using Cons.IH [of vis1 "if fr then push q x else q"]
    by (auto simp: search_adjacent_def Let_def c insert_absorb)
qed simp

end

context reach_env
begin

lemma items_pushed:
  assumes "items q = x # items q1" "V' = V \<union> set xs"
  shows "set (items (fold (\<lambda>x q. dq_PushBack D q x) (fresh_of V xs) q1)) = set (items q1) \<union> (set xs - V)"
    and "card (- V') + length (items (fold (\<lambda>x q. dq_PushBack D q x) (fresh_of V xs) q1)) < card (- V) + length (items q)"
proof -
  have it: "items (fold (\<lambda>x q. dq_PushBack D q x) (fresh_of V xs) q1) = items q1 @ fresh_of V xs"
    by (rule items_fold_PushBack)
  then show "set (items (fold (\<lambda>x q. dq_PushBack D q x) (fresh_of V xs) q1)) = set (items q1) \<union> (set xs - V)"
    by (simp add: set_fresh_of)
  have "length (fresh_of V xs) = card (V' - V)"
    using distinct_fresh_of [of V xs] set_fresh_of [of V xs] assms(2)
    by (metis Un_Diff Diff_cancel Un_empty_left distinct_card)
  then have "card (- V') + length (items q1 @ fresh_of V xs) < card (- V) + Suc (length (items q1))"
    by (intro card_fresh_step [OF assms(2)]) simp
  then show "card (- V') + length (items (fold (\<lambda>x q. dq_PushBack D q x) (fresh_of V xs) q1)) < card (- V) + length (items q)"
    by (simp add: it assms(1))
qed

definition bi_ok :: "uint64 rel \<Rightarrow> uint64 \<Rightarrow> uint64 \<Rightarrow> ('b, 'q) bidirectional \<Rightarrow> bool" where
  "bi_ok E a b s \<longleftrightarrow>
     (if bi_reachable s then (a, b) \<in> E\<^sup>*
      else bi_inv E a b (elems R (bi_outboundComponents s)) (items (bi_outboundQueue s))
        (elems R (bi_inboundComponents s)) (items (bi_inboundQueue s)) (elems R (bi_visitedComponents s)))"

definition bi_measure :: "('b, 'q) bidirectional \<Rightarrow> nat" where
  "bi_measure s = card (- elems R (bi_outboundComponents s)) + length (items (bi_outboundQueue s)) +
     card (- elems R (bi_inboundComponents s)) + length (items (bi_inboundQueue s))"

text \<open>A step that finds the other end need not shrink the measure: the loop stops.\<close>

definition bi_rel :: "(('b, 'q) bidirectional \<times> ('b, 'q) bidirectional) set" where
  "bi_rel = measures [\<lambda>s. if bi_reachable s then 0 else 1, bi_measure]"

lemma expand_outbound_step:
  assumes ok: "bi_ok (adj_rel g dir) a b s" and run: "\<not> bi_reachable s" "dq_Len D (bi_outboundQueue s) > 0"
  shows "\<exists>t. expand_outbound R D g dir s = Some t \<and> bi_ok (adj_rel g dir) a b t \<and> (t, s) \<in> bi_rel"
proof -
  let ?E = "adj_rel g dir" and ?V = "elems R (bi_outboundComponents s)"
  from run(2) obtain x q where pop: "dq_PopFront D (bi_outboundQueue s) = Some (x, q)"
    "items (bi_outboundQueue s) = x # items q"
    by (rule PopFront_nonempty)
  have inv: "bi_inv ?E a b ?V (x # items q) (elems R (bi_inboundComponents s)) (items (bi_inboundQueue s))
      (elems R (bi_visitedComponents s))"
    using ok run(1) pop(2) by (simp add: bi_ok_def)
  obtain fr vis where c: "bitmap64_CheckedAdd R (bi_visitedComponents s) x = (fr, vis)" by fastforce
  then have fr: "fr = (x \<notin> elems R (bi_visitedComponents s))" "elems R vis = insert x (elems R (bi_visitedComponents s))"
    using fst_bitmap64_CheckedAdd [of "bi_visitedComponents s" x] elems_bitmap64_CheckedAdd [of "bi_visitedComponents s" x]
    by auto
  let ?s1 = "s\<lparr>bi_outboundQueue := q, bi_visitedComponents := vis\<rparr>"
  show ?thesis
  proof (cases fr)
    case False
    then have "expand_outbound R D g dir s = Some ?s1" by (simp add: expand_outbound_def pop c)
    moreover have "bi_ok ?E a b ?s1" using bi_inv_skip [OF inv] fr False run(1) by (simp add: bi_ok_def insert_absorb)
    moreover have "(?s1, s) \<in> bi_rel" using run(1) pop(2) by (simp add: bi_rel_def bi_measure_def)
    ultimately show ?thesis by blast
  next
    case True
    let ?others = "bi_inboundComponents s" and ?xs = "dg_adjacent g x dir"
    let ?each = "each (expand_adjacent R (dq_PushBack D) ?others) ?xs (bi_outboundComponents s, q, False)"
    have out: "expand_outbound R D g dir s = (case ?each of (cs, q', r) \<Rightarrow>
        Some (?s1\<lparr>bi_outboundComponents := cs, bi_outboundQueue := q', bi_reachable := r\<rparr>))"
      using True run(1) by (simp add: expand_outbound_def pop c EachAdjacentNode_def)
    have "?V \<inter> elems R ?others = {}" using inv by (simp add: bi_inv_def)
    from expand_adjacent_result [OF this, of "dq_PushBack D" ?xs q] show ?thesis
    proof (elim disjE exE conjE)
      fix cs q' y
      assume e: "?each = (cs, q', True)" "y \<in> set ?xs" "y \<in> elems R ?others"
      have "(a, b) \<in> ?E\<^sup>*"
        by (rule bi_inv_meet [OF inv, of x y]) (use inv e in \<open>auto simp: bi_inv_def adj_rel_iff\<close>)
      with e(1) out run(1) show ?thesis by (simp add: bi_ok_def bi_rel_def)
    next
      fix cs
      let ?q' = "fold (\<lambda>x q. dq_PushBack D q x) (fresh_of ?V ?xs) q"
      assume e: "?each = (cs, ?q', False)" "elems R cs = ?V \<union> set ?xs" "(?V \<union> set ?xs) \<inter> elems R ?others = {}"
      note push = items_pushed [OF pop(2) e(2)]
      have "bi_inv ?E a b (?V \<union> ?E `` {x}) (items ?q') (elems R ?others) (items (bi_inboundQueue s))
          (insert x (elems R (bi_visitedComponents s)))"
        by (rule bi_inv_out [OF inv]) (use e(3) push(1) in \<open>simp_all add: adj_rel_Image\<close>)
      then have "bi_ok ?E a b (?s1\<lparr>bi_outboundComponents := cs, bi_outboundQueue := ?q', bi_reachable := False\<rparr>)"
        using e(2) fr(2) by (simp add: bi_ok_def adj_rel_Image)
      with out e(1) push(2) run(1) show ?thesis by (simp add: bi_rel_def bi_measure_def)
    qed
  qed
qed

lemma expand_inbound_step:
  assumes ok: "bi_ok (adj_rel g dir) a b s" and conv: "adj_rel g (Direction_Reverse dir) = (adj_rel g dir)\<inverse>"
    and run: "\<not> bi_reachable s" "dq_Len D (bi_inboundQueue s) > 0"
  shows "\<exists>t. expand_inbound R D g dir s = Some t \<and> bi_ok (adj_rel g dir) a b t \<and> (t, s) \<in> bi_rel"
proof -
  let ?E = "adj_rel g dir" and ?W = "elems R (bi_inboundComponents s)"
  from run(2) obtain x q where pop: "dq_PopFront D (bi_inboundQueue s) = Some (x, q)"
    "items (bi_inboundQueue s) = x # items q"
    by (rule PopFront_nonempty)
  let ?others = "bi_outboundComponents s" and ?xs = "dg_adjacent g x (Direction_Reverse dir)"
  have inv: "bi_inv ?E a b (elems R ?others) (items (bi_outboundQueue s)) ?W (x # items q)
      (elems R (bi_visitedComponents s))"
    using ok run(1) pop(2) by (simp add: bi_ok_def)
  have xs: "set ?xs = ?E\<inverse> `` {x}" unfolding conv [symmetric] by (simp add: adj_rel_Image)
  let ?each = "each (expand_adjacent R (dq_PushBack D) ?others) ?xs (bi_inboundComponents s, q, False)"
  have step: "expand_inbound R D g dir s = (case ?each of (cs, q', r) \<Rightarrow>
      Some (s\<lparr>bi_inboundComponents := cs, bi_inboundQueue := q', bi_reachable := r\<rparr>))"
    using run(1) by (simp add: expand_inbound_def pop EachAdjacentNode_def)
  have "?W \<inter> elems R ?others = {}" using inv by (auto simp: bi_inv_def)
  from expand_adjacent_result [OF this, of "dq_PushBack D" ?xs q] show ?thesis
  proof (elim disjE exE conjE)
    fix cs q' y
    assume e: "?each = (cs, q', True)" "y \<in> set ?xs" "y \<in> elems R ?others"
    have "(a, b) \<in> ?E\<^sup>*"
      by (rule bi_inv_meet [OF inv, of y x]) (use inv e xs in \<open>auto simp: bi_inv_def\<close>)
    with e(1) step run(1) show ?thesis by (simp add: bi_ok_def bi_rel_def)
  next
    fix cs
    let ?q' = "fold (\<lambda>x q. dq_PushBack D q x) (fresh_of ?W ?xs) q"
    assume e: "?each = (cs, ?q', False)" "elems R cs = ?W \<union> set ?xs" "(?W \<union> set ?xs) \<inter> elems R ?others = {}"
    note push = items_pushed [OF pop(2) e(2)]
    have "bi_inv ?E a b (elems R ?others) (items (bi_outboundQueue s)) (?W \<union> ?E\<inverse> `` {x}) (items ?q')
        (elems R (bi_visitedComponents s))"
      by (rule bi_inv_in [OF inv]) (use e(3) push(1) xs in auto)
    then have "bi_ok ?E a b (s\<lparr>bi_inboundComponents := cs, bi_inboundQueue := ?q', bi_reachable := False\<rparr>)"
      using e(2) xs by (simp add: bi_ok_def)
    with step e(1) push(2) run(1) show ?thesis by (simp add: bi_rel_def bi_measure_def)
  qed
qed

theorem ComponentReachable_result:
  assumes "directed_graph (cg_digraph s)"
  shows "ComponentReachable R D s a b dir = Some ((a, b) \<in> (adj_rel (cg_digraph s) dir)\<^sup>*)"
proof (cases "a = b")
  case False
  let ?g = "cg_digraph s" and ?E = "adj_rel (cg_digraph s) dir"
  let ?b = "\<lambda>st. \<not> bi_reachable st \<and> (bi_outbound_turn D st \<or> dq_Len D (bi_inboundQueue st) > 0)"
  let ?c = "\<lambda>st. if bi_outbound_turn D st then expand_outbound R D ?g dir st else expand_inbound R D ?g dir st"
  note conv = directed_graph.adj_rel_Reverse [OF assms]
  have "\<exists>t. loop ?b ?c (bi_start R D a b) = Some t \<and> bi_ok ?E a b t \<and> \<not> ?b t"
  proof (rule loop_total [where r = bi_rel])
    show "wf bi_rel" by (simp add: bi_rel_def)
    show "bi_ok ?E a b (bi_start R D a b)" using False by (simp add: bi_ok_def bi_start_def bi_inv_def)
  next
    fix st
    assume "bi_ok ?E a b st" "?b st"
    then show "\<exists>st'. ?c st = Some st' \<and> bi_ok ?E a b st' \<and> (st', st) \<in> bi_rel"
      using expand_outbound_step [of ?g dir a b st] expand_inbound_step [OF _ conv, of dir a b st]
      by (auto simp: bi_outbound_turn_def)
  qed
  then obtain t where t: "loop ?b ?c (bi_start R D a b) = Some t" "bi_ok ?E a b t" "\<not> ?b t"
    by (elim exE conjE)
  have "bi_reachable t \<longleftrightarrow> (a, b) \<in> ?E\<^sup>*"
  proof (cases "bi_reachable t")
    case False
    with t(3) have "items (bi_inboundQueue t) = []" by simp
    with t(2) False show ?thesis using bi_inv_exhausted by (auto simp: bi_ok_def)
  qed (use t(2) in \<open>simp add: bi_ok_def\<close>)
  with t(1) False show ?thesis by (simp add: ComponentReachable_def)
qed (simp add: ComponentReachable_def)

theorem ComponentSearch_result:
  "ComponentSearch R D s a b dir = Some ((a, b) \<in> (adj_rel (cg_digraph s) dir)\<^sup>*)"
proof (cases "a = b")
  case False
  let ?g = "cg_digraph s" and ?E = "adj_rel (cg_digraph s) dir"
  let ?b = "\<lambda>(vis, q, r). \<not> r \<and> dq_Len D q > 0"
  let ?c = "\<lambda>(vis, q, r). case dq_PopFront D q of None \<Rightarrow> None
     | Some (x, q') \<Rightarrow> Some (EachAdjacentNode ?g x dir (search_adjacent R (dq_PushBack D) b) (vis, q', r))"
  let ?I = "\<lambda>(vis, q, r). if r then (a, b) \<in> ?E\<^sup>* else b \<notin> elems R vis \<and> reach_inv ?E a (elems R vis) (items q)"
  let ?r = "measures [\<lambda>(vis, q, r). if r then 0 else 1, \<lambda>(vis, q, r). card (- elems R vis) + length (items q)]"
  have "\<exists>t. loop ?b ?c (NewBitmap64 R, dq_PushBack D (dq_New D) a, False) = Some t \<and> ?I t \<and> \<not> ?b t"
  proof (rule loop_total [where r = ?r])
    show "?I (NewBitmap64 R, dq_PushBack D (dq_New D) a, False)" by (simp add: reach_inv_def)
  next
    fix st
    assume st: "?I st" "?b st"
    obtain vis q r where s: "st = (vis, q, r)" by (cases st)
    with st have inv: "\<not> r" "b \<notin> elems R vis" "reach_inv ?E a (elems R vis) (items q)" "dq_Len D q > 0" by auto
    from inv(4) obtain x q1 where pop: "dq_PopFront D q = Some (x, q1)" "items q = x # items q1"
      by (rule PopFront_nonempty)
    let ?xs = "dg_adjacent ?g x dir"
    have reach: "(a, x) \<in> ?E\<^sup>*" using inv(3) pop(2) by (auto simp: reach_inv_def dest: trancl_into_rtrancl)
    show "\<exists>st'. ?c st = Some st' \<and> ?I st' \<and> (st', st) \<in> ?r"
    proof (cases "b \<in> set ?xs")
      case True
      from search_adjacent_found [OF this, of "dq_PushBack D" vis q1 r] obtain vis' q' where
        "each (search_adjacent R (dq_PushBack D) b) ?xs (vis, q1, r) = (vis', q', True)" by blast
      moreover have "(a, b) \<in> ?E\<^sup>*" using reach True by (auto simp: adj_rel_iff intro: rtrancl_into_rtrancl)
      ultimately show ?thesis using s inv(1) pop(1) by (simp add: EachAdjacentNode_def)
    next
      case False
      let ?q' = "fold (\<lambda>x q. dq_PushBack D q x) (fresh_of (elems R vis) ?xs) q1"
      from search_adjacent_missed [OF False, of "dq_PushBack D" vis q1] obtain vis' where
        v: "each (search_adjacent R (dq_PushBack D) b) ?xs (vis, q1, False) = (vis', ?q', False)"
          "elems R vis' = elems R vis \<union> set ?xs" by blast
      note push = items_pushed [OF pop(2) v(2)]
      have "reach_inv ?E a (elems R vis') (items ?q')"
        by (rule reach_inv_step [OF inv(3) [unfolded pop(2)]]) (use v(2) push(1) in \<open>auto simp: adj_rel_Image\<close>)
      with False v inv pop(1) push(2) s show ?thesis by (simp add: EachAdjacentNode_def)
    qed
  qed simp
  then obtain vis q r where t: "loop ?b ?c (NewBitmap64 R, dq_PushBack D (dq_New D) a, False) = Some (vis, q, r)"
    "?I (vis, q, r)" "\<not> ?b (vis, q, r)" by auto
  have "r \<longleftrightarrow> (a, b) \<in> ?E\<^sup>*"
  proof (cases r)
    case False
    with t have "b \<notin> elems R vis" "reach_inv ?E a (elems R vis) []" by auto
    with reach_inv_final [of ?E a "elems R vis"] \<open>a \<noteq> b\<close> have "(a, b) \<notin> ?E\<^sup>*" by (auto dest: rtranclD)
    with False show ?thesis by simp
  qed (use t in simp)
  with t(1) False show ?thesis by (simp add: ComponentSearch_def)
qed (simp add: ComponentSearch_def)

end

section \<open>Reachability between classes\<close>

text \<open>
  \<open>L\<close> maps nodes to classes so that nodes of the same class reach each other; the edges between
  different classes then show the same reachability as the edges between nodes.
\<close>

lemma quotient_reach:
  assumes sub: "E \<subseteq> N \<times> N" and same: "\<And>u v. u \<in> N \<Longrightarrow> v \<in> N \<Longrightarrow> L u = L v \<Longrightarrow> (u, v) \<in> E\<^sup>*"
    and F: "F = {(L u, L v) |u v. (u, v) \<in> E \<and> L u \<noteq> L v}" and u: "u \<in> N" and v: "v \<in> N"
  shows "(L u, L v) \<in> F\<^sup>* \<longleftrightarrow> (u, v) \<in> E\<^sup>*"
proof
  have "(L u, c) \<in> F\<^sup>* \<Longrightarrow> \<forall>v \<in> N. L v = c \<longrightarrow> (u, v) \<in> E\<^sup>*" for c
  proof (induction rule: rtrancl_induct)
    case base
    then show ?case using same u by metis
  next
    case (step c d)
    then obtain x y where xy: "(x, y) \<in> E" "L x = c" "L y = d" using F by blast
    then have "x \<in> N" "y \<in> N" using sub by auto
    with step.IH xy(2) have "(u, x) \<in> E\<^sup>*" by blast
    from this xy(1) have "(u, y) \<in> E\<^sup>*" by (rule rtrancl_into_rtrancl)
    then show ?case using same \<open>y \<in> N\<close> xy(3) by (metis rtrancl_trans)
  qed
  then show "(L u, L v) \<in> F\<^sup>* \<Longrightarrow> (u, v) \<in> E\<^sup>*" using v by blast
next
  show "(u, v) \<in> E\<^sup>* \<Longrightarrow> (L u, L v) \<in> F\<^sup>*"
  proof (induction rule: rtrancl_induct)
    case (step x y)
    then show ?case using F by (cases "L x = L y") (auto intro: rtrancl_into_rtrancl)
  qed simp
qed

lemma quotient_acyclic:
  assumes sub: "E \<subseteq> N \<times> N" and same: "\<And>u v. u \<in> N \<Longrightarrow> v \<in> N \<Longrightarrow> L u = L v \<Longrightarrow> (u, v) \<in> E\<^sup>*"
    and mutual: "\<And>u v. u \<in> N \<Longrightarrow> v \<in> N \<Longrightarrow> (u, v) \<in> E\<^sup>* \<Longrightarrow> (v, u) \<in> E\<^sup>* \<Longrightarrow> L u = L v"
    and F: "F = {(L u, L v) |u v. (u, v) \<in> E \<and> L u \<noteq> L v}"
  shows "acyclic F"
proof (rule acyclicI, rule allI, rule notI)
  fix c
  assume "(c, c) \<in> F\<^sup>+"
  then obtain d where d: "(c, d) \<in> F" "(d, c) \<in> F\<^sup>*" by (auto dest: tranclD)
  then obtain x y where xy: "(x, y) \<in> E" "L x = c" "L y = d" "L x \<noteq> L y" using F by auto
  then have N: "x \<in> N" "y \<in> N" using sub by auto
  have "(y, x) \<in> E\<^sup>*" using d(2) quotient_reach [OF sub same F N(2,1)] xy by blast
  with xy mutual [OF N] show False by auto
qed

section \<open>The component graph built by the code\<close>

abbreviation class_edges :: "(uint64 \<Rightarrow> uint64) \<Rightarrow> uint64 rel \<Rightarrow> uint64 rel" where
  "class_edges L E \<equiv> {(L u, L v) |u v. (u, v) \<in> E \<and> L u \<noteq> L v}"

lemma class_edges_Un: "class_edges L (A \<union> B) = class_edges L A \<union> class_edges L B"
  by blast

lemma class_edges_converse: "class_edges L (A\<inverse>) = (class_edges L A)\<inverse>"
proof (rule set_eqI, clarify)
  fix x y
  show "(x, y) \<in> class_edges L (A\<inverse>) \<longleftrightarrow> (x, y) \<in> (class_edges L A)\<inverse>"
    by (simp only: mem_Collect_eq converse_iff prod.inject) metis
qed

lemma class_edges_at:
  "{(L a, L n) |a. (a, n) \<in> E \<and> L a \<noteq> L n} \<union> {(L n, L a) |a. (n, a) \<in> E \<and> L a \<noteq> L n} =
   class_edges L {(u, v) \<in> E. u = n \<or> v = n}"
proof (rule set_eqI, clarify)
  fix x y
  show "(x, y) \<in> {(L a, L n) |a. (a, n) \<in> E \<and> L a \<noteq> L n} \<union> {(L n, L a) |a. (n, a) \<in> E \<and> L a \<noteq> L n} \<longleftrightarrow>
      (x, y) \<in> class_edges L {(u, v) \<in> E. u = n \<or> v = n}"
    by (simp only: mem_Collect_eq Un_iff prod.inject case_prod_conv) (safe, metis+)
qed

context scc_env
begin

lemma component_edges_fold:
  assumes live: "\<forall>k. live k" and inv: "cb_inv R b"
    and nodes: "nc \<in> cb_nodeset b" "map_get lookup 0 ` set xs \<subseteq> cb_nodeset b"
  shows "\<exists>k' b'. each (component_edge R live lookup inbound nc) xs (k, b) = (k', b') \<and> cb_inv R b' \<and>
     cb_nodeset b' = cb_nodeset b \<and>
     cb_edges R b' = cb_edges R b \<union> {if inbound then (map_get lookup 0 a, nc) else (nc, map_get lookup 0 a) |a.
        a \<in> set xs \<and> map_get lookup 0 a \<noteq> nc}"
  using inv nodes
proof (induction xs arbitrary: k b)
  case (Cons x xs)
  let ?x = "map_get lookup 0 x"
  let ?b1 = "if nc \<noteq> ?x then if inbound then cb_AddEdge R b ?x nc else cb_AddEdge R b nc ?x else b"
  have step: "each (component_edge R live lookup inbound nc) (x # xs) (k, b) =
      each (component_edge R live lookup inbound nc) xs (k + 1, ?b1)"
    using live by (simp add: component_edge_def Let_def)
  have b1: "cb_inv R ?b1" "cb_nodeset ?b1 = cb_nodeset b"
    "cb_edges R ?b1 = cb_edges R b \<union> (if nc \<noteq> ?x then {if inbound then (?x, nc) else (nc, ?x)} else {})"
    using Cons.prems by (auto simp: cb_AddEdge_result)
  from Cons.IH [OF b1(1), of "k + 1"] Cons.prems b1(2) obtain k' b' where
    r: "each (component_edge R live lookup inbound nc) xs (k + 1, ?b1) = (k', b')" "cb_inv R b'"
      "cb_nodeset b' = cb_nodeset ?b1"
      "cb_edges R b' = cb_edges R ?b1 \<union> {if inbound then (map_get lookup 0 a, nc) else (nc, map_get lookup 0 a) |a.
        a \<in> set xs \<and> map_get lookup 0 a \<noteq> nc}"
    by auto
  show ?case unfolding step using r b1 by (intro exI [of _ k'] exI [of _ b']) (auto split: if_splits)
qed auto

lemma component_node_result:
  assumes live: "\<forall>k. live k" and inv: "cb_inv R b" and n: "n \<in> set (dg_nodes g)"
    and nodes: "map_get lookup 0 ` set (dg_nodes g) \<subseteq> cb_nodeset b"
  shows "\<exists>k' b'. component_node R live lookup g n (k, b) = ((k', b'), True) \<and> cb_inv R b' \<and> cb_nodeset b' = cb_nodeset b \<and>
     cb_edges R b' = cb_edges R b \<union> class_edges (map_get lookup 0) {(u, v) \<in> out_rel g. u = n \<or> v = n}"
proof -
  let ?L = "map_get lookup 0"
  have adj: "?L ` set (dg_adjacent g n dir) \<subseteq> cb_nodeset b" "?L n \<in> cb_nodeset b" for dir
    using nodes n adjacent_nodes by blast+
  from component_edges_fold [OF live inv adj(2) adj(1) [of DirectionInbound], where inbound = True and k = k]
  obtain k1 b1 where b1: "each (component_edge R live lookup True (?L n)) (dg_adjacent g n DirectionInbound) (k, b) = (k1, b1)"
    "cb_inv R b1" "cb_nodeset b1 = cb_nodeset b"
    "cb_edges R b1 = cb_edges R b \<union> {(?L a, ?L n) |a. a \<in> set (dg_adjacent g n DirectionInbound) \<and> ?L a \<noteq> ?L n}"
    by auto
  from component_edges_fold [OF live b1(2), where nc = "?L n" and inbound = False and k = k1 and lookup = lookup
      and xs = "dg_adjacent g n DirectionOutbound"] adj b1(3)
  obtain k2 b2 where b2: "each (component_edge R live lookup False (?L n)) (dg_adjacent g n DirectionOutbound) (k1, b1) = (k2, b2)"
    "cb_inv R b2" "cb_nodeset b2 = cb_nodeset b"
    "cb_edges R b2 = cb_edges R b1 \<union> {(?L n, ?L a) |a. a \<in> set (dg_adjacent g n DirectionOutbound) \<and> ?L a \<noteq> ?L n}"
    by auto
  have "cb_edges R b2 = cb_edges R b \<union> class_edges ?L {(u, v) \<in> out_rel g. u = n \<or> v = n}"
  proof -
    have "a \<in> set (dg_adjacent g n DirectionInbound) \<longleftrightarrow> (a, n) \<in> out_rel g"
      "a \<in> set (dg_adjacent g n DirectionOutbound) \<longleftrightarrow> (n, a) \<in> out_rel g" for a
      using adjacent_converse by (simp_all add: adj_rel_iff)
    then show ?thesis unfolding b2(4) b1(4) class_edges_at [symmetric] by (simp only: Un_assoc)
  qed
  with b1(1) b2(1-3) live show ?thesis by (simp add: component_node_def EachAdjacentNode_def Let_def)
qed

lemma component_nodes_fold:
  assumes live: "\<forall>k. live k" and inv: "cb_inv R b" and ns: "set ns \<subseteq> set (dg_nodes g)"
    and nodes: "map_get lookup 0 ` set (dg_nodes g) \<subseteq> cb_nodeset b"
  shows "\<exists>k' b'. each (component_node R live lookup g) ns (k, b) = (k', b') \<and> cb_inv R b' \<and> cb_nodeset b' = cb_nodeset b \<and>
     cb_edges R b' = cb_edges R b \<union> class_edges (map_get lookup 0) {(u, v) \<in> out_rel g. u \<in> set ns \<or> v \<in> set ns}"
  using inv ns nodes
proof (induction ns arbitrary: k b)
  case (Cons n ns)
  then have n: "n \<in> set (dg_nodes g)" by simp
  from component_node_result [OF live Cons.prems(1) n Cons.prems(3), of k] obtain k1 b1 where
    b1: "component_node R live lookup g n (k, b) = ((k1, b1), True)" "cb_inv R b1" "cb_nodeset b1 = cb_nodeset b"
      "cb_edges R b1 = cb_edges R b \<union> class_edges (map_get lookup 0) {(u, v) \<in> out_rel g. u = n \<or> v = n}" by blast
  from Cons.IH [OF b1(2), of k1] Cons.prems b1(3) obtain k2 b2 where
    b2: "each (component_node R live lookup g) ns (k1, b1) = (k2, b2)" "cb_inv R b2" "cb_nodeset b2 = cb_nodeset b"
      "cb_edges R b2 = cb_edges R b1 \<union> class_edges (map_get lookup 0) {(u, v) \<in> out_rel g. u \<in> set ns \<or> v \<in> set ns}"
    by auto
  have "cb_edges R b2 = cb_edges R b \<union> class_edges (map_get lookup 0)
      {(u, v) \<in> out_rel g. u \<in> set (n # ns) \<or> v \<in> set (n # ns)}"
    unfolding b2(4) b1(4) by auto
  with b1(1) b2(1-3) show ?case by simp
qed auto

lemma component_nodes_added:
  assumes "cb_inv R b"
  shows "cb_inv R (fold (\<lambda>i b. cb_AddNode R b (of_nat i)) is b) \<and>
    cb_nodeset (fold (\<lambda>i b. cb_AddNode R b (of_nat i)) is b) = cb_nodeset b \<union> of_nat ` set is \<and>
    cb_edges R (fold (\<lambda>i b. cb_AddNode R b (of_nat i)) is b) = cb_edges R b"
  using assms by (induction "is" arbitrary: b) (auto simp: cb_AddNode_result)

text \<open>What the code builds from the components.\<close>

definition component_graph_of :: "'b ComponentGraph \<Rightarrow> bool" where
  "component_graph_of cg \<longleftrightarrow>
     comps_ok R g (cg_componentMembers cg) (cg_memberComponentLookup cg) \<and>
     comp_nodes R (cg_componentMembers cg) = set (dg_nodes g) \<and>
     directed_graph (cg_digraph cg) \<and>
     set (dg_nodes (cg_digraph cg)) = dense (length (cg_componentMembers cg)) \<and>
     out_rel (cg_digraph cg) = class_edges (map_get (cg_memberComponentLookup cg) 0) (out_rel g)"

theorem NewComponentGraph_result:
  assumes live: "\<forall>k. live k" and small: "Suc (length (dg_nodes g)) < 2 ^ 64" "card (out_rel g) < 2 ^ 64"
  shows "\<exists>cg. NewComponentGraph R live g = Some cg \<and> component_graph_of cg"
proof -
  obtain C n2c where scc: "StronglyConnectedComponents R g = Some (C, n2c)" "comps_ok R g C n2c"
    "comp_nodes R C = set (dg_nodes g)"
    using StronglyConnectedComponents_result by blast
  let ?L = "map_get n2c 0"
  let ?b0 = "fold (\<lambda>i b. cb_AddNode R b (of_nat i)) [0..<length C] NewCSRDigraphBuilder"
  have "{0..<length C} = {..<length C}" by auto
  then have b0: "cb_inv R ?b0" "cb_nodeset ?b0 = dense (length C)" "cb_edges R ?b0 = {}"
    using component_nodes_added [OF csb.inv_new, of "[0..<length C]"] by (simp_all add: csb.nodes_new csb.edges_new)
  have L: "?L u \<in> dense (length C)" if "u \<in> set (dg_nodes g)" for u
  proof -
    have "u \<in> comp_nodes R C" using that scc(3) by simp
    then obtain i where "i < length C" "u \<in> elems R (C ! i)" by (auto simp: comp_nodes_mem)
    then have "i < length C" "n2c u = Some (of_nat i)" using scc(2) unfolding comps_ok_def by blast+
    then show ?thesis by (simp add: map_get_def)
  qed
  then have "?L ` set (dg_nodes g) \<subseteq> cb_nodeset ?b0" unfolding b0(2) by blast
  from component_nodes_fold [OF live b0(1) subset_refl this, of 0] obtain k b where
    b: "each (component_node R live n2c g) (dg_nodes g) (0, ?b0) = (k, b)" "cb_inv R b"
      "cb_nodeset b = dense (length C)" "cb_edges R b = class_edges ?L {(u, v) \<in> out_rel g. u \<in> set (dg_nodes g) \<or> v \<in> set (dg_nodes g)}"
    unfolding b0 by auto
  have "{(u, v) \<in> out_rel g. u \<in> set (dg_nodes g) \<or> v \<in> set (dg_nodes g)} = out_rel g"
    using out_nodes by auto
  then have edges: "cb_edges R b = class_edges ?L (out_rel g)" using b(4) by simp
  have len: "length C \<le> length (dg_nodes g)"
    using scc(2,3) card_length [of "dg_nodes g"] by (simp add: comps_ok_def)
  have "length (cb_denseIdxToID b) = card (dense (length C))"
    using b(2,3) by (simp add: cb_inv_def idx_inv_def cb_nodeset_def flip: distinct_card)
  also have "\<dots> \<le> length C" using card_image_le [of "{..<length C}"] by force
  finally have n: "Suc (length (cb_denseIdxToID b)) < 2 ^ 64" using len small(1) by simp
  have "class_edges ?L (out_rel g) \<subseteq> map_prod ?L ?L ` out_rel g" by force
  then have "card (cb_edges R b) \<le> card (out_rel g)"
    unfolding edges by (intro surj_card_le) auto
  with small(2) have m: "card (cb_edges R b) < 2 ^ 64" by simp
  from cb_Build_result [OF b(2) n m] obtain d where d: "cb_Build R b = Some d" "csr_wf d"
    "cs_denseIdxToID d = cb_denseIdxToID b" "out_rel (cs_DirectedGraph d) = cb_edges R b" by blast
  have "directed_graph (cs_DirectedGraph d)"
    by (rule csr_graph.meets_interface [OF csr_graph.intro [OF d(2)]])
  moreover have "set (dg_nodes (cs_DirectedGraph d)) = dense (length C)"
    using b(3) d(3) by (simp add: cs_DirectedGraph_def cb_nodeset_def)
  moreover have "NewComponentGraph R live g = Some \<lparr>cg_componentMembers = C, cg_memberComponentLookup = n2c,
      cg_digraph = cs_DirectedGraph d\<rparr>"
    using scc(1) b(1) d(1) by (simp add: NewComponentGraph_def EachNode_def)
  ultimately show ?thesis using scc(2,3) d(4) edges by (simp add: component_graph_of_def)
qed

lemma component_graph_rel:
  assumes cg: "component_graph_of cg"
  shows "adj_rel (cg_digraph cg) dir = class_edges (map_get (cg_memberComponentLookup cg) 0) (adj_rel g dir)"
proof -
  let ?L = "map_get (cg_memberComponentLookup cg) 0" and ?c = "cg_digraph cg"
  have c: "directed_graph ?c" and out: "out_rel ?c = class_edges ?L (out_rel g)"
    using cg by (auto simp: component_graph_of_def)
  have inn: "adj_rel ?c DirectionInbound = (out_rel ?c)\<inverse>" "adj_rel g DirectionInbound = (out_rel g)\<inverse>"
    using directed_graph.adj_rel_Reverse [OF c, of DirectionOutbound] adj_rel_Reverse [of DirectionOutbound] by auto
  have both: "adj_rel ?c DirectionBoth = out_rel ?c \<union> adj_rel ?c DirectionInbound"
    "adj_rel g DirectionBoth = out_rel g \<union> adj_rel g DirectionInbound"
    using directed_graph.adjacent_both [OF c] adjacent_both by (auto simp: adj_rel_def)
  show ?thesis
  proof (cases dir)
    case DirectionBoth
    then show ?thesis unfolding DirectionBoth both inn out class_edges_Un class_edges_converse by simp
  next
    case DirectionInbound
    then show ?thesis unfolding DirectionInbound inn out class_edges_converse by simp
  qed (simp add: out)
qed

lemma component_lookup:
  assumes cg: "component_graph_of cg" and "u \<in> set (dg_nodes g)" and "v \<in> set (dg_nodes g)"
  shows "map_get (cg_memberComponentLookup cg) 0 u = map_get (cg_memberComponentLookup cg) 0 v \<longleftrightarrow>
     v \<in> scc_of (out_rel g) u"
proof -
  let ?n2c = "cg_memberComponentLookup cg"
  have ok: "comps_ok R g (cg_componentMembers cg) ?n2c" "comp_nodes R (cg_componentMembers cg) = set (dg_nodes g)"
    using cg by (auto simp: component_graph_of_def)
  then have "dom ?n2c = set (dg_nodes g)" by (simp add: comps_ok_def)
  then obtain i j where "?n2c u = Some i" "?n2c v = Some j" using assms(2,3) by blast
  then have "map_get ?n2c 0 u = map_get ?n2c 0 v \<longleftrightarrow> ?n2c u = ?n2c v" by (simp add: map_get_def)
  then show ?thesis using comps_ok_mutual [OF ok(1), of u v] ok(2) assms(2) by simp
qed

theorem component_reach:
  assumes cg: "component_graph_of cg" and u: "u \<in> set (dg_nodes g)" and v: "v \<in> set (dg_nodes g)"
  shows "(map_get (cg_memberComponentLookup cg) 0 u, map_get (cg_memberComponentLookup cg) 0 v)
       \<in> (adj_rel (cg_digraph cg) dir)\<^sup>* \<longleftrightarrow> (u, v) \<in> (adj_rel g dir)\<^sup>*"
proof (rule quotient_reach [OF adj_rel_nodes _ component_graph_rel [OF cg] u v])
  fix x y
  assume "x \<in> set (dg_nodes g)" "y \<in> set (dg_nodes g)"
    "map_get (cg_memberComponentLookup cg) 0 x = map_get (cg_memberComponentLookup cg) 0 y"
  with component_lookup [OF cg] have m: "(x, y) \<in> (out_rel g)\<^sup>*" "(y, x) \<in> (out_rel g)\<^sup>*" by (auto simp: scc_of_def)
  have inn: "adj_rel g DirectionInbound = (out_rel g)\<inverse>" using adj_rel_Reverse [of DirectionOutbound] by simp
  have "out_rel g \<subseteq> adj_rel g DirectionBoth" using adjacent_both by (auto simp: adj_rel_def)
  then show "(x, y) \<in> (adj_rel g dir)\<^sup>*"
    using m rtrancl_mono [of "out_rel g" "adj_rel g DirectionBoth"]
    by (cases dir) (auto simp: inn rtrancl_converse)
qed

theorem component_acyclic:
  assumes cg: "component_graph_of cg"
  shows "acyclic (out_rel (cg_digraph cg))"
  by (rule quotient_acyclic [OF adj_rel_nodes _ _ component_graph_rel [OF cg]])
    (use component_lookup [OF cg] in \<open>auto simp: scc_of_def\<close>)

end

section \<open>The lookups\<close>

lemma KnownMembers_elems:
  assumes "roaring64 R" and "range_order (cg_memberComponentLookup s) order"
  shows "elems R (KnownMembers R s order) = {m. HasMember s m}"
proof -
  have "elems R (fold (\<lambda>m b. bitmap64_Add R b [m]) ms b) = elems R b \<union> set ms" for ms b
    using assms(1) by (induction ms arbitrary: b) (auto simp: roaring64.elems_bitmap64_Add)
  then show ?thesis
    using assms by (auto simp: KnownMembers_def HasMember_def range_order_def roaring64.elems_NewBitmap64)
qed

lemma ComponentHistogram_count:
  "map_get (ComponentHistogram s ns) 0 c = of_nat (length (filter (\<lambda>n. ContainingComponent s n = Some c) ns))"
proof -
  have "map_get (fold (\<lambda>n h. case ContainingComponent s n of None \<Rightarrow> h
        | Some k \<Rightarrow> h(k \<mapsto> map_get h 0 k + 1)) ns h) 0 c =
      map_get h 0 c + of_nat (length (filter (\<lambda>n. ContainingComponent s n = Some c) ns))" for h :: "uint64 \<rightharpoonup> uint64"
    by (induction ns arbitrary: h) (auto simp: map_get_upd add.assoc split: option.splits)
  from this [of Map.empty] show ?thesis unfolding ComponentHistogram_def by (simp add: map_get_def)
qed

section \<open>Properties\<close>

lemma cycle_graph_small:
  "Suc (length (dg_nodes cycle_graph)) < 2 ^ 64" "card (adj_rel cycle_graph DirectionOutbound) < 2 ^ 64"
proof -
  have "card (adj_rel cycle_graph DirectionOutbound) \<le> card ({1, 2, 3, 4 :: uint64} \<times> {1, 2, 3, 4 :: uint64})"
    using cycle_dg.adj_rel_nodes [of DirectionOutbound] by (intro card_mono) (auto simp: cycle_graph_def)
  then show "card (adj_rel cycle_graph DirectionOutbound) < 2 ^ 64" by simp
qed (simp add: cycle_graph_def)

text \<open>C5. \<open>NewComponentGraph\<close> builds the condensation of the origin graph: it terminates without a
  panic while its context is alive, the component graph is acyclic and has one node per
  component, every node of the origin graph has a component, and one node leads to another in a
  direction exactly when its component leads to the other's in that direction.\<close>

theorem NewComponentGraph_condensation:
  assumes "roaring64 R" and "directed_graph g" and "\<forall>k. live k"
    and "Suc (length (dg_nodes g)) < 2 ^ 64" and "card (adj_rel g DirectionOutbound) < 2 ^ 64"
  shows "\<exists>cg. NewComponentGraph R live g = Some cg \<and> directed_graph (cg_digraph cg) \<and>
     acyclic (adj_rel (cg_digraph cg) DirectionOutbound) \<and>
     set (dg_nodes (cg_digraph cg)) = of_nat ` {..<length (cg_componentMembers cg)} \<and>
     (\<forall>u. HasMember cg u \<longleftrightarrow> u \<in> set (dg_nodes g)) \<and>
     (\<forall>u v cu cv dir. ContainingComponent cg u = Some cu \<longrightarrow> ContainingComponent cg v = Some cv \<longrightarrow>
        ((cu, cv) \<in> (adj_rel (cg_digraph cg) dir)\<^sup>* \<longleftrightarrow> (u, v) \<in> (adj_rel g dir)\<^sup>*))"
proof -
  have env: "scc_env R g" by (rule scc_env.intro [OF assms(1,2)])
  obtain cg where cg: "NewComponentGraph R live g = Some cg" "scc_env.component_graph_of R g cg"
    using scc_env.NewComponentGraph_result [OF env assms(3-5)] by blast
  note facts = cg(2) [unfolded scc_env.component_graph_of_def [OF env]]
  have dom: "dom (cg_memberComponentLookup cg) = set (dg_nodes g)" using facts by (simp add: comps_ok_def)
  have reach: "(cu, cv) \<in> (adj_rel (cg_digraph cg) dir)\<^sup>* \<longleftrightarrow> (u, v) \<in> (adj_rel g dir)\<^sup>*"
    if "ContainingComponent cg u = Some cu" "ContainingComponent cg v = Some cv" for u v cu cv dir
  proof -
    have "u \<in> set (dg_nodes g)" "v \<in> set (dg_nodes g)" using that dom by (auto simp: ContainingComponent_def)
    from scc_env.component_reach [OF env cg(2) this, of dir] that show ?thesis
      by (simp add: ContainingComponent_def map_get_def)
  qed
  have mem: "HasMember cg u \<longleftrightarrow> u \<in> set (dg_nodes g)" for u
    unfolding HasMember_def dom [symmetric] by blast
  show ?thesis
    using cg(1) facts scc_env.component_acyclic [OF env cg(2)] reach mem by (intro exI [of _ cg]) simp
qed

theorem NewComponentGraph_condensation_witness:
  "\<exists>cg. NewComponentGraph list_bitmap (\<lambda>_. True) cycle_graph = Some cg \<and>
     acyclic (adj_rel (cg_digraph cg) DirectionOutbound) \<and> HasMember cg 3"
proof -
  have nodes: "dg_nodes cycle_graph = [1, 2, 3, 4]" by (simp add: cycle_graph_def)
  obtain cg where "NewComponentGraph list_bitmap (\<lambda>_. True) cycle_graph = Some cg"
    "acyclic (adj_rel (cg_digraph cg) DirectionOutbound)" "\<forall>u. HasMember cg u \<longleftrightarrow> u \<in> set (dg_nodes cycle_graph)"
    using NewComponentGraph_condensation [OF lbm.roaring64_axioms cycle_dg.directed_graph_axioms _ cycle_graph_small,
        of "\<lambda>_. True"] by blast
  with nodes show ?thesis by auto
qed

text \<open>C11. The search from both ends, \<open>ComponentReachable\<close>, and the breadth-first search,
  \<open>ComponentSearch\<close>, terminate on every component graph and both decide whether the end component is
  reachable from the start component in the given direction.\<close>

theorem ComponentReachable_decides:
  assumes "roaring64 R" and "deque D items" and "directed_graph (cg_digraph s)"
  shows "ComponentReachable R D s a b dir = Some ((a, b) \<in> (adj_rel (cg_digraph s) dir)\<^sup>*) \<and>
     ComponentSearch R D s a b dir = ComponentReachable R D s a b dir"
  using reach_env.ComponentReachable_result [OF reach_env.intro [OF assms(1,2)] assms(3)]
    reach_env.ComponentSearch_result [OF reach_env.intro [OF assms(1,2)]] by simp

theorem ComponentReachable_decides_witness:
  "(1, 4) \<in> (adj_rel cycle_graph DirectionOutbound)\<^sup>* \<and> (4, 1) \<notin> (adj_rel cycle_graph DirectionOutbound)\<^sup>*"
proof -
  let ?s = "\<lparr>cg_componentMembers = [], cg_memberComponentLookup = Map.empty, cg_digraph = cycle_graph\<rparr> :: uint64 list ComponentGraph"
  have "directed_graph (cg_digraph ?s)" using cycle_dg.directed_graph_axioms by simp
  note r = ComponentReachable_decides [OF lbm.roaring64_axioms ldq.deque_axioms this]
  have "ComponentReachable list_bitmap list_deque ?s 1 4 DirectionOutbound = Some True"
    "ComponentReachable list_bitmap list_deque ?s 4 1 DirectionOutbound = Some False" by code_simp+
  then show ?thesis using r [of 1 4 DirectionOutbound] r [of 4 1 DirectionOutbound] by simp
qed

text \<open>C22. \<open>OriginReachable\<close> ignores the direction of edges: on the component graph of a graph it
  decides whether two known nodes are connected when every edge may be walked both ways, and
  it answers no for a node the graph does not have.\<close>

theorem OriginReachable_undirected:
  assumes "roaring64 R" and "deque D items" and "directed_graph g" and "\<forall>k. live k"
    and "Suc (length (dg_nodes g)) < 2 ^ 64" and "card (adj_rel g DirectionOutbound) < 2 ^ 64"
    and "NewComponentGraph R live g = Some cg"
  shows "OriginReachable R D cg u v =
     Some (u \<in> set (dg_nodes g) \<and> v \<in> set (dg_nodes g) \<and> (u, v) \<in> (adj_rel g DirectionBoth)\<^sup>*)"
proof -
  have env: "scc_env R g" by (rule scc_env.intro [OF assms(1,3)])
  have cg: "scc_env.component_graph_of R g cg"
    using scc_env.NewComponentGraph_result [OF env assms(4-6)] assms(7) by auto
  note facts = cg [unfolded scc_env.component_graph_of_def [OF env]]
  have dom: "dom (cg_memberComponentLookup cg) = set (dg_nodes g)" using facts by (simp add: comps_ok_def)
  note reach = reach_env.ComponentReachable_result [OF reach_env.intro [OF assms(1,2)], of cg]
  show ?thesis
  proof (cases "u \<in> set (dg_nodes g) \<and> v \<in> set (dg_nodes g)")
    case True
    then obtain cu cv where c: "cg_memberComponentLookup cg u = Some cu" "cg_memberComponentLookup cg v = Some cv"
      using dom by blast
    then have "OriginReachable R D cg u v = Some ((cu, cv) \<in> (adj_rel (cg_digraph cg) DirectionBoth)\<^sup>*)"
      using reach facts by (simp add: OriginReachable_def ContainingComponent_def)
    moreover have "(cu, cv) \<in> (adj_rel (cg_digraph cg) DirectionBoth)\<^sup>* \<longleftrightarrow> (u, v) \<in> (adj_rel g DirectionBoth)\<^sup>*"
      using scc_env.component_reach [OF env cg, of u v DirectionBoth] True c by (simp add: map_get_def)
    ultimately show ?thesis using True by simp
  next
    case False
    then have "cg_memberComponentLookup cg u = None \<or> cg_memberComponentLookup cg v = None"
      using dom by (metis domIff)
    with False show ?thesis by (auto simp: OriginReachable_def ContainingComponent_def split: option.splits)
  qed
qed

theorem OriginReachable_undirected_witness:
  "\<exists>cg. NewComponentGraph list_bitmap (\<lambda>_. True) cycle_graph = Some cg \<and>
     OriginReachable list_bitmap list_deque cg 4 1 = Some True \<and>
     (4, 1) \<notin> (adj_rel cycle_graph DirectionOutbound)\<^sup>* \<and>
     (4, 1) \<in> (adj_rel cycle_graph DirectionBoth)\<^sup>*"
proof -
  have live: "\<forall>k. (\<lambda>_ :: nat. True) k" by simp
  obtain cg where cg: "NewComponentGraph list_bitmap (\<lambda>_. True) cycle_graph = Some cg"
    using cycle_scc.NewComponentGraph_result [OF live cycle_graph_small] by blast
  have "(4, 3) \<in> adj_rel cycle_graph DirectionBoth" "(3, 2) \<in> adj_rel cycle_graph DirectionBoth"
    "(2, 1) \<in> adj_rel cycle_graph DirectionBoth"
    by (simp_all add: adj_rel_def cycle_graph_def)
  then have conn: "(4, 1) \<in> (adj_rel cycle_graph DirectionBoth)\<^sup>*" by (meson converse_rtrancl_into_rtrancl rtrancl.rtrancl_refl)
  have "OriginReachable list_bitmap list_deque cg 4 1 = Some True"
    using OriginReachable_undirected [OF lbm.roaring64_axioms ldq.deque_axioms cycle_dg.directed_graph_axioms live cycle_graph_small cg, of 4 1]
      conn by (simp add: cycle_graph_def)
  moreover have "(4, v) \<in> (adj_rel cycle_graph DirectionOutbound)\<^sup>* \<Longrightarrow> v \<in> {3, 4}" for v
    by (rule closed_rtrancl_subset [of "adj_rel cycle_graph DirectionOutbound" "{3, 4}" 4 v])
      (auto simp: adj_rel_def cycle_graph_def)
  ultimately show ?thesis using cg conn by force
qed

end
