(* ===== verification/Go_Cache.thy ===== *)
theory Go_Cache
  imports Dawgs_Prelude
begin

text \<open>
  The package src/cache: the statistics, the bounded second-chance cache \<open>Sieve\<close> and the
  map cache that stops accepting new keys when it is full, and the contract both offer.

  The \<open>Sieve\<close> keeps its eviction order in a doubly linked list of the Go standard library
  (\<open>container/list\<close>). A list is modelled as the sequence of its elements, front first; an
  element is a pointer, that is an address, together with the key stored in it. The field
  \<open>sv_next\<close> of a cache supplies fresh addresses. The lock of the caches is not modelled:
  each operation that takes it runs as one step.
\<close>

section \<open>Statistics\<close>

record stats =
  st_hits :: int
  st_misses :: int
  stat_size :: int
  Capacity :: int

definition NewStats :: "int \<Rightarrow> stats" where
  "NewStats capacity = \<lparr>st_hits = 0, st_misses = 0, stat_size = 0, Capacity = capacity\<rparr>"

definition Stats_Hit :: "stats \<Rightarrow> stats" where
  [go_simps]: "Stats_Hit s = s\<lparr>st_hits := st_hits s + 1\<rparr>"

definition Stats_Miss :: "stats \<Rightarrow> stats" where
  [go_simps]: "Stats_Miss s = s\<lparr>st_misses := st_misses s + 1\<rparr>"

definition Stats_Put :: "stats \<Rightarrow> stats" where
  [go_simps]: "Stats_Put s = s\<lparr>stat_size := stat_size s + 1\<rparr>"

definition Stats_Delete :: "stats \<Rightarrow> stats" where
  [go_simps]: "Stats_Delete s = s\<lparr>stat_size := stat_size s - 1\<rparr>"

definition Stats_Combined :: "stats \<Rightarrow> stats \<Rightarrow> stats" where
  "Stats_Combined s other = \<lparr>
     st_hits = st_hits s + st_hits other,
     st_misses = st_misses s + st_misses other,
     stat_size = stat_size s + stat_size other,
     Capacity = Capacity s + Capacity other\<rparr>"

section \<open>The linked list of container/list\<close>

type_synonym element = nat
type_synonym 'a golist = "(element \<times> 'a) list"

definition list_Back :: "'a golist \<Rightarrow> element option" where
  "list_Back q = (if q = [] then None else Some (fst (last q)))"

fun list_Prev :: "'a golist \<Rightarrow> element \<Rightarrow> element option" where
  "list_Prev (x # y # zs) e = (if fst y = e then Some (fst x) else list_Prev (y # zs) e)"
| "list_Prev _ e = None"

definition list_Remove :: "'a golist \<Rightarrow> element \<Rightarrow> 'a golist" where
  "list_Remove q e = filter (\<lambda>p. fst p \<noteq> e) q"

section \<open>The Sieve\<close>

record ('k, 'v) entry =
  e_key :: 'k
  e_value :: 'v
  e_visited :: bool
  e_element :: element

record ('k, 'v) Sieve =
  sv_store :: "'k \<rightharpoonup> ('k, 'v) entry"
  sv_queue :: "'k golist"
  sv_hand :: "element option"
  sv_stats :: stats
  sv_next :: element

definition NewSieve :: "int \<Rightarrow> ('k, 'v) Sieve" where
  "NewSieve capacity =
     (let capacity = (if capacity \<le> 0 then 1 else capacity)
      in \<lparr>sv_store = Map.empty, sv_queue = [], sv_hand = None, sv_stats = NewStats capacity,
          sv_next = 0\<rparr>)"

text \<open>The entry of the key stored in a list element; \<open>None\<close> is the nil pointer.\<close>

definition entry_at ::
    "'k golist \<Rightarrow> ('k \<rightharpoonup> ('k, 'v) entry) \<Rightarrow> element \<Rightarrow> ('k \<times> ('k, 'v) entry) option" where
  "entry_at q st h = (case map_of q h of
       None \<Rightarrow> None
     | Some k \<Rightarrow> (case st k of None \<Rightarrow> None | Some e \<Rightarrow> Some (k, e)))"

definition removeEntry :: "('k, 'v) Sieve \<Rightarrow> ('k, 'v) entry \<Rightarrow> ('k, 'v) Sieve" where
  "removeEntry s e = s\<lparr>
     sv_queue := list_Remove (sv_queue s) (e_element e),
     sv_store := (sv_store s)(e_key e := None),
     sv_stats := Stats_Delete (sv_stats s)\<rparr>"

text \<open>
  The sweep of \<open>evict\<close>: while the entry under the hand is visited, clear its flag and move the
  hand one element towards the front, from the front to the back.
\<close>

definition sweep_visited :: "'k golist \<Rightarrow> element \<times> ('k \<rightharpoonup> ('k, 'v) entry) \<Rightarrow> bool" where
  "sweep_visited q = (\<lambda>(h, st). case entry_at q st h of None \<Rightarrow> False | Some (k, e) \<Rightarrow> e_visited e)"

definition sweep_step ::
    "'k golist \<Rightarrow> element \<times> ('k \<rightharpoonup> ('k, 'v) entry) \<Rightarrow> (element \<times> ('k \<rightharpoonup> ('k, 'v) entry)) option" where
  "sweep_step q = (\<lambda>(h, st). case entry_at q st h of
       None \<Rightarrow> None
     | Some (k, e) \<Rightarrow>
         (case (case list_Prev q h of None \<Rightarrow> list_Back q | Some p \<Rightarrow> Some p) of
            None \<Rightarrow> None
          | Some h' \<Rightarrow> Some (h', st(k \<mapsto> e\<lparr>e_visited := False\<rparr>))))"

text \<open>\<open>None\<close>: the code dereferences a nil element or a nil entry.\<close>

definition evict :: "('k, 'v) Sieve \<Rightarrow> ('k, 'v) Sieve option" where
  "evict s =
     (case (case sv_hand s of None \<Rightarrow> list_Back (sv_queue s) | Some h \<Rightarrow> Some h) of
        None \<Rightarrow> None
      | Some h \<Rightarrow>
          (case loop (sweep_visited (sv_queue s)) (sweep_step (sv_queue s)) (h, sv_store s) of
             None \<Rightarrow> None
           | Some (h', st') \<Rightarrow>
               (case entry_at (sv_queue s) st' h' of
                  None \<Rightarrow> None
                | Some (k, e) \<Rightarrow>
                    Some (removeEntry (s\<lparr>sv_store := st', sv_hand := list_Prev (sv_queue s) h'\<rparr>) e))))"

definition putEntry :: "('k, 'v) Sieve \<Rightarrow> 'k \<Rightarrow> 'v \<Rightarrow> ('k, 'v) Sieve option" where
  "putEntry s key val =
     (case (if int (length (sv_queue s)) \<ge> Capacity (sv_stats s) then evict s else Some s) of
        None \<Rightarrow> None
      | Some s \<Rightarrow> Some (s\<lparr>
          sv_queue := (sv_next s, key) # sv_queue s,
          sv_store := (sv_store s)(key \<mapsto>
            \<lparr>e_key = key, e_value = val, e_visited = False, e_element = sv_next s\<rparr>),
          sv_stats := Stats_Put (sv_stats s),
          sv_next := Suc (sv_next s)\<rparr>))"

definition Sieve_Put :: "('k, 'v) Sieve \<Rightarrow> 'k \<Rightarrow> 'v \<Rightarrow> ('k, 'v) Sieve option" where
  "Sieve_Put s key val =
     (case sv_store s key of
        Some existing \<Rightarrow>
          Some (s\<lparr>sv_store := (sv_store s)(key \<mapsto> existing\<lparr>e_value := val, e_visited := True\<rparr>)\<rparr>)
      | None \<Rightarrow> putEntry s key val)"

definition Sieve_Get :: "('k, 'v) Sieve \<Rightarrow> 'k \<Rightarrow> 'v option \<times> ('k, 'v) Sieve" where
  "Sieve_Get s key =
     (case sv_store s key of
        Some e \<Rightarrow> (Some (e_value e),
          s\<lparr>sv_stats := Stats_Hit (sv_stats s),
            sv_store := (sv_store s)(key \<mapsto> e\<lparr>e_visited := True\<rparr>)\<rparr>)
      | None \<Rightarrow> (None, s\<lparr>sv_stats := Stats_Miss (sv_stats s)\<rparr>))"

definition Sieve_Delete :: "('k, 'v) Sieve \<Rightarrow> 'k \<Rightarrow> ('k, 'v) Sieve" where
  "Sieve_Delete s key =
     (case sv_store s key of
        Some e \<Rightarrow>
          removeEntry
            (if Some (e_element e) = sv_hand s
             then s\<lparr>sv_hand := list_Prev (sv_queue s) (e_element e)\<rparr> else s) e
      | None \<Rightarrow> s)"

section \<open>The map cache\<close>

record ('k, 'v) NonExpiringMapCache =
  ne_store :: "'k \<rightharpoonup> 'v"
  ne_stats :: stats

definition NewNonExpiringMapCache :: "int \<Rightarrow> ('k, 'v) NonExpiringMapCache" where
  "NewNonExpiringMapCache capacity = \<lparr>ne_store = Map.empty, ne_stats = NewStats capacity\<rparr>"

definition NonExpiringMapCache_Put ::
    "('k, 'v) NonExpiringMapCache \<Rightarrow> 'k \<Rightarrow> 'v \<Rightarrow> ('k, 'v) NonExpiringMapCache" where
  "NonExpiringMapCache_Put s key val =
     (if ne_store s key \<noteq> None then s\<lparr>ne_store := (ne_store s)(key \<mapsto> val)\<rparr>
      else if stat_size (ne_stats s) < Capacity (ne_stats s)
      then s\<lparr>ne_store := (ne_store s)(key \<mapsto> val), ne_stats := Stats_Put (ne_stats s)\<rparr>
      else s)"

definition NonExpiringMapCache_Get ::
    "('k, 'v) NonExpiringMapCache \<Rightarrow> 'k \<Rightarrow> 'v option \<times> ('k, 'v) NonExpiringMapCache" where
  "NonExpiringMapCache_Get s key =
     (ne_store s key,
      s\<lparr>ne_stats := (if ne_store s key \<noteq> None then Stats_Hit (ne_stats s)
                     else Stats_Miss (ne_stats s))\<rparr>)"

definition NonExpiringMapCache_Delete ::
    "('k, 'v) NonExpiringMapCache \<Rightarrow> 'k \<Rightarrow> ('k, 'v) NonExpiringMapCache" where
  "NonExpiringMapCache_Delete s key =
     (if ne_store s key \<noteq> None
      then s\<lparr>ne_store := (ne_store s)(key := None), ne_stats := Stats_Delete (ne_stats s)\<rparr>
      else s)"


section \<open>Lemmas on the linked list\<close>

lemma list_Prev_nth:
  "distinct (map fst q) \<Longrightarrow> i < length q \<Longrightarrow>
     list_Prev q (fst (q ! i)) = (if i = 0 then None else Some (fst (q ! (i - 1))))"
proof (induction q arbitrary: i rule: induct_list012)
  case (3 x y zs)
  show ?case
  proof (cases i)
    case 0
    have "fst x \<notin> fst ` set (y # zs)" using "3.prems"(1) by simp
    then have "list_Prev (y # zs) (fst x) = None"
      by (induction zs arbitrary: y) auto
    with 0 "3.prems"(1) show ?thesis by auto
  next
    case (Suc j)
    show ?thesis
    proof (cases j)
      case 0
      with Suc show ?thesis by simp
    next
      case (Suc j')
      have "fst ((y # zs) ! j) \<noteq> fst y"
        using "3.prems" \<open>i = Suc j\<close> Suc by simp (metis image_eqI nth_mem)
      moreover have "list_Prev (y # zs) (fst ((y # zs) ! j)) = Some (fst ((y # zs) ! (j - 1)))"
        using "3.IH"(2) [of j] "3.prems" \<open>i = Suc j\<close> Suc by simp
      ultimately show ?thesis using \<open>i = Suc j\<close> Suc by auto
    qed
  qed
qed auto

lemma distinct_map_nth_neq:
  "distinct (map f q) \<Longrightarrow> i < length q \<Longrightarrow> j < length q \<Longrightarrow> i \<noteq> j \<Longrightarrow> f (q ! i) \<noteq> f (q ! j)"
  by (metis distinct_conv_nth length_map nth_map)

lemma list_Back_nth: "q \<noteq> [] \<Longrightarrow> list_Back q = Some (fst (q ! (length q - 1)))"
  by (simp add: list_Back_def last_conv_nth)

lemma list_Prev_mem: "list_Prev q e = Some p \<Longrightarrow> p \<in> fst ` set q"
  by (induction q e rule: list_Prev.induct) (auto split: if_splits)

lemma list_Prev_neq: "distinct (map fst q) \<Longrightarrow> list_Prev q e = Some p \<Longrightarrow> p \<noteq> e"
  by (induction q e rule: list_Prev.induct) (auto split: if_splits)

lemma list_Remove_mem: "p \<in> set (list_Remove q e) \<longleftrightarrow> p \<in> set q \<and> fst p \<noteq> e"
  by (auto simp: list_Remove_def)

lemma length_list_Remove:
  assumes "distinct (map fst q)" and "(e, k) \<in> set q"
  shows "length q = Suc (length (list_Remove q e))"
proof -
  obtain xs ys where q: "q = xs @ (e, k) # ys" using assms(2) by (metis split_list)
  with assms(1) have "list_Remove xs e = xs" "list_Remove ys e = ys"
    by (auto simp: list_Remove_def filter_id_conv rev_image_eqI)
  with q show ?thesis by (simp add: list_Remove_def)
qed

lemma distinct_list_Remove:
  "distinct (map f q) \<Longrightarrow> distinct (map f (list_Remove q e))"
  by (simp add: list_Remove_def distinct_map_filter)

section \<open>The invariant of the Sieve\<close>

definition sieve_inv :: "('k, 'v) Sieve \<Rightarrow> bool" where
  "sieve_inv s \<longleftrightarrow>
     distinct (map fst (sv_queue s)) \<and> distinct (map snd (sv_queue s)) \<and>
     (\<forall>i k. (i, k) \<in> set (sv_queue s) \<longrightarrow> i < sv_next s) \<and>
     (\<forall>k e. sv_store s k = Some e \<longrightarrow> e_key e = k \<and> (e_element e, k) \<in> set (sv_queue s)) \<and>
     dom (sv_store s) = snd ` set (sv_queue s) \<and>
     (\<forall>h. sv_hand s = Some h \<longrightarrow> h \<in> fst ` set (sv_queue s)) \<and>
     stat_size (sv_stats s) = int (length (sv_queue s)) \<and>
     int (length (sv_queue s)) \<le> Capacity (sv_stats s) \<and> 1 \<le> Capacity (sv_stats s)"

text \<open>What the cache holds, as a map.\<close>

definition sieve_map :: "('k, 'v) Sieve \<Rightarrow> ('k \<rightharpoonup> 'v)" where
  "sieve_map s k = map_option e_value (sv_store s k)"

lemma sieve_inv_NewSieve: "sieve_inv (NewSieve capacity)"
  by (simp add: sieve_inv_def NewSieve_def NewStats_def Let_def)

lemma sieve_map_NewSieve [simp]: "sieve_map (NewSieve capacity) = Map.empty"
  by (simp add: sieve_map_def NewSieve_def Let_def fun_eq_iff)

lemma sieve_elem_unique:
  assumes "sieve_inv s" "(i, k) \<in> set (sv_queue s)" "(i', k) \<in> set (sv_queue s)"
  shows "i = i'"
  using assms unfolding sieve_inv_def
  by (metis distinct_map inj_onD prod.inject snd_conv)

lemma sieve_inv_removeEntry:
  assumes inv: "sieve_inv s" and e: "sv_store s k = Some e"
    and hand: "sv_hand s \<noteq> Some (e_element e)"
  shows "sieve_inv (removeEntry s e)"
proof -
  have k: "e_key e = k" and mem: "(e_element e, k) \<in> set (sv_queue s)"
    using inv e unfolding sieve_inv_def by auto
  have len: "length (sv_queue s) = Suc (length (list_Remove (sv_queue s) (e_element e)))"
    using inv mem by (intro length_list_Remove) (auto simp: sieve_inv_def)
  have uniq: "i \<noteq> e_element e \<longleftrightarrow> k' \<noteq> k" if "(i, k') \<in> set (sv_queue s)" for i k'
    using inv mem that unfolding sieve_inv_def
    by (metis distinct_map inj_onD prod.inject fst_conv snd_conv)
  have "dom ((sv_store s)(k := None)) = snd ` set (list_Remove (sv_queue s) (e_element e))"
  proof -
    have "dom (sv_store s) = snd ` set (sv_queue s)" using inv by (simp add: sieve_inv_def)
    moreover have "snd ` set (list_Remove (sv_queue s) (e_element e)) = snd ` set (sv_queue s) - {k}"
      using uniq by (auto simp: list_Remove_mem image_iff)
    ultimately show ?thesis by simp
  qed
  moreover have "(e_element e', k') \<in> set (list_Remove (sv_queue s) (e_element e))"
    if "sv_store s k' = Some e'" "k' \<noteq> k" for k' e'
    using inv that uniq [of "e_element e'" k'] by (auto simp: sieve_inv_def list_Remove_mem)
  moreover have "h \<in> fst ` set (list_Remove (sv_queue s) (e_element e))" if "sv_hand s = Some h" for h
    using inv hand that by (force simp: sieve_inv_def list_Remove_mem image_iff)
  ultimately show ?thesis
    using inv len k
    by (auto simp: sieve_inv_def removeEntry_def distinct_list_Remove list_Remove_mem go_simps)
qed


section \<open>The eviction sweep\<close>

text \<open>
  The reference for the sweep: the elements in the order in which the hand meets them, from
  the element under the hand to the front and then from the back.
\<close>

definition sweep_order :: "'k golist \<Rightarrow> element \<Rightarrow> 'k golist" where
  "sweep_order q h =
     (let p = length (takeWhile (\<lambda>x. fst x \<noteq> h) q) in rev (take (Suc p) q) @ rev (drop (Suc p) q))"

definition is_visited :: "('k \<rightharpoonup> ('k, 'v) entry) \<Rightarrow> 'k \<Rightarrow> bool" where
  "is_visited st k \<longleftrightarrow> (case st k of None \<Rightarrow> False | Some e \<Rightarrow> e_visited e)"

definition clear_visited :: "'k set \<Rightarrow> ('k \<rightharpoonup> ('k, 'v) entry) \<Rightarrow> ('k \<rightharpoonup> ('k, 'v) entry)" where
  "clear_visited K st k =
     (if k \<in> K then map_option (\<lambda>e. e\<lparr>e_visited := False\<rparr>) (st k) else st k)"

text \<open>The number of entries that get a second chance, and the entry that is evicted.\<close>

definition second_chances :: "'k golist \<Rightarrow> ('k \<rightharpoonup> ('k, 'v) entry) \<Rightarrow> element \<Rightarrow> nat" where
  "second_chances q st h = length (takeWhile (\<lambda>x. is_visited st (snd x)) (sweep_order q h))"

lemma takeWhile_position:
  assumes "p < length q" and "distinct (map fst q)"
  shows "length (takeWhile (\<lambda>x. fst x \<noteq> fst (q ! p)) q) = p"
proof -
  have "takeWhile (\<lambda>x. fst x \<noteq> fst (q ! p)) q = take p q"
  proof (rule takeWhile_eq_take_P_nth)
    fix i
    assume "i < p" "i < length q"
    with assms show "fst (q ! i) \<noteq> fst (q ! p)" by (auto dest: distinct_map_nth_neq [of fst q i p])
  qed simp
  with assms show ?thesis by simp
qed

lemma sweep_order_nth:
  assumes "p < length q" and "distinct (map fst q)" and "i < length q"
  shows "sweep_order q (fst (q ! p)) ! i = q ! (if i \<le> p then p - i else length q + p - i)"
  using assms(1,3)
  by (auto simp: sweep_order_def takeWhile_position [OF assms(1,2)] nth_append rev_nth
      intro!: arg_cong [of _ _ "(!) q"])

lemma sweep_order_0:
  "p < length q \<Longrightarrow> distinct (map fst q) \<Longrightarrow> sweep_order q (fst (q ! p)) ! 0 = q ! p"
  using sweep_order_nth [of p q 0] by (cases q) simp_all

lemma length_sweep_order [simp]: "length (sweep_order q h) = length q"
  by (simp add: sweep_order_def Let_def)

lemma set_sweep_order [simp]: "set (sweep_order q h) = set q"
  by (metis append_take_drop_id set_append set_rev sweep_order_def)

lemma distinct_sweep_order: "distinct (map f q) \<Longrightarrow> distinct (map f (sweep_order q h))"
proof -
  assume q: "distinct (map f q)"
  let ?n = "Suc (length (takeWhile (\<lambda>x. fst x \<noteq> h) q))"
  from q have "distinct (map f (take ?n q) @ map f (drop ?n q))"
    by (simp only: map_append [symmetric] append_take_drop_id)
  then show ?thesis unfolding sweep_order_def Let_def by (auto simp: rev_map [symmetric])
qed

text \<open>Moving the hand is a step along the sweep order, which wraps around.\<close>

lemma sweep_order_next:
  assumes "h \<in> fst ` set q" and "distinct (map fst q)" and "i < length q"
  shows "(case list_Prev q (fst (sweep_order q h ! i)) of None \<Rightarrow> list_Back q | Some x \<Rightarrow> Some x) =
           Some (fst (sweep_order q h ! (Suc i mod length q)))"
proof -
  obtain p where p: "p < length q" "h = fst (q ! p)" using assms(1) by (auto simp: in_set_conv_nth)
  let ?ix = "\<lambda>i. if i \<le> p then p - i else length q + p - i"
  have "?ix i < length q" using p assms(3) by auto
  then have prev: "list_Prev q (fst (q ! ?ix i)) =
      (if ?ix i = 0 then None else Some (fst (q ! (?ix i - 1))))"
    by (rule list_Prev_nth [OF assms(2)])
  have "q \<noteq> []" using p by auto
  show ?thesis
  proof (cases "Suc i = length q")
    case True
    with p prev list_Back_nth [OF \<open>q \<noteq> []\<close>] show ?thesis
      by (auto simp: sweep_order_0 [OF p(1) assms(2)] sweep_order_nth [OF p(1) assms(2)] assms(3)
          split: if_splits intro!: arg_cong [of _ _ "\<lambda>j. fst (q ! j)"])
  next
    case False
    then have si: "Suc i < length q" using assms(3) by simp
    with p prev list_Back_nth [OF \<open>q \<noteq> []\<close>] show ?thesis
      by (auto simp: sweep_order_nth [OF p(1) assms(2) si] sweep_order_nth [OF p(1) assms(2,3)]
          split: if_splits intro!: arg_cong [of _ _ "\<lambda>j. fst (q ! j)"])
  qed
qed


lemma is_visited_clear:
  "is_visited (clear_visited K st) k \<longleftrightarrow> is_visited st k \<and> k \<notin> K"
  by (auto simp: is_visited_def clear_visited_def split: option.splits)

lemma dom_clear_visited [simp]: "dom (clear_visited K st) = dom st"
  by (auto simp: clear_visited_def dom_def split: if_splits)

lemma clear_visited_insert:
  "st k = Some e \<Longrightarrow> k \<notin> K \<Longrightarrow>
     (clear_visited K st)(k \<mapsto> e\<lparr>e_visited := False\<rparr>) = clear_visited (insert k K) st"
  by (auto simp: clear_visited_def fun_eq_iff)

lemma entry_at_mem:
  assumes "distinct (map fst q)" and "(h, k) \<in> set q" and "st k = Some e"
  shows "entry_at q st h = Some (k, e)"
  using assms by (simp add: entry_at_def)

text \<open>The sweep stops, after exactly the second chances, with their flags cleared.\<close>

lemma sweep_result:
  assumes dist: "distinct (map fst q)" "distinct (map snd q)"
    and dom: "dom st = snd ` set q" and h: "h \<in> fst ` set q"
  defines "W \<equiv> sweep_order q h" and "M \<equiv> second_chances q st h"
  shows "loop (sweep_visited q) (sweep_step q) (h, st) =
     Some (fst (W ! (M mod length q)), clear_visited (snd ` set (take M W)) st)"
proof -
  let ?n = "length q"
  let ?state = "\<lambda>m. (fst (W ! (m mod ?n)), clear_visited (snd ` set (take m W)) st)"
  have n: "0 < ?n" using h by auto
  have len: "length W = ?n" and setW: "set W = set q"
    and distW: "distinct (map fst W)" "distinct (map snd W)"
    using dist by (simp_all add: W_def distinct_sweep_order)
  have M: "M \<le> ?n" unfolding M_def second_chances_def W_def
    by (metis length_sweep_order length_takeWhile_le)
  have entry: "\<exists>e. st (snd (W ! i)) = Some e \<and>
      entry_at q (clear_visited K st) (fst (W ! i)) =
        Some (snd (W ! i), if snd (W ! i) \<in> K then e\<lparr>e_visited := False\<rparr> else e)"
    if "i < ?n" for i K
  proof -
    have mem: "(fst (W ! i), snd (W ! i)) \<in> set q" using that len setW nth_mem by force
    then have "snd (W ! i) \<in> dom st" unfolding dom by force
    then obtain e where e: "st (snd (W ! i)) = Some e" by blast
    then have "clear_visited K st (snd (W ! i)) =
        Some (if snd (W ! i) \<in> K then e\<lparr>e_visited := False\<rparr> else e)"
      by (simp add: clear_visited_def)
    with entry_at_mem [OF dist(1) mem] e show ?thesis by metis
  qed
  have notin: "snd (W ! m) \<notin> snd ` set (take m W)" if "m < ?n" for m
  proof
    assume "snd (W ! m) \<in> snd ` set (take m W)"
    then obtain j where "j < m" "snd (W ! j) = snd (W ! m)"
      using that len by (auto simp: in_set_conv_nth)
    with distinct_map_nth_neq [OF distW(2), of j m] that len show False by simp
  qed
  have steps: "loop (sweep_visited q) (sweep_step q) (?state m) =
      loop (sweep_visited q) (sweep_step q) (?state (Suc m))" if "m < M" for m
  proof -
    have m: "m < ?n" using that M by simp
    have vis: "is_visited st (snd (W ! m))"
    proof -
      have "m < length (takeWhile (\<lambda>x. is_visited st (snd x)) W)"
        using that by (simp add: M_def second_chances_def W_def)
      from nth_mem [OF this] takeWhile_nth [OF this] show ?thesis by (auto dest: set_takeWhileD)
    qed
    from entry [OF m, of "snd ` set (take m W)"] notin [OF m] obtain e
      where e: "st (snd (W ! m)) = Some e"
        and at: "entry_at q (clear_visited (snd ` set (take m W)) st) (fst (W ! m)) = Some (snd (W ! m), e)"
      by auto
    have "sweep_visited q (?state m)"
      using vis e m at by (simp add: sweep_visited_def is_visited_def)
    moreover have "sweep_step q (?state m) = Some (?state (Suc m))"
    proof -
      have "(clear_visited (snd ` set (take m W)) st)(snd (W ! m) \<mapsto> e\<lparr>e_visited := False\<rparr>) =
          clear_visited (snd ` set (take (Suc m) W)) st"
        using clear_visited_insert [where K = "snd ` set (take m W)" and st = st, OF e notin [OF m]] m len
        by (simp add: take_Suc_conv_app_nth)
      then show ?thesis
        using sweep_order_next [OF h dist(1) m] m at by (simp add: sweep_step_def W_def)
    qed
    ultimately show ?thesis by (rule loop_step)
  qed
  have "loop (sweep_visited q) (sweep_step q) (?state 0) =
      loop (sweep_visited q) (sweep_step q) (?state m)" if "m \<le> M" for m
    using that by (induction m) (simp_all add: steps)
  moreover have "\<not> sweep_visited q (?state M)"
  proof (cases "M < ?n")
    case True
    with entry [OF True, of "snd ` set (take M W)"] notin [OF True]
      nth_length_takeWhile [of "\<lambda>x. is_visited st (snd x)" W] len
    show ?thesis by (auto simp: sweep_visited_def is_visited_def M_def second_chances_def W_def)
  next
    case False
    then have "M = ?n" using M by simp
    moreover have "W ! 0 \<in> set W" using n len by (intro nth_mem) simp
    ultimately show ?thesis
      using entry [OF n, of "snd ` set W"] len by (auto simp: sweep_visited_def)
  qed
  moreover have "?state 0 = (h, st)"
  proof -
    obtain p where "p < ?n" "h = fst (q ! p)" using h by (auto simp: in_set_conv_nth)
    then have "fst (W ! 0) = h" using dist(1) n by (simp add: W_def sweep_order_0)
    moreover have "clear_visited {} st = st" by (simp add: clear_visited_def fun_eq_iff)
    ultimately show ?thesis using n by simp
  qed
  ultimately show ?thesis by (metis le_refl loop_done)
qed


section \<open>The operations of the Sieve\<close>

text \<open>Where the sweep starts, and the key it evicts.\<close>

definition evict_hand :: "('k, 'v) Sieve \<Rightarrow> element" where
  "evict_hand s = (case sv_hand s of None \<Rightarrow> fst (last (sv_queue s)) | Some h \<Rightarrow> h)"

definition evict_victim :: "('k, 'v) Sieve \<Rightarrow> element \<times> 'k" where
  "evict_victim s =
     sweep_order (sv_queue s) (evict_hand s) !
       (second_chances (sv_queue s) (sv_store s) (evict_hand s) mod length (sv_queue s))"

lemma evict_hand_mem:
  assumes "sieve_inv s" and "sv_queue s \<noteq> []"
  shows "evict_hand s \<in> fst ` set (sv_queue s)"
  using assms by (auto simp: evict_hand_def sieve_inv_def split: option.splits)

lemma evict_victim_mem:
  assumes "sv_queue s \<noteq> []"
  shows "evict_victim s \<in> set (sv_queue s)"
proof -
  have "second_chances (sv_queue s) (sv_store s) (evict_hand s) mod length (sv_queue s)
      < length (sweep_order (sv_queue s) (evict_hand s))"
    using assms by simp
  from nth_mem [OF this] show ?thesis by (simp add: evict_victim_def)
qed

lemma sieve_inv_clear:
  assumes "sieve_inv s" and "\<And>h. hnd = Some h \<Longrightarrow> h \<in> fst ` set (sv_queue s)"
  shows "sieve_inv (s\<lparr>sv_store := clear_visited K (sv_store s), sv_hand := hnd\<rparr>)"
proof -
  have "e_key e = k \<and> (e_element e, k) \<in> set (sv_queue s)"
    if "clear_visited K (sv_store s) k = Some e" for k e
    using that assms(1) by (auto simp: clear_visited_def sieve_inv_def split: if_splits)
  with assms show ?thesis by (auto simp: sieve_inv_def)
qed

lemma evict_result:
  assumes inv: "sieve_inv s" and ne: "sv_queue s \<noteq> []"
  obtains s' K where "evict s = Some s'" "sieve_inv s'"
    "sv_queue s' = filter (\<lambda>x. fst x \<noteq> fst (evict_victim s)) (sv_queue s)"
    "sv_store s' = (clear_visited K (sv_store s))(snd (evict_victim s) := None)"
    "sv_stats s' = Stats_Delete (sv_stats s)" "sv_next s' = sv_next s"
    "K = snd ` set (take (second_chances (sv_queue s) (sv_store s) (evict_hand s))
                      (sweep_order (sv_queue s) (evict_hand s)))"
proof -
  define q st h where "q = sv_queue s" and "st = sv_store s" and "h = evict_hand s"
  define K where "K = snd ` set (take (second_chances q st h) (sweep_order q h))"
  define x where "x = evict_victim s"
  have dist: "distinct (map fst q)" "distinct (map snd q)" and dom: "dom st = snd ` set q"
    using inv by (simp_all add: sieve_inv_def q_def st_def)
  have h: "h \<in> fst ` set q" using evict_hand_mem [OF inv ne] by (simp add: h_def q_def)
  have x: "x \<in> set q" using evict_victim_mem [OF ne] by (simp add: x_def q_def)
  have start: "(case sv_hand s of None \<Rightarrow> list_Back (sv_queue s) | Some h \<Rightarrow> Some h) = Some h"
    using ne by (simp add: h_def evict_hand_def list_Back_def split: option.split)
  have swept: "loop (sweep_visited q) (sweep_step q) (h, st) = Some (fst x, clear_visited K st)"
    using sweep_result [OF dist dom h] by (simp add: K_def x_def evict_victim_def q_def st_def h_def)
  have "snd x \<in> dom (clear_visited K st)" using dom x by auto
  then obtain e where e: "clear_visited K st (snd x) = Some e" by blast
  let ?s = "s\<lparr>sv_store := clear_visited K st, sv_hand := list_Prev q (fst x)\<rparr>"
  have inv1: "sieve_inv ?s"
    using sieve_inv_clear [OF inv, of "list_Prev q (fst x)" K] list_Prev_mem [of q "fst x"]
    by (auto simp: q_def st_def)
  have elem: "e_key e = snd x" "e_element e = fst x"
  proof -
    have "e_key e = snd x \<and> (e_element e, snd x) \<in> set q"
      using inv1 e by (auto simp: sieve_inv_def q_def)
    moreover have "(fst x, snd x) \<in> set q" using x by simp
    ultimately show "e_key e = snd x" "e_element e = fst x"
      using sieve_elem_unique [OF inv] by (auto simp: q_def)
  qed
  have "entry_at q (clear_visited K st) (fst x) = Some (snd x, e)"
    using entry_at_mem [OF dist(1)] x e by (metis prod.collapse)
  with start swept have ev: "evict s = Some (removeEntry ?s e)"
    by (simp add: evict_def q_def st_def)
  moreover have "sieve_inv (removeEntry ?s e)"
    using list_Prev_neq [OF dist(1)] elem e by (intro sieve_inv_removeEntry [OF inv1]) auto
  ultimately show thesis
    by (intro that [of "removeEntry ?s e" K])
      (simp_all add: removeEntry_def list_Remove_def elem K_def q_def st_def h_def x_def)
qed

text \<open>
  The evicted key was not visited, unless every key was; the keys the hand passed over keep
  their value and lose their flag.
\<close>

lemma victim_unvisited:
  assumes "sieve_inv s" and "sv_queue s \<noteq> []"
    and "is_visited (sv_store s) (snd (evict_victim s))"
  shows "\<forall>k \<in> dom (sv_store s). is_visited (sv_store s) k"
proof -
  let ?W = "sweep_order (sv_queue s) (evict_hand s)"
  let ?P = "\<lambda>x. is_visited (sv_store s) (snd x)"
  have "\<not> length (takeWhile ?P ?W) < length ?W"
    using assms(3) nth_length_takeWhile [of ?P ?W]
    by (auto simp: evict_victim_def second_chances_def)
  then have "takeWhile ?P ?W = ?W"
    by (metis length_takeWhile_le linorder_neqE_nat takeWhile_eq_take take_all le_less)
  then have "\<forall>x \<in> set (sv_queue s). ?P x" by (metis set_sweep_order set_takeWhileD)
  then show ?thesis using assms(1) by (auto simp: sieve_inv_def)
qed


lemma sieve_full_nonempty:
  "sieve_inv s \<Longrightarrow> Capacity (sv_stats s) \<le> int (length (sv_queue s)) \<Longrightarrow> sv_queue s \<noteq> []"
  by (auto simp: sieve_inv_def)

definition sieve_full :: "('k, 'v) Sieve \<Rightarrow> bool" where
  "sieve_full s \<longleftrightarrow> Capacity (sv_stats s) \<le> int (length (sv_queue s))"

lemma sieve_map_evict:
  assumes "sieve_inv s" and "sv_queue s \<noteq> []"
  obtains s' where "evict s = Some s'" "sieve_inv s'"
    "sieve_map s' = (sieve_map s)(snd (evict_victim s) := None)"
    "sv_stats s' = Stats_Delete (sv_stats s)"
    "Suc (length (sv_queue s')) = length (sv_queue s)"
proof -
  from evict_result [OF assms] obtain s' K where s': "evict s = Some s'" "sieve_inv s'"
    and q: "sv_queue s' = filter (\<lambda>x. fst x \<noteq> fst (evict_victim s)) (sv_queue s)"
    and st: "sv_store s' = (clear_visited K (sv_store s))(snd (evict_victim s) := None)"
    and stats: "sv_stats s' = Stats_Delete (sv_stats s)" by metis
  have "sieve_map s' = (sieve_map s)(snd (evict_victim s) := None)"
    by (auto simp: sieve_map_def st clear_visited_def fun_eq_iff option.map_comp comp_def)
  moreover have "Suc (length (sv_queue s')) = length (sv_queue s)"
    using length_list_Remove [of "sv_queue s" "fst (evict_victim s)" "snd (evict_victim s)"]
      evict_victim_mem [OF assms(2)] assms(1)
    by (simp add: q list_Remove_def sieve_inv_def)
  ultimately show thesis using s' stats that by blast
qed

lemma sieve_inv_insert:
  assumes inv: "sieve_inv s" and k: "sv_store s key = None"
    and room: "int (length (sv_queue s)) < Capacity (sv_stats s)"
  shows "sieve_inv (s\<lparr>sv_queue := (sv_next s, key) # sv_queue s,
          sv_store := (sv_store s)(key \<mapsto>
            \<lparr>e_key = key, e_value = val, e_visited = False, e_element = sv_next s\<rparr>),
          sv_stats := Stats_Put (sv_stats s), sv_next := Suc (sv_next s)\<rparr>)"
proof -
  have "key \<notin> snd ` set (sv_queue s)"
    using inv k by (metis domIff sieve_inv_def)
  moreover have "sv_next s \<notin> fst ` set (sv_queue s)"
    using inv by (auto simp: sieve_inv_def)
  ultimately show ?thesis
    using inv room by (auto simp: sieve_inv_def go_simps less_Suc_eq)
qed

lemma Sieve_Put_result:
  assumes inv: "sieve_inv s"
  shows "\<exists>s'. Sieve_Put s key val = Some s' \<and> sieve_inv s' \<and>
     sieve_map s' =
       (if sieve_map s key = None \<and> sieve_full s
        then (sieve_map s)(snd (evict_victim s) := None) else sieve_map s)(key \<mapsto> val)"
proof (cases "sv_store s key")
  case (Some e)
  let ?s = "s\<lparr>sv_store := (sv_store s)(key \<mapsto> e\<lparr>e_value := val, e_visited := True\<rparr>)\<rparr>"
  have "sieve_inv ?s" using inv Some by (auto simp: sieve_inv_def)
  moreover have "sieve_map ?s = (sieve_map s)(key \<mapsto> val)"
    by (simp add: sieve_map_def fun_eq_iff)
  ultimately show ?thesis using Some by (simp add: Sieve_Put_def sieve_map_def)
next
  case None
  note absent = this
  show ?thesis
  proof (cases "sieve_full s")
    case False
    then show ?thesis
      using absent sieve_inv_insert [OF inv absent, of val]
      by (auto simp: Sieve_Put_def putEntry_def sieve_full_def sieve_map_def fun_eq_iff)
  next
    case True
    then have "sv_queue s \<noteq> []" by (intro sieve_full_nonempty [OF inv]) (simp add: sieve_full_def)
    from sieve_map_evict [OF inv this] obtain s' where s': "evict s = Some s'" "sieve_inv s'"
      and m: "sieve_map s' = (sieve_map s)(snd (evict_victim s) := None)"
      and stats: "sv_stats s' = Stats_Delete (sv_stats s)"
      and len: "Suc (length (sv_queue s')) = length (sv_queue s)" by metis
    have "sieve_map s' key = None" using m absent by (simp add: sieve_map_def)
    then have none: "sv_store s' key = None" by (simp add: sieve_map_def)
    have room: "int (length (sv_queue s')) < Capacity (sv_stats s')"
      using inv len stats by (simp add: sieve_inv_def go_simps)
    have "putEntry s key val = putEntry s' key val"
      using True s' room by (simp add: putEntry_def sieve_full_def)
    then show ?thesis
      using sieve_inv_insert [OF s'(2) none room, of val] room absent True m
      by (auto simp: Sieve_Put_def putEntry_def sieve_map_def fun_eq_iff)
  qed
qed

lemma Sieve_Get_result:
  assumes "sieve_inv s"
  shows "fst (Sieve_Get s key) = sieve_map s key \<and> sieve_inv (snd (Sieve_Get s key)) \<and>
     sieve_map (snd (Sieve_Get s key)) = sieve_map s"
  using assms
  by (auto simp: Sieve_Get_def sieve_map_def sieve_inv_def go_simps fun_eq_iff split: option.splits)

lemma Sieve_Delete_result:
  assumes inv: "sieve_inv s"
  shows "sieve_inv (Sieve_Delete s key) \<and>
     sieve_map (Sieve_Delete s key) = (sieve_map s)(key := None)"
proof (cases "sv_store s key")
  case None
  with inv show ?thesis by (auto simp: Sieve_Delete_def sieve_map_def fun_eq_iff)
next
  case (Some e)
  have k: "e_key e = key" using inv Some by (simp add: sieve_inv_def)
  let ?s = "if Some (e_element e) = sv_hand s
      then s\<lparr>sv_hand := list_Prev (sv_queue s) (e_element e)\<rparr> else s"
  have "sieve_inv ?s"
    using inv list_Prev_mem [of "sv_queue s" "e_element e"] by (auto simp: sieve_inv_def)
  moreover have "sv_hand ?s \<noteq> Some (e_element e)"
    using list_Prev_neq [of "sv_queue s" "e_element e" "e_element e"] inv
    by (auto simp: sieve_inv_def simp del: map_map)
  moreover have "sv_store ?s key = Some e" using Some by simp
  ultimately have "sieve_inv (removeEntry ?s e)" by (intro sieve_inv_removeEntry)
  then show ?thesis
    using Some k by (auto simp: Sieve_Delete_def sieve_map_def removeEntry_def fun_eq_iff)
qed


section \<open>The cache contract\<close>

text \<open>
  What the interface \<open>Cache\<close> of src/cache/cache.go gives its users, for any implementation:
  an operation never panics on a well-formed cache, a \<open>Put\<close> may drop entries (by eviction, or
  by refusing the new one) but never invents or alters one, a \<open>Get\<close> reads the content and leaves
  it as it is, and a \<open>Delete\<close> removes exactly its key.
\<close>

datatype ('k, 'v) cache_op = OpPut 'k 'v | OpGet 'k | OpDelete 'k

fun run_ops ::
    "('c \<Rightarrow> 'k \<Rightarrow> 'v \<Rightarrow> 'c option) \<Rightarrow> ('c \<Rightarrow> 'k \<Rightarrow> 'v option \<times> 'c) \<Rightarrow> ('c \<Rightarrow> 'k \<Rightarrow> 'c) \<Rightarrow>
     'c \<Rightarrow> ('k, 'v) cache_op list \<Rightarrow> 'c option" where
  "run_ops put get del c [] = Some c"
| "run_ops put get del c (OpPut k v # ops) =
     (case put c k v of None \<Rightarrow> None | Some c' \<Rightarrow> run_ops put get del c' ops)"
| "run_ops put get del c (OpGet k # ops) = run_ops put get del (snd (get c k)) ops"
| "run_ops put get del c (OpDelete k # ops) = run_ops put get del (del c k) ops"

text \<open>The map an unbounded cache would hold after the operations: the last value put per key.\<close>

fun ledger :: "('k \<rightharpoonup> 'v) \<Rightarrow> ('k, 'v) cache_op list \<Rightarrow> ('k \<rightharpoonup> 'v)" where
  "ledger m [] = m"
| "ledger m (OpPut k v # ops) = ledger (m(k \<mapsto> v)) ops"
| "ledger m (OpGet k # ops) = ledger m ops"
| "ledger m (OpDelete k # ops) = ledger (m(k := None)) ops"

locale cache_contract =
  fixes inv :: "'c \<Rightarrow> bool" and content :: "'c \<Rightarrow> ('k \<rightharpoonup> 'v)"
    and put :: "'c \<Rightarrow> 'k \<Rightarrow> 'v \<Rightarrow> 'c option"
    and get :: "'c \<Rightarrow> 'k \<Rightarrow> 'v option \<times> 'c"
    and del :: "'c \<Rightarrow> 'k \<Rightarrow> 'c"
  assumes put_law: "inv c \<Longrightarrow> \<exists>c'. put c k v = Some c' \<and> inv c' \<and> content c' \<subseteq>\<^sub>m (content c)(k \<mapsto> v)"
    and get_law: "inv c \<Longrightarrow> fst (get c k) = content c k \<and> inv (snd (get c k)) \<and>
                    content (snd (get c k)) = content c"
    and del_law: "inv c \<Longrightarrow> inv (del c k) \<and> content (del c k) = (content c)(k := None)"
begin

text \<open>After any operations, the cache holds nothing but the last values put.\<close>

lemma run_ops_coherent:
  "inv c \<Longrightarrow> content c \<subseteq>\<^sub>m m \<Longrightarrow>
     \<exists>c'. run_ops put get del c ops = Some c' \<and> inv c' \<and> content c' \<subseteq>\<^sub>m ledger m ops"
proof (induction ops arbitrary: c m)
  case (Cons op ops)
  show ?case
  proof (cases op)
    case (OpPut k v)
    from put_law [OF Cons.prems(1), of k v] obtain c' where
      c': "put c k v = Some c'" "inv c'" "content c' \<subseteq>\<^sub>m (content c)(k \<mapsto> v)" by blast
    moreover have "content c' \<subseteq>\<^sub>m m(k \<mapsto> v)"
      using c'(3) Cons.prems(2) by (auto simp: map_le_def dom_def split: if_splits)
    ultimately show ?thesis using OpPut Cons.IH by simp
  next
    case (OpGet k)
    then show ?thesis using get_law [OF Cons.prems(1), of k] Cons by simp
  next
    case (OpDelete k)
    moreover have "content (del c k) \<subseteq>\<^sub>m m(k := None)"
      using del_law [OF Cons.prems(1), of k] Cons.prems(2) by (auto simp: map_le_def)
    moreover have "inv (del c k)" using del_law [OF Cons.prems(1)] by blast
    ultimately show ?thesis using Cons.IH by (simp del: fun_upd_apply)
  qed
qed simp

end

definition sieve_inv_cap :: "int \<Rightarrow> ('k, 'v) Sieve \<Rightarrow> bool" where
  "sieve_inv_cap cap s \<longleftrightarrow> sieve_inv s \<and> Capacity (sv_stats s) = cap"

lemma Capacity_Sieve_Put:
  "Sieve_Put s k v = Some s' \<Longrightarrow> Capacity (sv_stats s') = Capacity (sv_stats s)"
  by (auto simp: Sieve_Put_def putEntry_def evict_def removeEntry_def go_simps
      split: option.splits if_splits prod.splits)

interpretation sieve: cache_contract "sieve_inv_cap cap" sieve_map Sieve_Put Sieve_Get Sieve_Delete
  for cap :: int
proof unfold_locales
  fix c :: "('k, 'v) Sieve" and k v
  assume inv: "sieve_inv_cap cap c"
  then have "sieve_inv c" by (simp add: sieve_inv_cap_def)
  with inv Sieve_Put_result [OF this, of k v]
  show "\<exists>c'. Sieve_Put c k v = Some c' \<and> sieve_inv_cap cap c' \<and>
      sieve_map c' \<subseteq>\<^sub>m (sieve_map c)(k \<mapsto> v)"
    by (auto simp: sieve_inv_cap_def map_le_def Capacity_Sieve_Put split: if_splits)
  show "fst (Sieve_Get c k) = sieve_map c k \<and> sieve_inv_cap cap (snd (Sieve_Get c k)) \<and>
      sieve_map (snd (Sieve_Get c k)) = sieve_map c"
    using Sieve_Get_result [of c k] inv
    by (auto simp: sieve_inv_cap_def Sieve_Get_def go_simps split: option.splits)
  show "sieve_inv_cap cap (Sieve_Delete c k) \<and> sieve_map (Sieve_Delete c k) = (sieve_map c)(k := None)"
    using Sieve_Delete_result [of c k] inv
    by (auto simp: sieve_inv_cap_def Sieve_Delete_def removeEntry_def go_simps split: option.splits)
qed

definition ne_inv :: "int \<Rightarrow> ('k, 'v) NonExpiringMapCache \<Rightarrow> bool" where
  "ne_inv cap s \<longleftrightarrow> Capacity (ne_stats s) = cap \<and> finite (dom (ne_store s)) \<and>
     stat_size (ne_stats s) = int (card (dom (ne_store s))) \<and>
     stat_size (ne_stats s) \<le> max 0 (Capacity (ne_stats s))"

lemma ne_inv_New: "ne_inv capacity (NewNonExpiringMapCache capacity)"
  by (simp add: ne_inv_def NewNonExpiringMapCache_def NewStats_def)

lemma ne_inv_Put: "ne_inv cap s \<Longrightarrow> ne_inv cap (NonExpiringMapCache_Put s k v)"
  by (auto simp: ne_inv_def NonExpiringMapCache_Put_def go_simps domIff insert_absorb)

lemma ne_inv_Delete: "ne_inv cap s \<Longrightarrow> ne_inv cap (NonExpiringMapCache_Delete s k)"
proof (cases "ne_store s k = None")
  case False
  assume inv: "ne_inv cap s"
  have "k \<in> dom (ne_store s)" using False by blast
  then have "card (dom (ne_store s)) = Suc (card (dom (ne_store s) - {k}))"
    using inv unfolding ne_inv_def by (metis card.remove)
  with inv False show ?thesis by (auto simp: ne_inv_def NonExpiringMapCache_Delete_def go_simps)
qed (simp add: NonExpiringMapCache_Delete_def)

interpretation nemap: cache_contract "ne_inv cap" ne_store
  "\<lambda>c k v. Some (NonExpiringMapCache_Put c k v)" NonExpiringMapCache_Get NonExpiringMapCache_Delete
  for cap :: int
proof unfold_locales
  fix c :: "('k, 'v) NonExpiringMapCache" and k v
  assume inv: "ne_inv cap c"
  then show "\<exists>c'. Some (NonExpiringMapCache_Put c k v) = Some c' \<and> ne_inv cap c' \<and>
      ne_store c' \<subseteq>\<^sub>m (ne_store c)(k \<mapsto> v)"
    by (auto simp: ne_inv_Put) (auto simp: NonExpiringMapCache_Put_def map_le_def)
  show "fst (NonExpiringMapCache_Get c k) = ne_store c k \<and> ne_inv cap (snd (NonExpiringMapCache_Get c k)) \<and>
      ne_store (snd (NonExpiringMapCache_Get c k)) = ne_store c"
    using inv by (auto simp: NonExpiringMapCache_Get_def ne_inv_def go_simps)
  show "ne_inv cap (NonExpiringMapCache_Delete c k) \<and>
      ne_store (NonExpiringMapCache_Delete c k) = (ne_store c)(k := None)"
    using ne_inv_Delete [OF inv] by (auto simp: NonExpiringMapCache_Delete_def fun_eq_iff)
qed


section \<open>Properties\<close>



text \<open>A cache of two keys in which the older one was read: the newer one is evicted.\<close>

definition sieve_example :: "(nat, nat) Sieve" where
  "sieve_example = \<lparr>
     sv_store = [1 \<mapsto> \<lparr>e_key = 1, e_value = 10, e_visited = True, e_element = 0\<rparr>,
                 2 \<mapsto> \<lparr>e_key = 2, e_value = 20, e_visited = False, e_element = 1\<rparr>],
     sv_queue = [(1, 2), (0, 1)], sv_hand = None,
     sv_stats = \<lparr>st_hits = 1, st_misses = 0, stat_size = 2, Capacity = 2\<rparr>, sv_next = 2\<rparr>"

lemma sieve_inv_example: "sieve_inv sieve_example"
  by (auto simp: sieve_example_def sieve_inv_def split: if_splits)


text \<open>A put into a well-formed \<open>Sieve\<close> returns; a get of the key then yields the value put, and
  a get of any other key yields what it yielded before, except that a put of a new key into a
  full cache loses exactly the evicted key.\<close>

theorem Sieve_Put_Get:
  assumes "sieve_inv s"
  shows "\<exists>s'. Sieve_Put s key val = Some s' \<and> sieve_inv s' \<and>
     fst (Sieve_Get s' key) = Some val \<and>
     (\<forall>k. k \<noteq> key \<longrightarrow> fst (Sieve_Get s' k) =
        (if fst (Sieve_Get s key) = None \<and> sieve_full s \<and> k = snd (evict_victim s) then None
         else fst (Sieve_Get s k)))"
  using Sieve_Put_result [OF assms, of key val] Sieve_Get_result assms by fastforce

theorem Sieve_Put_Get_witness:
  "\<exists>s'. Sieve_Put sieve_example 3 30 = Some s' \<and> fst (Sieve_Get s' 3) = Some 30 \<and>
     fst (Sieve_Get s' 1) = Some 10 \<and> fst (Sieve_Get s' 2) = None"
proof -
  have x: "evict_victim sieve_example = (1, 2)" by code_simp
  have get: "fst (Sieve_Get sieve_example 3) = None" "fst (Sieve_Get sieve_example 1) = Some 10"
    "sieve_full sieve_example"
    by (simp_all add: Sieve_Get_def sieve_example_def sieve_full_def)
  show ?thesis
    using Sieve_Put_Get [OF sieve_inv_example, of 3 30] x get by auto
qed

text \<open>The map cache obeys the same contract: from an empty cache any operations leave it
  holding only last values put, never more keys than its capacity, and an exact size.\<close>

theorem NonExpiringMapCache_run_coherent:
  "\<exists>s'. run_ops (\<lambda>c k v. Some (NonExpiringMapCache_Put c k v)) NonExpiringMapCache_Get
       NonExpiringMapCache_Delete (NewNonExpiringMapCache capacity) ops = Some s' \<and>
     ne_store s' \<subseteq>\<^sub>m ledger Map.empty ops \<and>
     stat_size (ne_stats s') = int (card (dom (ne_store s'))) \<and>
     int (card (dom (ne_store s'))) \<le> max 0 capacity"
proof -
  have "ne_store (NewNonExpiringMapCache capacity) \<subseteq>\<^sub>m Map.empty"
    by (simp add: NewNonExpiringMapCache_def)
  from nemap.run_ops_coherent [OF ne_inv_New this, of ops] show ?thesis
    by (auto simp: ne_inv_def)
qed

end
