(* ===== verification/Algo_Reach.thy ===== *)
theory Algo_Reach
  imports Algo_Component Go_Cache
begin

text \<open>
  src/algo/reach.go: \<open>ReachabilityCache\<close> answers reachability queries on the component graph and
  keeps the sets it computes in two \<open>Sieve\<close> caches, one per direction.

  The depth-first search works on cursors that the Go code shares by pointer (a cursor points to
  its ancestor, the loop to the root cursor). They are the entries of a list, in the order they
  were allocated, and a pointer is a position in it; the root is entry 0. The stack of
  pointers is the third-party deque.
\<close>

section \<open>Cursors and caches\<close>

record 'b reachCursor =
  ru_component :: uint64
  ru_adjacent :: "uint64 list"
  ru_adjacentIdx :: nat
  ru_reach :: 'b
  ru_ancestor :: "nat option"

definition Complete :: "'b roaring64_ops \<Rightarrow> 'b reachCursor list \<Rightarrow> nat \<Rightarrow> 'b reachCursor list" where
  "Complete R heap i = (case ru_ancestor (heap ! i) of
     None \<Rightarrow> heap
   | Some a \<Rightarrow> heap[a := (heap ! a)\<lparr>ru_reach := bitmap64_Or R (ru_reach (heap ! a)) (Bitmap64 (ru_reach (heap ! i)))\<rparr>])"

definition NextAdjacent :: "'b reachCursor \<Rightarrow> uint64 option \<times> 'b reachCursor" where
  "NextAdjacent c =
     (if ru_adjacentIdx c < length (ru_adjacent c)
      then (Some (ru_adjacent c ! ru_adjacentIdx c), c\<lparr>ru_adjacentIdx := ru_adjacentIdx c + 1\<rparr>)
      else (None, c))"

record 'b ReachabilityCache =
  rc_components :: "'b ComponentGraph"
  rc_inboundComponentReach :: "(uint64, 'b) Sieve"
  rc_outboundComponentReach :: "(uint64, 'b) Sieve"

definition NewReachabilityCache ::
    "'b roaring64_ops \<Rightarrow> (nat \<Rightarrow> bool) \<Rightarrow> DirectedGraph \<Rightarrow> int \<Rightarrow> 'b ReachabilityCache option" where
  "NewReachabilityCache R live digraph maxCacheSize =
     map_option (\<lambda>components. \<lparr>rc_components = components,
         rc_inboundComponentReach = NewSieve maxCacheSize,
         rc_outboundComponentReach = NewSieve maxCacheSize\<rparr>)
       (NewComponentGraph R live digraph)"

definition newReachCursor ::
    "'b roaring64_ops \<Rightarrow> 'b ReachabilityCache \<Rightarrow> uint64 \<Rightarrow> direction \<Rightarrow> nat \<Rightarrow> 'b reachCursor" where
  "newReachCursor R s component dir previous =
     (let adjacentComponents = AdjacentNodes (cg_digraph (rc_components s)) component dir in
      \<lparr>ru_component = component, ru_adjacent = adjacentComponents, ru_adjacentIdx = 0,
       ru_reach = NewBitmap64With R (adjacentComponents @ [component]), ru_ancestor = Some previous\<rparr>)"

definition newRootReachCursor ::
    "'b roaring64_ops \<Rightarrow> 'b ReachabilityCache \<Rightarrow> uint64 \<Rightarrow> direction \<Rightarrow> 'b reachCursor" where
  "newRootReachCursor R s component dir =
     \<lparr>ru_component = component, ru_adjacent = AdjacentNodes (cg_digraph (rc_components s)) component dir,
      ru_adjacentIdx = 0, ru_reach = NewBitmap64With R [component], ru_ancestor = None\<rparr>"

definition ReachabilityCache_Stats :: "'b ReachabilityCache \<Rightarrow> stats" where
  "ReachabilityCache_Stats s =
     Stats_Combined (sv_stats (rc_inboundComponentReach s)) (sv_stats (rc_outboundComponentReach s))"

definition CanReach ::
    "'b roaring64_ops \<Rightarrow> ('q, uint64) deque_ops \<Rightarrow> 'b ReachabilityCache \<Rightarrow> uint64 \<Rightarrow> uint64 \<Rightarrow> direction \<Rightarrow> bool option" where
  "CanReach R D s startID endID dir =
     (case (ContainingComponent (rc_components s) startID, ContainingComponent (rc_components s) endID) of
        (Some startComponent, Some endComponent) \<Rightarrow>
          ComponentReachable R D (rc_components s) startComponent endComponent dir
      | _ \<Rightarrow> Some False)"

definition cacheComponentReach ::
    "'b ReachabilityCache \<Rightarrow> 'b reachCursor \<Rightarrow> direction \<Rightarrow> 'b ReachabilityCache option" where
  "cacheComponentReach s cursor dir = (case dir of
     DirectionInbound \<Rightarrow>
       map_option (\<lambda>c. s\<lparr>rc_inboundComponentReach := c\<rparr>)
         (Sieve_Put (rc_inboundComponentReach s) (ru_component cursor) (ru_reach cursor))
   | DirectionOutbound \<Rightarrow>
       map_option (\<lambda>c. s\<lparr>rc_outboundComponentReach := c\<rparr>)
         (Sieve_Put (rc_outboundComponentReach s) (ru_component cursor) (ru_reach cursor))
   | DirectionBoth \<Rightarrow> Some s)"

definition cachedComponentReach ::
    "'b ReachabilityCache \<Rightarrow> uint64 \<Rightarrow> direction \<Rightarrow> 'b option \<times> 'b ReachabilityCache" where
  "cachedComponentReach s component dir = (case dir of
     DirectionInbound \<Rightarrow> (case Sieve_Get (rc_inboundComponentReach s) component of
       (entry, c) \<Rightarrow> (entry, s\<lparr>rc_inboundComponentReach := c\<rparr>))
   | DirectionOutbound \<Rightarrow> (case Sieve_Get (rc_outboundComponentReach s) component of
       (entry, c) \<Rightarrow> (entry, s\<lparr>rc_outboundComponentReach := c\<rparr>))
   | DirectionBoth \<Rightarrow> (None, s))"

section \<open>The depth-first search\<close>

record ('b, 'q) reach_dfs =
  rd_cache :: "'b ReachabilityCache"
  rd_heap :: "'b reachCursor list"
  rd_stack :: 'q

text \<open>The neighbour \<open>y\<close> of the cursor at the top of the stack, \<open>i\<close>, is fresh: use its cached reach or descend.\<close>

definition reach_descend ::
    "'b roaring64_ops \<Rightarrow> ('q, nat) deque_ops \<Rightarrow> direction \<Rightarrow> nat \<Rightarrow> uint64 \<Rightarrow> ('b, 'q) reach_dfs \<Rightarrow> ('b, 'q) reach_dfs" where
  "reach_descend R D dir i y s = (case cachedComponentReach (rd_cache s) y dir of
     (Some cachedReach, cache) \<Rightarrow>
       s\<lparr>rd_cache := cache, rd_heap := (rd_heap s)[i := (rd_heap s ! i)\<lparr>ru_reach :=
           bitmap64_Or R (ru_reach (rd_heap s ! i)) (Bitmap64 cachedReach)\<rparr>]\<rparr>
   | (None, cache) \<Rightarrow>
       s\<lparr>rd_cache := cache, rd_heap := rd_heap s @ [newReachCursor R cache y dir i],
         rd_stack := dq_PushBack D (rd_stack s) (length (rd_heap s))\<rparr>)"

definition reach_step ::
    "'b roaring64_ops \<Rightarrow> ('q, nat) deque_ops \<Rightarrow> direction \<Rightarrow> ('b, 'q) reach_dfs \<Rightarrow> ('b, 'q) reach_dfs option" where
  "reach_step R D dir s = Option.bind (dq_Back D (rd_stack s)) (\<lambda>i.
     case NextAdjacent (rd_heap s ! i) of
       (None, _) \<Rightarrow>
         Option.bind (dq_PopBack D (rd_stack s)) (\<lambda>(_, stack).
           let heap = Complete R (rd_heap s) i in
           map_option (\<lambda>cache. s\<lparr>rd_cache := cache, rd_heap := heap, rd_stack := stack\<rparr>)
             (cacheComponentReach (rd_cache s) (heap ! i) dir))
     | (Some y, c) \<Rightarrow>
         let heap1 = (rd_heap s)[i := c] in
         (case bitmap64_CheckedAdd R (ru_reach (heap1 ! 0)) y of (fresh, rootReach) \<Rightarrow>
            let s1 = s\<lparr>rd_heap := heap1[0 := (heap1 ! 0)\<lparr>ru_reach := rootReach\<rparr>]\<rparr> in
            Some (if fresh then reach_descend R D dir i y s1 else s1)))"

definition componentReachDFS ::
    "'b roaring64_ops \<Rightarrow> ('q, nat) deque_ops \<Rightarrow> 'b ReachabilityCache \<Rightarrow> uint64 \<Rightarrow> direction \<Rightarrow>
     ('b \<times> 'b ReachabilityCache) option" where
  "componentReachDFS R D s component dir = (case cachedComponentReach s component dir of
     (Some cachedReach, s') \<Rightarrow> Some (cachedReach, s')
   | (None, s') \<Rightarrow>
       map_option (\<lambda>t. (ru_reach (rd_heap t ! 0), rd_cache t))
         (loop (\<lambda>t. dq_Len D (rd_stack t) > 0) (reach_step R D dir)
            \<lparr>rd_cache = s', rd_heap = [newRootReachCursor R s' component dir],
             rd_stack = dq_PushBack D (dq_New D) 0\<rparr>))"

section \<open>Queries\<close>

definition componentReachToMemberReachBitmap ::
    "'b roaring64_ops \<Rightarrow> 'b ReachabilityCache \<Rightarrow> 'b \<Rightarrow> 'b option" where
  "componentReachToMemberReachBitmap R s componentReach =
     bitmap64_Each R componentReach
       (\<lambda>c members. (Option.bind members (CollectComponentMembers R (rc_components s) c), True)) (Some (NewBitmap64 R))"

definition componentReachToMemberReachSlice ::
    "'b roaring64_ops \<Rightarrow> 'b ReachabilityCache \<Rightarrow> 'b \<Rightarrow> 'b list option" where
  "componentReachToMemberReachSlice R s componentReach =
     bitmap64_Each R componentReach
       (\<lambda>c members. (Option.bind members (\<lambda>ms.
          map_option (\<lambda>b. ms @ [b]) (ComponentMembers (rc_components s) c)), True)) (Some [])"

definition ReachSliceOfComponentContainingMember ::
    "'b roaring64_ops \<Rightarrow> ('q, nat) deque_ops \<Rightarrow> 'b ReachabilityCache \<Rightarrow> uint64 \<Rightarrow> direction \<Rightarrow>
     ('b list \<times> 'b ReachabilityCache) option" where
  "ReachSliceOfComponentContainingMember R D s member dir = (case ContainingComponent (rc_components s) member of
     None \<Rightarrow> Some ([], s)
   | Some rootComponent \<Rightarrow> Option.bind (componentReachDFS R D s rootComponent dir) (\<lambda>(reach, s').
       map_option (\<lambda>bs. (bs, s')) (componentReachToMemberReachSlice R s' reach)))"

definition ReachOfComponentContainingMember ::
    "'b roaring64_ops \<Rightarrow> ('q, nat) deque_ops \<Rightarrow> 'b ReachabilityCache \<Rightarrow> uint64 \<Rightarrow> direction \<Rightarrow>
     ('b \<times> 'b ReachabilityCache) option" where
  "ReachOfComponentContainingMember R D s member dir = (case ContainingComponent (rc_components s) member of
     None \<Rightarrow> Some (NewBitmap64 R, s)
   | Some rootComponent \<Rightarrow> Option.bind (componentReachDFS R D s rootComponent dir) (\<lambda>(reach, s').
       map_option (\<lambda>b. (b, s')) (componentReachToMemberReachBitmap R s' reach)))"

definition OrReach ::
    "'b roaring64_ops \<Rightarrow> ('q, nat) deque_ops \<Rightarrow> 'b ReachabilityCache \<Rightarrow> uint64 \<Rightarrow> direction \<Rightarrow> 'b \<Rightarrow>
     ('b \<times> 'b ReachabilityCache) option" where
  "OrReach R D s node dir dup =
     map_option (\<lambda>(reach, s'). (bitmap64_Remove R (bitmap64_Or R dup (Bitmap64 reach)) node, s'))
       (ReachOfComponentContainingMember R D s node dir)"

definition XorReach ::
    "'b roaring64_ops \<Rightarrow> ('q, nat) deque_ops \<Rightarrow> 'b ReachabilityCache \<Rightarrow> uint64 \<Rightarrow> direction \<Rightarrow> 'b \<Rightarrow>
     ('b \<times> 'b ReachabilityCache) option" where
  "XorReach R D s node dir dup =
     map_option (\<lambda>(reach, s'). (bitmap64_Xor R dup (Bitmap64 (bitmap64_Remove R (bitmap64_Clone R reach) node)), s'))
       (ReachOfComponentContainingMember R D s node dir)"

section \<open>The invariant of the search on sets\<close>

text \<open>
  \<open>V\<close> is the reach of the root \<open>A\<close> with the neighbours \<open>p0\<close> still to come, \<open>gs\<close> the cursors above it,
  bottom up: component, neighbours to come, reach. The neighbours of everything reached are
  reached or still to come, except for the nodes in \<open>Z\<close>.
\<close>

type_synonym frame = "uint64 \<times> uint64 set \<times> uint64 set"

definition frontier :: "uint64 set \<Rightarrow> uint64 set \<Rightarrow> frame list \<Rightarrow> uint64 set" where
  "frontier V p0 gs = V \<union> p0 \<union> (\<Union>(c, p, r) \<in> set gs. p \<union> r)"

definition rinv :: "uint64 set \<Rightarrow> uint64 rel \<Rightarrow> uint64 \<Rightarrow> uint64 set \<Rightarrow> uint64 set \<Rightarrow> frame list \<Rightarrow> bool" where
  "rinv Z E A V p0 gs \<longleftrightarrow> A \<in> V \<and> V \<subseteq> E\<^sup>* `` {A} \<and> p0 \<subseteq> E `` {A} \<and>
     (\<forall>x \<in> V - Z. E `` {x} \<subseteq> frontier V p0 gs) \<and>
     (\<forall>c p r. (c, p, r) \<in> set gs \<longrightarrow> r \<subseteq> E\<^sup>* `` {c} \<and> p \<subseteq> E `` {c} \<and>
        (\<forall>x \<in> r - Z. x \<in> p \<or> E `` {x} \<subseteq> frontier V p0 gs)) \<and>
     sorted_wrt (\<lambda>c d. (c, d) \<in> E\<^sup>*) (A # map fst gs)"

lemma frontier_snoc: "frontier V p0 (gs @ [(c, p, r)]) = frontier V p0 gs \<union> p \<union> r"
  by (auto simp: frontier_def)

lemma rinvD:
  assumes "rinv Z E A V p0 gs"
  shows "A \<in> V" "V \<subseteq> E\<^sup>* `` {A}" "p0 \<subseteq> E `` {A}"
    and "x \<in> V \<Longrightarrow> x \<notin> Z \<Longrightarrow> E `` {x} \<subseteq> frontier V p0 gs"
    and "(c, p, r) \<in> set gs \<Longrightarrow> r \<subseteq> E\<^sup>* `` {c}" "(c, p, r) \<in> set gs \<Longrightarrow> p \<subseteq> E `` {c}"
    and "(c, p, r) \<in> set gs \<Longrightarrow> x \<in> r \<Longrightarrow> x \<notin> Z \<Longrightarrow> x \<in> p \<or> E `` {x} \<subseteq> frontier V p0 gs"
    and "sorted_wrt (\<lambda>c d. (c, d) \<in> E\<^sup>*) (A # map fst gs)"
  using assms unfolding rinv_def by simp_all

lemma rinvI:
  assumes "A \<in> V" "V \<subseteq> E\<^sup>* `` {A}" "p0 \<subseteq> E `` {A}"
    and "\<And>x. x \<in> V \<Longrightarrow> x \<notin> Z \<Longrightarrow> E `` {x} \<subseteq> frontier V p0 gs"
    and "\<And>c p r. (c, p, r) \<in> set gs \<Longrightarrow> r \<subseteq> E\<^sup>* `` {c} \<and> p \<subseteq> E `` {c} \<and>
           (\<forall>x \<in> r - Z. x \<in> p \<or> E `` {x} \<subseteq> frontier V p0 gs)"
    and "sorted_wrt (\<lambda>c d. (c, d) \<in> E\<^sup>*) (A # map fst gs)"
  shows "rinv Z E A V p0 gs"
  using assms unfolding rinv_def by simp

text \<open>An exempt node is covered after all.\<close>

lemma rinv_cover:
  assumes inv: "rinv {y} E A V p0 gs" and y: "E `` {y} \<subseteq> frontier V p0 gs"
  shows "rinv {} E A V p0 gs"
proof (rule rinvI)
  fix x assume "x \<in> V"
  then show "E `` {x} \<subseteq> frontier V p0 gs" using rinvD(4) [OF inv] y by (cases "x = y") auto
next
  fix c p r assume c: "(c, p, r) \<in> set gs"
  have "x \<in> p \<or> E `` {x} \<subseteq> frontier V p0 gs" if "x \<in> r" for x
    using rinvD(7) [OF inv c that] y by (cases "x = y") auto
  then show "r \<subseteq> E\<^sup>* `` {c} \<and> p \<subseteq> E `` {c} \<and> (\<forall>x \<in> r - {}. x \<in> p \<or> E `` {x} \<subseteq> frontier V p0 gs)"
    using rinvD(5,6) [OF inv c] by blast
qed (use rinvD [OF inv] in blast)+

text \<open>A cursor advances past its neighbour \<open>y\<close>, which joins the reach of the root.\<close>

lemma rinv_advance_root:
  assumes inv: "rinv {} E A V (insert y p0) gs"
  shows "rinv {y} E A (insert y V) p0 gs" and "y \<in> V \<Longrightarrow> rinv {} E A (insert y V) p0 gs"
proof -
  have f: "frontier (insert y V) p0 gs = frontier V (insert y p0) gs" by (auto simp: frontier_def)
  have y: "y \<in> E\<^sup>* `` {A}" using rinvD(3) [OF inv] by auto
  show adv: "rinv {y} E A (insert y V) p0 gs"
  proof (rule rinvI)
    show "insert y V \<subseteq> E\<^sup>* `` {A}" "p0 \<subseteq> E `` {A}" using y rinvD(2,3) [OF inv] by auto
    show "E `` {x} \<subseteq> frontier (insert y V) p0 gs" if "x \<in> insert y V" "x \<notin> {y}" for x
      unfolding f using rinvD(4) [OF inv, of x] that by simp
    show "r \<subseteq> E\<^sup>* `` {c} \<and> p \<subseteq> E `` {c} \<and> (\<forall>x \<in> r - {y}. x \<in> p \<or> E `` {x} \<subseteq> frontier (insert y V) p0 gs)"
      if "(c, p, r) \<in> set gs" for c p r
      unfolding f using rinvD(5-7) [OF inv that] by simp
  qed (use rinvD(1,8) [OF inv] in simp_all)
  show "rinv {} E A (insert y V) p0 gs" if "y \<in> V"
    using rinv_cover [OF adv] rinvD(4) [OF inv that] unfolding f by simp
qed

lemma rinv_advance_top:
  assumes inv: "rinv {} E A V p0 (hs @ [(c, insert y p, r)])"
  shows "rinv {y} E A (insert y V) p0 (hs @ [(c, p, r)])"
    and "y \<in> V \<Longrightarrow> rinv {} E A (insert y V) p0 (hs @ [(c, p, r)])"
proof -
  have f: "frontier (insert y V) p0 (hs @ [(c, p, r)]) = frontier V p0 (hs @ [(c, insert y p, r)])"
    by (auto simp: frontier_def)
  have "(A, c) \<in> E\<^sup>*" "(c, y) \<in> E" using rinvD(8) [OF inv] rinvD(6) [OF inv, of c "insert y p" r] by auto
  then have V: "insert y V \<subseteq> E\<^sup>* `` {A}" using rinvD(2) [OF inv] by auto
  have frame: "t \<subseteq> E\<^sup>* `` {d} \<and> q \<subseteq> E `` {d} \<and>
      (\<forall>x \<in> t - {y}. x \<in> q \<or> E `` {x} \<subseteq> frontier V p0 (hs @ [(c, insert y p, r)]))"
    if d: "(d, q, t) \<in> set (hs @ [(c, p, r)])" for d q t
  proof -
    have "\<exists>q'. (d, q', t) \<in> set (hs @ [(c, insert y p, r)]) \<and> q \<subseteq> q' \<and> q' \<subseteq> insert y q" using d by auto
    then obtain q' where q': "(d, q', t) \<in> set (hs @ [(c, insert y p, r)])" "q \<subseteq> q'" "q' \<subseteq> insert y q" by blast
    show ?thesis using rinvD(5-7) [OF inv q'(1)] q'(2,3) by blast
  qed
  show adv: "rinv {y} E A (insert y V) p0 (hs @ [(c, p, r)])"
  proof (rule rinvI)
    show "E `` {x} \<subseteq> frontier (insert y V) p0 (hs @ [(c, p, r)])" if "x \<in> insert y V" "x \<notin> {y}" for x
      unfolding f using rinvD(4) [OF inv, of x] that by simp
  qed (use V frame rinvD(1,3,8) [OF inv] in \<open>simp_all add: f\<close>)
  show "rinv {} E A (insert y V) p0 (hs @ [(c, p, r)])" if "y \<in> V"
    using rinv_cover [OF adv] rinvD(4) [OF inv that] unfolding f by simp
qed

text \<open>A closed set joins the reach of the root or of the cursor at the top.\<close>

lemma rinv_absorb_root:
  assumes inv: "rinv Z E A V p0 gs" and K: "E `` K \<subseteq> K" "K \<subseteq> E\<^sup>* `` {A}"
  shows "rinv Z E A (V \<union> K) p0 gs"
proof -
  have f: "frontier (V \<union> K) p0 gs = frontier V p0 gs \<union> K" by (auto simp: frontier_def)
  show ?thesis
  proof (rule rinvI)
    show "E `` {x} \<subseteq> frontier (V \<union> K) p0 gs" if "x \<in> V \<union> K" "x \<notin> Z" for x
      unfolding f using rinvD(4) [OF inv, of x] that K(1) by blast
    show "r \<subseteq> E\<^sup>* `` {c} \<and> p \<subseteq> E `` {c} \<and> (\<forall>x \<in> r - Z. x \<in> p \<or> E `` {x} \<subseteq> frontier (V \<union> K) p0 gs)"
      if "(c, p, r) \<in> set gs" for c p r
      unfolding f using rinvD(5-7) [OF inv that] by blast
  qed (use rinvD(1-3,8) [OF inv] K(2) in simp_all)
qed

lemma rinv_absorb_top:
  assumes inv: "rinv Z E A V p0 (hs @ [(c, p, r)])" and K: "E `` K \<subseteq> K" "K \<subseteq> E\<^sup>* `` {c}"
  shows "rinv Z E A V p0 (hs @ [(c, p, r \<union> K)])"
proof (rule rinvI)
  have f: "frontier V p0 (hs @ [(c, p, r \<union> K)]) = frontier V p0 (hs @ [(c, p, r)]) \<union> K" by (auto simp: frontier_def)
  show "E `` {x} \<subseteq> frontier V p0 (hs @ [(c, p, r \<union> K)])" if "x \<in> V" "x \<notin> Z" for x
    using rinvD(4) [OF inv that] unfolding f by blast
  fix d q t
  assume d: "(d, q, t) \<in> set (hs @ [(c, p, r \<union> K)])"
  then consider "(d, q, t) \<in> set hs" | "d = c" "q = p" "t = r \<union> K" by auto
  then show "t \<subseteq> E\<^sup>* `` {d} \<and> q \<subseteq> E `` {d} \<and> (\<forall>x \<in> t - Z. x \<in> q \<or> E `` {x} \<subseteq> frontier V p0 (hs @ [(c, p, r \<union> K)]))"
  proof cases
    case 1
    then have "(d, q, t) \<in> set (hs @ [(c, p, r)])" by simp
    from rinvD(5-7) [OF inv this] show ?thesis unfolding f by blast
  next
    case 2
    have "(c, p, r) \<in> set (hs @ [(c, p, r)])" by simp
    from rinvD(5-7) [OF inv this] K 2 show ?thesis unfolding f by blast
  qed
qed (use rinvD(1-3,8) [OF inv] in auto)

text \<open>A fresh node is descended into.\<close>

lemma rinv_push:
  assumes inv: "rinv {y} E A V p0 gs" and reach: "\<forall>c \<in> set (A # map fst gs). (c, y) \<in> E\<^sup>*"
  shows "rinv {} E A V p0 (gs @ [(y, E `` {y}, insert y (E `` {y}))])"
proof (rule rinvI)
  have f: "frontier V p0 (gs @ [(y, E `` {y}, insert y (E `` {y}))]) = frontier V p0 gs \<union> insert y (E `` {y})"
    by (auto simp: frontier_def)
  show "E `` {x} \<subseteq> frontier V p0 (gs @ [(y, E `` {y}, insert y (E `` {y}))])" if "x \<in> V" "x \<notin> {}" for x
    using rinvD(4) [OF inv that(1)] unfolding f by (cases "x = y") auto
  show "sorted_wrt (\<lambda>c d. (c, d) \<in> E\<^sup>*) (A # map fst (gs @ [(y, E `` {y}, insert y (E `` {y}))]))"
    using rinvD(8) [OF inv] reach by (auto simp: sorted_wrt_append)
  fix d q t
  assume "(d, q, t) \<in> set (gs @ [(y, E `` {y}, insert y (E `` {y}))])"
  then consider "(d, q, t) \<in> set gs" | "d = y" "q = E `` {y}" "t = insert y (E `` {y})" by auto
  then show "t \<subseteq> E\<^sup>* `` {d} \<and> q \<subseteq> E `` {d} \<and>
      (\<forall>x \<in> t - {}. x \<in> q \<or> E `` {x} \<subseteq> frontier V p0 (gs @ [(y, E `` {y}, insert y (E `` {y}))]))"
    unfolding f
  proof cases
    case 1
    from rinvD(5-7) [OF inv 1] show "t \<subseteq> E\<^sup>* `` {d} \<and> q \<subseteq> E `` {d} \<and>
      (\<forall>x \<in> t - {}. x \<in> q \<or> E `` {x} \<subseteq> frontier V p0 gs \<union> insert y (E `` {y}))" by blast
  qed auto
qed (use rinvD(1-3) [OF inv] in auto)

text \<open>A finished cursor is merged into the one below.\<close>

lemma rinv_pop_root:
  assumes inv: "rinv {} E A V p0 [(c, {}, r)]"
  shows "rinv {} E A (V \<union> r) p0 []"
proof -
  have f: "frontier (V \<union> r) p0 [] = frontier V p0 [(c, {}, r)]" by (auto simp: frontier_def)
  have "(A, c) \<in> E\<^sup>*" "r \<subseteq> E\<^sup>* `` {c}" using rinvD(8) [OF inv] rinvD(5) [OF inv, of c "{}" r] by auto
  then have "r \<subseteq> E\<^sup>* `` {A}" by (auto intro: rtrancl_trans)
  then show ?thesis
    using rinvD(1-3) [OF inv]
  proof (intro rinvI)
    show "E `` {x} \<subseteq> frontier (V \<union> r) p0 []" if "x \<in> V \<union> r" for x
      unfolding f using rinvD(4) [OF inv, of x] rinvD(7) [OF inv, of c "{}" r x] that by auto
  qed auto
qed

lemma rinv_pop_top:
  assumes inv: "rinv {} E A V p0 (hs @ [(d, p, t), (c, {}, r)])"
  shows "rinv {} E A V p0 (hs @ [(d, p, t \<union> r)])"
proof (rule rinvI)
  have f: "frontier V p0 (hs @ [(d, p, t \<union> r)]) = frontier V p0 (hs @ [(d, p, t), (c, {}, r)])"
    by (auto simp: frontier_def)
  show "E `` {x} \<subseteq> frontier V p0 (hs @ [(d, p, t \<union> r)])" if "x \<in> V" "x \<notin> {}" for x
    unfolding f using rinvD(4) [OF inv that] .
  have mem: "(c, {}, r) \<in> set (hs @ [(d, p, t), (c, {}, r)])" "(d, p, t) \<in> set (hs @ [(d, p, t), (c, {}, r)])" by auto
  have "(d, c) \<in> E\<^sup>*" using rinvD(8) [OF inv] by (auto simp: sorted_wrt_append)
  then have r: "r \<subseteq> E\<^sup>* `` {d}" using rinvD(5) [OF inv mem(1)] by (auto intro: rtrancl_trans)
  fix e q u
  assume "(e, q, u) \<in> set (hs @ [(d, p, t \<union> r)])"
  then consider "(e, q, u) \<in> set hs" | "e = d" "q = p" "u = t \<union> r" by auto
  then show "u \<subseteq> E\<^sup>* `` {e} \<and> q \<subseteq> E `` {e} \<and> (\<forall>x \<in> u - {}. x \<in> q \<or> E `` {x} \<subseteq> frontier V p0 (hs @ [(d, p, t \<union> r)]))"
  proof cases
    case 1
    then have "(e, q, u) \<in> set (hs @ [(d, p, t), (c, {}, r)])" by simp
    from rinvD(5-7) [OF inv this] show ?thesis unfolding f by blast
  next
    case 2
    have "E `` {x} \<subseteq> frontier V p0 (hs @ [(d, p, t), (c, {}, r)])" if "x \<in> r" for x
      using rinvD(7) [OF inv mem(1) that] by simp
    with rinvD(5-7) [OF inv mem(2)] r 2 show ?thesis unfolding f by blast
  qed
qed (use rinvD(1-3,8) [OF inv] in \<open>auto simp: sorted_wrt_append\<close>)

lemma rinv_done:
  assumes "rinv {} E A V {} []"
  shows "V = E\<^sup>* `` {A}"
proof
  have "E `` V \<subseteq> V" "A \<in> V" using rinvD(1,4) [OF assms] by (auto simp: frontier_def)
  then show "E\<^sup>* `` {A} \<subseteq> V" using closed_rtrancl_subset [of E V A] by auto
qed (rule rinvD(2) [OF assms])

section \<open>The search follows the invariant\<close>

text \<open>The content of the caches, by direction.\<close>

definition reach_map :: "'b ReachabilityCache \<Rightarrow> direction \<Rightarrow> uint64 \<rightharpoonup> 'b" where
  "reach_map s dir = (case dir of
     DirectionInbound \<Rightarrow> sieve_map (rc_inboundComponentReach s)
   | DirectionOutbound \<Rightarrow> sieve_map (rc_outboundComponentReach s)
   | DirectionBoth \<Rightarrow> Map.empty)"

definition rc_inv :: "'b ReachabilityCache \<Rightarrow> bool" where
  "rc_inv s \<longleftrightarrow> sieve_inv (rc_inboundComponentReach s) \<and> sieve_inv (rc_outboundComponentReach s)"

lemma cachedComponentReach_result:
  assumes "rc_inv s"
  obtains s' where "cachedComponentReach s k dir = (reach_map s dir k, s')" "rc_inv s'"
    "reach_map s' = reach_map s" "rc_components s' = rc_components s"
proof -
  have inv: "sieve_inv (rc_inboundComponentReach s)" "sieve_inv (rc_outboundComponentReach s)"
    using assms by (auto simp: rc_inv_def)
  note get = Sieve_Get_result [OF inv(1), of k] Sieve_Get_result [OF inv(2), of k]
  show thesis
    by (rule that [of "snd (cachedComponentReach s k dir)"])
      (use inv get in \<open>auto simp: cachedComponentReach_def reach_map_def rc_inv_def fun_eq_iff
         split: direction.splits prod.splits\<close>)
qed

lemma cacheComponentReach_result:
  assumes "rc_inv s"
  obtains s' where "cacheComponentReach s c dir = Some s'" "rc_inv s'" "rc_components s' = rc_components s"
    "\<And>d. d \<noteq> dir \<Longrightarrow> reach_map s' d = reach_map s d"
    "reach_map s' dir \<subseteq>\<^sub>m (reach_map s dir)(ru_component c \<mapsto> ru_reach c)"
    "dir \<noteq> DirectionBoth \<Longrightarrow> reach_map s' dir (ru_component c) = Some (ru_reach c)"
proof -
  have inv: "sieve_inv (rc_inboundComponentReach s)" "sieve_inv (rc_outboundComponentReach s)"
    using assms by (auto simp: rc_inv_def)
  obtain i where i: "Sieve_Put (rc_inboundComponentReach s) (ru_component c) (ru_reach c) = Some i" "sieve_inv i"
    "sieve_map i \<subseteq>\<^sub>m (sieve_map (rc_inboundComponentReach s))(ru_component c \<mapsto> ru_reach c)"
    "sieve_map i (ru_component c) = Some (ru_reach c)"
    using Sieve_Put_result [OF inv(1), of "ru_component c" "ru_reach c"] by (auto simp: map_le_def split: if_splits)
  obtain j where j: "Sieve_Put (rc_outboundComponentReach s) (ru_component c) (ru_reach c) = Some j" "sieve_inv j"
    "sieve_map j \<subseteq>\<^sub>m (sieve_map (rc_outboundComponentReach s))(ru_component c \<mapsto> ru_reach c)"
    "sieve_map j (ru_component c) = Some (ru_reach c)"
    using Sieve_Put_result [OF inv(2), of "ru_component c" "ru_reach c"] by (auto simp: map_le_def split: if_splits)
  show thesis
  proof (cases dir)
    case DirectionInbound
    with i inv show thesis
      by (intro that [of "s\<lparr>rc_inboundComponentReach := i\<rparr>"])
        (auto simp: cacheComponentReach_def reach_map_def rc_inv_def split: direction.splits)
  next
    case DirectionOutbound
    with j inv show thesis
      by (intro that [of "s\<lparr>rc_outboundComponentReach := j\<rparr>"])
        (auto simp: cacheComponentReach_def reach_map_def rc_inv_def split: direction.splits)
  next
    case DirectionBoth
    with assms show thesis by (intro that [of s]) (auto simp: cacheComponentReach_def reach_map_def)
  qed
qed

fun ancestor_chain :: "'b reachCursor list \<Rightarrow> nat \<Rightarrow> nat list \<Rightarrow> bool" where
  "ancestor_chain h a [] \<longleftrightarrow> True"
| "ancestor_chain h a (j # js) \<longleftrightarrow> ru_ancestor (h ! j) = Some a \<and> ancestor_chain h j js"

lemma ancestor_chain_snoc:
  "ancestor_chain h a (js @ [j]) \<longleftrightarrow> ancestor_chain h a js \<and> ru_ancestor (h ! j) = Some (last (a # js))"
  by (induction js arbitrary: a) auto

lemma ancestor_chain_cong:
  "\<forall>j \<in> set js. ru_ancestor (h' ! j) = ru_ancestor (h ! j) \<Longrightarrow> ancestor_chain h' a js = ancestor_chain h a js"
  by (induction js arbitrary: a) auto

definition pending :: "'b reachCursor \<Rightarrow> uint64 set" where
  "pending c = set (drop (ru_adjacentIdx c) (ru_adjacent c))"

lemma NextAdjacent_Some:
  assumes "NextAdjacent c = (Some y, c')"
  shows "pending c = insert y (pending c')" "ru_component c' = ru_component c" "ru_reach c' = ru_reach c"
    "ru_ancestor c' = ru_ancestor c" "ru_adjacent c' = ru_adjacent c"
    "length (ru_adjacent c') - ru_adjacentIdx c' < length (ru_adjacent c) - ru_adjacentIdx c"
proof -
  show "pending c = insert y (pending c')"
    using assms by (auto simp: NextAdjacent_def pending_def simp flip: Cons_nth_drop_Suc split: if_splits)
qed (use assms in \<open>auto simp: NextAdjacent_def split: if_splits\<close>)

lemma NextAdjacent_None: "NextAdjacent c = (None, c') \<Longrightarrow> pending c = {}"
  by (auto simp: NextAdjacent_def pending_def split: if_splits)

locale dfs_env = roaring64 R + deque D items
  for R :: "'b roaring64_ops" and D :: "('q, nat) deque_ops" and items :: "'q \<Rightarrow> nat list"
begin

abbreviation seen :: "'b reachCursor list \<Rightarrow> uint64 set" where
  "seen h \<equiv> elems R (ru_reach (h ! 0))"

definition cframe :: "'b reachCursor \<Rightarrow> frame" where
  "cframe c = (ru_component c, pending c, elems R (ru_reach c))"

text \<open>The stack is the root and the cursors \<open>js\<close>.\<close>

definition stk :: "uint64 set \<Rightarrow> uint64 rel \<Rightarrow> uint64 \<Rightarrow> 'b reachCursor list \<Rightarrow> nat list \<Rightarrow> bool" where
  "stk Z E A h js \<longleftrightarrow> h \<noteq> [] \<and> distinct (0 # js) \<and> (\<forall>j \<in> set js. j < length h \<and> ru_component (h ! j) \<in> seen h) \<and>
     ru_component (h ! 0) = A \<and> ru_ancestor (h ! 0) = None \<and> ancestor_chain h 0 js \<and>
     rinv Z E A (seen h) (pending (h ! 0)) (map (\<lambda>j. cframe (h ! j)) js)"

lemma stk_length: "stk Z E A h js \<Longrightarrow> j \<in> set (0 # js) \<Longrightarrow> j < length h"
  by (auto simp: stk_def)

lemma stk_top: "stk Z E A h js \<Longrightarrow> \<forall>c \<in> set (A # map (\<lambda>j. ru_component (h ! j)) js). (c, ru_component (h ! last (0 # js))) \<in> E\<^sup>*"
proof -
  assume stk: "stk Z E A h js"
  have sorted: "sorted_wrt (\<lambda>c d. (c, d) \<in> E\<^sup>*) (A # map (\<lambda>j. ru_component (h ! j)) js)"
    using stk rinvD(8) by (fastforce simp: stk_def cframe_def comp_def)
  show ?thesis
  proof (cases js rule: rev_cases)
    case Nil
    with stk show ?thesis by (simp add: stk_def)
  next
    case (snoc hs i)
    with sorted show ?thesis by (auto simp: sorted_wrt_append)
  qed
qed

definition rank :: "'b reachCursor list \<Rightarrow> nat list \<Rightarrow> nat" where
  "rank h js = sum_list (map (\<lambda>j. Suc (length (ru_adjacent (h ! j)) - ru_adjacentIdx (h ! j))) js)"

lemma rank_cong:
  assumes "\<And>j. j \<in> set js \<Longrightarrow> ru_adjacent (h' ! j) = ru_adjacent (h ! j) \<and> ru_adjacentIdx (h' ! j) = ru_adjacentIdx (h ! j)"
  shows "rank h' js = rank h js"
  unfolding rank_def by (rule arg_cong [of _ _ sum_list], rule map_cong) (use assms in auto)

lemma stk_cases:
  assumes "stk Z E A h js" and "i = last (0 # js)"
  obtains (root) "js = []" "i = 0" | (top) hs where "js = hs @ [i]" "i \<noteq> 0" "0 \<notin> set hs" "i \<notin> set hs" "distinct hs" "i < length h"
  using assms by (cases js rule: rev_cases) (auto simp: stk_def)

lemma stk_advance:
  assumes stk: "stk {} E A h js" and i: "i = last (0 # js)" and nx: "NextAdjacent (h ! i) = (Some y, c)"
    and h1: "h1 = h[i := c]" and h': "h' = h1[0 := (h1 ! 0)\<lparr>ru_reach := b\<rparr>]" and b: "elems R b = insert y (seen h)"
  shows "stk {y} E A h' js \<and> (y \<in> seen h \<longrightarrow> stk {} E A h' js) \<and> seen h' = insert y (seen h) \<and>
    (ru_component (h' ! i), y) \<in> E \<and> rank h' (0 # js) < rank h (0 # js)"
  using stk i
proof (cases rule: stk_cases)
  case root
  have len: "0 < length h" using stk by (simp add: stk_def)
  have h0: "h' ! 0 = c\<lparr>ru_reach := b\<rparr>" "length h' = length h" using root len h1 h' by simp_all
  note c = NextAdjacent_Some [OF nx [unfolded root(2)]]
  have inv: "rinv {} E A (seen h) (insert y (pending c)) []" using stk root c(1) by (simp add: stk_def)
  have "pending (h' ! 0) = pending c" by (simp add: h0 pending_def)
  then have "stk Z E A h' js \<longleftrightarrow> rinv Z E A (insert y (seen h)) (pending c) []" for Z
    using stk root h0 c b len by (auto simp: stk_def)
  moreover have "(A, y) \<in> E" using rinvD(3) [OF inv] by auto
  moreover have "ru_component (h' ! 0) = A" using stk h0 c by (simp add: stk_def)
  moreover have "rank h' (0 # js) < rank h (0 # js)" using c(5,6) root by (simp add: rank_def h0)
  ultimately show ?thesis using rinv_advance_root [OF inv] h0 b root by simp
next
  case (top hs)
  have len: "0 < length h" using stk by (simp add: stk_def)
  have hi: "h' ! i = c" and h0: "h' ! 0 = (h ! 0)\<lparr>ru_reach := b\<rparr>" and l: "length h' = length h"
    using top len h1 h' by simp_all
  have hj: "h' ! j = h ! j" if "j \<in> set hs" for j
  proof -
    have "j \<noteq> i" "j \<noteq> 0" using that top(3,4) by metis+
    then show ?thesis using h1 h' by simp
  qed
  note c = NextAdjacent_Some [OF nx]
  let ?gs = "map (\<lambda>j. cframe (h ! j)) hs" and ?r = "elems R (ru_reach c)"
  have inv: "rinv {} E A (seen h) (pending (h ! 0)) (?gs @ [(ru_component c, insert y (pending c), ?r)])"
    using stk top(1) c(1-3) by (simp add: stk_def cframe_def)
  have "map (\<lambda>j. cframe (h' ! j)) js = ?gs @ [(ru_component c, pending c, ?r)]"
    using top(1) hi hj by (simp add: cframe_def)
  moreover have "ancestor_chain h' 0 js = ancestor_chain h 0 js"
    by (rule ancestor_chain_cong) (use top(1) hi hj c(4) in auto)
  moreover have "pending (h' ! 0) = pending (h ! 0)" by (simp add: h0 pending_def)
  moreover have "ru_component (h' ! j) = ru_component (h ! j)" if "j \<in> set js" for j
    using that top(1) hi hj c(2) by auto
  ultimately have "stk Z E A h' js \<longleftrightarrow> rinv Z E A (insert y (seen h)) (pending (h ! 0)) (?gs @ [(ru_component c, pending c, ?r)])" for Z
    using stk h0 b l len by (auto simp: stk_def)
  moreover have "(ru_component c, y) \<in> E"
    using rinvD(6) [OF inv, of "ru_component c" "insert y (pending c)" ?r] by auto
  moreover have "rank h' (0 # js) < rank h (0 # js)"
    using c(5,6) hi h0 rank_cong [of hs h' h] hj top(1) by (simp add: rank_def)
  ultimately show ?thesis using rinv_advance_top [OF inv] hi h0 b by simp
qed

lemma stk_absorb:
  assumes stk: "stk {y} E A h js" and i: "i = last (0 # js)" and y: "(ru_component (h ! i), y) \<in> E\<^sup>*"
    and K: "elems R b = elems R (ru_reach (h ! i)) \<union> E\<^sup>* `` {y}" and h': "h' = h[i := (h ! i)\<lparr>ru_reach := b\<rparr>]"
  shows "stk {} E A h' js \<and> seen h \<subseteq> seen h' \<and> rank h' (0 # js) = rank h (0 # js)"
proof -
  let ?K = "E\<^sup>* `` {y}"
  have closed: "E `` ?K \<subseteq> ?K" "?K \<subseteq> E\<^sup>* `` {ru_component (h ! i)}"
    using y by (auto intro: rtrancl_into_rtrancl rtrancl_trans)
  have ey: "E `` {y} \<subseteq> ?K" by auto
  have len: "0 < length h" using stk by (simp add: stk_def)
  from stk i show ?thesis
  proof (cases rule: stk_cases)
    case root
    have h0: "h' ! 0 = (h ! 0)\<lparr>ru_reach := b\<rparr>" "length h' = length h" using root len h' by simp_all
    have inv: "rinv {y} E A (seen h) (pending (h ! 0)) []" and A: "ru_component (h ! 0) = A" using stk root by (simp_all add: stk_def)
    have "rinv {y} E A (seen h \<union> ?K) (pending (h ! 0)) []"
      by (rule rinv_absorb_root [OF inv]) (use closed root A in auto)
    then have "rinv {} E A (seen h \<union> ?K) (pending (h ! 0)) []"
      by (rule rinv_cover) (use ey in \<open>auto simp: frontier_def\<close>)
    moreover have "pending (h' ! 0) = pending (h ! 0)" by (simp add: h0 pending_def)
    ultimately show ?thesis using stk root h0 K by (auto simp: stk_def rank_def)
  next
    case (top hs)
    have hi: "h' ! i = (h ! i)\<lparr>ru_reach := b\<rparr>" and l: "length h' = length h" using top len h' by simp_all
    have hj: "h' ! j = h ! j" if "j \<noteq> i" for j using that h' by simp
    let ?gs = "map (\<lambda>j. cframe (h ! j)) hs" and ?c = "h ! i"
    let ?top = "(ru_component ?c, pending ?c, elems R (ru_reach ?c) \<union> ?K)"
    have "rinv {y} E A (seen h) (pending (h ! 0)) (?gs @ [(ru_component ?c, pending ?c, elems R (ru_reach ?c))])"
      using stk top(1) by (simp add: stk_def cframe_def)
    then have "rinv {y} E A (seen h) (pending (h ! 0)) (?gs @ [?top])"
      by (rule rinv_absorb_top) (rule closed)+
    then have "rinv {} E A (seen h) (pending (h ! 0)) (?gs @ [?top])"
      by (rule rinv_cover) (use ey in \<open>auto simp: frontier_snoc\<close>)
    moreover have "map (\<lambda>j. cframe (h' ! j)) js = ?gs @ [?top]"
    proof -
      have "map (\<lambda>j. cframe (h' ! j)) hs = ?gs" by (rule map_cong) (use top(4) hj in metis)+
      then show ?thesis using top(1) hi K by (simp add: cframe_def pending_def)
    qed
    moreover have "ancestor_chain h' 0 js = ancestor_chain h 0 js"
      by (rule ancestor_chain_cong) (metis hi hj reachCursor.select_convs(5) reachCursor.surjective reachCursor.update_convs(4))
    moreover have "ru_component (h' ! j) = ru_component (h ! j)" for j using hi hj by (cases "j = i") auto
    moreover have "h' ! 0 = h ! 0" using hj top by simp
    moreover have "rank h' (0 # js) = rank h (0 # js)"
      by (rule rank_cong) (metis hi hj reachCursor.select_convs(2,3) reachCursor.surjective reachCursor.update_convs(4))
    ultimately show ?thesis using stk l by (auto simp: stk_def)
  qed
qed

lemma stk_push:
  assumes stk: "stk {y} E A h js" and y: "(ru_component (h ! last (0 # js)), y) \<in> E\<^sup>*" "y \<in> seen h"
    and c: "ru_component c = y" "pending c = E `` {y}" "elems R (ru_reach c) = insert y (E `` {y})"
      "ru_ancestor c = Some (last (0 # js))"
  shows "stk {} E A (h @ [c]) (js @ [length h])"
proof -
  have hj: "(h @ [c]) ! j = h ! j" if "j \<in> set (0 # js)" for j
    using stk_length [OF stk that] by (simp add: nth_append)
  have inv: "rinv {y} E A (seen h) (pending (h ! 0)) (map (\<lambda>j. cframe (h ! j)) js)" using stk by (simp add: stk_def)
  have "\<forall>d \<in> set (A # map fst (map (\<lambda>j. cframe (h ! j)) js)). (d, y) \<in> E\<^sup>*"
    using stk_top [OF stk] y(1) by (fastforce simp: cframe_def intro: rtrancl_trans)
  from rinv_push [OF inv this] have "rinv {} E A (seen h) (pending (h ! 0))
      (map (\<lambda>j. cframe (h ! j)) js @ [(y, E `` {y}, insert y (E `` {y}))])" .
  moreover have "cframe c = (y, E `` {y}, insert y (E `` {y}))" using c by (simp add: cframe_def)
  moreover have "ancestor_chain (h @ [c]) 0 js = ancestor_chain h 0 js"
    by (rule ancestor_chain_cong) (use hj in auto)
  moreover have "h \<noteq> []" "distinct (0 # js)" "\<forall>j \<in> set js. j < length h \<and> ru_component (h ! j) \<in> seen h"
    "ru_component (h ! 0) = A" "ru_ancestor (h ! 0) = None" "ancestor_chain h 0 js"
    using stk by (simp_all add: stk_def)
  ultimately show ?thesis using hj c y by (auto simp: stk_def ancestor_chain_snoc cong: map_cong)
qed

lemma stk_pop:
  assumes stk: "stk {} E A h (hs @ [i])" and p: "pending (h ! i) = {}"
  shows "stk {} E A (Complete R h i) hs \<and> seen h \<subseteq> seen (Complete R h i) \<and> Complete R h i ! i = h ! i \<and>
    rank (Complete R h i) (0 # hs) < rank h (0 # hs @ [i])"
proof -
  define a where "a = last (0 # hs)"
  have parts: "h \<noteq> []" "distinct (0 # hs @ [i])" "\<forall>j \<in> set (hs @ [i]). j < length h \<and> ru_component (h ! j) \<in> seen h"
    "ru_component (h ! 0) = A" "ru_ancestor (h ! 0) = None" "ancestor_chain h 0 hs" "ru_ancestor (h ! i) = Some a"
    using stk by (auto simp: stk_def ancestor_chain_snoc a_def)
  define h' where "h' = Complete R h i"
  have a: "a < length h" "a \<noteq> i" using parts(1-3) by (cases hs rule: rev_cases; auto simp: a_def)+
  have h': "h' = h[a := (h ! a)\<lparr>ru_reach := bitmap64_Or R (ru_reach (h ! a)) (Bitmap64 (ru_reach (h ! i)))\<rparr>]"
    using parts(7) by (simp add: Complete_def h'_def)
  have hj: "h' ! j = h ! j" if "j \<noteq> a" for j using that h' by simp
  have ha: "h' ! a = (h ! a)\<lparr>ru_reach := bitmap64_Or R (ru_reach (h ! a)) (Bitmap64 (ru_reach (h ! i)))\<rparr>"
    using a h' by simp
  have same: "ru_component (h' ! j) = ru_component (h ! j)" "ru_ancestor (h' ! j) = ru_ancestor (h ! j)"
    "pending (h' ! j) = pending (h ! j)" "ru_adjacent (h' ! j) = ru_adjacent (h ! j)"
    "ru_adjacentIdx (h' ! j) = ru_adjacentIdx (h ! j)" for j
    using hj ha by (cases "j = a"; simp add: pending_def)+
  let ?r = "elems R (ru_reach (h ! i))"
  have reach: "elems R (ru_reach (h' ! a)) = elems R (ru_reach (h ! a)) \<union> ?r" by (simp add: ha)
  have mono: "seen h \<subseteq> seen h'" using hj reach by (cases "a = 0") auto
  have inv: "rinv {} E A (seen h) (pending (h ! 0)) (map (\<lambda>j. cframe (h ! j)) hs @ [(ru_component (h ! i), {}, ?r)])"
    using stk p by (simp add: stk_def cframe_def)
  have "rinv {} E A (seen h') (pending (h' ! 0)) (map (\<lambda>j. cframe (h' ! j)) hs)"
  proof (cases hs rule: rev_cases)
    case Nil
    then show ?thesis using rinv_pop_root [of E A "seen h"] inv reach same(3) by (simp add: a_def)
  next
    case (snoc ks k)
    then have k: "a = k" "k \<noteq> 0" "k \<notin> set ks" using parts(2) by (auto simp: a_def)
    have "map (\<lambda>j. cframe (h' ! j)) ks = map (\<lambda>j. cframe (h ! j)) ks" by (rule map_cong) (use k hj in metis)+
    then have frames: "map (\<lambda>j. cframe (h' ! j)) hs =
        map (\<lambda>j. cframe (h ! j)) ks @ [(ru_component (h ! k), pending (h ! k), elems R (ru_reach (h ! k)) \<union> ?r)]"
      using snoc k(1) same reach by (simp add: cframe_def)
    have "h' ! 0 = h ! 0" using hj k by simp
    moreover have "rinv {} E A (seen h) (pending (h ! 0))
        (map (\<lambda>j. cframe (h ! j)) ks @ [(ru_component (h ! k), pending (h ! k), elems R (ru_reach (h ! k)) \<union> ?r)])"
      by (rule rinv_pop_top) (use inv snoc in \<open>simp add: cframe_def\<close>)
    ultimately show ?thesis using frames by simp
  qed
  moreover have "ancestor_chain h' 0 hs = ancestor_chain h 0 hs" by (rule ancestor_chain_cong) (simp add: same)
  moreover have "rank h' (0 # hs) = rank h (0 # hs)" by (rule rank_cong) (simp add: same)
  then have "rank h' (0 # hs) < rank h (0 # hs @ [i])" by (simp add: rank_def)
  moreover have "length h' = length h" "h' \<noteq> []" using h' parts(1) by auto
  moreover have "\<forall>j \<in> set hs. ru_component (h ! j) \<in> seen h'" using parts(3) mono by auto
  ultimately have "stk {} E A h' hs \<and> seen h \<subseteq> seen h' \<and> h' ! i = h ! i \<and> rank h' (0 # hs) < rank h (0 # hs @ [i])"
    using parts mono same hj a by (auto simp: stk_def)
  then show ?thesis by (simp add: h'_def)
qed

text \<open>The state of the loop. Every cache entry of a node not yet seen is exact.\<close>

definition rd_ok :: "direction \<Rightarrow> 'b ComponentGraph \<Rightarrow> uint64 \<Rightarrow> ('b, 'q) reach_dfs \<Rightarrow> bool" where
  "rd_ok dir cg A s \<longleftrightarrow> rc_inv (rd_cache s) \<and> rc_components (rd_cache s) = cg \<and>
     (\<forall>k b. k \<notin> seen (rd_heap s) \<longrightarrow> reach_map (rd_cache s) dir k = Some b \<longrightarrow>
        elems R b = (adj_rel (cg_digraph cg) dir)\<^sup>* `` {k}) \<and>
     (if items (rd_stack s) = [] then rinv {} (adj_rel (cg_digraph cg) dir) A (seen (rd_heap s)) {} []
      else \<exists>js. items (rd_stack s) = 0 # js \<and> stk {} (adj_rel (cg_digraph cg) dir) A (rd_heap s) js)"

definition rd_rel :: "(('b, 'q) reach_dfs \<times> ('b, 'q) reach_dfs) set" where
  "rd_rel = measures [\<lambda>s. card (- seen (rd_heap s)), \<lambda>s. rank (rd_heap s) (items (rd_stack s))]"

lemma rd_relI:
  assumes "seen (rd_heap s) \<subset> seen (rd_heap s') \<or>
     seen (rd_heap s) \<subseteq> seen (rd_heap s') \<and> rank (rd_heap s') (items (rd_stack s')) < rank (rd_heap s) (items (rd_stack s))"
  shows "(s', s) \<in> rd_rel"
proof -
  have "card (- seen (rd_heap s')) \<le> card (- seen (rd_heap s))" if "seen (rd_heap s) \<subseteq> seen (rd_heap s')"
    using that by (intro card_mono) auto
  moreover have "card (- seen (rd_heap s')) < card (- seen (rd_heap s))" if "seen (rd_heap s) \<subset> seen (rd_heap s')"
    using that by (intro psubset_card_mono) auto
  ultimately show ?thesis using assms by (auto simp: rd_rel_def order_le_less)
qed

lemma reach_step_pop:
  assumes ok: "rd_ok dir cg A s" and st: "items (rd_stack s) = 0 # js" and i: "i = last (0 # js)"
    and nx: "NextAdjacent (rd_heap s ! i) = (None, c)"
  shows "\<exists>s'. reach_step R D dir s = Some s' \<and> rd_ok dir cg A s' \<and> (s', s) \<in> rd_rel"
proof -
  let ?h = "rd_heap s" and ?E = "adj_rel (cg_digraph cg) dir"
  let ?h' = "Complete R ?h i"
  have parts: "rc_inv (rd_cache s)" "rc_components (rd_cache s) = cg" "stk {} ?E A ?h js"
    and exact: "\<And>k b. k \<notin> seen ?h \<Longrightarrow> reach_map (rd_cache s) dir k = Some b \<Longrightarrow> elems R b = ?E\<^sup>* `` {k}"
    using ok st by (auto simp: rd_ok_def)
  have snoc: "items (rd_stack s) = butlast (0 # js) @ [i]" using st i by (simp add: append_butlast_last_id)
  obtain q where q: "dq_PopBack D (rd_stack s) = Some (i, q)" "items q = butlast (0 # js)"
    using dq_PopBack_snoc [OF snoc] by blast
  have bk: "dq_Back D (rd_stack s) = Some i" by (rule dq_Back_snoc [OF snoc])
  obtain cache where cache: "cacheComponentReach (rd_cache s) (?h' ! i) dir = Some cache" "rc_inv cache"
    "rc_components cache = rc_components (rd_cache s)"
    "reach_map cache dir \<subseteq>\<^sub>m (reach_map (rd_cache s) dir)(ru_component (?h' ! i) \<mapsto> ru_reach (?h' ! i))"
    by (rule cacheComponentReach_result [OF parts(1)])
  define s' where "s' = s\<lparr>rd_cache := cache, rd_heap := ?h', rd_stack := q\<rparr>"
  have step: "reach_step R D dir s = Some s'"
    using bk q(1) nx cache(1) by (simp add: reach_step_def s'_def Let_def)
  have p: "pending (?h ! i) = {}" by (rule NextAdjacent_None [OF nx])
  have key: "elems R b = ?E\<^sup>* `` {k}" if "k \<noteq> ru_component (?h' ! i)" "k \<notin> seen ?h" "reach_map cache dir k = Some b" for k b
  proof -
    have "reach_map (rd_cache s) dir k = Some b" using cache(4) that(1,3) by (auto simp: map_le_def dom_def)
    then show ?thesis by (rule exact [OF that(2)])
  qed
  from parts(3) i show ?thesis
  proof (cases rule: stk_cases)
    case root
    have h: "?h' = ?h" using parts(3) root by (simp add: Complete_def stk_def)
    have inv: "rinv {} ?E A (seen ?h) {} []" "ru_component (?h ! 0) = A"
      using parts(3) root p by (auto simp: stk_def)
    have "elems R b = ?E\<^sup>* `` {k}" if "k \<notin> seen ?h" "reach_map cache dir k = Some b" for k b
      by (rule key) (use that inv rinvD(1) [OF inv(1)] h root in auto)
    then have "rd_ok dir cg A s'"
      using cache(2,3) parts(2) q(2) root inv(1) h by (simp add: rd_ok_def s'_def)
    moreover have "(s', s) \<in> rd_rel"
      by (rule rd_relI) (use root st q(2) h in \<open>simp add: s'_def rank_def\<close>)
    ultimately show ?thesis using step by blast
  next
    case (top hs)
    note pop = stk_pop [OF parts(3) [unfolded top(1)] p]
    have comp: "ru_component (?h' ! i) \<in> seen ?h'"
      using parts(3) top(1) pop by (auto simp: stk_def)
    have sub: "seen ?h \<subseteq> seen ?h'" using pop by blast
    have q': "items q = 0 # hs" using q(2) top(1) by (simp add: butlast_append)
    have "elems R b = ?E\<^sup>* `` {k}" if "k \<notin> seen ?h'" "reach_map cache dir k = Some b" for k b
      using key [of k b] that comp sub by blast
    then have "rd_ok dir cg A s'"
      using cache(2,3) parts(2) q' pop by (simp add: rd_ok_def s'_def)
    moreover have "(s', s) \<in> rd_rel"
      by (rule rd_relI) (use pop st q' top(1) in \<open>simp add: s'_def\<close>)
    ultimately show ?thesis using step by blast
  qed
qed

lemma reach_step_next:
  assumes ok: "rd_ok dir cg A s" and st: "items (rd_stack s) = 0 # js" and i: "i = last (0 # js)"
    and nx: "NextAdjacent (rd_heap s ! i) = (Some y, c)"
  shows "\<exists>s'. reach_step R D dir s = Some s' \<and> rd_ok dir cg A s' \<and> (s', s) \<in> rd_rel"
proof -
  let ?h = "rd_heap s" and ?E = "adj_rel (cg_digraph cg) dir"
  have parts: "rc_inv (rd_cache s)" "rc_components (rd_cache s) = cg" "stk {} ?E A ?h js"
    and exact: "\<And>k b. k \<notin> seen ?h \<Longrightarrow> reach_map (rd_cache s) dir k = Some b \<Longrightarrow> elems R b = ?E\<^sup>* `` {k}"
    using ok st by (auto simp: rd_ok_def)
  have snoc: "items (rd_stack s) = butlast (0 # js) @ [i]" using st i by (simp add: append_butlast_last_id)
  have bk: "dq_Back D (rd_stack s) = Some i" by (rule dq_Back_snoc [OF snoc])
  let ?h1 = "?h[i := c]"
  have len: "i < length ?h" using stk_length [OF parts(3), of i] i by auto
  have same: "ru_reach (?h1 ! 0) = ru_reach (?h ! 0)"
    using NextAdjacent_Some(3) [OF nx] len by (cases "i = 0") auto
  obtain fr b where add: "bitmap64_CheckedAdd R (ru_reach (?h1 ! 0)) y = (fr, b)" by fastforce
  then have fr: "fr \<longleftrightarrow> y \<notin> seen ?h" "elems R b = insert y (seen ?h)"
    using fst_bitmap64_CheckedAdd [of "ru_reach (?h1 ! 0)" y] elems_bitmap64_CheckedAdd [of "ru_reach (?h1 ! 0)" y] same
    by auto
  define h2 where "h2 = ?h1[0 := (?h1 ! 0)\<lparr>ru_reach := b\<rparr>]"
  note adv = stk_advance [OF parts(3) i nx refl h2_def fr(2)]
  define s1 where "s1 = s\<lparr>rd_heap := h2\<rparr>"
  have step: "reach_step R D dir s = Some (if fr then reach_descend R D dir i y s1 else s1)"
    using bk nx add by (simp add: reach_step_def s1_def h2_def Let_def)
  show ?thesis
  proof (cases fr)
    case False
    then have y: "y \<in> seen ?h" "seen h2 = seen ?h" using fr(1) adv by auto
    then have "rd_ok dir cg A s1" using parts exact st adv by (simp add: rd_ok_def s1_def)
    moreover have "(s1, s) \<in> rd_rel" by (rule rd_relI) (use adv st y in \<open>simp add: s1_def\<close>)
    ultimately show ?thesis using step False by simp
  next
    case True
    then have y: "y \<notin> seen ?h" using fr(1) by simp
    then have grow: "seen ?h \<subset> seen h2" using adv by auto
    have reach: "(ru_component (h2 ! i), y) \<in> ?E\<^sup>*" using adv by auto
    have mid: "stk {y} ?E A h2 js" using adv by blast
    obtain cache where cache: "cachedComponentReach (rd_cache s) y dir = (reach_map (rd_cache s) dir y, cache)"
      "rc_inv cache" "reach_map cache = reach_map (rd_cache s)" "rc_components cache = rc_components (rd_cache s)"
      by (rule cachedComponentReach_result [OF parts(1)])
    have ex: "elems R b = ?E\<^sup>* `` {k}" if "k \<notin> V" "seen ?h \<subseteq> V" "reach_map cache dir k = Some b" for k b V
      using exact [of k b] that cache(3) by auto
    show ?thesis
    proof (cases "reach_map (rd_cache s) dir y")
      case (Some K)
      let ?b = "bitmap64_Or R (ru_reach (h2 ! i)) (Bitmap64 K)"
      define h3 where "h3 = h2[i := (h2 ! i)\<lparr>ru_reach := ?b\<rparr>]"
      have "elems R ?b = elems R (ru_reach (h2 ! i)) \<union> ?E\<^sup>* `` {y}" using exact [OF y Some] by simp
      note abs = stk_absorb [OF mid i reach this h3_def]
      let ?s = "s1\<lparr>rd_cache := cache, rd_heap := h3\<rparr>"
      have "reach_descend R D dir i y s1 = ?s"
        using cache(1) Some by (simp add: reach_descend_def s1_def h3_def)
      moreover have sub: "seen ?h \<subseteq> seen h3" using abs grow by blast
      have "rd_ok dir cg A ?s"
        unfolding rd_ok_def using abs cache(2,4) parts(2) st ex [OF _ sub] by (simp add: s1_def)
      moreover have "(?s, s) \<in> rd_rel" by (rule rd_relI) (use abs grow in \<open>auto simp: s1_def\<close>)
      ultimately show ?thesis using step True by simp
    next
      case None
      let ?c = "newReachCursor R cache y dir i"
      let ?s = "s1\<lparr>rd_cache := cache, rd_heap := h2 @ [?c], rd_stack := dq_PushBack D (rd_stack s) (length h2)\<rparr>"
      have "reach_descend R D dir i y s1 = ?s"
        using cache(1) None by (simp add: reach_descend_def s1_def)
      moreover have "y \<in> seen h2" using adv by auto
      then have "stk {} ?E A (h2 @ [?c]) (js @ [length h2])"
        by (rule stk_push [OF mid reach [unfolded i]])
          (use i cache(4) parts(2) in \<open>simp_all add: newReachCursor_def pending_def AdjacentNodes_def adj_rel_Image Let_def\<close>)
      moreover have "seen (h2 @ [?c]) = seen h2" using mid by (simp add: stk_def nth_append)
      ultimately have d: "reach_descend R D dir i y s1 = ?s" "stk {} ?E A (h2 @ [?c]) (js @ [length h2])"
        "seen (h2 @ [?c]) = seen h2" by blast+
      have sub: "seen ?h \<subseteq> seen (h2 @ [?c])" using d(3) grow by blast
      have "rd_ok dir cg A ?s"
        unfolding rd_ok_def using d(2) cache(2,4) parts(2) st ex [OF _ sub] by (simp add: s1_def)
      moreover have "(?s, s) \<in> rd_rel" by (rule rd_relI) (use d(3) grow in \<open>simp add: s1_def\<close>)
      ultimately show ?thesis using step True d(1) by simp
    qed
  qed
qed

text \<open>With exact cache entries the search terminates with the reachable components. The entries of
  components it did not reach stay exact, and so does the one of the root.\<close>

theorem componentReachDFS_result:
  assumes inv: "rc_inv s"
    and exact: "\<forall>k b. reach_map s dir k = Some b \<longrightarrow> elems R b = (adj_rel (cg_digraph (rc_components s)) dir)\<^sup>* `` {k}"
  shows "\<exists>b s'. componentReachDFS R D s A dir = Some (b, s') \<and>
     elems R b = (adj_rel (cg_digraph (rc_components s)) dir)\<^sup>* `` {A} \<and> rc_inv s' \<and> rc_components s' = rc_components s"
proof -
  let ?cg = "rc_components s"
  let ?E = "adj_rel (cg_digraph ?cg) dir"
  obtain s1 where s1: "cachedComponentReach s A dir = (reach_map s dir A, s1)" "rc_inv s1"
    "reach_map s1 = reach_map s" "rc_components s1 = ?cg"
    by (rule cachedComponentReach_result [OF inv])
  show ?thesis
  proof (cases "reach_map s dir A")
    case None
    let ?c = "newRootReachCursor R s1 A dir"
    let ?t = "\<lparr>rd_cache = s1, rd_heap = [?c], rd_stack = dq_PushBack D (dq_New D) 0\<rparr>"
    have c: "pending ?c = ?E `` {A}" "elems R (ru_reach ?c) = {A}" "ru_component ?c = A" "ru_ancestor ?c = None"
      by (simp_all add: newRootReachCursor_def pending_def AdjacentNodes_def adj_rel_Image s1(4))
    have "rinv {} ?E A {A} (?E `` {A}) []" by (rule rinvI) (auto simp: frontier_def)
    with c have stk: "stk {} ?E A [?c] []" by (simp add: stk_def)
    have "\<exists>t. loop (\<lambda>t. dq_Len D (rd_stack t) > 0) (reach_step R D dir) ?t = Some t \<and> rd_ok dir ?cg A t \<and>
        \<not> dq_Len D (rd_stack t) > 0"
    proof (rule loop_total [where r = rd_rel])
      show "wf rd_rel" by (simp add: rd_rel_def)
      show "rd_ok dir ?cg A ?t" using stk s1 exact by (simp add: rd_ok_def)
    next
      fix t
      assume t: "rd_ok dir ?cg A t" "dq_Len D (rd_stack t) > 0"
      then obtain js where js: "items (rd_stack t) = 0 # js" by (auto simp: rd_ok_def split: if_splits)
      obtain o' c' where nx: "NextAdjacent (rd_heap t ! last (0 # js)) = (o', c')" by fastforce
      then show "\<exists>t'. reach_step R D dir t = Some t' \<and> rd_ok dir ?cg A t' \<and> (t', t) \<in> rd_rel"
        using reach_step_pop [OF t(1) js refl] reach_step_next [OF t(1) js refl] by (cases o') blast+
    qed
    then obtain t where t: "loop (\<lambda>t. dq_Len D (rd_stack t) > 0) (reach_step R D dir) ?t = Some t"
      "rd_ok dir ?cg A t" "items (rd_stack t) = []" by auto
    then have "rinv {} ?E A (seen (rd_heap t)) {} []" "rc_inv (rd_cache t)" "rc_components (rd_cache t) = ?cg"
      by (auto simp: rd_ok_def)
    with t(1) s1(1) None rinv_done show ?thesis by (simp add: componentReachDFS_def)
  qed (use s1 exact in \<open>simp add: componentReachDFS_def\<close>)
qed

end

interpretation list_dfs: dfs_env list_bitmap list_deque "\<lambda>q. q"
  by unfold_locales

section \<open>From components to members\<close>

lemma member_reach_result:
  assumes "roaring64 R" and bound: "\<forall>c \<in> elems R b. unat c < length (cg_componentMembers (rc_components s))"
  shows "\<exists>m. componentReachToMemberReachBitmap R s b = Some m \<and>
     elems R m = (\<Union>c \<in> elems R b. elems R (cg_componentMembers (rc_components s) ! unat c))"
proof -
  note bm = roaring64.bitmap64_Each_ToArray [OF assms(1)] roaring64.elems_bitmap64_Or [OF assms(1)]
    roaring64.elems_NewBitmap64 [OF assms(1)]
  let ?C = "cg_componentMembers (rc_components s)" and ?f = "CollectComponentMembers R (rc_components s)"
  have "\<exists>m. for_each ?f xs a = Some m \<and> elems R m = elems R a \<union> (\<Union>c \<in> set xs. elems R (?C ! unat c))"
    if "\<forall>c \<in> set xs. unat c < length ?C" for xs a
    using that
  proof (induction xs arbitrary: a)
    case (Cons c xs)
    then have "?f c a = Some (bitmap64_Or R a (Bitmap64 (?C ! unat c)))"
      by (simp add: CollectComponentMembers_def slice_get_def)
    with Cons.IH [of "bitmap64_Or R a (Bitmap64 (?C ! unat c))"] Cons.prems show ?case by (auto simp: bm)
  qed simp
  from this [OF bound, of "NewBitmap64 R"] show ?thesis
    by (simp add: componentReachToMemberReachBitmap_def bm fold_bind_for_each)
qed

text \<open>The members of the components reachable from the component of a node are the nodes reachable from it.\<close>

context scc_env
begin

lemma component_members_reach:
  assumes cg: "component_graph_of cg" and m: "cg_memberComponentLookup cg m = Some c"
    and small: "length (dg_nodes g) < 2 ^ 64"
  shows "\<forall>d \<in> (adj_rel (cg_digraph cg) dir)\<^sup>* `` {c}. unat d < length (cg_componentMembers cg)"
    and "(\<Union>d \<in> (adj_rel (cg_digraph cg) dir)\<^sup>* `` {c}. elems R (cg_componentMembers cg ! unat d)) = (adj_rel g dir)\<^sup>* `` {m}"
proof -
  let ?C = "cg_componentMembers cg" and ?L = "cg_memberComponentLookup cg" and ?E = "adj_rel (cg_digraph cg) dir"
  have ok: "comps_ok R g ?C ?L" "comp_nodes R ?C = set (dg_nodes g)" and dg: "directed_graph (cg_digraph cg)"
    and nodes: "set (dg_nodes (cg_digraph cg)) = dense (length ?C)"
    using cg by (auto simp: component_graph_of_def)
  have "length ?C \<le> length (dg_nodes g)" using ok card_length [of "dg_nodes g"] by (simp add: comps_ok_def)
  with small have len: "length ?C < 2 ^ 64" by simp
  have dom: "dom ?L = set (dg_nodes g)" using ok by (simp add: comps_ok_def)
  have mem: "u \<in> elems R (?C ! i) \<longleftrightarrow> ?L u = Some (of_nat i)" if "i < length ?C" for i u
    using ok(1) that unfolding comps_ok_def by blast
  have L: "\<exists>i. i < length ?C \<and> ?L u = Some (of_nat i)" if "u \<in> set (dg_nodes g)" for u
  proof -
    have "u \<in> comp_nodes R ?C" using that ok(2) by simp
    then obtain i where "i < length ?C" "u \<in> elems R (?C ! i)" by (auto simp: comp_nodes_mem)
    then show ?thesis using mem by blast
  qed
  have mn: "m \<in> set (dg_nodes g)" using m dom by blast
  have cd: "c \<in> dense (length ?C)" using L [OF mn] m by auto
  have sub: "?E\<^sup>* `` {c} \<subseteq> dense (length ?C)"
  proof
    fix d assume "d \<in> ?E\<^sup>* `` {c}"
    then have "(c, d) \<in> ?E\<^sup>*" by simp
    then show "d \<in> dense (length ?C)"
      by (rule closed_rtrancl_subset [OF _ cd, rotated])
        (use directed_graph.adj_rel_nodes [OF dg, of dir] nodes in auto)
  qed
  then show "\<forall>d \<in> ?E\<^sup>* `` {c}. unat d < length ?C" using len by auto
  have at: "v \<in> elems R (?C ! unat d) \<longleftrightarrow> ?L v = Some d" if d: "d \<in> ?E\<^sup>* `` {c}" for v d
  proof -
    obtain i where i: "i < length ?C" "d = of_nat i" using sub d by auto
    then have "unat d = i" using len by simp
    with mem [OF i(1)] i(2) show ?thesis by simp
  qed
  have reach: "(c, d) \<in> ?E\<^sup>* \<longleftrightarrow> (m, v) \<in> (adj_rel g dir)\<^sup>*" if "?L v = Some d" for v d
  proof -
    have "v \<in> set (dg_nodes g)" using that dom by blast
    from component_reach [OF cg mn this, of dir] m that show ?thesis by (simp add: map_get_def)
  qed
  have node: "v \<in> set (dg_nodes g)" if "(m, v) \<in> (adj_rel g dir)\<^sup>*" for v
    by (rule closed_rtrancl_subset [OF _ mn that]) (use adj_rel_nodes [of dir] in auto)
  show "(\<Union>d \<in> ?E\<^sup>* `` {c}. elems R (?C ! unat d)) = (adj_rel g dir)\<^sup>* `` {m}"
  proof (rule set_eqI)
    fix v
    have "v \<in> (\<Union>d \<in> ?E\<^sup>* `` {c}. elems R (?C ! unat d)) \<longleftrightarrow> (\<exists>d. (c, d) \<in> ?E\<^sup>* \<and> ?L v = Some d)"
      using at by auto
    also have "\<dots> \<longleftrightarrow> (m, v) \<in> (adj_rel g dir)\<^sup>*" using reach node L by metis
    finally show "v \<in> (\<Union>d \<in> ?E\<^sup>* `` {c}. elems R (?C ! unat d)) \<longleftrightarrow> v \<in> (adj_rel g dir)\<^sup>* `` {m}" by simp
  qed
qed

end

lemma NewReachabilityCache_result:
  assumes "NewReachabilityCache R live g n = Some s"
  shows "NewComponentGraph R live g = Some (rc_components s)" "rc_inv s" "reach_map s dir = Map.empty"
  using assms by (auto simp: NewReachabilityCache_def rc_inv_def sieve_inv_NewSieve reach_map_def split: direction.splits)

section \<open>Properties\<close>

text \<open>C6. A fresh \<open>ReachabilityCache\<close> of a graph answers correctly, whatever the cache size: the
  search for the reach of a node terminates without a panic and yields exactly the nodes that
  can be reached from it in the given direction (none for an unknown node), and \<open>CanReach\<close> decides
  whether one node is reachable from another.\<close>

theorem ReachabilityCache_fresh_correct:
  assumes "roaring64 R" and "deque D items" and "deque Q qitems" and "directed_graph g" and "\<forall>k. live k"
    and "Suc (length (dg_nodes g)) < 2 ^ 64" and "card (adj_rel g DirectionOutbound) < 2 ^ 64"
    and "NewReachabilityCache R live g n = Some s"
  shows "(\<exists>b s'. ReachOfComponentContainingMember R D s m dir = Some (b, s') \<and>
       elems R b = (if m \<in> set (dg_nodes g) then (adj_rel g dir)\<^sup>* `` {m} else {})) \<and>
     CanReach R Q s m v dir = Some (m \<in> set (dg_nodes g) \<and> v \<in> set (dg_nodes g) \<and> (m, v) \<in> (adj_rel g dir)\<^sup>*)"
proof -
  note new = NewReachabilityCache_result [OF assms(8)]
  let ?cg = "rc_components s"
  have env: "scc_env R g" by (rule scc_env.intro [OF assms(1,4)])
  have cg: "scc_env.component_graph_of R g ?cg"
    using scc_env.NewComponentGraph_result [OF env assms(5-7)] new(1) by auto
  note facts = cg [unfolded scc_env.component_graph_of_def [OF env]]
  have dom: "dom (cg_memberComponentLookup ?cg) = set (dg_nodes g)" using facts by (simp add: comps_ok_def)
  have small: "length (dg_nodes g) < 2 ^ 64" using assms(6) by simp
  have dfs: "dfs_env R D items" by (rule dfs_env.intro [OF assms(1,2)])
  have "\<exists>b s'. ReachOfComponentContainingMember R D s m dir = Some (b, s') \<and>
       elems R b = (if m \<in> set (dg_nodes g) then (adj_rel g dir)\<^sup>* `` {m} else {})"
  proof (cases "cg_memberComponentLookup ?cg m")
    case None
    then have "m \<notin> set (dg_nodes g)" using dom by auto
    with None show ?thesis
      by (simp add: ReachOfComponentContainingMember_def ContainingComponent_def roaring64.NewBitmap64_ToArray [OF assms(1)])
  next
    case (Some c)
    obtain r s' where r: "componentReachDFS R D s c dir = Some (r, s')"
      "elems R r = (adj_rel (cg_digraph ?cg) dir)\<^sup>* `` {c}" "rc_components s' = ?cg"
      using dfs_env.componentReachDFS_result [OF dfs new(2), of dir c] new(3) by auto
    note reach = scc_env.component_members_reach [OF env cg Some small, of dir]
    have "\<exists>b. componentReachToMemberReachBitmap R s' r = Some b \<and> elems R b = (adj_rel g dir)\<^sup>* `` {m}"
      using member_reach_result [OF assms(1), of r s'] reach unfolding r(2,3) by simp
    moreover have "m \<in> set (dg_nodes g)" using dom Some by auto
    ultimately show ?thesis using r(1) Some by (auto simp: ReachOfComponentContainingMember_def ContainingComponent_def)
  qed
  moreover have "CanReach R Q s m v dir = Some (m \<in> set (dg_nodes g) \<and> v \<in> set (dg_nodes g) \<and> (m, v) \<in> (adj_rel g dir)\<^sup>*)"
  proof (cases "m \<in> set (dg_nodes g) \<and> v \<in> set (dg_nodes g)")
    case True
    then obtain cm cv where c: "cg_memberComponentLookup ?cg m = Some cm" "cg_memberComponentLookup ?cg v = Some cv"
      using dom by blast
    have "ComponentReachable R Q ?cg cm cv dir = Some ((cm, cv) \<in> (adj_rel (cg_digraph ?cg) dir)\<^sup>*)"
      using reach_env.ComponentReachable_result [OF reach_env.intro [OF assms(1,3)], of ?cg] facts by simp
    then show ?thesis
      using scc_env.component_reach [OF env cg, of m v dir] True c by (simp add: CanReach_def ContainingComponent_def map_get_def)
  next
    case False
    then have "cg_memberComponentLookup ?cg m = None \<or> cg_memberComponentLookup ?cg v = None"
      using dom by (metis domIff)
    with False show ?thesis by (auto simp: CanReach_def ContainingComponent_def split: option.splits)
  qed
  ultimately show ?thesis by blast
qed

theorem ReachabilityCache_fresh_correct_witness:
  "\<exists>s b s'. NewReachabilityCache list_bitmap (\<lambda>_. True) cycle_graph 8 = Some s \<and>
     ReachOfComponentContainingMember list_bitmap list_deque s 4 DirectionInbound = Some (b, s') \<and>
     1 \<in> elems list_bitmap b"
proof -
  have live: "\<forall>k. (\<lambda>_ :: nat. True) k" by simp
  obtain cg where cg: "NewComponentGraph list_bitmap (\<lambda>_. True) cycle_graph = Some cg"
    using cycle_scc.NewComponentGraph_result [OF live cycle_graph_small] by blast
  then obtain s where s: "NewReachabilityCache list_bitmap (\<lambda>_. True) cycle_graph 8 = Some s"
    by (simp add: NewReachabilityCache_def)
  have "(4, 3) \<in> adj_rel cycle_graph DirectionInbound" "(3, 2) \<in> adj_rel cycle_graph DirectionInbound"
    "(2, 1) \<in> adj_rel cycle_graph DirectionInbound"
    by (simp_all add: adj_rel_def cycle_graph_def)
  then have "(4, 1) \<in> (adj_rel cycle_graph DirectionInbound)\<^sup>*"
    by (meson converse_rtrancl_into_rtrancl rtrancl.rtrancl_refl)
  moreover have "4 \<in> set (dg_nodes cycle_graph)" by (simp add: cycle_graph_def)
  ultimately show ?thesis
    using s ReachabilityCache_fresh_correct [OF lbm.roaring64_axioms ldq.deque_axioms ldq.deque_axioms
        cycle_dg.directed_graph_axioms live cycle_graph_small s, of 4 DirectionInbound 1] by auto
qed

text \<open>The component graph 0 to 1 and 2, 1 to 3, 2 to 3, 3 to 4, whose components are singletons.\<close>

definition shared_components :: "uint64 list ComponentGraph" where
  "shared_components = \<lparr>cg_componentMembers = [[0], [1], [2], [3], [4]],
     cg_memberComponentLookup = [0 \<mapsto> 0, 1 \<mapsto> 1, 2 \<mapsto> 2, 3 \<mapsto> 3, 4 \<mapsto> 4],
     cg_digraph = \<lparr>dg_NumNodes = 5, dg_nodes = [0, 1, 2, 3, 4],
       dg_adjacent = (\<lambda>u dir.
         let outs = (if u = 0 then [1, 2] else if u = 1 \<or> u = 2 then [3] else if u = 3 then [4] else []);
             ins = (if u = 1 \<or> u = 2 then [0] else if u = 3 then [1, 2] else if u = 4 then [3] else [])
         in case dir of DirectionOutbound \<Rightarrow> outs | DirectionInbound \<Rightarrow> ins | DirectionBoth \<Rightarrow> outs @ ins)\<rparr>\<rparr>"

definition shared_cache :: "uint64 list ReachabilityCache" where
  "shared_cache = \<lparr>rc_components = shared_components, rc_inboundComponentReach = NewSieve 8,
     rc_outboundComponentReach = NewSieve 8\<rparr>"

lemma shared_cache_runs:
  "Option.bind (componentReachDFS list_bitmap list_deque shared_cache 0 DirectionOutbound) (\<lambda>(r, s).
     Some (set r = {0, 1, 2, 3, 4},
       map_option (\<lambda>x. set (fst x) = {2, 3}) (componentReachDFS list_bitmap list_deque s 2 DirectionOutbound),
       CanReach list_bitmap list_deque s 2 4 DirectionOutbound)) = Some (True, Some True, Some True)"
  "map_option (\<lambda>x. set (fst x) = {2, 3, 4}) (componentReachDFS list_bitmap list_deque shared_cache 2 DirectionOutbound) = Some True"
  by code_simp+


end
