(* ===== verification/Go_Std.thy ===== *)
theory Go_Std
  imports Dawgs_Prelude
begin

unbundle bit_operations_syntax

text \<open>
  What the components use of the Go standard library: bytes in little-endian order and as
  variable-length integers (encoding/binary), decimal numerals (strconv), \<open>strings.Join\<close>, and loops that
  stop at the first error of an operation on a writer.
\<close>

type_synonym byte = "8 word"

section \<open>encoding/binary\<close>

definition PutUint64 :: "uint64 \<Rightarrow> byte list" where
  "PutUint64 v = map (\<lambda>i. ucast (drop_bit (8 * i) v)) [0..<8]"

definition Uint64_LE :: "byte list \<Rightarrow> uint64" where
  "Uint64_LE bs = foldr (\<lambda>b acc. ucast b OR push_bit 8 acc) bs 0"

lemma length_PutUint64 [simp]: "length (PutUint64 v) = 8"
  by (simp add: PutUint64_def)

lemma little_endian_bytes:
  "foldr (\<lambda>b acc. ucast b OR push_bit 8 acc) (map (\<lambda>i. ucast (drop_bit (8 * i) v) :: byte) [0..<k]) 0 =
     take_bit (8 * k) (v :: uint64)"
proof (induction k arbitrary: v)
  case (Suc k)
  have "map (\<lambda>i. ucast (drop_bit (8 * i) v) :: byte) [0..<Suc k] =
      ucast v # map (\<lambda>i. ucast (drop_bit (8 * i) (drop_bit 8 v))) [0..<k]"
    by (simp add: upt_conv_Cons map_Suc_upt [symmetric] add.commute del: upt_Suc)
  moreover have "(ucast (ucast v :: byte) :: uint64) OR push_bit 8 (take_bit (8 * k) (drop_bit 8 v)) = take_bit (8 * Suc k) v"
    by (rule bit_word_eqI) (auto simp: bit_simps)
  ultimately show ?case using Suc.IH [of "drop_bit 8 v"] by simp
qed simp

lemma Uint64_LE_PutUint64 [simp]: "Uint64_LE (PutUint64 v) = v"
  by (simp add: Uint64_LE_def PutUint64_def little_endian_bytes take_bit_word_eq_self)

text \<open>\<open>binary.PutUvarint\<close>: seven bits a byte, the high bit set on all but the last.\<close>

function PutUvarint :: "uint64 \<Rightarrow> byte list" where
  "PutUvarint x = (if x \<ge> 0x80 then (ucast x OR 0x80) # PutUvarint (drop_bit 7 x) else [ucast x])"
  by auto
termination
proof (relation "measure unat")
  fix x :: uint64
  assume "0x80 \<le> x"
  then have "0 < unat x" by (simp add: word_le_nat_alt)
  then show "(drop_bit 7 x, x) \<in> measure unat"
    by (simp add: unat_drop_bit_eq drop_bit_eq_div unat_div)
qed simp

declare PutUvarint.simps [simp del]

section \<open>strconv and strings\<close>

fun decimal :: "nat \<Rightarrow> string" where
  "decimal n = (if n < 10 then [char_of (48 + n)] else decimal (n div 10) @ [char_of (48 + n mod 10)])"

declare decimal.simps [simp del]

definition FormatUint :: "uint64 \<Rightarrow> string" where
  "FormatUint v = decimal (unat v)"

fun strings_Join :: "string list \<Rightarrow> string \<Rightarrow> string" where
  "strings_Join [] sep = []"
| "strings_Join [s] sep = s"
| "strings_Join (s # ss) sep = s @ sep @ strings_Join ss sep"

definition is_digit :: "char \<Rightarrow> bool" where
  "is_digit c \<longleftrightarrow> 48 \<le> (of_char c :: nat) \<and> (of_char c :: nat) \<le> 57"

lemma of_char_digit [simp]: "k < 10 \<Longrightarrow> (of_char (char_of (48 + k :: nat)) :: nat) = 48 + k"
  by (simp add: of_char_of)

lemma is_digit_char [simp]: "k < 10 \<Longrightarrow> is_digit (char_of (48 + k :: nat))"
  by (simp add: is_digit_def)

lemma decimal_digits: "\<forall>c \<in> set (decimal n). is_digit c"
proof (induction n rule: decimal.induct)
  case (1 n)
  show ?case
  proof (cases "n < 10")
    case True
    then have "decimal n = [char_of (48 + n)]" by (subst decimal.simps) simp
    with True show ?thesis by simp
  next
    case False
    then have "decimal n = decimal (n div 10) @ [char_of (48 + n mod 10)]" by (subst decimal.simps) simp
    with 1 False show ?thesis by simp
  qed
qed

lemma decimal_nonempty [simp]: "decimal n \<noteq> []"
  by (subst decimal.simps) simp

definition undecimal :: "string \<Rightarrow> nat" where
  "undecimal s = foldl (\<lambda>a c. a * 10 + (of_char c - 48)) 0 s"

lemma undecimal_decimal [simp]: "undecimal (decimal n) = n"
proof (induction n rule: decimal.induct)
  case (1 n)
  show ?case
  proof (cases "n < 10")
    case True
    then have "decimal n = [char_of (48 + n)]" by (subst decimal.simps) simp
    with True show ?thesis by (simp add: undecimal_def)
  next
    case False
    then have "decimal n = decimal (n div 10) @ [char_of (48 + n mod 10)]" by (subst decimal.simps) simp
    with 1 False show ?thesis by (simp add: undecimal_def)
  qed
qed

lemma decimal_inj [simp]: "decimal m = decimal n \<longleftrightarrow> m = n"
  by (metis undecimal_decimal)

lemma FormatUint_inj [simp]: "FormatUint v = FormatUint w \<longleftrightarrow> v = w"
  by (simp add: FormatUint_def word_unat_eq_iff)

text \<open>A numeral ends at the first character that is not a digit.\<close>

lemma FormatUint_split:
  assumes "FormatUint v @ c # xs = FormatUint w @ d # ys" and "\<not> is_digit c" "\<not> is_digit d"
  shows "v = w \<and> c = d \<and> xs = ys"
proof -
  have digits: "takeWhile is_digit (FormatUint u @ e # zs) = FormatUint u" if "\<not> is_digit e" for u e zs
  proof -
    have "\<forall>c \<in> set (FormatUint u). is_digit c" by (simp add: FormatUint_def decimal_digits)
    with that show ?thesis by (simp add: takeWhile_append2)
  qed
  have "FormatUint v = FormatUint w" using assms digits by metis
  with assms(1) show ?thesis by simp
qed

section \<open>Writers\<close>

text \<open>
  An \<open>io.Writer\<close> is its \<open>Write\<close> method: from the state of the writer and the bytes to an error or none,
  and the next state. \<open>until_error\<close> is a loop whose body returns the first error.
\<close>

type_synonym ('w, 'e) writer = "'w \<Rightarrow> byte list \<Rightarrow> 'e option \<times> 'w"

fun until_error :: "('a \<Rightarrow> 's \<Rightarrow> 'e option \<times> 's) \<Rightarrow> 'a list \<Rightarrow> 's \<Rightarrow> 'e option \<times> 's" where
  "until_error f [] s = (None, s)"
| "until_error f (x # xs) s = (case f x s of (Some err, s') \<Rightarrow> (Some err, s') | (None, s') \<Rightarrow> until_error f xs s')"

text \<open>A \<open>bytes.Buffer\<close> as writer: it never fails.\<close>

definition buffer_Write :: "(byte list, 'e) writer" where
  "buffer_Write buf bs = (None, buf @ bs)"

section \<open>Callbacks that may panic\<close>

text \<open>\<open>each\<close> with a delegate whose body may panic.\<close>

fun try_each :: "('a \<Rightarrow> 's \<Rightarrow> ('s \<times> bool) option) \<Rightarrow> 'a list \<Rightarrow> 's \<Rightarrow> 's option" where
  "try_each f [] s = Some s"
| "try_each f (x # xs) s = (case f x s of
     None \<Rightarrow> None
   | Some (s', goon) \<Rightarrow> if goon then try_each f xs s' else Some s')"

lemma try_each_each:
  "(\<And>x s. x \<in> set xs \<Longrightarrow> f x s = Some (g (h x) s)) \<Longrightarrow> try_each f xs s = Some (each g (map h xs) s)"
  by (induction xs arbitrary: s) (auto split: prod.splits)

text \<open>A delegate that skips some values.\<close>

lemma each_filter:
  "each (\<lambda>x s. if P x then f x s else (s, True)) xs s = each f (filter P xs) s"
  by (induction xs arbitrary: s) (auto split: prod.splits)

lemma each_map: "each (\<lambda>x s. f (h x) s) xs s = each f (map h xs) s"
  by (induction xs arbitrary: s) (auto split: prod.splits)

text \<open>Counting.\<close>

lemma fold_count: "fold (\<lambda>x n. if P x then n + 1 else n) xs (n :: uint64) = n + of_nat (length (filter P xs))"
  by (induction xs arbitrary: n) auto

lemma sorted_of_nat_filter:
  assumes "n \<le> 2 ^ 64"
  shows "sorted_list_of_set ((of_nat :: nat \<Rightarrow> uint64) ` {i. i < n \<and> P i}) = map of_nat (filter P [0..<n])"
proof (rule sorted_distinct_eqI)
  have le: "(of_nat i :: uint64) \<le> of_nat j" if "i \<le> j" "j < n" for i j
    using that assms by (simp add: word_le_nat_alt)
  have "sorted_wrt (\<lambda>i j. i \<le> j \<and> j < n) (filter P [0..<n])"
  proof (rule sorted_wrt_filter)
    show "sorted_wrt (\<lambda>i j. i \<le> j \<and> j < n) [0..<n]" by (simp add: sorted_wrt_iff_nth_less)
  qed
  then show "sorted (map (of_nat :: nat \<Rightarrow> uint64) (filter P [0..<n]))"
    unfolding sorted_map by (rule sorted_wrt_mono_rel [rotated]) (use le in auto)
  have "inj_on (of_nat :: nat \<Rightarrow> uint64) (set (filter P [0..<n]))"
    using assms by (intro inj_onI) auto
  then show "distinct (map (of_nat :: nat \<Rightarrow> uint64) (filter P [0..<n]))"
    by (simp add: distinct_map)
qed auto

section \<open>Two loops in step\<close>

lemma loop_sim_total:
  assumes "wf r" and "Rel s s'"
    and "\<And>s s'. Rel s s' \<Longrightarrow> b s \<Longrightarrow>
       b' s' \<and> (\<exists>u u'. c s = Some u \<and> c' s' = Some u' \<and> Rel u u' \<and> (u, s) \<in> r)"
    and "\<And>s s'. Rel s s' \<Longrightarrow> \<not> b s \<Longrightarrow> \<not> b' s'"
  shows "\<exists>t t'. loop b c s = Some t \<and> loop b' c' s' = Some t' \<and> Rel t t' \<and> \<not> b t"
  using assms(1,2)
proof (induction s arbitrary: s' rule: wf_induct_rule)
  case (less s)
  show ?case
  proof (cases "b s")
    case True
    with assms(3) less.prems obtain u u' where "b' s'" "c s = Some u" "c' s' = Some u'" "Rel u u'" "(u, s) \<in> r" by blast
    with less.IH True show ?thesis by (simp add: loop_step)
  next
    case False
    with less.prems assms(4) show ?thesis by (simp add: loop_done)
  qed
qed

end
