(* ===== verification/Ct_Segment.thy ===== *)
theory Ct_Segment
  imports Go_Std
begin

text \<open>
  src/container/segment.go: the linked segments of a path, from its end to its root, with their binary
  form. A pointer that may be nil is an option.
\<close>

datatype Segment = Segment (sg_Node: uint64) (sg_Edge: uint64) (sg_Previous: "Segment option")

text \<open>The values of the variable of \<open>for cursor := s; cursor != nil; cursor = cursor.Previous\<close>.\<close>

fun cursors :: "Segment option \<Rightarrow> Segment list" where
  "cursors None = []"
| "cursors (Some (Segment node edge previous)) = Segment node edge previous # cursors previous"

definition sg_Each :: "Segment option \<Rightarrow> (Segment \<Rightarrow> 's \<Rightarrow> 's \<times> bool) \<Rightarrow> 's \<Rightarrow> 's" where
  "sg_Each s visitor = each visitor (cursors s)"

definition sg_Root :: "Segment option \<Rightarrow> uint64" where
  "sg_Root s = fold (\<lambda>cursor root. sg_Node cursor) (cursors s) 0"

definition sg_Trunk :: "Segment option \<Rightarrow> uint64" where
  "sg_Trunk s = fold (\<lambda>cursor trunk. if sg_Previous cursor \<noteq> None then sg_Edge cursor else trunk) (cursors s) 0"

definition sg_Edges :: "Segment option \<Rightarrow> uint64 list" where
  "sg_Edges s = fold (\<lambda>cursor edges. if sg_Previous cursor \<noteq> None then edges @ [sg_Edge cursor] else edges) (cursors s) []"

definition sg_Nodes :: "Segment option \<Rightarrow> uint64 list" where
  "sg_Nodes s = fold (\<lambda>cursor nodes. nodes @ [sg_Node cursor]) (cursors s) []"

definition sg_Depth :: "Segment option \<Rightarrow> nat" where
  "sg_Depth s = fold (\<lambda>cursor depth. depth + 1) (cursors s) 0"

definition sg_Format :: "Segment option \<Rightarrow> string" where
  "sg_Format s = fold (\<lambda>cursor builder.
     let builder1 = builder @ ''('' @ FormatUint (sg_Node cursor) @ '')'' in
     if sg_Previous cursor \<noteq> None then builder1 @ ''-['' @ FormatUint (sg_Edge cursor) @ '']->'' else builder1)
     (cursors s) []"

section \<open>Binary form\<close>

definition marshal_cursor :: "('w, 'e) writer \<Rightarrow> Segment \<Rightarrow> 'w \<Rightarrow> 'e option \<times> 'w" where
  "marshal_cursor write cursor w = (case write w (PutUint64 (sg_Node cursor)) of
     (Some err, w') \<Rightarrow> (Some err, w')
   | (None, w') \<Rightarrow> if sg_Previous cursor \<noteq> None then write w' (PutUint64 (sg_Edge cursor)) else (None, w'))"

definition MarshalSegment :: "('w, 'e) writer \<Rightarrow> Segment option \<Rightarrow> 'w \<Rightarrow> 'e option \<times> 'w" where
  "MarshalSegment write segment = until_error (marshal_cursor write) (cursors segment)"

text \<open>
  While it decodes, the code writes to the last segments of the list it builds. The list is kept
  as the fields \<open>Node\<close> and \<open>Edge\<close> of its segments from the terminal segment on, each the \<open>Previous\<close> of the one before,
  and \<open>nextSegment\<close> is a position in it.
\<close>

type_synonym unmarshal = "nat option \<times> (uint64 \<times> uint64) list"

fun segment_of :: "(uint64 \<times> uint64) list \<Rightarrow> Segment option" where
  "segment_of [] = None"
| "segment_of ((node, edge) # rest) = Some (Segment node edge (segment_of rest))"

definition unmarshal_id :: "uint64 \<Rightarrow> unmarshal \<Rightarrow> unmarshal" where
  "unmarshal_id nextID = (\<lambda>(nextSegment, cells). case nextSegment of
     None \<Rightarrow> (Some 0, cells[0 := (nextID, snd (cells ! 0))])
   | Some i \<Rightarrow>
       if i + 1 = length cells then (Some i, cells[i := (fst (cells ! i), nextID)] @ [(0, 0)])
       else (Some (i + 1), cells[i + 1 := (nextID, snd (cells ! (i + 1)))]))"

text \<open>
  \<open>segmentBytes[startIdx : startIdx+8]\<close> may reach into the spare capacity of the slice; beyond it the
  expression panics.
\<close>

definition UnmarshalSegment :: "byte list \<Rightarrow> byte list \<Rightarrow> Segment option option" where
  "UnmarshalSegment segmentBytes spare =
     map_option (\<lambda>(_, cells). segment_of cells)
       (for_each (\<lambda>byteNum st.
          if byteNum * 8 + 8 \<le> length segmentBytes + length spare
          then Some (unmarshal_id (Uint64_LE (take 8 (drop (byteNum * 8) (segmentBytes @ spare)))) st)
          else None)
        [0..<(length segmentBytes + 7) div 8] (None, [(0, 0)]))"

record SerializedSegment =
  ss_Nodes :: "uint64 list"
  ss_Edges :: "uint64 list"

text \<open>The index \<open>nodeIndex-1\<close> is -1 in the first round.\<close>

definition ToSegment :: "SerializedSegment \<Rightarrow> Segment option" where
  "ToSegment s = for_each (\<lambda>nodeIndex cursor.
     let cursor1 = Segment (ss_Nodes s ! nodeIndex) (sg_Edge cursor) (sg_Previous cursor) in
     if nodeIndex < length (ss_Edges s) then
       (if nodeIndex = 0 then None else Some (Segment 0 (ss_Edges s ! (nodeIndex - 1)) (Some cursor1)))
     else Some cursor1) [0..<length (ss_Nodes s)] (Segment 0 0 None)"

section \<open>Loops as functions of the list of segments\<close>

lemma fold_snoc_map: "fold (\<lambda>x ys. ys @ f x) xs ys = ys @ concat (map f xs)"
  by (induction xs arbitrary: ys) auto

lemma sg_Nodes_map: "sg_Nodes s = map sg_Node (cursors s)"
  using fold_snoc_map [of "\<lambda>c. [sg_Node c]" "cursors s" "[]"] by (simp add: sg_Nodes_def concat_map_singleton)

lemma fold_if_snoc: "fold (\<lambda>x ys. if P x then ys @ [f x] else ys) xs ys = ys @ map f (filter P xs)"
  by (induction xs arbitrary: ys) auto

lemma sg_Edges_filter: "sg_Edges s = map sg_Edge (filter (\<lambda>c. sg_Previous c \<noteq> None) (cursors s))"
  by (simp add: sg_Edges_def fold_if_snoc)

lemma sg_Depth_length: "sg_Depth s = length (cursors s)"
proof -
  have "fold (\<lambda>_ depth. depth + 1) xs n = n + length xs" for xs :: "Segment list" and n
    by (induction xs arbitrary: n) auto
  then show ?thesis by (simp add: sg_Depth_def)
qed

text \<open>What a binary or textual form can hold of a segment: the \<open>Edge\<close> field of the root is not written.\<close>

fun without_root_edge :: "Segment \<Rightarrow> Segment" where
  "without_root_edge (Segment n e None) = Segment n 0 None"
| "without_root_edge (Segment n e (Some p)) = Segment n e (Some (without_root_edge p))"

section \<open>The round trip\<close>

text \<open>The numbers of a segment in the order they are written.\<close>

fun id_words :: "Segment \<Rightarrow> uint64 list" where
  "id_words (Segment n e None) = [n]"
| "id_words (Segment n e (Some p)) = n # e # id_words p"

lemma MarshalSegment_buffer:
  "MarshalSegment buffer_Write (Some s) buf = (None :: 'e option, buf @ concat (map PutUint64 (id_words s)))"
  unfolding MarshalSegment_def
  by (induction s arbitrary: buf rule: id_words.induct) (simp_all add: marshal_cursor_def buffer_Write_def)

lemma concat_PutUint64_nth:
  "i < length ws \<Longrightarrow> take 8 (drop (i * 8) (concat (map PutUint64 ws) @ rest)) = PutUint64 (ws ! i)"
proof (induction ws arbitrary: i)
  case (Cons w ws)
  then show ?case by (cases i) (simp_all add: add.commute [of 8])
qed simp

lemma length_concat_PutUint64 [simp]: "length (concat (map PutUint64 ws)) = length ws * 8"
  by (induction ws) auto

lemma UnmarshalSegment_words:
  "UnmarshalSegment (concat (map PutUint64 ws)) spare =
     Some (segment_of (snd (fold unmarshal_id ws (None, [(0, 0)]))))"
proof -
  let ?f = "\<lambda>i st. if i * 8 + 8 \<le> length (concat (map PutUint64 ws)) + length spare
      then Some (unmarshal_id (Uint64_LE (take 8 (drop (i * 8) (concat (map PutUint64 ws) @ spare)))) st) else None"
  have f: "?f i st = Some (unmarshal_id (ws ! i) st)" if "i < length ws" for i st
    using concat_PutUint64_nth [OF that, of spare] that by simp
  have "for_each ?f [0..<n] st = Some (fold unmarshal_id (take n ws) st)" if "n \<le> length ws" for n st
    using that
  proof (induction n)
    case (Suc n)
    then have "for_each ?f [0..<n] st = Some (fold unmarshal_id (take n ws) st)" by simp
    moreover have "take (Suc n) ws = take n ws @ [ws ! n]" using Suc.prems by (simp add: take_Suc_conv_app_nth)
    ultimately show ?case using f [of n] Suc.prems by (simp add: for_each_append)
  qed simp
  from this [OF order_refl] show ?thesis
    unfolding UnmarshalSegment_def by (simp add: case_prod_unfold)
qed

text \<open>Each pair of numbers after the first fills in the edge of the last segment and appends a segment.\<close>

lemma unmarshal_tail:
  "fold unmarshal_id (id_words s) (Some (length cs), cs @ [(x, y), (0, 0)]) =
     (k, cells) \<Longrightarrow> segment_of cells = segment_of (cs @ [(x, y)] @ map (\<lambda>c. (sg_Node c, sg_Edge c)) (cursors (Some (without_root_edge s))))"
proof (induction s arbitrary: cs x y k cells rule: id_words.induct)
  case (1 n e)
  then show ?case by (auto simp: unmarshal_id_def nth_append list_update_append)
next
  case (2 n e p)
  have "unmarshal_id n (Some (length cs), cs @ [(x, y), (0, 0)]) = (Some (length (cs @ [(x, y)])), cs @ [(x, y), (n, 0)])"
    by (simp add: unmarshal_id_def nth_append list_update_append)
  moreover have "unmarshal_id e (Some (length (cs @ [(x, y)])), cs @ [(x, y), (n, 0)]) =
      (Some (length (cs @ [(x, y)])), (cs @ [(x, y)]) @ [(n, e), (0, 0)])"
    by (simp add: unmarshal_id_def nth_append list_update_append)
  ultimately show ?case using 2(2) 2(1) [of "cs @ [(x, y)]" n e k cells] by simp
qed

lemma segment_of_cursors: "segment_of (map (\<lambda>c. (sg_Node c, sg_Edge c)) (cursors s)) = s"
  by (induction s rule: cursors.induct) auto

lemma unmarshal_id_words:
  "segment_of (snd (fold unmarshal_id (id_words s) (None, [(0, 0)]))) = Some (without_root_edge s)"
proof (cases s rule: id_words.cases)
  case (1 n e)
  then show ?thesis by (simp add: unmarshal_id_def)
next
  case (2 n e p)
  obtain k cells where r: "fold unmarshal_id (id_words p) (Some 0, [(n, e), (0, 0)]) = (k, cells)" by fastforce
  then have "segment_of cells = Some (without_root_edge s)"
    using unmarshal_tail [of p "[]" n e k cells] 2 by (simp add: segment_of_cursors del: cursors.simps)
  with 2 r show ?thesis by (simp add: unmarshal_id_def)
qed

text \<open>C16. \<open>UnmarshalSegment\<close> undoes \<open>MarshalSegment\<close>: whatever a segment's bytes are written in front of, decoding
  them does not panic and returns the segment, with the unused edge of its root set to 0.\<close>

theorem segment_roundtrip:
  "fst (MarshalSegment buffer_Write (Some s) []) = (None :: 'e option) \<and>
   UnmarshalSegment (snd (MarshalSegment buffer_Write (Some s) [] :: 'e option \<times> byte list)) spare =
     Some (Some (without_root_edge s))"
  by (simp add: MarshalSegment_buffer UnmarshalSegment_words unmarshal_id_words)

section \<open>Errors\<close>

text \<open>C24. \<open>UnmarshalSegment\<close> panics exactly when the bytes end inside a number and the capacity of the slice
  ends inside it too.\<close>

theorem UnmarshalSegment_panics:
  "UnmarshalSegment bs spare = None \<longleftrightarrow> length bs + length spare < (length bs + 7) div 8 * 8"
proof -
  let ?f = "\<lambda>i st. if i * 8 + 8 \<le> length bs + length spare
      then Some (unmarshal_id (Uint64_LE (take 8 (drop (i * 8) (bs @ spare)))) st) else None"
  have "for_each ?f [0..<n] st = None \<longleftrightarrow> length bs + length spare < n * 8" for n st
  proof (induction n)
    case (Suc n)
    then show ?case by (cases "for_each ?f [0..<n] st") (auto simp: for_each_append)
  qed simp
  then show ?thesis unfolding UnmarshalSegment_def by simp
qed

text \<open>\<open>ToSegment\<close> panics on every serialized path that has an edge, and drops nothing but the nodes
  before the last one otherwise.\<close>

theorem ToSegment_panics:
  "ToSegment s = (if ss_Nodes s \<noteq> [] \<and> ss_Edges s \<noteq> [] then None
     else Some (Segment (if ss_Nodes s = [] then 0 else last (ss_Nodes s)) 0 None))"
proof (cases "ss_Edges s")
  case Nil
  have "for_each (\<lambda>i cursor. Some (Segment (xs ! i) (sg_Edge cursor) (sg_Previous cursor))) [0..<n] (Segment 0 0 None) =
      Some (Segment (if n = 0 then 0 else xs ! (n - 1)) 0 None)" for xs n
    by (induction n) (simp_all add: for_each_append)
  then show ?thesis using Nil by (simp add: ToSegment_def Let_def last_conv_nth)
next
  case (Cons e es)
  then show ?thesis by (cases "ss_Nodes s") (simp_all add: ToSegment_def upt_conv_Cons Let_def del: upt_Suc)
qed

section \<open>Format\<close>

lemma sg_Format_rec:
  "sg_Format (Some (Segment n e p)) = ''('' @ FormatUint n @ '')'' @
     (case p of None \<Rightarrow> [] | Some q \<Rightarrow> ''-['' @ FormatUint e @ '']->'' @ sg_Format (Some q))"
proof -
  let ?f = "\<lambda>c. ''('' @ FormatUint (sg_Node c) @ '')'' @ (if sg_Previous c \<noteq> None then ''-['' @ FormatUint (sg_Edge c) @ '']->'' else [])"
  have "sg_Format s = concat (map ?f (cursors s))" for s
  proof -
    have "sg_Format s = fold (\<lambda>c b. b @ ?f c) (cursors s) []"
      unfolding sg_Format_def by (intro arg_cong [of _ _ "\<lambda>f. fold f (cursors s) []"]) (auto simp: fun_eq_iff Let_def)
    then show ?thesis by (simp add: fold_snoc_map)
  qed
  then show ?thesis by (simp split: option.splits)
qed

text \<open>The text of a segment determines it: segments with the same \<open>Format\<close> agree on every node and on every
  edge between nodes.\<close>

theorem sg_Format_injective:
  "sg_Format (Some s) = sg_Format (Some t) \<longleftrightarrow> without_root_edge s = without_root_edge t"
proof
  have d: "\<not> is_digit (CHR '')'')" "\<not> is_digit (CHR '']'')" by (simp_all add: is_digit_def)
  show "sg_Format (Some s) = sg_Format (Some t) \<Longrightarrow> without_root_edge s = without_root_edge t"
  proof (induction s arbitrary: t rule: without_root_edge.induct)
    case (1 n e)
    obtain m f q where t: "t = Segment m f q" by (cases t)
    from 1 FormatUint_split [of n "CHR '')''" _ m "CHR '')''"] d show ?case
      by (cases q) (auto simp: sg_Format_rec t)
  next
    case (2 n e p)
    obtain m f q where t: "t = Segment m f q" by (cases t)
    have h: "n = m" "''-['' @ FormatUint e @ '']->'' @ sg_Format (Some p) =
        (case q of None \<Rightarrow> [] | Some q \<Rightarrow> ''-['' @ FormatUint f @ '']->'' @ sg_Format (Some q))"
      using 2(2) FormatUint_split [of n "CHR '')''" _ m "CHR '')''"] d by (auto simp: sg_Format_rec t)
    then obtain r where q: "q = Some r" by (cases q) auto
    with h have "FormatUint e @ CHR '']'' # ''->'' @ sg_Format (Some p) = FormatUint f @ CHR '']'' # ''->'' @ sg_Format (Some r)"
      by simp
    from FormatUint_split [OF this d(2,2)] have "e = f" "sg_Format (Some p) = sg_Format (Some r)" by auto
    with 2(1) h(1) q t show ?case by simp
  qed
  have "sg_Format (Some (without_root_edge u)) = sg_Format (Some u)" for u
    by (induction u rule: without_root_edge.induct) (simp_all add: sg_Format_rec)
  then show "without_root_edge s = without_root_edge t \<Longrightarrow> sg_Format (Some s) = sg_Format (Some t)" by metis
qed

end
