(* ===== verification/Ct_Triplestore.thy ===== *)
theory Ct_Triplestore
  imports Go_Std Card_Bitmap Dg_Digraph
begin

text \<open>
  src/container/triplestore.go: a list of edges with one index from node to edge positions per
  direction, and a view of it (\<open>triplestoreProjection\<close>) that leaves out given nodes and edges.

  The maps are partial functions. The positions a bitmap yields index the list of edges; an index
  out of range panics (\<open>None\<close>).
\<close>

record Edge =
  te_ID :: uint64
  te_Start :: uint64
  te_End :: uint64

definition Edge_Pick :: "Edge \<Rightarrow> direction \<Rightarrow> uint64" where
  "Edge_Pick s dir = (if dir = DirectionOutbound then te_End s else te_Start s)"

record 'b triplestore =
  ts_nodes :: 'b
  ts_edges :: "Edge list"
  ts_deletedEdges :: 'b
  ts_startIndex :: "uint64 \<rightharpoonup> 'b"
  ts_endIndex :: "uint64 \<rightharpoonup> 'b"

definition NewTriplestore :: "'b roaring64_ops \<Rightarrow> 'b triplestore" where
  "NewTriplestore R = \<lparr>ts_nodes = NewBitmap64 R, ts_edges = [], ts_deletedEdges = NewBitmap64 R,
     ts_startIndex = Map.empty, ts_endIndex = Map.empty\<rparr>"

definition ts_DeleteEdge :: "'b roaring64_ops \<Rightarrow> 'b triplestore \<Rightarrow> uint64 \<Rightarrow> 'b triplestore" where
  "ts_DeleteEdge R s edgeID = s\<lparr>ts_deletedEdges := bitmap64_Add R (ts_deletedEdges s) [edgeID]\<rparr>"

definition ts_Edges :: "'b triplestore \<Rightarrow> Edge list" where
  "ts_Edges s = ts_edges s"

definition ts_NumNodes :: "'b roaring64_ops \<Rightarrow> 'b triplestore \<Rightarrow> uint64" where
  "ts_NumNodes R s = bitmap64_Cardinality R (ts_nodes s)"

definition ts_AddNode :: "'b roaring64_ops \<Rightarrow> 'b triplestore \<Rightarrow> uint64 \<Rightarrow> 'b triplestore" where
  "ts_AddNode R s node = s\<lparr>ts_nodes := bitmap64_Add R (ts_nodes s) [node]\<rparr>"

definition ts_EachNode :: "'b roaring64_ops \<Rightarrow> 'b triplestore \<Rightarrow> (uint64 \<Rightarrow> 's \<Rightarrow> 's \<times> bool) \<Rightarrow> 's \<Rightarrow> 's" where
  "ts_EachNode R s delegate = bitmap64_Each R (ts_nodes s) delegate"

definition ts_EachEdge :: "'b triplestore \<Rightarrow> (Edge \<Rightarrow> 's \<Rightarrow> 's \<times> bool) \<Rightarrow> 's \<Rightarrow> 's" where
  "ts_EachEdge s delegate = each delegate (ts_edges s)"

definition index_add :: "'b roaring64_ops \<Rightarrow> (uint64 \<rightharpoonup> 'b) \<Rightarrow> uint64 \<Rightarrow> uint64 \<Rightarrow> (uint64 \<rightharpoonup> 'b)" where
  "index_add R idx node edgeIdx = (case idx node of
     Some edgeBitmap \<Rightarrow> idx(node \<mapsto> bitmap64_Add R edgeBitmap [edgeIdx])
   | None \<Rightarrow> idx(node \<mapsto> bitmap64_Add R (NewBitmap64 R) [edgeIdx]))"

definition ts_AddTriple :: "'b roaring64_ops \<Rightarrow> 'b triplestore \<Rightarrow> uint64 \<Rightarrow> uint64 \<Rightarrow> uint64 \<Rightarrow> 'b triplestore" where
  "ts_AddTriple R s edge start end' =
     (let edges = ts_edges s @ [\<lparr>te_ID = edge, te_Start = start, te_End = end'\<rparr>];
          edgeIdx = of_nat (length edges - 1)
      in s\<lparr>ts_edges := edges,
           ts_startIndex := index_add R (ts_startIndex s) start edgeIdx,
           ts_endIndex := index_add R (ts_endIndex s) end' edgeIdx,
           ts_nodes := bitmap64_Add R (ts_nodes s) [start, end']\<rparr>)"

definition index_or :: "'b roaring64_ops \<Rightarrow> (uint64 \<rightharpoonup> 'b) \<Rightarrow> uint64 \<Rightarrow> 'b \<Rightarrow> 'b" where
  "index_or R idx node edgeIndices = (case idx node of
     Some edges \<Rightarrow> bitmap64_Or R edgeIndices (Bitmap64 edges)
   | None \<Rightarrow> edgeIndices)"

definition adjacentEdgeIndices :: "'b roaring64_ops \<Rightarrow> 'b triplestore \<Rightarrow> uint64 \<Rightarrow> direction \<Rightarrow> 'b" where
  "adjacentEdgeIndices R s node dir = (case dir of
     DirectionOutbound \<Rightarrow> index_or R (ts_startIndex s) node (NewBitmap64 R)
   | DirectionInbound \<Rightarrow> index_or R (ts_endIndex s) node (NewBitmap64 R)
   | DirectionBoth \<Rightarrow> index_or R (ts_endIndex s) node (index_or R (ts_startIndex s) node (NewBitmap64 R)))"

text \<open>A callback loop over the edges at the positions of a bitmap.\<close>

definition each_edge_at ::
    "'b roaring64_ops \<Rightarrow> 'b triplestore \<Rightarrow> 'b \<Rightarrow> (Edge \<Rightarrow> 's \<Rightarrow> 's \<times> bool) \<Rightarrow> 's \<Rightarrow> 's option" where
  "each_edge_at R s edgeIndices delegate =
     try_each (\<lambda>edgeIndex st. map_option (\<lambda>edge. delegate edge st) (slice_get (ts_edges s) (unat edgeIndex)))
       (rb_Iterator R edgeIndices)"

definition ts_AdjacentEdges :: "'b roaring64_ops \<Rightarrow> 'b triplestore \<Rightarrow> uint64 \<Rightarrow> direction \<Rightarrow> uint64 list option" where
  "ts_AdjacentEdges R s node dir =
     each_edge_at R s (adjacentEdgeIndices R s node dir) (\<lambda>edge edgeIDs. (edgeIDs @ [te_ID edge], True)) []"

definition ts_adjacent :: "'b roaring64_ops \<Rightarrow> 'b triplestore \<Rightarrow> uint64 \<Rightarrow> direction \<Rightarrow> 'b option" where
  "ts_adjacent R s node dir =
     each_edge_at R s (adjacentEdgeIndices R s node dir)
       (\<lambda>edge nodes.
          (if bitmap64_Contains R (ts_deletedEdges s) (te_ID edge) then nodes
           else case dir of
             DirectionOutbound \<Rightarrow> bitmap64_Add R nodes [te_End edge]
           | DirectionInbound \<Rightarrow> bitmap64_Add R nodes [te_Start edge]
           | DirectionBoth \<Rightarrow> bitmap64_Add R (bitmap64_Add R nodes [te_End edge]) [te_Start edge], True))
       (NewBitmap64 R)"

definition ts_AdjacentNodes :: "'b roaring64_ops \<Rightarrow> 'b triplestore \<Rightarrow> uint64 \<Rightarrow> direction \<Rightarrow> uint64 list option" where
  "ts_AdjacentNodes R s node dir = map_option (bitmap64_Slice R) (ts_adjacent R s node dir)"

definition ts_EachAdjacentNode ::
    "'b roaring64_ops \<Rightarrow> 'b triplestore \<Rightarrow> uint64 \<Rightarrow> direction \<Rightarrow> (uint64 \<Rightarrow> 's \<Rightarrow> 's \<times> bool) \<Rightarrow> 's \<Rightarrow> 's option" where
  "ts_EachAdjacentNode R s node dir delegate st =
     map_option (\<lambda>nodes. bitmap64_Each R nodes delegate st) (ts_adjacent R s node dir)"

definition ts_Degrees :: "'b roaring64_ops \<Rightarrow> 'b triplestore \<Rightarrow> uint64 \<Rightarrow> direction \<Rightarrow> uint64 option" where
  "ts_Degrees R s node dir = map_option (bitmap64_Cardinality R) (ts_adjacent R s node dir)"

definition ts_NumEdges :: "'b triplestore \<Rightarrow> uint64" where
  "ts_NumEdges s = of_nat (length (ts_edges s))"

definition ts_EachAdjacentEdge ::
    "'b roaring64_ops \<Rightarrow> 'b triplestore \<Rightarrow> uint64 \<Rightarrow> direction \<Rightarrow> (Edge \<Rightarrow> 's \<Rightarrow> 's \<times> bool) \<Rightarrow> 's \<Rightarrow> 's option" where
  "ts_EachAdjacentEdge R s node dir delegate = each_edge_at R s (adjacentEdgeIndices R s node dir) delegate"

section \<open>Projections\<close>

record 'b triplestoreProjection =
  tp_origin :: "'b triplestore"
  tp_deletedNodes :: 'b
  tp_deletedEdges :: 'b

definition ts_Projection :: "'b triplestore \<Rightarrow> 'b \<Rightarrow> 'b \<Rightarrow> 'b triplestoreProjection" where
  "ts_Projection s deletedNodes deletedEdges =
     \<lparr>tp_origin = s, tp_deletedNodes = deletedNodes, tp_deletedEdges = deletedEdges\<rparr>"

definition tp_Projection ::
    "'b roaring64_ops \<Rightarrow> 'b triplestoreProjection \<Rightarrow> 'b \<Rightarrow> 'b \<Rightarrow> 'b triplestoreProjection" where
  "tp_Projection R s deletedNodes deletedEdges =
     \<lparr>tp_origin = tp_origin s,
      tp_deletedNodes = bitmap64_Or R (bitmap64_Clone R (tp_deletedNodes s)) (Bitmap64 deletedNodes),
      tp_deletedEdges = bitmap64_Or R (bitmap64_Clone R (tp_deletedEdges s)) (Bitmap64 deletedEdges)\<rparr>"

text \<open>The condition of the code on the edges that stay.\<close>

definition tp_keeps :: "'b roaring64_ops \<Rightarrow> 'b triplestoreProjection \<Rightarrow> Edge \<Rightarrow> bool" where
  "tp_keeps R s edge \<longleftrightarrow> \<not> bitmap64_Contains R (tp_deletedEdges s) (te_ID edge) \<and>
     \<not> bitmap64_Contains R (tp_deletedNodes s) (te_Start edge) \<and>
     \<not> bitmap64_Contains R (tp_deletedNodes s) (te_End edge)"

definition tp_NumNodes :: "'b roaring64_ops \<Rightarrow> 'b triplestoreProjection \<Rightarrow> uint64" where
  "tp_NumNodes R s = ts_EachNode R (tp_origin s)
     (\<lambda>node count. (if \<not> bitmap64_Contains R (tp_deletedNodes s) node then count + 1 else count, True)) 0"

definition tp_NumEdges :: "'b roaring64_ops \<Rightarrow> 'b triplestoreProjection \<Rightarrow> uint64" where
  "tp_NumEdges R s = ts_EachEdge (tp_origin s)
     (\<lambda>edge count. (if tp_keeps R s edge then count + 1 else count, True)) 0"

definition tp_EachNode ::
    "'b roaring64_ops \<Rightarrow> 'b triplestoreProjection \<Rightarrow> (uint64 \<Rightarrow> 's \<Rightarrow> 's \<times> bool) \<Rightarrow> 's \<Rightarrow> 's" where
  "tp_EachNode R s delegate = ts_EachNode R (tp_origin s)
     (\<lambda>node st. if \<not> bitmap64_Contains R (tp_deletedNodes s) node then delegate node st else (st, True))"

definition tp_EachEdge ::
    "'b roaring64_ops \<Rightarrow> 'b triplestoreProjection \<Rightarrow> (Edge \<Rightarrow> 's \<Rightarrow> 's \<times> bool) \<Rightarrow> 's \<Rightarrow> 's" where
  "tp_EachEdge R s delegate = ts_EachEdge (tp_origin s)
     (\<lambda>edge st. if tp_keeps R s edge then delegate edge st else (st, True))"

definition tp_EachAdjacentEdge ::
    "'b roaring64_ops \<Rightarrow> 'b triplestoreProjection \<Rightarrow> uint64 \<Rightarrow> direction \<Rightarrow> (Edge \<Rightarrow> 's \<Rightarrow> 's \<times> bool) \<Rightarrow> 's \<Rightarrow> 's option" where
  "tp_EachAdjacentEdge R s node dir delegate = ts_EachAdjacentEdge R (tp_origin s) node dir
     (\<lambda>edge st. if tp_keeps R s edge then delegate edge st else (st, True))"

definition tp_EachAdjacentNode ::
    "'b roaring64_ops \<Rightarrow> 'b triplestoreProjection \<Rightarrow> uint64 \<Rightarrow> direction \<Rightarrow> (uint64 \<Rightarrow> 's \<Rightarrow> 's \<times> bool) \<Rightarrow> 's \<Rightarrow> 's option" where
  "tp_EachAdjacentNode R s node dir delegate =
     tp_EachAdjacentEdge R s node dir (\<lambda>edge st. delegate (Edge_Pick edge dir) st)"

section \<open>The indices follow the list of edges\<close>

definition indexed :: "'b roaring64_ops \<Rightarrow> Edge list \<Rightarrow> (Edge \<Rightarrow> uint64) \<Rightarrow> (uint64 \<rightharpoonup> 'b) \<Rightarrow> bool" where
  "indexed R es pick idx \<longleftrightarrow> (\<forall>u. (case idx u of None \<Rightarrow> {} | Some b \<Rightarrow> elems R b) =
     of_nat ` {i. i < length es \<and> pick (es ! i) = u})"

definition ts_inv :: "'b roaring64_ops \<Rightarrow> 'b triplestore \<Rightarrow> bool" where
  "ts_inv R s \<longleftrightarrow> indexed R (ts_edges s) te_Start (ts_startIndex s) \<and>
     indexed R (ts_edges s) te_End (ts_endIndex s) \<and>
     te_Start ` set (ts_edges s) \<union> te_End ` set (ts_edges s) \<subseteq> elems R (ts_nodes s)"

text \<open>Whether an edge is incident with a node in a direction.\<close>

definition touches :: "uint64 \<Rightarrow> direction \<Rightarrow> Edge \<Rightarrow> bool" where
  "touches node dir e \<longleftrightarrow> (case dir of
     DirectionOutbound \<Rightarrow> te_Start e = node
   | DirectionInbound \<Rightarrow> te_End e = node
   | DirectionBoth \<Rightarrow> te_Start e = node \<or> te_End e = node)"

context roaring64
begin

lemma indexed_snoc:
  assumes "indexed R es pick idx"
  shows "indexed R (es @ [e]) pick (index_add R idx (pick e) (of_nat (length es)))"
  unfolding indexed_def
proof
  fix u
  have "{i. i < length (es @ [e]) \<and> pick ((es @ [e]) ! i) = u} =
      {i. i < length es \<and> pick (es ! i) = u} \<union> (if pick e = u then {length es} else {})"
    by (auto simp: nth_append less_Suc_eq)
  moreover have "(case index_add R idx (pick e) (of_nat (length es)) u of None \<Rightarrow> {} | Some b \<Rightarrow> elems R b) =
      (case idx u of None \<Rightarrow> {} | Some b \<Rightarrow> elems R b) \<union> (if pick e = u then {of_nat (length es)} else {})"
    by (auto simp: index_add_def split: option.splits)
  ultimately show "(case index_add R idx (pick e) (of_nat (length es)) u of None \<Rightarrow> {} | Some b \<Rightarrow> elems R b) =
      of_nat ` {i. i < length (es @ [e]) \<and> pick ((es @ [e]) ! i) = u}"
    using assms by (auto simp: indexed_def)
qed

lemma ts_inv_New: "ts_inv R (NewTriplestore R)"
  by (simp add: ts_inv_def NewTriplestore_def indexed_def)

lemma ts_inv_AddTriple: "ts_inv R s \<Longrightarrow> ts_inv R (ts_AddTriple R s e u v)"
  using indexed_snoc [of "ts_edges s" te_Start "ts_startIndex s" "\<lparr>te_ID = e, te_Start = u, te_End = v\<rparr>"]
    indexed_snoc [of "ts_edges s" te_End "ts_endIndex s" "\<lparr>te_ID = e, te_Start = u, te_End = v\<rparr>"]
  by (auto simp: ts_inv_def ts_AddTriple_def Let_def)

lemma ts_inv_AddNode: "ts_inv R s \<Longrightarrow> ts_inv R (ts_AddNode R s u)"
  by (auto simp: ts_inv_def ts_AddNode_def)

lemma ts_inv_DeleteEdge: "ts_inv R s \<Longrightarrow> ts_inv R (ts_DeleteEdge R s e)"
  by (auto simp: ts_inv_def ts_DeleteEdge_def)

lemma elems_index_or:
  assumes "indexed R es pick idx"
  shows "elems R (index_or R idx node b) = elems R b \<union> of_nat ` {i. i < length es \<and> pick (es ! i) = node}"
proof -
  have "(case idx node of None \<Rightarrow> {} | Some b \<Rightarrow> elems R b) = of_nat ` {i. i < length es \<and> pick (es ! i) = node}"
    using assms by (simp add: indexed_def)
  then show ?thesis by (auto simp: index_or_def split: option.splits)
qed

lemma elems_adjacentEdgeIndices:
  assumes "ts_inv R s"
  shows "elems R (adjacentEdgeIndices R s node dir) = of_nat ` {i. i < length (ts_edges s) \<and> touches node dir (ts_edges s ! i)}"
proof -
  have inv: "indexed R (ts_edges s) te_Start (ts_startIndex s)" "indexed R (ts_edges s) te_End (ts_endIndex s)"
    using assms by (simp_all add: ts_inv_def)
  note idx = elems_index_or [OF inv(1), of node] elems_index_or [OF inv(2), of node]
  have "{i. i < length (ts_edges s) \<and> te_Start (ts_edges s ! i) = node} \<union> {i. i < length (ts_edges s) \<and> te_End (ts_edges s ! i) = node} =
      {i. i < length (ts_edges s) \<and> (te_Start (ts_edges s ! i) = node \<or> te_End (ts_edges s ! i) = node)}" by blast
  then show ?thesis
    by (cases dir) (simp_all add: adjacentEdgeIndices_def touches_def idx flip: image_Un)
qed

text \<open>The edges a node's callback loop sees: the edges that touch it, in the order they were added.\<close>

theorem each_edge_at_adjacent:
  assumes inv: "ts_inv R s" and n: "length (ts_edges s) \<le> 2 ^ 64"
  shows "each_edge_at R s (adjacentEdgeIndices R s node dir) delegate st =
     Some (each delegate (filter (touches node dir) (ts_edges s)) st)"
proof -
  let ?es = "ts_edges s" and ?P = "\<lambda>i. touches node dir (ts_edges s ! i)"
  let ?is = "filter ?P [0..<length ?es]"
  have arr: "rb_Iterator R (adjacentEdgeIndices R s node dir) = map of_nat ?is"
    unfolding rb_Iterator_ToArray sorted_of_nat_filter [OF n, of ?P, symmetric]
    by (subst ToArray_sorted_list) (simp only: elems_adjacentEdgeIndices [OF inv])
  have "slice_get ?es (unat x) = Some (?es ! unat x)" if "x \<in> set (map of_nat ?is :: uint64 list)" for x
    using that n by (auto simp: slice_get_def)
  then have "each_edge_at R s (adjacentEdgeIndices R s node dir) delegate st =
      Some (each delegate (map (\<lambda>x. ?es ! unat x) (map of_nat ?is :: uint64 list)) st)"
    unfolding each_edge_at_def arr by (intro try_each_each) simp
  moreover have "map (\<lambda>x. ?es ! unat x) (map of_nat ?is :: uint64 list) = map ((!) ?es) ?is"
    using n by (simp add: comp_def)
  moreover have "map ((!) ?es) ?is = filter (touches node dir) ?es"
    using filter_map [of "touches node dir" "(!) ?es" "[0..<length ?es]"] by (simp add: comp_def map_nth)
  ultimately show ?thesis by simp
qed

end

section \<open>Histories\<close>

text \<open>What a client can do to a triplestore.\<close>

datatype ts_op = AddTriple uint64 uint64 uint64 | AddNode uint64 | DeleteEdge uint64

fun ts_apply :: "'b roaring64_ops \<Rightarrow> ts_op \<Rightarrow> 'b triplestore \<Rightarrow> 'b triplestore" where
  "ts_apply R (AddTriple e u v) s = ts_AddTriple R s e u v"
| "ts_apply R (AddNode u) s = ts_AddNode R s u"
| "ts_apply R (DeleteEdge e) s = ts_DeleteEdge R s e"

definition ts_run :: "'b roaring64_ops \<Rightarrow> ts_op list \<Rightarrow> 'b triplestore" where
  "ts_run R ops = fold (ts_apply R) ops (NewTriplestore R)"

fun op_edges :: "ts_op list \<Rightarrow> Edge list" where
  "op_edges [] = []"
| "op_edges (AddTriple e u v # ops) = \<lparr>te_ID = e, te_Start = u, te_End = v\<rparr> # op_edges ops"
| "op_edges (_ # ops) = op_edges ops"

definition op_deleted :: "ts_op list \<Rightarrow> uint64 set" where
  "op_deleted ops = {e. DeleteEdge e \<in> set ops}"

definition op_nodes :: "ts_op list \<Rightarrow> uint64 set" where
  "op_nodes ops = {u. AddNode u \<in> set ops} \<union> te_Start ` set (op_edges ops) \<union> te_End ` set (op_edges ops)"

lemma length_op_edges: "length (op_edges ops) \<le> length ops"
  by (induction ops rule: op_edges.induct) auto

context roaring64
begin

lemma ts_fold_state:
  "ts_inv R s \<Longrightarrow> ts_inv R (fold (ts_apply R) ops s) \<and>
     ts_edges (fold (ts_apply R) ops s) = ts_edges s @ op_edges ops \<and>
     elems R (ts_deletedEdges (fold (ts_apply R) ops s)) = elems R (ts_deletedEdges s) \<union> op_deleted ops \<and>
     elems R (ts_nodes (fold (ts_apply R) ops s)) = elems R (ts_nodes s) \<union> op_nodes ops"
proof (induction ops arbitrary: s)
  case (Cons p ops)
  have "ts_inv R (ts_apply R p s)"
    using Cons.prems ts_inv_AddTriple ts_inv_AddNode ts_inv_DeleteEdge by (cases p) auto
  from Cons.IH [OF this] show ?case
    by (cases p) (auto simp: ts_AddTriple_def ts_AddNode_def ts_DeleteEdge_def op_deleted_def op_nodes_def Let_def)
qed (auto simp: op_deleted_def op_nodes_def)

lemma ts_run_state:
  "ts_inv R (ts_run R ops)" "ts_edges (ts_run R ops) = op_edges ops"
  "elems R (ts_deletedEdges (ts_run R ops)) = op_deleted ops" "elems R (ts_nodes (ts_run R ops)) = op_nodes ops"
  using ts_fold_state [OF ts_inv_New, of ops] by (simp_all add: ts_run_def NewTriplestore_def)

end

section \<open>Properties\<close>

text \<open>The ends of an edge that \<open>adjacent\<close> adds for a direction.\<close>

definition far_ends :: "direction \<Rightarrow> Edge \<Rightarrow> uint64 set" where
  "far_ends dir e = (case dir of DirectionOutbound \<Rightarrow> {te_End e} | DirectionInbound \<Rightarrow> {te_Start e}
     | DirectionBoth \<Rightarrow> {te_Start e, te_End e})"

context roaring64
begin

lemma ts_adjacent_result:
  assumes "ts_inv R s" and "length (ts_edges s) \<le> 2 ^ 64"
  shows "\<exists>b. ts_adjacent R s node dir = Some b \<and>
     elems R b = (\<Union>e \<in> {e \<in> set (ts_edges s). touches node dir e \<and> te_ID e \<notin> elems R (ts_deletedEdges s)}. far_ends dir e)"
proof -
  let ?f = "\<lambda>edge nodes. if bitmap64_Contains R (ts_deletedEdges s) (te_ID edge) then nodes
           else case dir of
             DirectionOutbound \<Rightarrow> bitmap64_Add R nodes [te_End edge]
           | DirectionInbound \<Rightarrow> bitmap64_Add R nodes [te_Start edge]
           | DirectionBoth \<Rightarrow> bitmap64_Add R (bitmap64_Add R nodes [te_End edge]) [te_Start edge]"
  have step: "elems R (?f e b) = elems R b \<union> (if te_ID e \<in> elems R (ts_deletedEdges s) then {} else far_ends dir e)" for e b
    by (cases dir) (auto simp: far_ends_def)
  have "elems R (fold ?f es b) = elems R b \<union> (\<Union>e \<in> {e \<in> set es. te_ID e \<notin> elems R (ts_deletedEdges s)}. far_ends dir e)" for es b
  proof (induction es arbitrary: b)
    case (Cons e es)
    have "elems R (fold ?f (e # es) b) = elems R (fold ?f es (?f e b))" by simp
    also have "\<dots> = elems R (?f e b) \<union> (\<Union>e \<in> {e \<in> set es. te_ID e \<notin> elems R (ts_deletedEdges s)}. far_ends dir e)"
      by (rule Cons.IH)
    finally show ?case unfolding step by auto
  qed simp
  from this [of "filter (touches node dir) (ts_edges s)" "NewBitmap64 R"]
  show ?thesis unfolding ts_adjacent_def each_edge_at_adjacent [OF assms] each_True by simp
qed

end

lemmas op_edges_small = order_trans [OF length_op_edges]

text \<open>C25. Whatever nodes and edges were added and edges deleted before, no index of a triplestore is out of
  range: a node's callback loop over edges sees the added edges that touch the node in the given
  direction, in the order they were added, and the neighbours are the far ends of those of them
  that were not deleted - for both directions the far ends are both ends, so that the node is among
  its own neighbours. \<open>NumNodes\<close> counts the nodes and \<open>NumEdges\<close> all edges ever added.\<close>

theorem triplestore_history:
  assumes "roaring64 R" and "length ops \<le> 2 ^ 64"
  shows "ts_EachAdjacentEdge R (ts_run R ops) node dir delegate st =
       Some (each delegate (filter (touches node dir) (op_edges ops)) st) \<and>
     (\<exists>b. ts_adjacent R (ts_run R ops) node dir = Some b \<and>
       elems R b = (\<Union>e \<in> {e \<in> set (op_edges ops). touches node dir e \<and> te_ID e \<notin> op_deleted ops}. far_ends dir e)) \<and>
     ts_NumNodes R (ts_run R ops) = of_nat (card (op_nodes ops)) \<and>
       ts_NumEdges (ts_run R ops) = of_nat (length (op_edges ops))"
proof -
  note st = roaring64.ts_run_state [OF assms(1), of ops]
  have n: "length (ts_edges (ts_run R ops)) \<le> 2 ^ 64" unfolding st(2) by (rule op_edges_small [OF assms(2)])
  have "ts_EachAdjacentEdge R (ts_run R ops) node dir delegate st =
      Some (each delegate (filter (touches node dir) (op_edges ops)) st)"
    using roaring64.each_edge_at_adjacent [OF assms(1) st(1) n] st(2) by (simp add: ts_EachAdjacentEdge_def)
  moreover have "\<exists>b. ts_adjacent R (ts_run R ops) node dir = Some b \<and>
      elems R b = (\<Union>e \<in> {e \<in> set (op_edges ops). touches node dir e \<and> te_ID e \<notin> op_deleted ops}. far_ends dir e)"
    using roaring64.ts_adjacent_result [OF assms(1) st(1) n, of node dir] unfolding st(2,3) .
  moreover have "ts_NumNodes R (ts_run R ops) = of_nat (card (op_nodes ops)) \<and>
      ts_NumEdges (ts_run R ops) = of_nat (length (op_edges ops))"
    using roaring64.bitmap64_Cardinality_card [OF assms(1)] st(2,4) by (simp add: ts_NumNodes_def ts_NumEdges_def)
  ultimately show ?thesis by blast
qed

text \<open>C26. A projection of a projection of a triplestore shows exactly the edges whose identifier and
  ends were deleted in neither: the loop over all edges, the one over the edges of a node and
  \<open>NumEdges\<close> agree on them, and \<open>NumNodes\<close> counts the nodes that are left.\<close>

theorem projection_hides_deleted:
  assumes "roaring64 R" and "length ops \<le> 2 ^ 64"
    and "p = tp_Projection R (ts_Projection (ts_run R ops) N1 E1) N2 E2"
    and "left = filter (\<lambda>e. te_ID e \<notin> elems R E1 \<union> elems R E2 \<and>
       {te_Start e, te_End e} \<inter> (elems R N1 \<union> elems R N2) = {}) (op_edges ops)"
  shows "tp_EachEdge R p delegate st = each delegate left st \<and>
     tp_EachAdjacentEdge R p node dir delegate st = Some (each delegate (filter (touches node dir) left) st) \<and>
     tp_NumEdges R p = of_nat (length left) \<and>
     tp_NumNodes R p = of_nat (card (op_nodes ops - (elems R N1 \<union> elems R N2)))"
proof -
  note st = roaring64.ts_run_state [OF assms(1), of ops]
  have n: "length (ts_edges (ts_run R ops)) \<le> 2 ^ 64" unfolding st(2) by (rule op_edges_small [OF assms(2)])
  have origin: "tp_origin p = ts_run R ops" by (simp add: assms(3) tp_Projection_def ts_Projection_def)
  have keeps: "tp_keeps R p e \<longleftrightarrow> te_ID e \<notin> elems R E1 \<union> elems R E2 \<and> {te_Start e, te_End e} \<inter> (elems R N1 \<union> elems R N2) = {}" for e
    using roaring64.bitmap64_Contains_iff [OF assms(1)] roaring64.elems_bitmap64_Or [OF assms(1)]
      roaring64.elems_bitmap64_Clone [OF assms(1)]
    by (auto simp: tp_keeps_def assms(3) tp_Projection_def ts_Projection_def)
  have left: "left = filter (tp_keeps R p) (op_edges ops)" unfolding assms(4) keeps ..
  have dn: "bitmap64_Contains R (tp_deletedNodes p) u \<longleftrightarrow> u \<in> elems R N1 \<union> elems R N2" for u
    using roaring64.bitmap64_Contains_iff [OF assms(1)] roaring64.elems_bitmap64_Or [OF assms(1)]
      roaring64.elems_bitmap64_Clone [OF assms(1)]
    by (simp add: assms(3) tp_Projection_def ts_Projection_def)
  have "tp_NumNodes R p = of_nat (length (filter (\<lambda>u. u \<notin> elems R N1 \<union> elems R N2) (rb_ToArray R (ts_nodes (ts_run R ops)))))"
    unfolding tp_NumNodes_def ts_EachNode_def roaring64.bitmap64_Each_ToArray [OF assms(1)] each_True fold_count dn origin by simp
  moreover have "distinct (filter (\<lambda>u. u \<notin> elems R N1 \<union> elems R N2) (rb_ToArray R (ts_nodes (ts_run R ops))))"
    using roaring64.rb_distinct [OF assms(1)] by simp
  then have "length (filter (\<lambda>u. u \<notin> elems R N1 \<union> elems R N2) (rb_ToArray R (ts_nodes (ts_run R ops)))) =
      card (op_nodes ops - (elems R N1 \<union> elems R N2))"
    by (subst distinct_card [symmetric]) (auto simp: st(4) [symmetric] intro!: arg_cong [of _ _ card])
  ultimately have nodes: "tp_NumNodes R p = of_nat (card (op_nodes ops - (elems R N1 \<union> elems R N2)))" by simp
  have "filter (tp_keeps R p) (filter (touches node dir) (op_edges ops)) = filter (touches node dir) left"
    unfolding left by (simp add: conj_commute)
  then have "tp_EachAdjacentEdge R p node dir delegate st = Some (each delegate (filter (touches node dir) left) st)"
    by (simp add: tp_EachAdjacentEdge_def ts_EachAdjacentEdge_def origin each_filter st(2)
        roaring64.each_edge_at_adjacent [OF assms(1) st(1) n] del: filter_filter)
  with nodes show ?thesis
    by (simp add: tp_EachEdge_def tp_NumEdges_def ts_EachEdge_def origin st(2) each_filter fold_count left)
qed

text \<open>A projection delivers as neighbours in both directions the start of every edge of the node: the
  node itself for each edge that leaves it, and never the end of such an edge.\<close>

theorem projection_both_delivers_starts:
  assumes "roaring64 R" and "length ops \<le> 2 ^ 64"
  shows "tp_EachAdjacentNode R (ts_Projection (ts_run R ops) N E) node DirectionBoth delegate st =
     Some (each delegate (map te_Start (filter (\<lambda>e. touches node DirectionBoth e \<and>
       tp_keeps R (ts_Projection (ts_run R ops) N E) e) (op_edges ops))) st)"
proof -
  note st = roaring64.ts_run_state [OF assms(1), of ops]
  have n: "length (ts_edges (ts_run R ops)) \<le> 2 ^ 64" unfolding st(2) by (rule op_edges_small [OF assms(2)])
  let ?p = "ts_Projection (ts_run R ops) N E"
  have origin: "tp_origin ?p = ts_run R ops" by (simp add: ts_Projection_def)
  have "filter (tp_keeps R ?p) (filter (touches node DirectionBoth) (op_edges ops)) =
      filter (\<lambda>e. touches node DirectionBoth e \<and> tp_keeps R ?p e) (op_edges ops)"
    by (simp add: conj_commute)
  then show ?thesis
    by (simp add: roaring64.each_edge_at_adjacent [OF assms(1) st(1) n] st(2) tp_EachAdjacentNode_def tp_EachAdjacentEdge_def ts_EachAdjacentEdge_def origin each_filter Edge_Pick_def
        each_map [where h = te_Start])
qed

text \<open>A history to run the properties on: the edges 10 from 1 to 2, 11 from 2 to 3 (deleted) and 12 from 2 to 1.\<close>

definition example_ops :: "ts_op list" where
  "example_ops = [AddTriple 10 1 2, AddTriple 11 2 3, AddNode 9, DeleteEdge 11, AddTriple 12 2 1]"

lemma example_ops_small: "length example_ops \<le> 2 ^ 64"
  by (simp add: example_ops_def)

theorem triplestore_history_witness:
  "\<exists>b. ts_adjacent list_bitmap (ts_run list_bitmap example_ops) 2 DirectionBoth = Some b \<and> elems list_bitmap b = {1, 2}"
proof -
  have "{e \<in> set (op_edges example_ops). touches 2 DirectionBoth e \<and> te_ID e \<notin> op_deleted example_ops} =
      {\<lparr>te_ID = 10, te_Start = 1, te_End = 2\<rparr>, \<lparr>te_ID = 12, te_Start = 2, te_End = 1\<rparr>}"
    by (auto simp: example_ops_def touches_def op_deleted_def)
  then show ?thesis
    using triplestore_history [OF lbm.roaring64_axioms example_ops_small, of 2 DirectionBoth "\<lambda>_ s. (s, True)" "()"]
    by (auto simp: far_ends_def)
qed

theorem projection_hides_deleted_witness:
  "tp_NumEdges list_bitmap (tp_Projection list_bitmap (ts_Projection (ts_run list_bitmap example_ops) [] [10]) [3] []) = 1"
proof -
  have "elems list_bitmap [] = {}" "elems list_bitmap [10] = {10}" "elems list_bitmap [3] = {3}" by code_simp+
  then show ?thesis
    using projection_hides_deleted [OF lbm.roaring64_axioms example_ops_small refl refl, of "[]" "[10]" "[3]" "[]" "\<lambda>_ s. (s, True)" "()" 0 DirectionBoth]
    by (simp add: example_ops_def)
qed

theorem projection_both_delivers_starts_witness:
  "tp_EachAdjacentNode list_bitmap (ts_Projection (ts_run list_bitmap example_ops) [] []) 1 DirectionBoth
     (\<lambda>u us. (us @ [u], True)) [] = Some [1, 2]"
proof -
  have "elems list_bitmap [] = {}" by code_simp
  then have "tp_keeps list_bitmap (ts_Projection (ts_run list_bitmap example_ops) [] []) e" for e
    by (simp add: tp_keeps_def ts_Projection_def lbm.bitmap64_Contains_iff)
  then show ?thesis
    using projection_both_delivers_starts [OF lbm.roaring64_axioms example_ops_small, of "[]" "[]" 1 "\<lambda>u us. (us @ [u], True)" "[]"]
    by (simp add: example_ops_def touches_def)
qed

end
