(* ===== verification/Ct_Traversal.thy ===== *)
theory Ct_Traversal
  imports Ct_Segment Ct_Triplestore "HOL-Library.Multiset"
begin

text \<open>
  src/container/traversal.go: depth-first and breadth-first enumeration of the paths from a node,
  and the breadth-first variant that keeps only the end of each path.

  The triplestore is given by the edges its \<open>EachAdjacentEdge\<close> delivers. The callbacks are Go closures:
  they read and write a state \<open>'s\<close>. The two path searches differ only in the end of the deque they
  pop.
\<close>

type_synonym adjacent_edges = "uint64 \<Rightarrow> direction \<Rightarrow> Edge list"

record ('q, 's) ts_state =
  tv_traversals :: 'q
  tv_numIncomplete :: int
  tv_state :: 's
  tv_break :: bool

definition depth_exceeded :: "int \<Rightarrow> nat \<Rightarrow> bool" where
  "depth_exceeded maxDepth depth \<longleftrightarrow> maxDepth > 0 \<and> maxDepth < int depth"

definition ts_descend ::
    "('q, Segment) deque_ops \<Rightarrow> direction \<Rightarrow> (Edge \<Rightarrow> 's \<Rightarrow> bool \<times> 's) \<Rightarrow> Segment \<Rightarrow> Edge \<Rightarrow> 'q \<times> 's \<Rightarrow> ('q \<times> 's) \<times> bool" where
  "ts_descend D dir descentFilter nextSegment nextEdge = (\<lambda>(traversals, st).
     case descentFilter nextEdge st of (descend, st') \<Rightarrow>
       ((if descend
         then dq_PushBack D traversals (Segment (Edge_Pick nextEdge dir) (te_ID nextEdge) (Some nextSegment))
         else traversals, st'), True))"

definition ts_round ::
    "('q, Segment) deque_ops \<Rightarrow> ('q \<Rightarrow> (Segment \<times> 'q) option) \<Rightarrow> adjacent_edges \<Rightarrow> direction \<Rightarrow> int \<Rightarrow>
     (Edge \<Rightarrow> 's \<Rightarrow> bool \<times> 's) \<Rightarrow> (Segment \<Rightarrow> 's \<Rightarrow> bool \<times> 's) \<Rightarrow> ('q, 's) ts_state \<Rightarrow> ('q, 's) ts_state option" where
  "ts_round D pop adj dir maxDepth descentFilter handler s =
     (let remainingTraversals = dq_Len D (tv_traversals s) in
      map_option (\<lambda>(nextSegment, traversals).
        let segmentDepth = sg_Depth (Some nextSegment);
            depthExceeded = depth_exceeded maxDepth segmentDepth;
            (traversals', st) =
              (if \<not> depthExceeded
               then each (ts_descend D dir descentFilter nextSegment) (adj (sg_Node nextSegment) dir) (traversals, tv_state s)
               else (traversals, tv_state s))
        in if segmentDepth > 1 \<and> remainingTraversals - 1 = dq_Len D traversals'
           then case handler nextSegment st of (goon, st') \<Rightarrow>
             \<lparr>tv_traversals = traversals',
              tv_numIncomplete = (if depthExceeded then tv_numIncomplete s + 1 else tv_numIncomplete s),
              tv_state = st', tv_break = \<not> goon\<rparr>
           else \<lparr>tv_traversals = traversals', tv_numIncomplete = tv_numIncomplete s, tv_state = st, tv_break = False\<rparr>)
        (pop (tv_traversals s)))"

definition ts_search ::
    "('q, Segment) deque_ops \<Rightarrow> ('q \<Rightarrow> (Segment \<times> 'q) option) \<Rightarrow> adjacent_edges \<Rightarrow> uint64 \<Rightarrow> direction \<Rightarrow> int \<Rightarrow>
     (Edge \<Rightarrow> 's \<Rightarrow> bool \<times> 's) \<Rightarrow> (Segment \<Rightarrow> 's \<Rightarrow> bool \<times> 's) \<Rightarrow> 's \<Rightarrow> (int \<times> 's) option" where
  "ts_search D pop adj nodeID dir maxDepth descentFilter handler st =
     map_option (\<lambda>t. (tv_numIncomplete t, tv_state t))
       (loop (\<lambda>t. \<not> tv_break t \<and> dq_Len D (tv_traversals t) > 0)
         (ts_round D pop adj dir maxDepth descentFilter handler)
         \<lparr>tv_traversals = dq_PushBack D (dq_New D) (Segment nodeID 0 None), tv_numIncomplete = 0,
          tv_state = st, tv_break = False\<rparr>)"

definition TSDFS ::
    "('q, Segment) deque_ops \<Rightarrow> adjacent_edges \<Rightarrow> uint64 \<Rightarrow> direction \<Rightarrow> int \<Rightarrow>
     (Edge \<Rightarrow> 's \<Rightarrow> bool \<times> 's) \<Rightarrow> (Segment \<Rightarrow> 's \<Rightarrow> bool \<times> 's) \<Rightarrow> 's \<Rightarrow> (int \<times> 's) option" where
  "TSDFS D = ts_search D (dq_PopBack D)"

definition TSBFS ::
    "('q, Segment) deque_ops \<Rightarrow> adjacent_edges \<Rightarrow> uint64 \<Rightarrow> direction \<Rightarrow> int \<Rightarrow>
     (Edge \<Rightarrow> 's \<Rightarrow> bool \<times> 's) \<Rightarrow> (Segment \<Rightarrow> 's \<Rightarrow> bool \<times> 's) \<Rightarrow> 's \<Rightarrow> (int \<times> 's) option" where
  "TSBFS D = ts_search D (dq_PopFront D)"

text \<open>The search that keeps only path ends. The weights are floating point numbers; the code only
  multiplies them. Its last argument, the number of workers, is never read.\<close>

definition stateless_descend ::
    "('q, 'w::times PathTerminal) deque_ops \<Rightarrow> direction \<Rightarrow> (Edge \<Rightarrow> 's \<Rightarrow> 'w \<times> bool \<times> 's) \<Rightarrow> 'w PathTerminal \<Rightarrow> Edge \<Rightarrow>
     'q \<times> bool \<times> 's \<Rightarrow> ('q \<times> bool \<times> 's) \<times> bool" where
  "stateless_descend D dir descentFilter nextSegment nextEdge = (\<lambda>(traversals, hasExpansions, st).
     case descentFilter nextEdge st of (weight, shouldDescend, st') \<Rightarrow>
       if shouldDescend
       then ((dq_PushBack D traversals
           \<lparr>pt_Node = Edge_Pick nextEdge dir,
            pt_Weight = (if pt_Distance nextSegment > 0 then weight * pt_Weight nextSegment else weight),
            pt_Distance = pt_Distance nextSegment + 1\<rparr>, True, st'), True)
       else ((traversals, hasExpansions, st'), True))"

definition stateless_round ::
    "('q, 'w::times PathTerminal) deque_ops \<Rightarrow> adjacent_edges \<Rightarrow> direction \<Rightarrow> int \<Rightarrow>
     (Edge \<Rightarrow> 's \<Rightarrow> 'w \<times> bool \<times> 's) \<Rightarrow> ('w PathTerminal \<Rightarrow> 's \<Rightarrow> bool \<times> 's) \<Rightarrow> ('q, 's) ts_state \<Rightarrow> ('q, 's) ts_state option" where
  "stateless_round D adj dir maxDepth descentFilter terminalHandler s =
     map_option (\<lambda>(nextSegment, traversals).
       let depthExceeded = depth_exceeded maxDepth (pt_Distance nextSegment);
           (traversals', hasExpansions, st) =
             (if \<not> depthExceeded
              then each (stateless_descend D dir descentFilter nextSegment) (adj (pt_Node nextSegment) dir) (traversals, False, tv_state s)
              else (traversals, False, tv_state s))
       in if pt_Distance nextSegment \<ge> 1 \<and> \<not> hasExpansions
          then case terminalHandler nextSegment st of (goon, st') \<Rightarrow>
            \<lparr>tv_traversals = traversals',
             tv_numIncomplete = (if depthExceeded then tv_numIncomplete s + 1 else tv_numIncomplete s),
             tv_state = st', tv_break = \<not> goon\<rparr>
          else \<lparr>tv_traversals = traversals', tv_numIncomplete = tv_numIncomplete s, tv_state = st, tv_break = False\<rparr>)
       (dq_PopFront D (tv_traversals s))"

definition TSStatelessBFS ::
    "('q, 'w::{times,zero} PathTerminal) deque_ops \<Rightarrow> adjacent_edges \<Rightarrow> uint64 \<Rightarrow> direction \<Rightarrow> int \<Rightarrow>
     (Edge \<Rightarrow> 's \<Rightarrow> 'w \<times> bool \<times> 's) \<Rightarrow> ('w PathTerminal \<Rightarrow> 's \<Rightarrow> bool \<times> 's) \<Rightarrow> 's \<Rightarrow> (int \<times> 's) option" where
  "TSStatelessBFS D adj rootNode dir maxDepth descentFilter terminalHandler st =
     map_option (\<lambda>t. (tv_numIncomplete t, tv_state t))
       (loop (\<lambda>t. \<not> tv_break t \<and> dq_Len D (tv_traversals t) > 0)
         (stateless_round D adj dir maxDepth descentFilter terminalHandler)
         \<lparr>tv_traversals = dq_PushBack D (dq_New D) \<lparr>pt_Node = rootNode, pt_Weight = 0, pt_Distance = 0\<rparr>,
          tv_numIncomplete = 0, tv_state = st, tv_break = False\<rparr>)"

section \<open>One round\<close>

lemma sg_Depth_Segment [simp]: "sg_Depth (Some (Segment n e p)) = Suc (sg_Depth p)" "sg_Depth None = 0"
  by (simp_all add: sg_Depth_length)

text \<open>The segments a round adds, with the state the filter leaves.\<close>

fun ts_children :: "direction \<Rightarrow> (Edge \<Rightarrow> 's \<Rightarrow> bool \<times> 's) \<Rightarrow> Segment \<Rightarrow> Edge list \<Rightarrow> 's \<Rightarrow> Segment list \<times> 's" where
  "ts_children dir f seg [] st = ([], st)"
| "ts_children dir f seg (e # es) st = (case f e st of (descend, st') \<Rightarrow>
     (case ts_children dir f seg es st' of (cs, st'') \<Rightarrow>
       (if descend then Segment (Edge_Pick e dir) (te_ID e) (Some seg) # cs else cs, st'')))"

lemma ts_children_depth:
  "c \<in> set (fst (ts_children dir f seg es st)) \<Longrightarrow> sg_Depth (Some c) = Suc (sg_Depth (Some seg))"
proof (induction es arbitrary: st)
  case (Cons e es)
  obtain ok st' where "f e st = (ok, st')" by fastforce
  with Cons show ?case by (auto simp: case_prod_unfold split: if_splits)
qed simp

definition ts_expand ::
    "adjacent_edges \<Rightarrow> direction \<Rightarrow> int \<Rightarrow> (Edge \<Rightarrow> 's \<Rightarrow> bool \<times> 's) \<Rightarrow> Segment \<Rightarrow> 's \<Rightarrow> Segment list \<times> 's" where
  "ts_expand adj dir maxDepth f seg st =
     (if depth_exceeded maxDepth (sg_Depth (Some seg)) then ([], st)
      else ts_children dir f seg (adj (sg_Node seg) dir) st)"

lemma ts_descend_each:
  "each (ts_descend D dir f seg) es (q, st) =
     (fold (\<lambda>x q. dq_PushBack D q x) (fst (ts_children dir f seg es st)) q, snd (ts_children dir f seg es st))"
proof (induction es arbitrary: q st)
  case (Cons e es)
  obtain ok st' where "f e st = (ok, st')" by fastforce
  with Cons.IH show ?case by (simp add: ts_descend_def case_prod_unfold)
qed simp

text \<open>A round pops a segment and appends its children; a segment without any is reported, unless it is the root.\<close>

lemma ts_round_result:
  assumes D: "deque D items" and pop: "pop (tv_traversals s) = Some (seg, q1)"
    and len: "length (items (tv_traversals s)) = Suc (length (items q1))"
    and ex: "ts_expand adj dir maxDepth f seg (tv_state s) = (cs, st)"
  obtains t where "ts_round D pop adj dir maxDepth f h s = Some t" "items (tv_traversals t) = items q1 @ cs"
    "if sg_Depth (Some seg) > 1 \<and> cs = []
     then tv_state t = snd (h seg st) \<and> (tv_break t \<longleftrightarrow> \<not> fst (h seg st)) \<and>
       tv_numIncomplete t = (if depth_exceeded maxDepth (sg_Depth (Some seg)) then tv_numIncomplete s + 1 else tv_numIncomplete s)
     else tv_state t = st \<and> \<not> tv_break t \<and> tv_numIncomplete t = tv_numIncomplete s"
proof -
  let ?q2 = "fold (\<lambda>x q. dq_PushBack D q x) cs q1"
  have it: "items ?q2 = items q1 @ cs" by (rule deque.items_fold_PushBack [OF D])
  have e: "(if \<not> depth_exceeded maxDepth (sg_Depth (Some seg))
      then each (ts_descend D dir f seg) (adj (sg_Node seg) dir) (q1, tv_state s) else (q1, tv_state s)) = (?q2, st)"
    using ex by (auto simp: ts_expand_def ts_descend_each split: if_splits)
  have l: "dq_Len D (tv_traversals s) - 1 = dq_Len D ?q2 \<longleftrightarrow> cs = []"
    using len it by (simp add: deque.dq_Len_items [OF D])
  show thesis
    by (rule that [of "the (ts_round D pop adj dir maxDepth f h s)"])
      (use pop e l it in \<open>auto simp: ts_round_def Let_def split: prod.splits\<close>)
qed

section \<open>Termination\<close>

text \<open>How many more edges may follow a segment. Children have one less than the segment they extend.\<close>

definition ts_limit :: "int \<Rightarrow> Segment \<Rightarrow> nat" where
  "ts_limit maxDepth seg = nat (maxDepth + 1) - sg_Depth (Some seg)"

lemma ts_expand_limit:
  assumes "maxDepth > 0" and "ts_expand adj dir maxDepth f seg st = (cs, st')" and "c \<in> set cs"
  shows "ts_limit maxDepth seg = Suc (ts_limit maxDepth c)"
  using assms ts_children_depth [of c dir f seg "adj (sg_Node seg) dir" st]
  by (auto simp: ts_expand_def ts_limit_def depth_exceeded_def split: if_splits)

definition ts_rel :: "('q \<Rightarrow> Segment list) \<Rightarrow> int \<Rightarrow> (('q, 's) ts_state \<times> ('q, 's) ts_state) set" where
  "ts_rel items maxDepth = inv_image (mult less_than) (\<lambda>s. mset (map (ts_limit maxDepth) (items (tv_traversals s))))"

lemma wf_ts_rel: "wf (ts_rel items maxDepth)"
  unfolding ts_rel_def by (intro wf_inv_image wf_mult wf_less_than)

lemma ts_relI:
  assumes "mset (items (tv_traversals s)) = add_mset seg (mset xs)" and "mset (items (tv_traversals t)) = mset xs + mset cs"
    and "\<forall>c \<in> set cs. ts_limit maxDepth seg = Suc (ts_limit maxDepth c)"
  shows "(t, s) \<in> ts_rel items maxDepth"
proof -
  let ?l = "ts_limit maxDepth"
  have "(image_mset ?l (mset xs) + image_mset ?l (mset cs), image_mset ?l (mset xs) + {#?l seg#}) \<in> mult less_than"
    by (rule one_step_implies_mult) (use assms(3) in auto)
  then show ?thesis by (simp add: ts_rel_def assms(1,2))
qed

text \<open>Both ways to pop take a segment and leave the others.\<close>

definition pops :: "('q \<Rightarrow> Segment list) \<Rightarrow> ('q \<Rightarrow> (Segment \<times> 'q) option) \<Rightarrow> bool" where
  "pops items pop \<longleftrightarrow> (\<forall>q. items q \<noteq> [] \<longrightarrow> (\<exists>seg q1. pop q = Some (seg, q1) \<and> mset (items q) = add_mset seg (mset (items q1))))"

lemma deque_pops:
  assumes "deque D items"
  shows "pops items (dq_PopBack D)" "pops items (dq_PopFront D)"
proof -
  show "pops items (dq_PopBack D)"
    unfolding pops_def
  proof (intro allI impI)
    fix q assume "items q \<noteq> []"
    then have "0 < dq_Len D q" by (simp add: deque.dq_Len_items [OF assms])
    then obtain x q1 where "dq_PopBack D q = Some (x, q1)" "items q = items q1 @ [x]"
      by (rule deque.PopBack_nonempty [OF assms])
    then show "\<exists>seg q1. dq_PopBack D q = Some (seg, q1) \<and> mset (items q) = add_mset seg (mset (items q1))" by simp
  qed
  show "pops items (dq_PopFront D)"
    unfolding pops_def
  proof (intro allI impI)
    fix q assume "items q \<noteq> []"
    then have "0 < dq_Len D q" by (simp add: deque.dq_Len_items [OF assms])
    then obtain x q1 where "dq_PopFront D q = Some (x, q1)" "items q = x # items q1"
      by (rule deque.PopFront_nonempty [OF assms])
    then show "\<exists>seg q1. dq_PopFront D q = Some (seg, q1) \<and> mset (items q) = add_mset seg (mset (items q1))" by simp
  qed
qed

lemma ts_search_terminates:
  fixes D :: "('q, Segment) deque_ops" and st :: 's
  assumes D: "deque D items" and pop: "pops items pop" and "maxDepth > 0"
  shows "\<exists>r. ts_search D pop adj node dir maxDepth f h st = Some r"
proof -
  let ?s = "\<lparr>tv_traversals = dq_PushBack D (dq_New D) (Segment node 0 None), tv_numIncomplete = 0, tv_state = st, tv_break = False\<rparr>"
  have "\<exists>t. loop (\<lambda>t. \<not> tv_break t \<and> dq_Len D (tv_traversals t) > 0) (ts_round D pop adj dir maxDepth f h) ?s = Some t \<and>
      True \<and> \<not> (\<not> tv_break t \<and> dq_Len D (tv_traversals t) > 0)"
  proof (rule loop_total [OF wf_ts_rel [of items maxDepth]])
    fix s :: "('q, 's) ts_state"
    assume "\<not> tv_break s \<and> dq_Len D (tv_traversals s) > 0"
    then have "items (tv_traversals s) \<noteq> []" by (simp add: deque.dq_Len_items [OF D])
    with pop obtain seg q1 where p: "pop (tv_traversals s) = Some (seg, q1)"
      "mset (items (tv_traversals s)) = add_mset seg (mset (items q1))" unfolding pops_def by blast
    from arg_cong [OF p(2), of size] have len: "length (items (tv_traversals s)) = Suc (length (items q1))" by simp
    obtain cs st' where ex: "ts_expand adj dir maxDepth f seg (tv_state s) = (cs, st')" by fastforce
    obtain t where t: "ts_round D pop adj dir maxDepth f h s = Some t" "items (tv_traversals t) = items q1 @ cs"
      by (rule ts_round_result [where pop = pop, OF D p(1) len ex])
    moreover have "(t, s) \<in> ts_rel items maxDepth"
      by (rule ts_relI [where items = items, OF p(2)]) (use t(2) ts_expand_limit [OF assms(3) ex] in auto)
    ultimately show "\<exists>t. ts_round D pop adj dir maxDepth f h s = Some t \<and> True \<and> (t, s) \<in> ts_rel items maxDepth" by blast
  qed simp
  then show ?thesis by (auto simp: ts_search_def)
qed

text \<open>C27. With a positive depth limit \<open>TSDFS\<close> and \<open>TSBFS\<close> terminate on every graph, cyclic or not, for arbitrary filters
  and handlers with state.\<close>

theorem TS_searches_terminate:
  assumes "deque D items" and "maxDepth > 0"
  shows "(\<exists>r. TSDFS D adj node dir maxDepth descentFilter handler st = Some r) \<and>
     (\<exists>r. TSBFS D adj node dir maxDepth descentFilter handler st = Some r)"
  unfolding TSDFS_def TSBFS_def
  using ts_search_terminates [OF assms(1) deque_pops(1) [OF assms(1)] assms(2)]
    ts_search_terminates [OF assms(1) deque_pops(2) [OF assms(1)] assms(2)] by auto

theorem TS_searches_terminate_witness:
  "\<exists>r. TSDFS list_deque (\<lambda>u dir. [\<lparr>te_ID = 0, te_Start = u, te_End = u\<rparr>]) 7 DirectionOutbound 3
     (\<lambda>_ st. (True, st)) (\<lambda>seg st. (True, st @ [seg])) [] = Some r"
  by (rule conjunct1 [OF TS_searches_terminate [OF ldq.deque_axioms]]) simp

section \<open>The paths found\<close>

text \<open>The leaves of the tree of all paths of at most \<open>n\<close> more edges that the filter admits, last branch first.\<close>

definition ts_branches :: "adjacent_edges \<Rightarrow> direction \<Rightarrow> (Edge \<Rightarrow> bool) \<Rightarrow> Segment \<Rightarrow> Segment list" where
  "ts_branches adj dir f seg =
     map (\<lambda>e. Segment (Edge_Pick e dir) (te_ID e) (Some seg)) (filter f (adj (sg_Node seg) dir))"

fun ts_leaves :: "adjacent_edges \<Rightarrow> direction \<Rightarrow> (Edge \<Rightarrow> bool) \<Rightarrow> nat \<Rightarrow> Segment \<Rightarrow> Segment list" where
  "ts_leaves adj dir f 0 seg = [seg]"
| "ts_leaves adj dir f (Suc n) seg =
     (if ts_branches adj dir f seg = [] then [seg]
      else concat (map (ts_leaves adj dir f n) (rev (ts_branches adj dir f seg))))"

definition ts_reports :: "adjacent_edges \<Rightarrow> direction \<Rightarrow> (Edge \<Rightarrow> bool) \<Rightarrow> int \<Rightarrow> Segment \<Rightarrow> Segment list" where
  "ts_reports adj dir f maxDepth seg =
     filter (\<lambda>s. sg_Depth (Some s) > 1) (ts_leaves adj dir f (ts_limit maxDepth seg) seg)"

lemma ts_children_pure:
  "ts_children dir (\<lambda>e st. (f e, st)) seg es st =
     (map (\<lambda>e. Segment (Edge_Pick e dir) (te_ID e) (Some seg)) (filter f es), st)"
  by (induction es) auto

lemma ts_expand_pure:
  assumes "maxDepth > 0"
  shows "ts_expand adj dir maxDepth (\<lambda>e st. (f e, st)) seg st =
     (if ts_limit maxDepth seg = 0 then [] else ts_branches adj dir f seg, st)"
  using assms by (auto simp: ts_expand_def ts_limit_def depth_exceeded_def ts_children_pure ts_branches_def)

lemma ts_reports_step:
  assumes "maxDepth > 0" and "ts_expand adj dir maxDepth (\<lambda>e st. (f e, st)) seg st = (cs, st')"
  shows "ts_reports adj dir f maxDepth seg =
     (if cs = [] then if sg_Depth (Some seg) > 1 then [seg] else []
      else concat (map (ts_reports adj dir f maxDepth) (rev cs)))"
proof (cases "ts_limit maxDepth seg")
  case 0
  with assms show ?thesis by (auto simp: ts_expand_pure ts_reports_def)
next
  case (Suc n)
  with assms have cs: "cs = ts_branches adj dir f seg" by (simp add: ts_expand_pure)
  have "ts_limit maxDepth c = n" if "c \<in> set cs" for c
    using ts_expand_limit [OF assms that] Suc by simp
  then have "map (ts_reports adj dir f maxDepth) (rev cs) =
      map (\<lambda>c. filter (\<lambda>s. sg_Depth (Some s) > 1) (ts_leaves adj dir f n c)) (rev cs)"
    by (auto simp: ts_reports_def)
  moreover have "ts_reports adj dir f maxDepth seg = (if cs = [] then if sg_Depth (Some seg) > 1 then [seg] else []
      else concat (map (\<lambda>c. filter (\<lambda>s. sg_Depth (Some s) > 1) (ts_leaves adj dir f n c)) (rev cs)))"
    using Suc cs by (simp add: ts_reports_def filter_concat comp_def)
  ultimately show ?thesis by (simp only:)
qed

text \<open>Paths cut off by the limit have one node more than it allows edges.\<close>

definition ts_cut :: "int \<Rightarrow> Segment list \<Rightarrow> int" where
  "ts_cut maxDepth segs = int (length (filter (\<lambda>s. depth_exceeded maxDepth (sg_Depth (Some s))) segs))"

lemma ts_round_collect:
  assumes "maxDepth > 0" and D: "deque D items" and pop: "pop (tv_traversals s) = Some (seg, q1)"
    and len: "length (items (tv_traversals s)) = Suc (length (items q1))"
    and ex: "ts_expand adj dir maxDepth (\<lambda>e st. (f e, st)) seg (tv_state s) = (cs, st)"
    and cut: "tv_numIncomplete s = ts_cut maxDepth (tv_state s)"
  obtains t where "ts_round D pop adj dir maxDepth (\<lambda>e st. (f e, st)) (\<lambda>seg st. (True, st @ [seg])) s = Some t"
    "items (tv_traversals t) = items q1 @ cs" "\<not> tv_break t" "tv_numIncomplete t = ts_cut maxDepth (tv_state t)"
    "tv_state t = tv_state s @ (if cs = [] \<and> sg_Depth (Some seg) > 1 then [seg] else [])"
proof -
  have st: "st = tv_state s" using ex assms(1) by (simp add: ts_expand_pure)
  obtain t where t: "ts_round D pop adj dir maxDepth (\<lambda>e st. (f e, st)) (\<lambda>seg st. (True, st @ [seg])) s = Some t"
    "items (tv_traversals t) = items q1 @ cs"
    "if sg_Depth (Some seg) > 1 \<and> cs = []
     then tv_state t = snd (True, st @ [seg]) \<and> (tv_break t \<longleftrightarrow> \<not> fst (True, st @ [seg])) \<and>
       tv_numIncomplete t = (if depth_exceeded maxDepth (sg_Depth (Some seg)) then tv_numIncomplete s + 1 else tv_numIncomplete s)
     else tv_state t = st \<and> \<not> tv_break t \<and> tv_numIncomplete t = tv_numIncomplete s"
    by (rule ts_round_result [where pop = pop, OF D pop len ex])
  show thesis
    by (rule that [OF t(1,2)]) (use t(3) st cut in \<open>auto simp: ts_cut_def split: if_splits\<close>)
qed

lemma TSDFS_result:
  fixes D :: "('q, Segment) deque_ops"
  assumes D: "deque D items" and "maxDepth > 0"
  shows "TSDFS D adj node dir maxDepth (\<lambda>e st. (f e, st)) (\<lambda>seg st. (True, st @ [seg])) [] =
     Some (ts_cut maxDepth (ts_reports adj dir f maxDepth (Segment node 0 None)), ts_reports adj dir f maxDepth (Segment node 0 None))"
proof -
  let ?b = "\<lambda>t. \<not> tv_break t \<and> dq_Len D (tv_traversals t) > 0"
  let ?c = "ts_round D (dq_PopBack D) adj dir maxDepth (\<lambda>e st. (f e, st)) (\<lambda>seg st. (True, st @ [seg]))"
  let ?s = "\<lparr>tv_traversals = dq_PushBack D (dq_New D) (Segment node 0 None), tv_numIncomplete = 0, tv_state = [], tv_break = False\<rparr>"
  let ?L = "ts_reports adj dir f maxDepth"
  let ?I = "\<lambda>t. \<not> tv_break t \<and> tv_numIncomplete t = ts_cut maxDepth (tv_state t) \<and>
      tv_state t @ concat (map ?L (rev (items (tv_traversals t)))) = ?L (Segment node 0 None)"
  have "\<exists>t. loop ?b ?c ?s = Some t \<and> ?I t \<and> \<not> ?b t"
  proof (rule loop_total [OF wf_ts_rel [of items maxDepth]])
    show "?I ?s" by (simp add: ts_cut_def deque.dq_items_New [OF D] deque.dq_items_PushBack [OF D])
  next
    fix s :: "('q, Segment list) ts_state"
    assume I: "?I s" and b: "?b s"
    from b have "0 < dq_Len D (tv_traversals s)" by simp
    then obtain seg q1 where p: "dq_PopBack D (tv_traversals s) = Some (seg, q1)" "items (tv_traversals s) = items q1 @ [seg]"
      by (rule deque.PopBack_nonempty [OF D])
    then have len: "length (items (tv_traversals s)) = Suc (length (items q1))" by simp
    obtain cs st where ex: "ts_expand adj dir maxDepth (\<lambda>e st. (f e, st)) seg (tv_state s) = (cs, st)" by fastforce
    from I have cut: "tv_numIncomplete s = ts_cut maxDepth (tv_state s)" by simp
    obtain t where t: "?c s = Some t" "items (tv_traversals t) = items q1 @ cs" "\<not> tv_break t"
      "tv_numIncomplete t = ts_cut maxDepth (tv_state t)"
      "tv_state t = tv_state s @ (if cs = [] \<and> sg_Depth (Some seg) > 1 then [seg] else [])"
      by (rule ts_round_collect [where pop = "dq_PopBack D", OF assms(2) D p(1) len ex cut])
    have "(if cs = [] \<and> sg_Depth (Some seg) > 1 then [seg] else []) @ concat (map ?L (rev cs)) = ?L seg"
      unfolding ts_reports_step [OF assms(2) ex] by simp
    then have "tv_state t @ concat (map ?L (rev (items (tv_traversals t)))) =
        tv_state s @ concat (map ?L (rev (items (tv_traversals s))))"
      unfolding t(2,5) p(2) by simp
    then have "?I t" using I t(3,4) by simp
    moreover have "(t, s) \<in> ts_rel items maxDepth"
      by (rule ts_relI [where items = items and seg = seg and xs = "items q1" and cs = cs])
        (use t(2) p(2) ts_expand_limit [OF assms(2) ex] in auto)
    ultimately show "\<exists>t. ?c s = Some t \<and> ?I t \<and> (t, s) \<in> ts_rel items maxDepth" using t(1) by blast
  qed
  then obtain t where t: "loop ?b ?c ?s = Some t" "?I t" "\<not> ?b t" by blast
  then have "items (tv_traversals t) = []" by (simp add: deque.dq_Len_items [OF D])
  with t show ?thesis by (simp add: TSDFS_def ts_search_def)
qed

lemma ts_cut_mset: "mset xs = mset ys \<Longrightarrow> ts_cut maxDepth xs = ts_cut maxDepth ys"
  by (metis ts_cut_def mset_filter size_mset)

lemma TSBFS_result:
  fixes D :: "('q, Segment) deque_ops"
  assumes D: "deque D items" and "maxDepth > 0"
  shows "\<exists>segs. TSBFS D adj node dir maxDepth (\<lambda>e st. (f e, st)) (\<lambda>seg st. (True, st @ [seg])) [] =
       Some (ts_cut maxDepth segs, segs) \<and>
     mset segs = mset (ts_reports adj dir f maxDepth (Segment node 0 None)) \<and> sorted (map (\<lambda>s. sg_Depth (Some s)) segs)"
proof -
  let ?b = "\<lambda>t. \<not> tv_break t \<and> dq_Len D (tv_traversals t) > 0"
  let ?c = "ts_round D (dq_PopFront D) adj dir maxDepth (\<lambda>e st. (f e, st)) (\<lambda>seg st. (True, st @ [seg]))"
  let ?s = "\<lparr>tv_traversals = dq_PushBack D (dq_New D) (Segment node 0 None), tv_numIncomplete = 0, tv_state = [], tv_break = False\<rparr>"
  let ?L = "ts_reports adj dir f maxDepth" and ?d = "\<lambda>s. sg_Depth (Some s)"
  let ?I = "\<lambda>t. \<not> tv_break t \<and> tv_numIncomplete t = ts_cut maxDepth (tv_state t) \<and>
      mset (tv_state t) + (\<Sum>s \<in># mset (items (tv_traversals t)). mset (?L s)) = mset (?L (Segment node 0 None)) \<and>
      sorted (map ?d (tv_state t @ items (tv_traversals t))) \<and>
      (\<forall>x \<in> set (items (tv_traversals t)). ?d x \<le> Suc (?d (hd (items (tv_traversals t)))))"
  have "\<exists>t. loop ?b ?c ?s = Some t \<and> ?I t \<and> \<not> ?b t"
  proof (rule loop_total [OF wf_ts_rel [of items maxDepth]])
    show "?I ?s" by (simp add: ts_cut_def deque.dq_items_New [OF D] deque.dq_items_PushBack [OF D])
  next
    fix s :: "('q, Segment list) ts_state"
    assume I: "?I s" and b: "?b s"
    from b have "0 < dq_Len D (tv_traversals s)" by simp
    then obtain seg q1 where p: "dq_PopFront D (tv_traversals s) = Some (seg, q1)" "items (tv_traversals s) = seg # items q1"
      by (rule deque.PopFront_nonempty [OF D])
    then have len: "length (items (tv_traversals s)) = Suc (length (items q1))" by simp
    obtain cs st where ex: "ts_expand adj dir maxDepth (\<lambda>e st. (f e, st)) seg (tv_state s) = (cs, st)" by fastforce
    from I have cut: "tv_numIncomplete s = ts_cut maxDepth (tv_state s)" by simp
    obtain t where t: "?c s = Some t" "items (tv_traversals t) = items q1 @ cs" "\<not> tv_break t"
      "tv_numIncomplete t = ts_cut maxDepth (tv_state t)"
      "tv_state t = tv_state s @ (if cs = [] \<and> sg_Depth (Some seg) > 1 then [seg] else [])"
      by (rule ts_round_collect [where pop = "dq_PopFront D", OF assms(2) D p(1) len ex cut])
    define X where "X = mset (if cs = [] \<and> sg_Depth (Some seg) > 1 then [seg] else [])"
    have X: "mset (?L seg) = X + (\<Sum>s \<in># mset cs. mset (?L s))"
      unfolding ts_reports_step [OF assms(2) ex] X_def
      by (simp add: mset_concat comp_def sum_mset_sum_list flip: mset_map rev_map)
    have tX: "mset (tv_state t) = mset (tv_state s) + X" by (simp add: t(5) X_def)
    have "mset (tv_state s) + (mset (?L seg) + (\<Sum>s \<in># mset (items q1). mset (?L s))) = mset (?L (Segment node 0 None))"
      using I unfolding p(2) by simp
    then have msum: "mset (tv_state t) + (\<Sum>s \<in># mset (items (tv_traversals t)). mset (?L s)) = mset (?L (Segment node 0 None))"
      unfolding tX X t(2) by (simp add: ac_simps)
    have kids: "?d c = Suc (?d seg)" if "c \<in> set cs" for c
      using that ex ts_children_depth [of c dir "\<lambda>e st. (f e, st)" seg "adj (sg_Node seg) dir" "tv_state s"] by (auto simp: ts_expand_def split: if_splits)
    from I have "sorted (map ?d (tv_state s @ items (tv_traversals s)))"
      "\<forall>x \<in> set (items (tv_traversals s)). ?d x \<le> Suc (?d (hd (items (tv_traversals s))))" by blast+
    then have srt: "sorted (map ?d (tv_state s @ seg # items q1))" and le: "\<forall>x \<in> set (items q1). ?d x \<le> Suc (?d seg)"
      unfolding p(2) by simp_all
    have below: "\<forall>x \<in> set (tv_state s). ?d x \<le> ?d seg" "\<forall>x \<in> set (items q1). ?d seg \<le> ?d x"
      "sorted (map ?d (tv_state s))" "sorted (map ?d (items q1))" "\<forall>x \<in> set (tv_state s). \<forall>y \<in> set (items q1). ?d x \<le> ?d y"
      using srt by (auto simp: sorted_append)
    have "sorted (map ?d cs)" using kids by (simp add: sorted_wrt_map sorted_wrt_iff_nth_less)
    then have "sorted (map ?d (items q1 @ cs))" using below(4) le kids by (simp add: sorted_append)
    moreover have "\<forall>x \<in> set (tv_state s). \<forall>y \<in> set (items q1 @ cs). ?d x \<le> ?d y"
      using below(1,5) kids by (auto intro: le_SucI)
    ultimately have srt': "sorted (map ?d (tv_state t @ items (tv_traversals t)))"
      unfolding t(2,5) using below(1-3) by (auto simp: sorted_append)
    have "\<forall>x \<in> set (items q1 @ cs). ?d x \<le> Suc (?d (hd (items q1 @ cs)))"
    proof (cases "items q1")
      case Nil
      then show ?thesis using kids by (cases cs) auto
    next
      case (Cons y ys)
      with below(2) have "?d seg \<le> ?d y" by simp
      with Cons le kids show ?thesis by (auto intro: order_trans)
    qed
    then have "?I t" using t(3,4) msum srt' unfolding t(2) by blast
    moreover have "(t, s) \<in> ts_rel items maxDepth"
      by (rule ts_relI [where items = items and seg = seg and xs = "items q1" and cs = cs])
        (use t(2) p(2) ts_expand_limit [OF assms(2) ex] in auto)
    ultimately show "\<exists>t. ?c s = Some t \<and> ?I t \<and> (t, s) \<in> ts_rel items maxDepth" using t(1) by blast
  qed
  then obtain t where t: "loop ?b ?c ?s = Some t" "?I t" "\<not> ?b t" by blast
  then have "items (tv_traversals t) = []" by (simp add: deque.dq_Len_items [OF D])
  with t show ?thesis by (simp add: TSBFS_def ts_search_def)
qed

text \<open>C12. With a positive depth limit and a filter on edges, \<open>TSDFS\<close> hands the handler exactly the maximal paths:
  those that no admitted edge extends and those that reach the limit, the paths through later
  edges of a node first. \<open>TSBFS\<close> hands it the same paths, each as often, shorter ones first. Both
  return how many of them were cut off by the limit.\<close>

theorem TS_searches_report_paths:
  assumes "deque D items" and "maxDepth > 0" and "paths = ts_reports adj dir f maxDepth (Segment node 0 None)"
  shows "TSDFS D adj node dir maxDepth (\<lambda>e st. (f e, st)) (\<lambda>seg st. (True, st @ [seg])) [] = Some (ts_cut maxDepth paths, paths) \<and>
     (\<exists>segs. TSBFS D adj node dir maxDepth (\<lambda>e st. (f e, st)) (\<lambda>seg st. (True, st @ [seg])) [] = Some (ts_cut maxDepth paths, segs) \<and>
       mset segs = mset paths \<and> sorted (map (\<lambda>s. sg_Depth (Some s)) segs))"
  using TSDFS_result [OF assms(1,2)] TSBFS_result [OF assms(1,2), of adj node dir f] ts_cut_mset assms(3) by metis

definition diamond_edges :: adjacent_edges where
  "diamond_edges u dir = (if u = 1 then [\<lparr>te_ID = 12, te_Start = 1, te_End = 2\<rparr>, \<lparr>te_ID = 13, te_Start = 1, te_End = 3\<rparr>]
     else if u = 2 then [\<lparr>te_ID = 24, te_Start = 2, te_End = 4\<rparr>] else [])"

theorem TS_searches_report_paths_witness:
  "\<exists>segs. TSBFS list_deque diamond_edges 1 DirectionOutbound 5 (\<lambda>e st. (te_ID e \<noteq> 0, st)) (\<lambda>seg st. (True, st @ [seg])) [] = Some (0, segs) \<and>
     mset (map sg_Node segs) = {#3, 4#}"
proof -
  let ?p = "ts_reports diamond_edges DirectionOutbound (\<lambda>e. te_ID e \<noteq> 0) 5 (Segment 1 0 None)"
  have p: "?p = [Segment 3 13 (Some (Segment 1 0 None)), Segment 4 24 (Some (Segment 2 12 (Some (Segment 1 0 None))))]" by code_simp
  have c: "ts_cut 5 [Segment 3 13 (Some (Segment 1 0 None)), Segment 4 24 (Some (Segment 2 12 (Some (Segment 1 0 None))))] = 0"
    by code_simp
  obtain segs where "TSBFS list_deque diamond_edges 1 DirectionOutbound 5 (\<lambda>e st. (te_ID e \<noteq> 0, st)) (\<lambda>seg st. (True, st @ [seg])) [] = Some (ts_cut 5 ?p, segs)"
    "mset segs = mset ?p"
    using TS_searches_report_paths [OF ldq.deque_axioms _ refl, of 5 diamond_edges 1 DirectionOutbound "\<lambda>e. te_ID e \<noteq> 0"] by auto
  then show ?thesis unfolding p c by (intro exI [of _ segs]) simp
qed

section \<open>The stateless search\<close>

text \<open>What both breadth-first searches keep of a path: its end and its length.\<close>

definition path_end :: "Segment \<Rightarrow> uint64 \<times> nat" where
  "path_end seg = (sg_Node seg, sg_Depth (Some seg) - 1)"

definition terminal_end :: "'w PathTerminal \<Rightarrow> uint64 \<times> nat" where
  "terminal_end t = (pt_Node t, pt_Distance t)"

lemma stateless_children:
  assumes D: "deque D items" and E: "deque E eitems" and "terminal_end t = path_end seg"
  shows "\<exists>ts q' g. each (stateless_descend E dir (\<lambda>e st. (w e st, f e st)) t) es (q, b, st) = (q', g, snd (ts_children dir f seg es st)) \<and>
     eitems q' = eitems q @ ts \<and> (g \<longleftrightarrow> b \<or> ts \<noteq> []) \<and>
     map terminal_end ts = map path_end (fst (ts_children dir f seg es st))"
proof (induction es arbitrary: q b st)
  case (Cons e es)
  obtain ok st' where f: "f e st = (ok, st')" by fastforce
  show ?case
  proof (cases ok)
    case False
    with Cons.IH [of q b st'] f show ?thesis by (simp add: stateless_descend_def case_prod_unfold)
  next
    case True
    let ?t = "\<lparr>pt_Node = Edge_Pick e dir, pt_Weight = (if pt_Distance t > 0 then w e st * pt_Weight t else w e st),
        pt_Distance = pt_Distance t + 1\<rparr>"
    have "0 < sg_Depth (Some seg)" by (cases seg) simp
    then have te: "terminal_end ?t = path_end (Segment (Edge_Pick e dir) (te_ID e) (Some seg))"
      using assms(3) by (simp add: terminal_end_def path_end_def)
    obtain ts q' g where r: "each (stateless_descend E dir (\<lambda>e st. (w e st, f e st)) t) es (dq_PushBack E q ?t, True, st') =
        (q', g, snd (ts_children dir f seg es st'))" "eitems q' = eitems (dq_PushBack E q ?t) @ ts" "g"
      "map terminal_end ts = map path_end (fst (ts_children dir f seg es st'))"
      using Cons.IH [of "dq_PushBack E q ?t" True st'] by blast
    have "each (stateless_descend E dir (\<lambda>e st. (w e st, f e st)) t) (e # es) (q, b, st) = (q', g, snd (ts_children dir f seg (e # es) st))"
      using r(1) f True by (cases "pt_Distance t") (simp_all add: stateless_descend_def case_prod_unfold)
    moreover have "eitems q' = eitems q @ (?t # ts)" using r(2) by (simp add: deque.dq_items_PushBack [OF E])
    moreover have "map terminal_end (?t # ts) = map path_end (fst (ts_children dir f seg (e # es) st))"
      using r(4) te f True by (simp add: case_prod_unfold)
    ultimately show ?thesis using r(3) by blast
  qed
qed simp

text \<open>The states of the two searches correspond.\<close>

definition stateless_rel ::
    "('q \<Rightarrow> Segment list) \<Rightarrow> ('p \<Rightarrow> 'w PathTerminal list) \<Rightarrow> ('q, 's) ts_state \<Rightarrow> ('p, 's) ts_state \<Rightarrow> bool" where
  "stateless_rel items eitems s t \<longleftrightarrow> map terminal_end (eitems (tv_traversals t)) = map path_end (items (tv_traversals s)) \<and>
     tv_numIncomplete t = tv_numIncomplete s \<and> tv_state t = tv_state s \<and> tv_break t = tv_break s"

lemma stateless_round_sim:
  fixes D :: "('q, Segment) deque_ops" and E :: "('p, 'w::times PathTerminal) deque_ops" and s :: "('q, 's) ts_state" and t :: "('p, 's) ts_state"
  assumes D: "deque D items" and E: "deque E eitems" and "maxDepth > 0" and rel: "stateless_rel items eitems s t"
    and ne: "items (tv_traversals s) \<noteq> []"
  shows "\<exists>u u'. ts_round D (dq_PopFront D) adj dir (maxDepth + 1) f (\<lambda>seg. h (path_end seg)) s = Some u \<and>
     stateless_round E adj dir maxDepth (\<lambda>e st. (w e st, f e st)) (\<lambda>x. h (terminal_end x)) t = Some u' \<and>
     stateless_rel items eitems u u' \<and> (u, s) \<in> ts_rel items (maxDepth + 1)"
proof -
  from ne have "0 < dq_Len D (tv_traversals s)" by (simp add: deque.dq_Len_items [OF D])
  then obtain seg q1 where p: "dq_PopFront D (tv_traversals s) = Some (seg, q1)" "items (tv_traversals s) = seg # items q1"
    by (rule deque.PopFront_nonempty [OF D])
  have "eitems (tv_traversals t) \<noteq> []" using rel ne by (auto simp: stateless_rel_def)
  then have "0 < dq_Len E (tv_traversals t)" by (simp add: deque.dq_Len_items [OF E])
  then obtain x q2 where x: "dq_PopFront E (tv_traversals t) = Some (x, q2)" "eitems (tv_traversals t) = x # eitems q2"
    by (rule deque.PopFront_nonempty [OF E])
  have xe: "terminal_end x = path_end seg" "map terminal_end (eitems q2) = map path_end (items q1)"
    using rel p(2) x(2) by (simp_all add: stateless_rel_def)
  then have node: "pt_Node x = sg_Node seg" "pt_Distance x = sg_Depth (Some seg) - 1"
    by (simp_all add: terminal_end_def path_end_def)
  have pos: "0 < sg_Depth (Some seg)" by (cases seg) simp
  have exc: "depth_exceeded maxDepth (pt_Distance x) \<longleftrightarrow> depth_exceeded (maxDepth + 1) (sg_Depth (Some seg))"
    using node(2) pos assms(3) by (auto simp: depth_exceeded_def)
  have len: "length (items (tv_traversals s)) = Suc (length (items q1))" using p(2) by simp
  obtain cs st where ex: "ts_expand adj dir (maxDepth + 1) f seg (tv_state s) = (cs, st)" by fastforce
  obtain u where u: "ts_round D (dq_PopFront D) adj dir (maxDepth + 1) f (\<lambda>seg. h (path_end seg)) s = Some u"
    "items (tv_traversals u) = items q1 @ cs"
    "if sg_Depth (Some seg) > 1 \<and> cs = []
     then tv_state u = snd (h (path_end seg) st) \<and> (tv_break u \<longleftrightarrow> \<not> fst (h (path_end seg) st)) \<and>
       tv_numIncomplete u = (if depth_exceeded (maxDepth + 1) (sg_Depth (Some seg)) then tv_numIncomplete s + 1 else tv_numIncomplete s)
     else tv_state u = st \<and> \<not> tv_break u \<and> tv_numIncomplete u = tv_numIncomplete s"
    by (rule ts_round_result [where pop = "dq_PopFront D", OF D p(1) len ex])
  have st: "tv_state t = tv_state s" "tv_numIncomplete t = tv_numIncomplete s" using rel by (simp_all add: stateless_rel_def)
  obtain ts q' g where kids: "(if \<not> depth_exceeded maxDepth (pt_Distance x)
      then each (stateless_descend E dir (\<lambda>e st. (w e st, f e st)) x) (adj (pt_Node x) dir) (q2, False, tv_state t)
      else (q2, False, tv_state t)) = (q', g, st)" "eitems q' = eitems q2 @ ts" "g \<longleftrightarrow> ts \<noteq> []" "map terminal_end ts = map path_end cs"
  proof (cases "depth_exceeded maxDepth (pt_Distance x)")
    case True
    then show thesis using that [of q2 False "[]"] ex exc st by (simp add: ts_expand_def)
  next
    case False
    then have "ts_children dir f seg (adj (pt_Node x) dir) (tv_state t) = (cs, st)"
      using ex exc st node by (simp add: ts_expand_def)
    then show thesis
      using stateless_children [OF D E xe(1), of dir w f "adj (pt_Node x) dir" q2 False "tv_state t"] that False by auto
  qed
  have ts: "ts = [] \<longleftrightarrow> cs = []" using kids(4) by (metis map_is_Nil_conv)
  define u' where "u' = (if pt_Distance x \<ge> 1 \<and> \<not> g
      then case h (terminal_end x) st of (goon, st') \<Rightarrow> \<lparr>tv_traversals = q',
        tv_numIncomplete = (if depth_exceeded maxDepth (pt_Distance x) then tv_numIncomplete t + 1 else tv_numIncomplete t),
        tv_state = st', tv_break = \<not> goon\<rparr>
      else \<lparr>tv_traversals = q', tv_numIncomplete = tv_numIncomplete t, tv_state = st, tv_break = False\<rparr>)"
  have "stateless_round E adj dir maxDepth (\<lambda>e st. (w e st, f e st)) (\<lambda>x. h (terminal_end x)) t = Some u'"
    using x(1) kids(1) by (simp add: stateless_round_def u'_def Let_def)
  moreover have "pt_Distance x \<ge> 1 \<and> \<not> g \<longleftrightarrow> sg_Depth (Some seg) > 1 \<and> cs = []"
    using node(2) kids(3) ts by auto
  then have "stateless_rel items eitems u u'"
    using u(2,3) kids(2,4) xe exc st by (auto simp: stateless_rel_def u'_def split: prod.splits)
  moreover have "(u, s) \<in> ts_rel items (maxDepth + 1)"
    by (rule ts_relI [where items = items and seg = seg and xs = "items q1" and cs = cs])
      (use u(2) p(2) assms(3) ts_expand_limit [OF _ ex] in auto)
  ultimately show ?thesis using u(1) by blast
qed

text \<open>\<open>TSStatelessBFS\<close> with a positive limit on the distance behaves as \<open>TSBFS\<close> with a limit one larger: both
  terminate, call the filter and the handler in the same order with the same ends and lengths
  of paths, so that a handler that only looks at those leaves the same state, and return the
  same number of paths cut off.\<close>

theorem TSStatelessBFS_follows_TSBFS:
  fixes D :: "('q, Segment) deque_ops" and E :: "('p, 'w::{times,zero} PathTerminal) deque_ops" and st :: 's
  assumes "deque D items" and "deque E eitems" and "maxDepth > 0"
  shows "\<exists>r. TSBFS D adj node dir (maxDepth + 1) f (\<lambda>seg. h (path_end seg)) st = Some r \<and>
     TSStatelessBFS E adj node dir maxDepth (\<lambda>e st. (w e st, f e st)) (\<lambda>t. h (terminal_end t)) st = Some r"
proof -
  let ?s = "\<lparr>tv_traversals = dq_PushBack D (dq_New D) (Segment node 0 None), tv_numIncomplete = 0, tv_state = st, tv_break = False\<rparr>"
  let ?t = "\<lparr>tv_traversals = dq_PushBack E (dq_New E) \<lparr>pt_Node = node, pt_Weight = 0, pt_Distance = 0\<rparr>,
      tv_numIncomplete = 0, tv_state = st, tv_break = False\<rparr>"
  note sim = stateless_round_sim [OF assms, where adj = adj and dir = dir and f = f and h = h and w = w]
  have "\<exists>t t'. loop (\<lambda>t. \<not> tv_break t \<and> dq_Len D (tv_traversals t) > 0)
        (ts_round D (dq_PopFront D) adj dir (maxDepth + 1) f (\<lambda>seg. h (path_end seg))) ?s = Some t \<and>
      loop (\<lambda>t. \<not> tv_break t \<and> dq_Len E (tv_traversals t) > 0)
        (stateless_round E adj dir maxDepth (\<lambda>e st. (w e st, f e st)) (\<lambda>x. h (terminal_end x))) ?t = Some t' \<and>
      stateless_rel items eitems t t' \<and> \<not> (\<not> tv_break t \<and> dq_Len D (tv_traversals t) > 0)"
  proof (rule loop_sim_total [OF wf_ts_rel [of items "maxDepth + 1"]])
    show "stateless_rel items eitems ?s ?t"
      by (simp add: stateless_rel_def terminal_end_def path_end_def deque.dq_items_New [OF assms(1)]
          deque.dq_items_PushBack [OF assms(1)] deque.dq_items_New [OF assms(2)] deque.dq_items_PushBack [OF assms(2)])
  next
    fix s :: "('q, 's) ts_state" and t :: "('p, 's) ts_state"
    assume rel: "stateless_rel items eitems s t"
    have len: "dq_Len E (tv_traversals t) = dq_Len D (tv_traversals s)" and br: "tv_break t = tv_break s"
      using rel arg_cong [of _ _ length] by (auto simp: stateless_rel_def deque.dq_Len_items [OF assms(1)] deque.dq_Len_items [OF assms(2)] dest!: arg_cong [of _ _ length])
    show "\<not> (\<not> tv_break t \<and> dq_Len E (tv_traversals t) > 0)" if "\<not> (\<not> tv_break s \<and> dq_Len D (tv_traversals s) > 0)"
      using that len br by simp
    show "(\<not> tv_break t \<and> dq_Len E (tv_traversals t) > 0) \<and>
        (\<exists>u u'. ts_round D (dq_PopFront D) adj dir (maxDepth + 1) f (\<lambda>seg. h (path_end seg)) s = Some u \<and>
          stateless_round E adj dir maxDepth (\<lambda>e st. (w e st, f e st)) (\<lambda>x. h (terminal_end x)) t = Some u' \<and>
          stateless_rel items eitems u u' \<and> (u, s) \<in> ts_rel items (maxDepth + 1))"
      if "\<not> tv_break s \<and> dq_Len D (tv_traversals s) > 0"
      using that len br sim [OF rel] by (simp add: deque.dq_Len_items [OF assms(1)])
  qed
  then show ?thesis by (auto simp: TSBFS_def ts_search_def TSStatelessBFS_def stateless_rel_def)
qed

theorem TSStatelessBFS_follows_TSBFS_witness:
  "\<exists>r. TSBFS list_deque diamond_edges 1 DirectionOutbound 2 (\<lambda>e st. (True, st)) (\<lambda>seg st. (True, st @ [path_end seg])) [] = Some r \<and>
     TSStatelessBFS list_deque diamond_edges 1 DirectionOutbound 1 (\<lambda>e st. (1 :: int, True, st)) (\<lambda>t st. (True, st @ [terminal_end t])) [] = Some r"
  using TSStatelessBFS_follows_TSBFS [OF ldq.deque_axioms ldq.deque_axioms, where maxDepth = 1 and w = "\<lambda>_ _. 1 :: int" and adj = diamond_edges
      and node = 1 and dir = DirectionOutbound and f = "\<lambda>e st. (True, st)" and h = "\<lambda>x st. (True, st @ [x])" and st = "[]"] by simp

end
