(* ===== verification/Gr_Kind.thy ===== *)
theory Gr_Kind
  imports Go_Std Card_Bitmap "HOL-Library.Char_ord" "HOL-Library.List_Lexorder" "HOL-Library.Multiset"
begin

text \<open>
  src/graph/kind.go: kinds and lists of kinds, and \<open>KindBitmaps\<close> of src/graph/types.go, the sets of identifiers
  per kind.

  A kind is the string it was made from: \<open>StringKind\<close> hands out one pointer per string, so that the
  comparison of interface values in \<open>Remove\<close> is the comparison of strings. A list of kinds may hold
  nil values (\<open>None\<close>); calling a method on one panics (the outer \<open>None\<close>). The lists are values:
  two lists that share their backing array, of which \<open>Remove\<close> shifts one, are not modelled.
\<close>

type_synonym Kind = "string option"
type_synonym Kinds = "Kind list"

section \<open>Lists of kinds\<close>

fun stringKind_Is :: "string \<Rightarrow> Kinds \<Rightarrow> bool option" where
  "stringKind_Is s [] = Some False"
| "stringKind_Is s (None # other) = None"
| "stringKind_Is s (Some k # other) = (if s = k then Some True else stringKind_Is s other)"

fun ContainsOneOf :: "Kinds \<Rightarrow> Kinds \<Rightarrow> bool option" where
  "ContainsOneOf [] others = Some False"
| "ContainsOneOf (None # s) others = ContainsOneOf s others"
| "ContainsOneOf (Some k # s) others = (case stringKind_Is k others of
     None \<Rightarrow> None
   | Some True \<Rightarrow> Some True
   | Some False \<Rightarrow> ContainsOneOf s others)"

definition Kinds_Concatenate :: "Kinds \<Rightarrow> Kinds \<Rightarrow> Kinds" where
  "Kinds_Concatenate s kinds = s @ kinds"

definition Kinds_ConcatenateAll :: "Kinds \<Rightarrow> Kinds list \<Rightarrow> Kinds" where
  "Kinds_ConcatenateAll s kindBags = fold (\<lambda>kindBag combined. Kinds_Concatenate combined kindBag) kindBags s"

definition Kinds_Exclude :: "Kinds \<Rightarrow> Kinds \<Rightarrow> Kinds option" where
  "Kinds_Exclude s exclusions = for_each (\<lambda>kind kinds.
     map_option (\<lambda>found. if \<not> found then kinds @ [kind] else kinds) (ContainsOneOf exclusions [kind])) s []"

fun Kinds_Remove :: "Kinds \<Rightarrow> Kind \<Rightarrow> Kinds" where
  "Kinds_Remove [] kind = []"
| "Kinds_Remove (k # s) kind = (if kind = k then s else k # Kinds_Remove s kind)"

definition Kinds_Add :: "Kinds \<Rightarrow> Kinds \<Rightarrow> Kinds option" where
  "Kinds_Add s kinds = for_each (\<lambda>kind ref.
     map_option (\<lambda>found. if \<not> found then ref @ [kind] else ref) (ContainsOneOf ref [kind])) kinds s"

text \<open>\<open>s[idx].String()\<close> panics on a nil kind.\<close>

definition Kinds_Strings :: "Kinds \<Rightarrow> string list option" where
  "Kinds_Strings s = for_each (\<lambda>kind strs. map_option (\<lambda>k. strs @ [k]) kind) s []"

definition StringsToKinds :: "string list \<Rightarrow> Kinds" where
  "StringsToKinds strs = map Some strs"

section \<open>Hashing\<close>

text \<open>The bytes of a string, and the errors of \<open>HashInto\<close>, which wrap the error of the digest.\<close>

definition string_bytes :: "string \<Rightarrow> byte list" where
  "string_bytes s = map (\<lambda>c. of_nat (of_char c)) s"

datatype 'e hash_error = Writing_length_prefix 'e | Writing_kind 'e

definition hash_kind :: "('h, 'e) writer \<Rightarrow> string \<Rightarrow> 'h \<Rightarrow> 'e hash_error option \<times> 'h" where
  "hash_kind write kind h = (case write h (PutUvarint (of_nat (length kind))) of
     (Some err, h') \<Rightarrow> (Some (Writing_length_prefix err), h')
   | (None, h') \<Rightarrow> (case write h' (string_bytes kind) of
       (Some err, h'') \<Rightarrow> (Some (Writing_kind err), h'')
     | (None, h'') \<Rightarrow> (None, h'')))"

definition Kinds_HashInto :: "('h, 'e) writer \<Rightarrow> Kinds \<Rightarrow> 'h \<Rightarrow> ('e hash_error option \<times> 'h) option" where
  "Kinds_HashInto write s h =
     (if length s = 0 then Some (None, h)
      else map_option (\<lambda>ks. until_error (hash_kind write) (sort ks) h) (Kinds_Strings s))"

section \<open>KindBitmaps\<close>

text \<open>A Go map from the name of a kind to a bitmap. \<open>order\<close> is the order in which a \<open>range\<close> visits the keys.\<close>

type_synonym 'b KindBitmaps = "string \<rightharpoonup> 'b"

definition KindBitmaps_Get :: "'b roaring64_ops \<Rightarrow> string list \<Rightarrow> 'b KindBitmaps \<Rightarrow> string list \<Rightarrow> 'b" where
  "KindBitmaps_Get R order s kinds =
     (if length kinds = 0
      then fold (\<lambda>k bitmap. case s k of Some b \<Rightarrow> bitmap64_Or R bitmap (Bitmap64 b) | None \<Rightarrow> bitmap) order (NewBitmap64 R)
      else fold (\<lambda>k bitmap. case s k of Some b \<Rightarrow> bitmap64_Or R bitmap (Bitmap64 b) | None \<Rightarrow> bitmap) kinds (NewBitmap64 R))"

definition KindBitmaps_Count :: "'b roaring64_ops \<Rightarrow> string list \<Rightarrow> 'b KindBitmaps \<Rightarrow> string list \<Rightarrow> uint64" where
  "KindBitmaps_Count R order s kinds = bitmap64_Cardinality R (KindBitmaps_Get R order s kinds)"

definition KindBitmaps_Or :: "'b roaring64_ops \<Rightarrow> string list \<Rightarrow> 'b KindBitmaps \<Rightarrow> 'b KindBitmaps \<Rightarrow> 'b KindBitmaps" where
  "KindBitmaps_Or R order s bitmaps = fold (\<lambda>kindStr s. case bitmaps kindStr of
       None \<Rightarrow> s
     | Some leftBitmap \<Rightarrow> (case s kindStr of
         None \<Rightarrow> s(kindStr \<mapsto> bitmap64_Or R (NewBitmap64 R) (Bitmap64 leftBitmap))
       | Some rightBitmap \<Rightarrow> s(kindStr \<mapsto> bitmap64_Or R rightBitmap (Bitmap64 leftBitmap)))) order s"

definition KindBitmaps_OrAll :: "'b roaring64_ops \<Rightarrow> string list \<Rightarrow> 'b KindBitmaps \<Rightarrow> 'b" where
  "KindBitmaps_OrAll R order s =
     fold (\<lambda>k all. case s k of Some b \<Rightarrow> bitmap64_Or R all (Bitmap64 b) | None \<Rightarrow> all) order (NewBitmap64 R)"

definition KindBitmaps_Contains :: "'b roaring64_ops \<Rightarrow> string list \<Rightarrow> 'b KindBitmaps \<Rightarrow> uint64 \<Rightarrow> bool" where
  "KindBitmaps_Contains R order s nodeID =
     list_ex (\<lambda>k. case s k of Some b \<Rightarrow> bitmap64_Contains R b nodeID | None \<Rightarrow> False) order"

definition AddDuplexToKind :: "'b roaring64_ops \<Rightarrow> 'b KindBitmaps \<Rightarrow> 'b \<Rightarrow> string \<Rightarrow> 'b KindBitmaps" where
  "AddDuplexToKind R s ids kindStr = (case s kindStr of
     None \<Rightarrow> s(kindStr \<mapsto> bitmap64_Or R (NewBitmap64 R) (Bitmap64 ids))
   | Some bitmap \<Rightarrow> s(kindStr \<mapsto> bitmap64_Or R bitmap (Bitmap64 ids)))"

definition AddIDToKind :: "'b roaring64_ops \<Rightarrow> 'b KindBitmaps \<Rightarrow> uint64 \<Rightarrow> string \<Rightarrow> 'b KindBitmaps" where
  "AddIDToKind R s nodeID kindStr = (case s kindStr of
     None \<Rightarrow> s(kindStr \<mapsto> bitmap64_Add R (NewBitmap64 R) [nodeID])
   | Some bitmap \<Rightarrow> s(kindStr \<mapsto> bitmap64_Add R bitmap [nodeID]))"

definition AddIDToKinds :: "'b roaring64_ops \<Rightarrow> 'b KindBitmaps \<Rightarrow> uint64 \<Rightarrow> string list \<Rightarrow> 'b KindBitmaps" where
  "AddIDToKinds R s nodeID kinds = fold (\<lambda>kindStr s. case s kindStr of
       None \<Rightarrow> s(kindStr \<mapsto> bitmap64_Add R (NewBitmap64 R) [nodeID])
     | Some bitmap \<Rightarrow> s(kindStr \<mapsto> bitmap64_Add R bitmap [nodeID])) kinds s"

text \<open>The methods of \<open>ThreadSafeKindBitmap\<close> hold its lock for their whole body; these are their bodies.\<close>

definition tskb_Or :: "'b roaring64_ops \<Rightarrow> 'b KindBitmaps \<Rightarrow> string \<Rightarrow> 'b \<Rightarrow> 'b KindBitmaps" where
  "tskb_Or R s kind other = (case s kind of
     Some kindBitmap \<Rightarrow> s(kind \<mapsto> bitmap64_Or R kindBitmap (Bitmap64 other))
   | None \<Rightarrow> s(kind \<mapsto> bitmap64_Clone R other))"

definition tskb_Clone :: "'b roaring64_ops \<Rightarrow> string list \<Rightarrow> 'b KindBitmaps \<Rightarrow> 'b KindBitmaps" where
  "tskb_Clone R order s = fold (\<lambda>kind clone. case s kind of
     Some kindBitmap \<Rightarrow> clone(kind \<mapsto> bitmap64_Clone R kindBitmap) | None \<Rightarrow> clone) order Map.empty"

definition tskb_Contains :: "'b roaring64_ops \<Rightarrow> 'b KindBitmaps \<Rightarrow> string \<Rightarrow> uint64 \<Rightarrow> bool" where
  "tskb_Contains R s kind v = (case s kind of Some kindBitmap \<Rightarrow> bitmap64_Contains R kindBitmap v | None \<Rightarrow> False)"

definition tskb_Add :: "'b roaring64_ops \<Rightarrow> 'b KindBitmaps \<Rightarrow> string \<Rightarrow> uint64 \<Rightarrow> 'b KindBitmaps" where
  "tskb_Add R s kind v = (case s kind of
     Some kindBitmap \<Rightarrow> s(kind \<mapsto> bitmap64_Add R kindBitmap [v])
   | None \<Rightarrow> s(kind \<mapsto> NewBitmap64With R [v]))"

definition tskb_CheckedAdd :: "'b roaring64_ops \<Rightarrow> 'b KindBitmaps \<Rightarrow> string \<Rightarrow> uint64 \<Rightarrow> bool \<times> 'b KindBitmaps" where
  "tskb_CheckedAdd R s kind v = (case s kind of
     Some kindBitmap \<Rightarrow> (case bitmap64_CheckedAdd R kindBitmap v of (fresh, b) \<Rightarrow> (fresh, s(kind \<mapsto> b)))
   | None \<Rightarrow> (True, s(kind \<mapsto> NewBitmap64With R [v])))"

section \<open>Kinds as sets\<close>

text \<open>The lists without nil are the ones the rest of the code works with.\<close>

abbreviation no_nil :: "Kinds \<Rightarrow> bool" where
  "no_nil ks \<equiv> None \<notin> set ks"

lemma stringKind_Is_some: "no_nil ks \<Longrightarrow> stringKind_Is s ks = Some (Some s \<in> set ks)"
  by (induction s ks rule: stringKind_Is.induct) auto

lemma ContainsOneOf_some:
  "no_nil others \<Longrightarrow> ContainsOneOf s others = Some (\<exists>k. Some k \<in> set s \<and> Some k \<in> set others)"
  by (induction s others rule: ContainsOneOf.induct) (auto simp: stringKind_Is_some split: bool.splits)

lemma Kinds_Add_some:
  assumes "no_nil kinds"
  shows "Kinds_Add s kinds = Some (fold (\<lambda>k ref. if k \<in> set ref then ref else ref @ [k]) kinds s)"
  using assms unfolding Kinds_Add_def
proof (induction kinds arbitrary: s)
  case (Cons k kinds)
  then obtain j where "k = Some j" by (cases k) auto
  with Cons show ?case by (simp add: ContainsOneOf_some)
qed simp

lemma set_fold_add: "set (fold (\<lambda>k ref. if k \<in> set ref then ref else ref @ [k]) ks s) = set s \<union> set ks"
  by (induction ks arbitrary: s) auto

lemma distinct_fold_add: "distinct s \<Longrightarrow> distinct (fold (\<lambda>k ref. if k \<in> set ref then ref else ref @ [k]) ks s)"
  by (induction ks arbitrary: s) auto

lemma Kinds_Add_result:
  assumes "no_nil kinds"
  shows "\<exists>r. Kinds_Add s kinds = Some r \<and> set r = set s \<union> set kinds \<and> (distinct s \<longrightarrow> distinct r) \<and>
     (\<exists>t. r = s @ t)"
proof -
  let ?f = "\<lambda>k ref. if k \<in> set ref then ref else ref @ [k]"
  have "\<exists>t. fold ?f ks s = s @ t" for ks s
  proof (induction ks arbitrary: s)
    case (Cons k ks)
    from Cons.IH [of "?f k s"] show ?case by (auto split: if_splits)
  qed simp
  then obtain t where t: "fold ?f kinds s = s @ t" by (elim meta_allE exE)
  show ?thesis
    by (rule exI [of _ "fold ?f kinds s"], intro conjI impI)
      (rule Kinds_Add_some [OF assms], rule set_fold_add, erule distinct_fold_add, rule exI, rule t)
qed

lemma Kinds_Remove_distinct: "distinct s \<Longrightarrow> Kinds_Remove s k = filter (\<lambda>x. x \<noteq> k) s"
  by (induction s k rule: Kinds_Remove.induct) (auto intro!: filter_True [symmetric])

lemma set_Kinds_Remove: "distinct s \<Longrightarrow> set (Kinds_Remove s k) = set s - {k}"
  by (auto simp: Kinds_Remove_distinct)

lemma distinct_Kinds_Remove: "distinct s \<Longrightarrow> distinct (Kinds_Remove s k)"
  by (simp add: Kinds_Remove_distinct)

lemma Kinds_Strings_some: "Kinds_Strings (map Some ks) = Some ks"
proof -
  have "for_each (\<lambda>kind strs. map_option (\<lambda>k. strs @ [k]) kind) (map Some ks) acc = Some (acc @ ks)" for acc
    by (induction ks arbitrary: acc) auto
  then show ?thesis by (simp add: Kinds_Strings_def)
qed

lemma Kinds_Strings_panics: "Kinds_Strings s = None \<longleftrightarrow> None \<in> set s"
proof -
  have "for_each (\<lambda>kind strs. map_option (\<lambda>k. strs @ [k]) kind) s acc = None \<longleftrightarrow> None \<in> set s" for acc
    by (induction s arbitrary: acc) (auto split: option.splits bind_splits)
  then show ?thesis by (simp add: Kinds_Strings_def)
qed

section \<open>The hash framing\<close>

lemma small_take_bit: "z < 0x80 \<Longrightarrow> take_bit 7 z = (z :: uint64)"
proof -
  assume "z < 0x80"
  then have "unat z < 2 ^ 7" by (simp add: word_less_nat_alt)
  then have "take_bit 7 (unat z) = unat z" by (simp add: take_bit_nat_eq_self_iff)
  then show ?thesis by (simp add: word_unat_eq_iff unsigned_take_bit_eq)
qed

lemma uvarint_bytes:
  fixes x y :: uint64
  shows "(ucast x OR 0x80 :: byte) = ucast y OR 0x80 \<Longrightarrow> take_bit 7 x = take_bit 7 y"
    and "y < 0x80 \<Longrightarrow> (ucast x OR 0x80 :: byte) \<noteq> ucast y"
    and "x < 0x80 \<Longrightarrow> y < 0x80 \<Longrightarrow> (ucast x :: byte) = ucast y \<Longrightarrow> x = y"
proof -
  have k: "bit (0x80 :: byte) n \<longleftrightarrow> n = 7" for n
    using bit_exp_iff [where 'a = byte and m = 7 and n = n] by auto
  show "(ucast x OR 0x80 :: byte) = ucast y OR 0x80 \<Longrightarrow> take_bit 7 x = take_bit 7 y"
  proof (rule bit_word_eqI)
    fix n assume e: "(ucast x OR 0x80 :: byte) = ucast y OR 0x80"
    show "bit (take_bit 7 x) n \<longleftrightarrow> bit (take_bit 7 y) n"
    proof (cases "n < 7")
      case True
      have "bit (ucast x OR 0x80 :: byte) n = bit (ucast y OR 0x80 :: byte) n" using e by simp
      then have "bit (ucast x :: byte) n = bit (ucast y :: byte) n" using True unfolding bit_or_iff k by simp
      with True show ?thesis by (simp add: bit_simps)
    qed (simp add: bit_take_bit_iff)
  qed
  show "(ucast x OR 0x80 :: byte) \<noteq> ucast y" if "y < 0x80"
  proof
    assume "(ucast x OR 0x80 :: byte) = ucast y"
    then have "bit (ucast y :: byte) 7" by (metis bit_or_iff k)
    then have "bit y 7" by (simp add: bit_simps)
    then have "bit (take_bit 7 y) 7" using small_take_bit [OF that] by simp
    then show False by (simp add: bit_take_bit_iff)
  qed
  show "x = y" if "x < 0x80" "y < 0x80" "(ucast x :: byte) = ucast y"
  proof -
    have "take_bit 7 x = take_bit 7 y"
    proof (rule bit_word_eqI)
      fix n
      have "bit (ucast x :: byte) n = bit (ucast y :: byte) n" using that(3) by simp
      then show "bit (take_bit 7 x) n \<longleftrightarrow> bit (take_bit 7 y) n" by (cases "n < 7") (auto simp: bit_simps)
    qed
    then show ?thesis using small_take_bit that by metis
  qed
qed

lemma PutUvarint_split: "PutUvarint x @ r = PutUvarint y @ s \<Longrightarrow> x = y \<and> r = s"
proof (induction x arbitrary: y rule: PutUvarint.induct)
  case (1 x)
  have big: "PutUvarint z = (ucast z OR 0x80) # PutUvarint (drop_bit 7 z)" if "z \<ge> 0x80" for z
    using that by (subst PutUvarint.simps) simp
  have small: "PutUvarint z = [ucast z]" if "\<not> z \<ge> 0x80" for z
    using that by (subst PutUvarint.simps) simp
  show ?case
  proof (cases "x \<ge> 0x80"; cases "y \<ge> 0x80")
    assume xy: "x \<ge> 0x80" "y \<ge> 0x80"
    with 1(2) big have e: "(ucast x OR 0x80 :: byte) = ucast y OR 0x80" "PutUvarint (drop_bit 7 x) @ r = PutUvarint (drop_bit 7 y) @ s"
      by simp_all
    from 1(1) [OF xy(1) e(2)] have d: "drop_bit 7 x = drop_bit 7 y" "r = s" by auto
    have "x = y"
      using uvarint_bytes(1) [OF e(1)] d(1) bits_ident [of 7 x] bits_ident [of 7 y] by metis
    with d show ?thesis by simp
  next
    assume xy: "x \<ge> 0x80" "\<not> y \<ge> 0x80"
    then have "(ucast x OR 0x80 :: byte) \<noteq> ucast y" by (intro uvarint_bytes(2)) simp
    with 1(2) big [OF xy(1)] small [OF xy(2)] show ?thesis by simp
  next
    assume xy: "\<not> x \<ge> 0x80" "y \<ge> 0x80"
    then have "(ucast y OR 0x80 :: byte) \<noteq> ucast x" by (intro uvarint_bytes(2)) simp
    with 1(2) big [OF xy(2)] small [OF xy(1)] show ?thesis by simp
  next
    assume xy: "\<not> x \<ge> 0x80" "\<not> y \<ge> 0x80"
    from 1(2) have "(ucast x :: byte) = ucast y" "r = s" unfolding small [OF xy(1)] small [OF xy(2)] by simp_all
    with xy uvarint_bytes(3) [of x y] show ?thesis by simp
  qed
qed

lemma string_bytes_inj: "string_bytes s = string_bytes t \<Longrightarrow> s = t"
proof -
  have inj: "inj (\<lambda>c :: char. of_nat (of_char c) :: byte)"
  proof (rule injI)
    fix c d :: char
    assume "(of_nat (of_char c) :: byte) = of_nat (of_char d)"
    then have "unat (of_nat (of_char c) :: byte) = unat (of_nat (of_char d) :: byte)" by simp
    moreover have "(of_char x :: nat) < 256" for x :: char using nat_of_char_less_256 by simp
    ultimately have "(of_char c :: nat) = of_char d" by (simp add: unat_of_nat take_bit_nat_eq_self)
    then show "c = d" by (metis char_of_char)
  qed
  show "string_bytes s = string_bytes t \<Longrightarrow> s = t"
    unfolding string_bytes_def using inj_map_eq_map [OF inj] by blast
qed

text \<open>The bytes \<open>HashInto\<close> feeds to the digest.\<close>

definition kind_frame :: "string \<Rightarrow> byte list" where
  "kind_frame k = PutUvarint (of_nat (length k)) @ string_bytes k"

lemma hash_kind_buffer: "hash_kind buffer_Write k buf = (None, buf @ kind_frame k)"
  by (simp add: hash_kind_def buffer_Write_def kind_frame_def)

lemma until_error_buffer: "until_error (hash_kind buffer_Write) ks buf = (None, buf @ concat (map kind_frame ks))"
  by (induction ks arbitrary: buf) (simp_all add: hash_kind_buffer)

lemma concat_kind_frame_inj:
  assumes "\<forall>k \<in> set ks \<union> set ls. length k < 2 ^ 64" and "concat (map kind_frame ks) = concat (map kind_frame ls)"
  shows "ks = ls"
  using assms
proof (induction ks arbitrary: ls)
  case Nil
  have "PutUvarint x \<noteq> []" for x by (subst PutUvarint.simps) simp
  with Nil show ?case by (cases ls) (auto simp: kind_frame_def)
next
  case (Cons k ks)
  have ne: "PutUvarint x \<noteq> []" for x by (subst PutUvarint.simps) simp
  with Cons.prems obtain l ls' where ls: "ls = l # ls'" by (cases ls) (auto simp: kind_frame_def)
  have "PutUvarint (of_nat (length k)) @ string_bytes k @ concat (map kind_frame ks) =
      PutUvarint (of_nat (length l)) @ string_bytes l @ concat (map kind_frame ls')"
    using Cons.prems(2) ls by (simp add: kind_frame_def [of k] kind_frame_def [of l])
  from PutUvarint_split [OF this] have e: "(of_nat (length k) :: uint64) = of_nat (length l)"
    "string_bytes k @ concat (map kind_frame ks) = string_bytes l @ concat (map kind_frame ls')" by auto
  have "length k = length l" using e(1) Cons.prems(1) ls by simp
  then have "length (string_bytes k) = length (string_bytes l)" by (simp add: string_bytes_def)
  with e(2) have "string_bytes k = string_bytes l" "concat (map kind_frame ks) = concat (map kind_frame ls')" by auto
  with Cons.IH [of ls'] Cons.prems(1) ls string_bytes_inj show ?case by auto
qed

section \<open>Properties\<close>

text \<open>C28. The bytes \<open>HashInto\<close> feeds to a digest determine the kinds up to order: two lists of kinds yield the
  same bytes exactly when one is a permutation of the other, so that neither the order nor the
  boundaries between names can make different kinds collide before the digest.\<close>

theorem Kinds_HashInto_framing:
  assumes "\<forall>k \<in> set ks \<union> set ls. length k < 2 ^ 64"
  shows "Kinds_HashInto buffer_Write (map Some ks) [] = (Kinds_HashInto buffer_Write (map Some ls) [] :: ('e hash_error option \<times> byte list) option) \<longleftrightarrow>
     mset ks = mset ls"
proof -
  have h: "Kinds_HashInto buffer_Write (map Some ks) [] = (Some (None, concat (map kind_frame (sort ks))) :: ('e hash_error option \<times> byte list) option)" for ks
    by (cases "ks = []") (simp_all add: Kinds_HashInto_def Kinds_Strings_some until_error_buffer)
  have "concat (map kind_frame (sort ks)) = concat (map kind_frame (sort ls)) \<longleftrightarrow> sort ks = sort ls"
    using concat_kind_frame_inj [of "sort ks" "sort ls"] assms by auto
  moreover have "sort ks = sort ls \<longleftrightarrow> mset ks = mset ls"
    by (metis mset_sort properties_for_sort sorted_sort)
  ultimately show ?thesis unfolding h by simp
qed

theorem Kinds_HashInto_framing_witness:
  "Kinds_HashInto buffer_Write (map Some [''ab'', ''c'']) [] \<noteq> (Kinds_HashInto buffer_Write (map Some [''a'', ''bc'']) [] :: (unit hash_error option \<times> byte list) option)"
proof -
  have "mset [''ab'', ''c''] \<noteq> mset [''a'', ''bc'']" by (rule notI, drule mset_eq_setD) (simp add: doubleton_eq_iff)
  then show ?thesis using Kinds_HashInto_framing [of "[''ab'', ''c'']" "[''a'', ''bc'']", where 'e = unit] by simp
qed

lemma fold_add_remdups:
  "fold (\<lambda>k ref. if k \<in> set ref then ref else ref @ [k]) ks s = s @ filter (\<lambda>k. k \<notin> set s) (rev (remdups (rev ks)))"
  by (induction ks rule: rev_induct) auto

text \<open>\<open>Strings\<close> panics exactly when the list of kinds holds nil. \<open>Add\<close> of nil to a list with a kind panics,
  and \<open>Add\<close> of kinds without nil never does: it appends, in the order of their first occurrences, the
  kinds the list does not hold yet, each once.\<close>

theorem Kinds_nil_panics:
  "(Kinds_Strings s = None \<longleftrightarrow> None \<in> set s) \<and>
   (Kinds_Add (k # s) [None] = None \<longleftrightarrow> \<not> set (k # s) \<subseteq> {None}) \<and>
   Kinds_Add s (map Some ks) = Some (s @ filter (\<lambda>k. k \<notin> set s) (rev (remdups (rev (map Some ks)))))"
proof (intro conjI)
  have "ContainsOneOf s [None] = (if set s \<subseteq> {None} then Some False else None)" for s
    by (induction s "[None :: Kind]" rule: ContainsOneOf.induct) auto
  then show "Kinds_Add (k # s) [None] = None \<longleftrightarrow> \<not> set (k # s) \<subseteq> {None}" by (auto simp: Kinds_Add_def)
  have "no_nil (map Some ks)" by auto
  from Kinds_Add_some [OF this, of s]
  show "Kinds_Add s (map Some ks) = Some (s @ filter (\<lambda>k. k \<notin> set s) (rev (remdups (rev (map Some ks)))))"
    by (simp only: fold_add_remdups)
  show "Kinds_Strings s = None \<longleftrightarrow> None \<in> set s" by (rule Kinds_Strings_panics)
qed

section \<open>KindBitmaps as a relation\<close>

definition kb_rel :: "'b roaring64_ops \<Rightarrow> 'b KindBitmaps \<Rightarrow> (string \<times> uint64) set" where
  "kb_rel R s = {(k, v). \<exists>b. s k = Some b \<and> v \<in> elems R b}"

context roaring64
begin

lemma kb_rel_updates:
  "kb_rel R (AddIDToKind R s v k) = insert (k, v) (kb_rel R s)"
  "kb_rel R (tskb_Add R s k v) = insert (k, v) (kb_rel R s)"
  "kb_rel R (snd (tskb_CheckedAdd R s k v)) = insert (k, v) (kb_rel R s)"
  "fst (tskb_CheckedAdd R s k v) \<longleftrightarrow> (k, v) \<notin> kb_rel R s"
  "kb_rel R (tskb_Or R s k b) = kb_rel R s \<union> {k} \<times> elems R b"
  "kb_rel R (AddDuplexToKind R s b k) = kb_rel R s \<union> {k} \<times> elems R b"
  "tskb_Contains R s k v \<longleftrightarrow> (k, v) \<in> kb_rel R s"
  by (auto simp: kb_rel_def AddIDToKind_def tskb_Add_def tskb_CheckedAdd_def tskb_Or_def AddDuplexToKind_def
      tskb_Contains_def case_prod_unfold split: option.splits if_splits)

lemma kb_rel_AddIDToKinds: "kb_rel R (AddIDToKinds R s v ks) = kb_rel R s \<union> set ks \<times> {v}"
proof -
  have "AddIDToKinds R s v ks = fold (\<lambda>k s. AddIDToKind R s v k) ks s" by (simp add: AddIDToKinds_def AddIDToKind_def)
  moreover have "kb_rel R (fold (\<lambda>k s. AddIDToKind R s v k) ks s) = kb_rel R s \<union> set ks \<times> {v}"
    by (induction ks arbitrary: s) (auto simp: kb_rel_updates(1))
  ultimately show ?thesis by simp
qed

lemma elems_fold_kind_Or:
  "elems R (fold (\<lambda>k bitmap. case s k of Some b \<Rightarrow> bitmap64_Or R bitmap (Bitmap64 b) | None \<Rightarrow> bitmap) ks bm) =
     elems R bm \<union> kb_rel R s `` set ks"
proof (induction ks arbitrary: bm)
  case (Cons k ks)
  show ?case by (cases "s k") (auto simp: Cons.IH kb_rel_def)
qed simp

lemma elems_KindBitmaps_Get:
  assumes "range_order s order"
  shows "elems R (KindBitmaps_Get R order s kinds) = (if kinds = [] then Range (kb_rel R s) else kb_rel R s `` set kinds)"
proof -
  have "kb_rel R s `` set order = Range (kb_rel R s)"
    using range_orderD [OF assms] by (auto simp: kb_rel_def)
  then show ?thesis by (simp add: KindBitmaps_Get_def elems_fold_kind_Or)
qed

lemma kb_rel_Or:
  assumes "range_order bitmaps order"
  shows "kb_rel R (KindBitmaps_Or R order s bitmaps) = kb_rel R s \<union> kb_rel R bitmaps"
proof -
  let ?f = "\<lambda>kindStr s. case bitmaps kindStr of
       None \<Rightarrow> s
     | Some leftBitmap \<Rightarrow> (case s kindStr of
         None \<Rightarrow> s(kindStr \<mapsto> bitmap64_Or R (NewBitmap64 R) (Bitmap64 leftBitmap))
       | Some rightBitmap \<Rightarrow> s(kindStr \<mapsto> bitmap64_Or R rightBitmap (Bitmap64 leftBitmap)))"
  have step: "kb_rel R (?f k s) = kb_rel R s \<union> {(j, v) \<in> kb_rel R bitmaps. j = k}" for k s
    by (auto simp: kb_rel_def split: option.splits if_splits)
  have "kb_rel R (fold ?f ks s) = kb_rel R s \<union> {(j, v) \<in> kb_rel R bitmaps. j \<in> set ks}" for ks
  proof (induction ks arbitrary: s)
    case (Cons k ks)
    have "kb_rel R (fold ?f (k # ks) s) = kb_rel R (fold ?f ks (?f k s))" by simp
    also have "\<dots> = kb_rel R (?f k s) \<union> {(j, v) \<in> kb_rel R bitmaps. j \<in> set ks}" by (rule Cons.IH)
    finally show ?case unfolding step by auto
  qed simp
  moreover have "{(j, v) \<in> kb_rel R bitmaps. j \<in> set order} = kb_rel R bitmaps"
    using range_orderD [OF assms] by (auto simp: kb_rel_def)
  ultimately show ?thesis by (simp add: KindBitmaps_Or_def)
qed

end

text \<open>Calls of \<open>CheckedAdd\<close> by any number of goroutines: the lock makes each call one step, so a run is the
  sequence of calls in the order they took the lock.\<close>

definition tskb_run :: "'b roaring64_ops \<Rightarrow> (string \<times> uint64) list \<Rightarrow> bool list \<times> 'b KindBitmaps" where
  "tskb_run R calls = fold (\<lambda>(kind, v) (answers, s).
     case tskb_CheckedAdd R s kind v of (fresh, s') \<Rightarrow> (answers @ [fresh], s')) calls ([], Map.empty)"



text \<open>\<open>Get\<close> without kinds unites all bitmaps of a \<open>KindBitmaps\<close> and otherwise those of the given kinds that exist, and \<open>Or\<close>
  adds exactly the pairs of the other map, in whatever order the maps are enumerated.\<close>

theorem KindBitmaps_Get_Or:
  assumes "roaring64 R" and "range_order t order" and "range_order (KindBitmaps_Or R order s t) order'"
  shows "elems R (KindBitmaps_Get R order' (KindBitmaps_Or R order s t) kinds) =
     (if kinds = [] then Range (kb_rel R s \<union> kb_rel R t) else (kb_rel R s \<union> kb_rel R t) `` set kinds)"
  using roaring64.elems_KindBitmaps_Get [OF assms(1,3)] roaring64.kb_rel_Or [OF assms(1,2)] by simp

theorem KindBitmaps_Get_Or_witness:
  "elems list_bitmap (KindBitmaps_Get list_bitmap [''A'', ''B'']
     (KindBitmaps_Or list_bitmap [''A'', ''B''] [''A'' \<mapsto> [1]] [''A'' \<mapsto> [2], ''B'' \<mapsto> [3]]) [''A'']) = {1, 2}"
proof -
  have o: "range_order [''A'' \<mapsto> [2 :: uint64], ''B'' \<mapsto> [3]] [''A'', ''B'']"
    "range_order (KindBitmaps_Or list_bitmap [''A'', ''B''] [''A'' \<mapsto> [1]] [''A'' \<mapsto> [2], ''B'' \<mapsto> [3]]) [''A'', ''B'']"
    by (auto simp: range_order_def KindBitmaps_Or_def)
  have "elems list_bitmap [1] = {1}" "elems list_bitmap [2] = {2}" "elems list_bitmap [3] = {3}" by code_simp+
  then have "kb_rel list_bitmap [''A'' \<mapsto> [1]] = {(''A'', 1)}" "kb_rel list_bitmap [''A'' \<mapsto> [2], ''B'' \<mapsto> [3]] = {(''A'', 2), (''B'', 3)}"
    by (auto simp: kb_rel_def split: if_splits)
  then show ?thesis using KindBitmaps_Get_Or [OF lbm.roaring64_axioms o, of "[''A'']"] by auto
qed

end
