(* ===== verification/Gr_Properties.thy ===== *)
theory Gr_Properties
  imports Gr_Kind
begin

text \<open>
  src/graph/properties.go: property maps that track which keys were modified and deleted since they
  were loaded. A value is \<open>None\<close> for nil. Each of the three maps of a \<open>Properties\<close> may itself be nil
  (\<open>None\<close>); reading a nil map finds nothing and deleting from it does nothing, as in Go.

  A \<open>range\<close> loop that writes the entries of a map into another one is the union of the two maps: the keys are
  different, so the order of the loop does not matter. Where a result depends on the order, the
  order is an argument.
\<close>

record 'v Properties =
  pr_Map :: "(string \<rightharpoonup> 'v option) option"
  pr_Deleted :: "string set option"
  pr_Modified :: "string set option"

text \<open>Reading a map that may be nil.\<close>

definition map_of_nil :: "('k \<rightharpoonup> 'v) option \<Rightarrow> ('k \<rightharpoonup> 'v)" where
  "map_of_nil m = (case m of None \<Rightarrow> Map.empty | Some m \<Rightarrow> m)"

definition set_of_nil :: "'k set option \<Rightarrow> 'k set" where
  "set_of_nil m = (case m of None \<Rightarrow> {} | Some m \<Rightarrow> m)"

lemma map_of_nil_simps [simp]: "map_of_nil None = Map.empty" "map_of_nil (Some m) = m"
  by (simp_all add: map_of_nil_def)

lemma set_of_nil_simps [simp]: "set_of_nil None = {}" "set_of_nil (Some m) = m"
  by (simp_all add: set_of_nil_def)

definition NewProperties :: "'v Properties" where
  "NewProperties = \<lparr>pr_Map = None, pr_Deleted = None, pr_Modified = None\<rparr>"

definition AsProperties :: "(string \<rightharpoonup> 'v option) option \<Rightarrow> 'v Properties" where
  "AsProperties store = \<lparr>pr_Map = store, pr_Deleted = None, pr_Modified = None\<rparr>"

definition Properties_MapOrEmpty :: "'v Properties option \<Rightarrow> (string \<rightharpoonup> 'v option)" where
  "Properties_MapOrEmpty s = (case s of
     None \<Rightarrow> Map.empty
   | Some p \<Rightarrow> (case pr_Map p of None \<Rightarrow> Map.empty | Some m \<Rightarrow> m))"

definition Properties_Len :: "'v Properties \<Rightarrow> nat" where
  "Properties_Len s = (case pr_Map s of None \<Rightarrow> 0 | Some m \<Rightarrow> card (dom m))"

definition ModifiedProperties :: "'v Properties \<Rightarrow> (string \<rightharpoonup> 'v option)" where
  "ModifiedProperties s = (case pr_Modified s of
     None \<Rightarrow> Map.empty
   | Some ks \<Rightarrow> (\<lambda>key. if key \<in> ks then Some (map_get (map_of_nil (pr_Map s)) None key) else None))"

definition DeletedProperties :: "string list \<Rightarrow> 'v Properties \<Rightarrow> string list option" where
  "DeletedProperties order s = (case pr_Deleted s of None \<Rightarrow> None | Some _ \<Rightarrow> Some order)"

text \<open>The value of a \<open>PropertyValue\<close>: \<open>NewPropertyResult\<close> leaves the default nil.\<close>

record 'v safePropertyValue =
  pv_key :: string
  pv_value :: "'v option"
  pv_defaultValue :: "'v option"

definition NewPropertyResult :: "string \<Rightarrow> 'v option \<Rightarrow> 'v safePropertyValue" where
  "NewPropertyResult key val = \<lparr>pv_key = key, pv_value = val, pv_defaultValue = None\<rparr>"

datatype property_error = Property_not_found string | Property_type_error

definition getValue :: "'v safePropertyValue \<Rightarrow> property_error + 'v" where
  "getValue s = (case pv_value s of
     None \<Rightarrow> (case pv_defaultValue s of Some d \<Rightarrow> Inr d | None \<Rightarrow> Inl (Property_not_found (pv_key s)))
   | Some v \<Rightarrow> Inr v)"

definition Properties_Get :: "'v Properties \<Rightarrow> string \<Rightarrow> 'v safePropertyValue" where
  "Properties_Get s key = (case pr_Map s of
     None \<Rightarrow> NewPropertyResult key None
   | Some m \<Rightarrow> NewPropertyResult key (map_get m None key))"

definition Properties_Set :: "'v Properties \<Rightarrow> string \<Rightarrow> 'v option \<Rightarrow> 'v Properties" where
  "Properties_Set s key val =
     (let s1 = s\<lparr>pr_Map := (case pr_Map s of None \<Rightarrow> Some [key \<mapsto> val] | Some m \<Rightarrow> Some (m(key \<mapsto> val)))\<rparr>;
          s2 = s1\<lparr>pr_Modified := (case pr_Modified s1 of None \<Rightarrow> Some {key} | Some ks \<Rightarrow> Some (insert key ks))\<rparr>
      in (case pr_Deleted s2 of None \<Rightarrow> s2 | Some ks \<Rightarrow> s2\<lparr>pr_Deleted := Some (ks - {key})\<rparr>))"

definition Properties_SetAll :: "string list \<Rightarrow> 'v Properties \<Rightarrow> (string \<rightharpoonup> 'v option) \<Rightarrow> 'v Properties" where
  "Properties_SetAll order s other = fold (\<lambda>key s. Properties_Set s key (map_get other None key)) order s"

definition Properties_Clone :: "'v Properties \<Rightarrow> 'v Properties" where
  "Properties_Clone s = \<lparr>pr_Map = (case pr_Map s of None \<Rightarrow> None | Some m \<Rightarrow> Some (Map.empty ++ m)),
     pr_Deleted = (case pr_Deleted s of None \<Rightarrow> None | Some ks \<Rightarrow> Some ({} \<union> ks)),
     pr_Modified = (case pr_Modified s of None \<Rightarrow> None | Some ks \<Rightarrow> Some ({} \<union> ks))\<rparr>"

definition Properties_Exists :: "'v Properties \<Rightarrow> string \<Rightarrow> bool" where
  "Properties_Exists s key = (case pr_Map s of None \<Rightarrow> False | Some m \<Rightarrow> m key \<noteq> None)"

fun first_fallback :: "(string \<rightharpoonup> 'v option) \<Rightarrow> 'v option \<Rightarrow> string list \<Rightarrow> 'v option" where
  "first_fallback m val [] = val"
| "first_fallback m val (k # ks) = (case m k of Some (Some v) \<Rightarrow> Some v | _ \<Rightarrow> first_fallback m val ks)"

definition GetWithFallback :: "'v Properties \<Rightarrow> string \<Rightarrow> 'v option \<Rightarrow> string list \<Rightarrow> 'v safePropertyValue" where
  "GetWithFallback s key defaultValue fallbackKeys = NewPropertyResult key
     (case pr_Map s of
        None \<Rightarrow> defaultValue
      | Some m \<Rightarrow> (case m key of
          Some (Some v) \<Rightarrow> Some v
        | Some None \<Rightarrow> defaultValue
        | None \<Rightarrow> first_fallback m defaultValue fallbackKeys))"

definition GetOrDefault :: "'v Properties \<Rightarrow> string \<Rightarrow> 'v option \<Rightarrow> 'v safePropertyValue" where
  "GetOrDefault s key defaultValue = GetWithFallback s key defaultValue []"

definition Properties_Delete :: "'v Properties \<Rightarrow> string \<Rightarrow> 'v Properties" where
  "Properties_Delete s key =
     (let s1 = (case pr_Map s of None \<Rightarrow> s | Some m \<Rightarrow> s\<lparr>pr_Map := Some (m(key := None))\<rparr>);
          s2 = s1\<lparr>pr_Deleted := (case pr_Deleted s1 of None \<Rightarrow> Some {key} | Some ks \<Rightarrow> Some (insert key ks))\<rparr>
      in (case pr_Modified s2 of None \<Rightarrow> s2 | Some ks \<Rightarrow> s2\<lparr>pr_Modified := Some (ks - {key})\<rparr>))"

text \<open>\<open>Merge\<close>, in its three loops over the maps of the other properties.\<close>

definition merge_map :: "'v Properties \<Rightarrow> 'v Properties \<Rightarrow> 'v Properties" where
  "merge_map s other =
     (let om = map_of_nil (pr_Map other);
          s1 = (if om \<noteq> Map.empty \<and> pr_Map s = None then s\<lparr>pr_Map := Some Map.empty\<rparr> else s)
      in s1\<lparr>pr_Map := map_option (\<lambda>m. m ++ om) (pr_Map s1)\<rparr>)"

definition merge_modified :: "'v Properties \<Rightarrow> 'v Properties \<Rightarrow> 'v Properties" where
  "merge_modified s other =
     (let om = set_of_nil (pr_Modified other);
          s1 = (if om \<noteq> {} \<and> pr_Modified s = None then s\<lparr>pr_Modified := Some {}\<rparr> else s)
      in s1\<lparr>pr_Modified := map_option (\<lambda>ks. ks \<union> om) (pr_Modified s1),
            pr_Deleted := map_option (\<lambda>ks. ks - om) (pr_Deleted s1)\<rparr>)"

definition merge_deleted :: "'v Properties \<Rightarrow> 'v Properties \<Rightarrow> 'v Properties" where
  "merge_deleted s other =
     (let od = set_of_nil (pr_Deleted other);
          s1 = (if od \<noteq> {} \<and> pr_Deleted s = None then s\<lparr>pr_Deleted := Some {}\<rparr> else s)
      in s1\<lparr>pr_Deleted := map_option (\<lambda>ks. ks \<union> od) (pr_Deleted s1),
            pr_Map := map_option (\<lambda>m. m |` (- od)) (pr_Map s1),
            pr_Modified := map_option (\<lambda>ks. ks - od) (pr_Modified s1)\<rparr>)"

definition Properties_Merge :: "'v Properties \<Rightarrow> 'v Properties option \<Rightarrow> 'v Properties" where
  "Properties_Merge s other = (case other of
     None \<Rightarrow> s
   | Some p \<Rightarrow> merge_deleted (merge_modified (merge_map s p) p) p)"

text \<open>\<open>Keys\<close> and the hash. \<open>marshal\<close> is \<open>json.Marshal\<close> on the values of the map.\<close>

definition Properties_Keys :: "string list \<Rightarrow> 'v Properties \<Rightarrow> string set \<Rightarrow> string list" where
  "Properties_Keys order s ignoredKeys = sort (filter (\<lambda>key. key \<notin> ignoredKeys) order)"

datatype ('w, 'm) property_hash_error = Writing_key 'w | Marshaling_value string 'm | Writing_value 'w

definition writeKeyValueToHash ::
    "('h, 'w) writer \<Rightarrow> ('v option \<Rightarrow> 'm + byte list) \<Rightarrow> string \<Rightarrow> 'v option \<Rightarrow> 'h \<Rightarrow> ('w, 'm) property_hash_error option \<times> 'h" where
  "writeKeyValueToHash write marshal key val h = (case write h (string_bytes key) of
     (Some err, h') \<Rightarrow> (Some (Writing_key err), h')
   | (None, h') \<Rightarrow> (case marshal val of
       Inl err \<Rightarrow> (Some (Marshaling_value key err), h')
     | Inr encodedValue \<Rightarrow> (case write h' encodedValue of
         (Some err, h'') \<Rightarrow> (Some (Writing_value err), h'')
       | (None, h'') \<Rightarrow> (None, h''))))"

definition Properties_HashInto ::
    "('h, 'w) writer \<Rightarrow> ('v option \<Rightarrow> 'm + byte list) \<Rightarrow> string list \<Rightarrow> 'v Properties \<Rightarrow> string set \<Rightarrow> 'h \<Rightarrow>
     ('w, 'm) property_hash_error option \<times> 'h" where
  "Properties_HashInto write marshal order s ignoredKeys =
     until_error (\<lambda>key. writeKeyValueToHash write marshal key (map_get (map_of_nil (pr_Map s)) None key))
       (Properties_Keys order s ignoredKeys)"

section \<open>The tracked changes\<close>

text \<open>The content, and the keys tracked as modified and deleted.\<close>

abbreviation props :: "'v Properties \<Rightarrow> (string \<rightharpoonup> 'v option)" where
  "props s \<equiv> map_of_nil (pr_Map s)"

abbreviation modified :: "'v Properties \<Rightarrow> string set" where
  "modified s \<equiv> set_of_nil (pr_Modified s)"

abbreviation deleted :: "'v Properties \<Rightarrow> string set" where
  "deleted s \<equiv> set_of_nil (pr_Deleted s)"

definition props_inv :: "'v Properties \<Rightarrow> bool" where
  "props_inv s \<longleftrightarrow> modified s \<subseteq> dom (props s) \<and> deleted s \<inter> dom (props s) = {}"

lemma Properties_Set_result [simp]:
  "props (Properties_Set s k v) = (props s)(k \<mapsto> v)"
  "modified (Properties_Set s k v) = insert k (modified s)"
  "deleted (Properties_Set s k v) = deleted s - {k}"
  by (auto simp: Properties_Set_def Let_def split: option.splits)

lemma Properties_Delete_result [simp]:
  "props (Properties_Delete s k) = (props s)(k := None)"
  "modified (Properties_Delete s k) = modified s - {k}"
  "deleted (Properties_Delete s k) = insert k (deleted s)"
  by (auto simp: Properties_Delete_def Let_def fun_eq_iff split: option.splits)

lemma Properties_Merge_result:
  "props (Properties_Merge s (Some p)) = (props s ++ props p) |` (- deleted p)"
  "modified (Properties_Merge s (Some p)) = (modified s \<union> modified p) - deleted p"
  "deleted (Properties_Merge s (Some p)) = (deleted s - modified p) \<union> deleted p"
proof -
  have m: "props (merge_map s p) = props s ++ props p" "modified (merge_map s p) = modified s" "deleted (merge_map s p) = deleted s" for s
    by (cases "pr_Map s") (auto simp: merge_map_def Let_def)
  have n: "props (merge_modified s p) = props s" "modified (merge_modified s p) = modified s \<union> modified p"
    "deleted (merge_modified s p) = deleted s - modified p" for s
    by (cases "pr_Modified s"; cases "pr_Deleted s"; auto simp: merge_modified_def Let_def)+
  have d: "props (merge_deleted s p) = props s |` (- deleted p)" "modified (merge_deleted s p) = modified s - deleted p"
    "deleted (merge_deleted s p) = deleted s \<union> deleted p" for s
    by (cases "pr_Map s"; cases "pr_Modified s"; cases "pr_Deleted s"; auto simp: merge_deleted_def Let_def)+
  show "props (Properties_Merge s (Some p)) = (props s ++ props p) |` (- deleted p)"
    "modified (Properties_Merge s (Some p)) = (modified s \<union> modified p) - deleted p"
    "deleted (Properties_Merge s (Some p)) = (deleted s - modified p) \<union> deleted p"
    by (simp_all add: Properties_Merge_def d n m)
qed

lemma Properties_Clone_eq: "Properties_Clone s = s"
  by (cases s) (auto simp: Properties_Clone_def split: option.splits)

lemma props_inv_ops:
  "props_inv NewProperties" "props_inv (AsProperties m)"
  "props_inv s \<Longrightarrow> props_inv (Properties_Set s k v)" "props_inv s \<Longrightarrow> props_inv (Properties_Delete s k)"
  by (auto simp: props_inv_def NewProperties_def AsProperties_def)

section \<open>Histories of changes\<close>

datatype 'v prop_op = SetProp string "'v option" | DeleteProp string

fun prop_apply :: "'v prop_op \<Rightarrow> 'v Properties \<Rightarrow> 'v Properties" where
  "prop_apply (SetProp k v) s = Properties_Set s k v"
| "prop_apply (DeleteProp k) s = Properties_Delete s k"

lemma prop_history:
  assumes "props_inv s" and "props s = (base |` (- deleted s)) ++ (props s |` modified s)"
  shows "props_inv (fold prop_apply ops s) \<and>
     props (fold prop_apply ops s) = (base |` (- deleted (fold prop_apply ops s))) ++ (props (fold prop_apply ops s) |` modified (fold prop_apply ops s))"
  using assms
proof (induction ops arbitrary: s)
  case (Cons p ops)
  have "props_inv (prop_apply p s)" using Cons.prems(1) props_inv_ops(3,4) by (cases p) auto
  moreover have "props (prop_apply p s) = (base |` (- deleted (prop_apply p s))) ++ (props (prop_apply p s) |` modified (prop_apply p s))"
  proof
    fix j
    have j: "props s j = ((base |` (- deleted s)) ++ (props s |` modified s)) j" using Cons.prems(2) by simp
    show "props (prop_apply p s) j = ((base |` (- deleted (prop_apply p s))) ++ (props (prop_apply p s) |` modified (prop_apply p s))) j"
      using j by (cases p) (auto simp: map_add_def restrict_map_def split: option.splits if_splits)
  qed
  ultimately show ?case using Cons.IH by simp
qed simp

lemma ModifiedProperties_restrict:
  assumes "props_inv s"
  shows "ModifiedProperties s = props s |` modified s"
  using assms by (auto simp: ModifiedProperties_def props_inv_def fun_eq_iff restrict_map_def map_get_def split: option.splits)

section \<open>Properties\<close>

text \<open>C30. The tracking is exact for loaded properties: after any sequence of \<open>Set\<close> and \<open>Delete\<close>, removing the keys reported
  as deleted from the stored map and writing the entries of \<open>ModifiedProperties\<close> over it gives
  the current map. A modified key has a value and a deleted key has none.\<close>

theorem tracked_changes_suffice:
  fixes base :: "(string \<rightharpoonup> 'v option) option"
  defines "s \<equiv> \<lambda>ops. fold prop_apply ops (AsProperties base)"
  shows "props (s ops) = (map_of_nil base |` (- deleted (s ops))) ++ ModifiedProperties (s ops) \<and>
     modified (s ops) \<subseteq> dom (props (s ops)) \<and> deleted (s ops) \<inter> dom (props (s ops)) = {}"
proof -
  have start: "props (AsProperties base) = (map_of_nil base |` (- deleted (AsProperties base))) ++ (props (AsProperties base) |` modified (AsProperties base))"
    by (simp add: AsProperties_def fun_eq_iff restrict_map_def map_add_def)
  have r: "props_inv (s ops)" "props (s ops) = (map_of_nil base |` (- deleted (s ops))) ++ (props (s ops) |` modified (s ops))"
    using prop_history [OF props_inv_ops(2) start, of ops] by (simp_all add: s_def)
  then show ?thesis unfolding ModifiedProperties_restrict [OF r(1)] by (simp add: props_inv_def)
qed

text \<open>C31. \<open>Merge\<close> of consistent properties yields the union of both maps, the other one winning, without the
  keys the other deleted. The result is consistent exactly when the other map has no value that is
  neither modified nor deleted there for a key that is tracked as deleted here: such a value comes
  back while its key stays marked as deleted.\<close>

theorem Properties_Merge_consistent:
  assumes "props_inv s" and "props_inv p"
  shows "props (Properties_Merge s (Some p)) = (props s ++ props p) |` (- deleted p) \<and>
     (props_inv (Properties_Merge s (Some p)) \<longleftrightarrow> deleted s \<inter> dom (props p) \<subseteq> modified p)"
proof -
  have inv: "modified s \<subseteq> dom (props s)" "deleted s \<inter> dom (props s) = {}" "modified p \<subseteq> dom (props p)" "deleted p \<inter> dom (props p) = {}"
    using assms by (auto simp: props_inv_def)
  have "dom ((props s ++ props p) |` (- deleted p)) = (dom (props s) \<union> dom (props p)) - deleted p" by auto
  then have "props_inv (Properties_Merge s (Some p)) \<longleftrightarrow>
      (modified s \<union> modified p) - deleted p \<subseteq> (dom (props s) \<union> dom (props p)) - deleted p \<and>
      ((deleted s - modified p) \<union> deleted p) \<inter> ((dom (props s) \<union> dom (props p)) - deleted p) = {}"
    unfolding props_inv_def Properties_Merge_result by simp
  also have "\<dots> \<longleftrightarrow> deleted s \<inter> dom (props p) \<subseteq> modified p" using inv by blast
  finally show ?thesis using Properties_Merge_result(1) by blast
qed

theorem Properties_Merge_consistent_witness:
  "\<not> props_inv (Properties_Merge (Properties_Delete (AsProperties (Some [''k'' \<mapsto> Some (1 :: nat)])) ''k'')
     (Some (AsProperties (Some [''k'' \<mapsto> Some 2]))))"
  using Properties_Merge_consistent [OF props_inv_ops(4) [OF props_inv_ops(2)] props_inv_ops(2),
      of "Some [''k'' \<mapsto> Some (1 :: nat)]" "''k''" "Some [''k'' \<mapsto> Some 2]"]
  by (simp add: AsProperties_def)

text \<open>C32. \<open>Keys\<close>, and with it the bytes \<open>HashInto\<close> feeds to the digest, do not depend on the order in which the
  map is enumerated, but different properties can yield the same bytes: a key and its encoded value
  are written without a boundary between them.\<close>

theorem Properties_HashInto_collides:
  assumes "marshal (Some 1) = Inr (string_bytes ''1'')" and "marshal (Some 2) = Inr (string_bytes ''2'')"
    and "distinct order" and "distinct order'" and "set order = set order'"
  shows "Properties_HashInto write marshal order s ignored h = Properties_HashInto write marshal order' s ignored h \<and>
     Properties_HashInto buffer_Write marshal [''a'', ''b''] (AsProperties (Some [''a'' \<mapsto> Some 1, ''b'' \<mapsto> Some 2])) {} [] =
     Properties_HashInto buffer_Write marshal [''a1b''] (AsProperties (Some [''a1b'' \<mapsto> Some (2 :: nat)])) {} []"
proof -
  have "mset (filter (\<lambda>k. k \<notin> ignored) order) = mset (filter (\<lambda>k. k \<notin> ignored) order')"
    using assms(3-5) by (metis set_eq_iff_mset_eq_distinct mset_filter)
  then have "Properties_Keys order s ignored = Properties_Keys order' s ignored"
    unfolding Properties_Keys_def by (metis mset_sort properties_for_sort sorted_sort)
  moreover have "sort [''a'', ''b''] = [''a'', ''b'']" by (simp add: list_less_def list_le_def)
  ultimately show ?thesis
    using assms(1,2) by (simp add: Properties_HashInto_def Properties_Keys_def writeKeyValueToHash_def AsProperties_def
        map_get_def buffer_Write_def string_bytes_def)
qed

text \<open>The encoding of small numbers, for the witness.\<close>

definition digit_marshal :: "nat option \<Rightarrow> unit + byte list" where
  "digit_marshal v = (case v of None \<Rightarrow> Inr (string_bytes ''null'') | Some n \<Rightarrow> Inr (string_bytes (decimal n)))"

theorem Properties_HashInto_collides_witness:
  "Properties_HashInto buffer_Write digit_marshal [''a'', ''b''] (AsProperties (Some [''a'' \<mapsto> Some 1, ''b'' \<mapsto> Some 2])) {} [] =
   (Properties_HashInto buffer_Write digit_marshal [''a1b''] (AsProperties (Some [''a1b'' \<mapsto> Some 2])) {} [] ::
     (unit, unit) property_hash_error option \<times> byte list)"
proof -
  have "digit_marshal (Some 1) = Inr (string_bytes ''1'')" "digit_marshal (Some 2) = Inr (string_bytes ''2'')" by code_simp+
  from Properties_HashInto_collides [OF this, of "[]" "[]"] show ?thesis by simp
qed

text \<open>\<open>GetWithFallback\<close> prefers a value that is not nil under the key, then - only if the key is absent - the first
  fallback key with such a value, and otherwise the default. The lookups after \<open>Set\<close> and \<open>Delete\<close> see the
  last change.\<close>

theorem Properties_lookup:
  "pv_value (GetWithFallback s key dflt fallbacks) =
     (case props s key of
        Some (Some v) \<Rightarrow> Some v
      | Some None \<Rightarrow> dflt
      | None \<Rightarrow> (case find (\<lambda>k. \<exists>v. props s k = Some (Some v)) fallbacks of None \<Rightarrow> dflt | Some k \<Rightarrow> map_get (props s) None k)) \<and>
   getValue (Properties_Get (Properties_Set s key v) j) = (if j = key then case v of None \<Rightarrow> Inl (Property_not_found key) | Some x \<Rightarrow> Inr x
     else getValue (Properties_Get s j)) \<and>
   \<not> Properties_Exists (Properties_Delete s key) key"
proof -
  have "first_fallback m val ks = (case find (\<lambda>k. \<exists>v. m k = Some (Some v)) ks of None \<Rightarrow> val | Some k \<Rightarrow> map_get m None k)" for m :: "string \<rightharpoonup> 'a option" and val ks
    by (induction ks) (auto simp: map_get_def split: option.splits)
  moreover have "find (\<lambda>k. False) ks = None" for ks :: "string list" by (induction ks) auto
  ultimately have "pv_value (GetWithFallback s key dflt fallbacks) =
     (case props s key of
        Some (Some v) \<Rightarrow> Some v
      | Some None \<Rightarrow> dflt
      | None \<Rightarrow> (case find (\<lambda>k. \<exists>v. props s k = Some (Some v)) fallbacks of None \<Rightarrow> dflt | Some k \<Rightarrow> map_get (props s) None k))"
    by (cases "pr_Map s") (simp_all add: GetWithFallback_def NewPropertyResult_def split: option.split)
  moreover have "pv_value (Properties_Get t j) = map_get (props t) None j" "pv_key (Properties_Get t j) = j"
    "pv_defaultValue (Properties_Get t j) = None" for t :: "'a Properties" and j
    by (auto simp: Properties_Get_def NewPropertyResult_def map_get_def split: option.splits)
  then have "getValue (Properties_Get (Properties_Set s key v) j) = (if j = key then case v of None \<Rightarrow> Inl (Property_not_found key) | Some x \<Rightarrow> Inr x
     else getValue (Properties_Get s j))"
    by (auto simp: getValue_def map_get_def split: option.splits)
  moreover have "Properties_Exists t key \<longleftrightarrow> props t key \<noteq> None" for t :: "'a Properties"
    by (auto simp: Properties_Exists_def split: option.splits)
  ultimately show ?thesis by simp
qed

end
