(* ===== verification/Gr_Node.thy ===== *)
theory Gr_Node
  imports Gr_Properties Dg_Digraph
begin

text \<open>
  src/graph/node.go, src/graph/relationships.go, src/graph/util.go and the identifiers and directions of
  src/graph/graph.go: nodes and relationships with tracked changes, and sets of them.

  Sets are Go maps from identifiers to pointers that are not nil. Their methods read the nodes and never
  write to them, so a set holds the nodes themselves. The methods of \<open>ThreadSafeNodeSet\<close> take its lock and call
  the ones of \<open>NodeSet\<close> modelled here.
\<close>

section \<open>Identifiers and directions\<close>

type_synonym ID = uint64

definition ID_Uint64 :: "ID \<Rightarrow> uint64" where
  "ID_Uint64 s = s"

definition ID_Uint32 :: "ID \<Rightarrow> 32 word" where
  "ID_Uint32 s = ucast s"

definition ID_Int64 :: "ID \<Rightarrow> int" where
  "ID_Int64 s = sint s"

definition FormatInt :: "int \<Rightarrow> string" where
  "FormatInt i = (if i < 0 then CHR ''-'' # decimal (nat (- i)) else decimal (nat i))"

definition ID_String :: "ID \<Rightarrow> string" where
  "ID_String s = FormatInt (ID_Int64 s)"

text \<open>The error of \<open>PickID\<close> is \<open>ErrInvalidDirection\<close>.\<close>

definition PickID :: "direction \<Rightarrow> ID \<Rightarrow> ID \<Rightarrow> ID option" where
  "PickID s start end' = (case s of
     DirectionInbound \<Rightarrow> Some end' | DirectionOutbound \<Rightarrow> Some start | DirectionBoth \<Rightarrow> None)"

definition PickReverseID :: "direction \<Rightarrow> ID \<Rightarrow> ID \<Rightarrow> ID option" where
  "PickReverseID s start end' = (case s of
     DirectionInbound \<Rightarrow> Some start | DirectionOutbound \<Rightarrow> Some end' | DirectionBoth \<Rightarrow> None)"

definition Direction_String :: "direction \<Rightarrow> string" where
  "Direction_String s = (case s of
     DirectionInbound \<Rightarrow> ''inbound'' | DirectionOutbound \<Rightarrow> ''outbound'' | DirectionBoth \<Rightarrow> ''both'')"

section \<open>Nodes\<close>

record 'v Node =
  nd_ID :: ID
  nd_Kinds :: Kinds
  nd_AddedKinds :: Kinds
  nd_DeletedKinds :: Kinds
  nd_Properties :: "'v Properties option"

definition UnregisteredNodeID :: ID where
  "UnregisteredNodeID = 0x7FFFFFFFFFFFFFFF"

definition NewNode :: "ID \<Rightarrow> 'v Properties option \<Rightarrow> Kinds \<Rightarrow> 'v Node" where
  "NewNode nodeID properties kinds =
     \<lparr>nd_ID = nodeID, nd_Kinds = kinds, nd_AddedKinds = [], nd_DeletedKinds = [], nd_Properties = properties\<rparr>"

definition PrepareNode :: "'v Properties option \<Rightarrow> Kinds \<Rightarrow> 'v Node" where
  "PrepareNode properties kinds = NewNode UnregisteredNodeID properties (filter (\<lambda>k. k \<noteq> None) kinds)"

text \<open>Merging into a node without properties dereferences a nil pointer, unless the other has none either.\<close>

definition merge_properties :: "'v Properties option \<Rightarrow> 'v Properties option \<Rightarrow> 'v Properties option option" where
  "merge_properties s other = (case other of
     None \<Rightarrow> Some s
   | Some p \<Rightarrow> (case s of None \<Rightarrow> None | Some q \<Rightarrow> Some (Some (Properties_Merge q (Some p)))))"

definition Node_Merge :: "'v Node \<Rightarrow> 'v Node \<Rightarrow> 'v Node option" where
  "Node_Merge s other =
     Option.bind (Kinds_Add (nd_Kinds s) (nd_Kinds other)) (\<lambda>kinds1.
       let deleted1 = fold (\<lambda>otherKind ks. Kinds_Remove ks otherKind) (nd_AddedKinds other) (nd_DeletedKinds s);
           kinds2 = fold (\<lambda>otherKind ks. Kinds_Remove ks otherKind) (nd_DeletedKinds other) kinds1;
           added1 = fold (\<lambda>otherKind ks. Kinds_Remove ks otherKind) (nd_DeletedKinds other) (nd_AddedKinds s)
       in Option.bind (Kinds_Add added1 (nd_AddedKinds other)) (\<lambda>added2.
            Option.bind (Kinds_Add deleted1 (nd_DeletedKinds other)) (\<lambda>deleted2.
              map_option (\<lambda>properties. s\<lparr>nd_Kinds := kinds2, nd_AddedKinds := added2, nd_DeletedKinds := deleted2,
                  nd_Properties := properties\<rparr>)
                (merge_properties (nd_Properties s) (nd_Properties other)))))"

definition Node_AddKinds :: "'v Node \<Rightarrow> Kinds \<Rightarrow> 'v Node option" where
  "Node_AddKinds s kinds = for_each (\<lambda>kind s.
     if kind = None then Some s
     else Option.bind (Kinds_Add (nd_Kinds s) [kind]) (\<lambda>ks.
       map_option (\<lambda>added. s\<lparr>nd_Kinds := ks, nd_AddedKinds := added,
           nd_DeletedKinds := Kinds_Remove (nd_DeletedKinds s) kind\<rparr>)
         (Kinds_Add (nd_AddedKinds s) [kind]))) kinds s"

definition Node_DeleteKinds :: "'v Node \<Rightarrow> Kinds \<Rightarrow> 'v Node option" where
  "Node_DeleteKinds s kinds = for_each (\<lambda>kind s.
     map_option (\<lambda>deleted. s\<lparr>nd_Kinds := Kinds_Remove (nd_Kinds s) kind,
         nd_AddedKinds := Kinds_Remove (nd_AddedKinds s) kind, nd_DeletedKinds := deleted\<rparr>)
       (Kinds_Add (nd_DeletedKinds s) [kind])) kinds s"

definition strip_property :: "'v Properties \<Rightarrow> string \<Rightarrow> 'v Properties \<Rightarrow> 'v Properties" where
  "strip_property old exclusion new =
     (let new1 = (if Properties_Exists old exclusion then Properties_Set new exclusion (pv_value (Properties_Get old exclusion)) else new)
      in if exclusion \<in> set_of_nil (pr_Deleted old) then Properties_Delete new1 exclusion else new1)"

definition StripAllPropertiesExcept :: "'v Node \<Rightarrow> string list \<Rightarrow> 'v Node" where
  "StripAllPropertiesExcept s except = (case nd_Properties s of
     None \<Rightarrow> s\<lparr>nd_Properties := Some NewProperties\<rparr>
   | Some old \<Rightarrow> s\<lparr>nd_Properties := Some (fold (strip_property old) except NewProperties)\<rparr>)"

section \<open>Sets of nodes\<close>

type_synonym 'v NodeSet = "ID \<rightharpoonup> 'v Node"

definition NodeSet_Pick :: "ID list \<Rightarrow> 'v NodeSet \<Rightarrow> 'v Node option" where
  "NodeSet_Pick order s = (case order of [] \<Rightarrow> None | k # _ \<Rightarrow> s k)"

definition NodeSet_Add :: "'v NodeSet \<Rightarrow> 'v Node list \<Rightarrow> 'v NodeSet" where
  "NodeSet_Add s nodes = fold (\<lambda>node s. s(nd_ID node \<mapsto> node)) nodes s"

definition NewNodeSet :: "'v Node list \<Rightarrow> 'v NodeSet" where
  "NewNodeSet nodes = fold (\<lambda>node s. s(nd_ID node \<mapsto> node)) nodes Map.empty"

definition ContainingNodeKinds :: "ID list \<Rightarrow> 'v NodeSet \<Rightarrow> Kinds \<Rightarrow> 'v NodeSet option" where
  "ContainingNodeKinds order s kinds = for_each (\<lambda>k newSet. case s k of
     None \<Rightarrow> Some newSet
   | Some node \<Rightarrow> map_option (\<lambda>found. if found then NodeSet_Add newSet [node] else newSet)
       (ContainsOneOf (nd_Kinds node) kinds)) order Map.empty"

definition NodeSet_Remove :: "'v NodeSet \<Rightarrow> ID \<Rightarrow> 'v NodeSet" where
  "NodeSet_Remove s nodeID = s(nodeID := None)"

definition NodeSet_Get :: "'v NodeSet \<Rightarrow> ID \<Rightarrow> 'v Node option" where
  "NodeSet_Get s nodeID = s nodeID"

definition NodeSet_Len :: "'v NodeSet \<Rightarrow> nat" where
  "NodeSet_Len s = card (dom s)"

definition NodeSet_AddSet :: "'v NodeSet \<Rightarrow> 'v NodeSet \<Rightarrow> 'v NodeSet" where
  "NodeSet_AddSet s set' = s ++ set'"

definition NodeSet_Copy :: "'v NodeSet \<Rightarrow> 'v NodeSet" where
  "NodeSet_Copy s = Map.empty ++ s"

definition NodeSet_ContainsID :: "'v NodeSet \<Rightarrow> ID \<Rightarrow> bool" where
  "NodeSet_ContainsID s nodeID \<longleftrightarrow> s nodeID \<noteq> None"

definition NodeSet_Contains :: "'v NodeSet \<Rightarrow> 'v Node \<Rightarrow> bool" where
  "NodeSet_Contains s node = NodeSet_ContainsID s (nd_ID node)"

definition AddIfNotExists :: "'v NodeSet \<Rightarrow> 'v Node \<Rightarrow> bool \<times> 'v NodeSet" where
  "AddIfNotExists s node = (case s (nd_ID node) of
     Some _ \<Rightarrow> (False, s)
   | None \<Rightarrow> (True, s(nd_ID node \<mapsto> node)))"

definition NodeSet_Slice :: "ID list \<Rightarrow> 'v NodeSet \<Rightarrow> 'v Node list" where
  "NodeSet_Slice order s = List.map_filter s order"

definition NodeSet_IDs :: "ID list \<Rightarrow> 'v NodeSet \<Rightarrow> ID list" where
  "NodeSet_IDs order s = map nd_ID (List.map_filter s order)"

definition NodeSet_IDBitmap :: "'b roaring64_ops \<Rightarrow> ID list \<Rightarrow> 'v NodeSet \<Rightarrow> 'b" where
  "NodeSet_IDBitmap R order s = fold (\<lambda>nodeID bitmap. bitmap64_Add R bitmap [ID_Uint64 nodeID]) order (NewBitmap64 R)"

definition MergeNodeSets :: "'v NodeSet list \<Rightarrow> 'v NodeSet" where
  "MergeNodeSets sets = fold (\<lambda>set' newSet. NodeSet_AddSet newSet set') sets Map.empty"

definition EmptyNodeSet :: "'v NodeSet" where
  "EmptyNodeSet = Map.empty"

definition Uint32SliceToIDs :: "32 word list \<Rightarrow> ID list" where
  "Uint32SliceToIDs raw = map ucast raw"

definition Uint64SliceToIDs :: "uint64 list \<Rightarrow> ID list" where
  "Uint64SliceToIDs raw = map (\<lambda>rawID. rawID) raw"

definition IDsToUint32Slice :: "ID list \<Rightarrow> 32 word list" where
  "IDsToUint32Slice ids = map ID_Uint32 ids"

definition IDsToUint64Slice :: "ID list \<Rightarrow> uint64 list" where
  "IDsToUint64Slice ids = map ID_Uint64 ids"

text \<open>src/graph/util.go. The slice expressions panic outside of the slice.\<close>

definition SortIDSlice :: "ID list \<Rightarrow> ID list" where
  "SortIDSlice ids = sort_key ID_Int64 ids"

definition SortNodeSetById :: "ID list \<Rightarrow> 'v NodeSet \<Rightarrow> 'v Node list option" where
  "SortNodeSetById order s =
     for_each (\<lambda>nodeID results. map_option (\<lambda>node. results @ [node]) (NodeSet_Get s nodeID)) (SortIDSlice (NodeSet_IDs order s)) []"

definition SortAndSliceNodeSet :: "ID list \<Rightarrow> 'v NodeSet \<Rightarrow> nat \<Rightarrow> nat \<Rightarrow> 'v NodeSet option" where
  "SortAndSliceNodeSet order s skip limit = Option.bind (SortNodeSetById order s) (\<lambda>nodes.
     if skip = 0 \<and> limit = 0 then Some (NewNodeSet nodes)
     else if limit = 0 then map_option NewNodeSet (slice_sub nodes skip (length nodes))
     else if skip = 0 then map_option NewNodeSet (slice_sub nodes 0 limit)
     else map_option NewNodeSet (slice_sub nodes skip (skip + limit)))"

definition NodeSetToBitmap :: "'b roaring64_ops \<Rightarrow> ID list \<Rightarrow> 'v NodeSet \<Rightarrow> 'b" where
  "NodeSetToBitmap R order s =
     fold (\<lambda>node bitmap. bitmap64_Add R bitmap [ID_Uint64 (nd_ID node)]) (NodeSet_Slice order s) (NewBitmap64 R)"

section \<open>Sets of nodes by kind\<close>

text \<open>The name of a kind is the key; \<open>nodeKind.String()\<close> panics on nil.\<close>

type_synonym 'v NodeKindSet = "string \<rightharpoonup> 'v NodeSet"

definition addNode :: "'v NodeKindSet \<Rightarrow> 'v Node \<Rightarrow> 'v NodeKindSet option" where
  "addNode s node = for_each (\<lambda>nodeKind s. map_option (\<lambda>k. case s k of
       None \<Rightarrow> s(k \<mapsto> [nd_ID node \<mapsto> node])
     | Some existing \<Rightarrow> s(k \<mapsto> NodeSet_Add existing [node])) nodeKind) (nd_Kinds node) s"

definition NodeKindSet_Add :: "'v NodeKindSet \<Rightarrow> 'v Node list \<Rightarrow> 'v NodeKindSet option" where
  "NodeKindSet_Add s nodes = for_each (\<lambda>node s. addNode s node) nodes s"

text \<open>The orders are those in which the node sets are enumerated.\<close>

definition NodeKindSet_AddSets :: "'v NodeKindSet \<Rightarrow> (ID list \<times> 'v NodeSet) list \<Rightarrow> 'v NodeKindSet option" where
  "NodeKindSet_AddSets s nodeSets = for_each (\<lambda>(order, nodeSet) s. NodeKindSet_Add s (NodeSet_Slice order nodeSet)) nodeSets s"

definition NewNodeKindSet :: "(ID list \<times> 'v NodeSet) list \<Rightarrow> 'v NodeKindSet option" where
  "NewNodeKindSet nodeSets = NodeKindSet_AddSets Map.empty nodeSets"

definition NodeSet_KindSet :: "ID list \<Rightarrow> 'v NodeSet \<Rightarrow> 'v NodeKindSet option" where
  "NodeSet_KindSet order s = for_each (\<lambda>node kindSet. NodeKindSet_Add kindSet [node]) (NodeSet_Slice order s) Map.empty"

definition GetCombined :: "'v NodeKindSet \<Rightarrow> string list \<Rightarrow> 'v NodeSet" where
  "GetCombined s kinds = fold (\<lambda>kind combined. case s kind of
     Some set' \<Rightarrow> NodeSet_AddSet combined set' | None \<Rightarrow> combined) kinds Map.empty"

definition NodeKindSet_Get :: "'v NodeKindSet \<Rightarrow> string \<Rightarrow> 'v NodeSet" where
  "NodeKindSet_Get s kind = (case s kind of Some set' \<Rightarrow> set' | None \<Rightarrow> EmptyNodeSet)"

definition RemoveNode :: "string list \<Rightarrow> 'v NodeKindSet \<Rightarrow> ID \<Rightarrow> 'v NodeKindSet" where
  "RemoveNode order s nodeID = fold (\<lambda>k s. case s k of
     Some nodeSet \<Rightarrow> s(k \<mapsto> NodeSet_Remove nodeSet nodeID) | None \<Rightarrow> s) order s"

definition AllNodes :: "string list \<Rightarrow> 'v NodeKindSet \<Rightarrow> 'v NodeSet" where
  "AllNodes order s = fold (\<lambda>k all. case s k of Some set' \<Rightarrow> NodeSet_AddSet all set' | None \<Rightarrow> all) order Map.empty"

fun GetNode :: "string list \<Rightarrow> 'v NodeKindSet \<Rightarrow> ID \<Rightarrow> 'v Node option" where
  "GetNode [] s nodeID = None"
| "GetNode (k # order) s nodeID = (case Option.bind (s k) (\<lambda>set'. NodeSet_Get set' nodeID) of
     Some node \<Rightarrow> Some node
   | None \<Rightarrow> GetNode order s nodeID)"

definition NodeKindSet_Count :: "'b roaring64_ops \<Rightarrow> (string \<Rightarrow> ID list) \<Rightarrow> 'v NodeKindSet \<Rightarrow> string list \<Rightarrow> int" where
  "NodeKindSet_Count R orders s kinds = sint (bitmap64_Cardinality R
     (fold (\<lambda>kind bitmap. case s kind of
        Some set' \<Rightarrow> fold (\<lambda>node bitmap. bitmap64_Add R bitmap [ID_Uint64 (nd_ID node)]) (NodeSet_Slice (orders kind) set') bitmap
      | None \<Rightarrow> bitmap) kinds (NewBitmap64 R)))"

section \<open>Relationships\<close>

record 'v Relationship =
  rl_ID :: ID
  rl_StartID :: ID
  rl_EndID :: ID
  rl_Kind :: Kind
  rl_Properties :: "'v Properties option"

definition NewRelationship :: "ID \<Rightarrow> ID \<Rightarrow> ID \<Rightarrow> 'v Properties option \<Rightarrow> Kind \<Rightarrow> 'v Relationship" where
  "NewRelationship relID startID endID properties kind =
     \<lparr>rl_ID = relID, rl_StartID = startID, rl_EndID = endID, rl_Kind = kind, rl_Properties = properties\<rparr>"

definition PrepareRelationship :: "'v Properties option \<Rightarrow> Kind \<Rightarrow> 'v Relationship" where
  "PrepareRelationship properties kind =
     \<lparr>rl_ID = 0, rl_StartID = 0, rl_EndID = 0, rl_Kind = kind, rl_Properties = properties\<rparr>"

definition Relationship_Merge :: "'v Relationship \<Rightarrow> 'v Relationship \<Rightarrow> 'v Relationship option" where
  "Relationship_Merge s other =
     map_option (\<lambda>properties. s\<lparr>rl_Properties := properties\<rparr>) (merge_properties (rl_Properties s) (rl_Properties other))"

definition Direction_Pick :: "direction \<Rightarrow> 'v Relationship \<Rightarrow> ID option" where
  "Direction_Pick s relationship = PickID s (rl_StartID relationship) (rl_EndID relationship)"

definition Direction_PickReverse :: "direction \<Rightarrow> 'v Relationship \<Rightarrow> ID option" where
  "Direction_PickReverse s relationship = PickReverseID s (rl_StartID relationship) (rl_EndID relationship)"

type_synonym 'v RelationshipSet = "ID \<rightharpoonup> 'v Relationship"

definition RelationshipSet_Add :: "'v RelationshipSet \<Rightarrow> 'v Relationship list \<Rightarrow> 'v RelationshipSet" where
  "RelationshipSet_Add s relationships = fold (\<lambda>relationship s. s(rl_ID relationship \<mapsto> relationship)) relationships s"

definition NewRelationshipSet :: "'v Relationship list \<Rightarrow> 'v RelationshipSet" where
  "NewRelationshipSet relationships =
     fold (\<lambda>relationship s. s(rl_ID relationship \<mapsto> relationship)) relationships Map.empty"

definition RelationshipSet_AddSet :: "'v RelationshipSet \<Rightarrow> 'v RelationshipSet \<Rightarrow> 'v RelationshipSet" where
  "RelationshipSet_AddSet s other = s ++ other"

definition RelationshipSet_Get :: "'v RelationshipSet \<Rightarrow> ID \<Rightarrow> 'v Relationship option" where
  "RelationshipSet_Get s relID = s relID"

definition RelationshipSet_Len :: "'v RelationshipSet \<Rightarrow> nat" where
  "RelationshipSet_Len s = card (dom s)"

definition RelationshipSet_ContainsID :: "'v RelationshipSet \<Rightarrow> ID \<Rightarrow> bool" where
  "RelationshipSet_ContainsID s relID \<longleftrightarrow> s relID \<noteq> None"

definition RelationshipSet_Contains :: "'v RelationshipSet \<Rightarrow> 'v Relationship \<Rightarrow> bool" where
  "RelationshipSet_Contains s relationship = RelationshipSet_ContainsID s (rl_ID relationship)"

definition RelationshipSet_Slice :: "ID list \<Rightarrow> 'v RelationshipSet \<Rightarrow> 'v Relationship list" where
  "RelationshipSet_Slice order s = List.map_filter s order"

definition RelationshipSet_IDBitmap :: "'b roaring64_ops \<Rightarrow> ID list \<Rightarrow> 'v RelationshipSet \<Rightarrow> 'b" where
  "RelationshipSet_IDBitmap R order s = fold (\<lambda>relID bitmap. bitmap64_Add R bitmap [relID]) order (NewBitmap64 R)"

section \<open>Tracked kinds\<close>

text \<open>Kinds without nil and repetitions; added kinds are present and deleted ones are not.\<close>

definition node_inv :: "'v Node \<Rightarrow> bool" where
  "node_inv n \<longleftrightarrow> distinct (nd_Kinds n) \<and> distinct (nd_AddedKinds n) \<and> distinct (nd_DeletedKinds n) \<and>
     None \<notin> set (nd_Kinds n) \<union> set (nd_AddedKinds n) \<union> set (nd_DeletedKinds n) \<and>
     set (nd_AddedKinds n) \<subseteq> set (nd_Kinds n) \<and> set (nd_DeletedKinds n) \<inter> set (nd_Kinds n) = {}"

lemma Kinds_Add_obtain:
  assumes "no_nil kinds" and "distinct s"
  obtains r where "Kinds_Add s kinds = Some r" "set r = set s \<union> set kinds" "distinct r"
  using Kinds_Add_result [OF assms(1), of s] assms(2) by metis

lemma Node_AddKinds_result:
  assumes "node_inv n"
  shows "\<exists>n'. Node_AddKinds n kinds = Some n' \<and> node_inv n' \<and>
     set (nd_Kinds n') = set (nd_Kinds n) \<union> (set kinds - {None}) \<and>
     set (nd_AddedKinds n') = set (nd_AddedKinds n) \<union> (set kinds - {None}) \<and>
     set (nd_DeletedKinds n') = set (nd_DeletedKinds n) - set kinds \<and> nd_Properties n' = nd_Properties n"
  using assms
proof (induction kinds arbitrary: n)
  case Nil
  then show ?case by (auto simp: Node_AddKinds_def node_inv_def)
next
  case (Cons k kinds)
  show ?case
  proof (cases k)
    case None
    have "None \<notin> set (nd_DeletedKinds n)" using Cons.prems by (simp add: node_inv_def)
    with Cons.IH [OF Cons.prems] None show ?thesis by (auto simp: Node_AddKinds_def)
  next
    case (Some j)
    have nn: "no_nil [k]" using Some by simp
    have inv: "distinct (nd_Kinds n)" "distinct (nd_AddedKinds n)" "distinct (nd_DeletedKinds n)"
      "None \<notin> set (nd_Kinds n) \<union> set (nd_AddedKinds n) \<union> set (nd_DeletedKinds n)"
      "set (nd_AddedKinds n) \<subseteq> set (nd_Kinds n)" "set (nd_DeletedKinds n) \<inter> set (nd_Kinds n) = {}"
      using Cons.prems by (simp_all add: node_inv_def)
    obtain ks where ks: "Kinds_Add (nd_Kinds n) [k] = Some ks" "set ks = set (nd_Kinds n) \<union> set [k]" "distinct ks"
      by (rule Kinds_Add_obtain [OF nn inv(1)])
    obtain as where as: "Kinds_Add (nd_AddedKinds n) [k] = Some as" "set as = set (nd_AddedKinds n) \<union> set [k]" "distinct as"
      by (rule Kinds_Add_obtain [OF nn inv(2)])
    let ?n = "n\<lparr>nd_Kinds := ks, nd_AddedKinds := as, nd_DeletedKinds := Kinds_Remove (nd_DeletedKinds n) k\<rparr>"
    have del: "set (Kinds_Remove (nd_DeletedKinds n) k) = set (nd_DeletedKinds n) - {k}" "distinct (Kinds_Remove (nd_DeletedKinds n) k)"
      using inv(3) set_Kinds_Remove distinct_Kinds_Remove by blast+
    have "node_inv ?n" using inv ks as del Some by (auto simp: node_inv_def)
    from Cons.IH [OF this] obtain n' where n': "Node_AddKinds ?n kinds = Some n'" "node_inv n'"
      "set (nd_Kinds n') = set ks \<union> (set kinds - {None})" "set (nd_AddedKinds n') = set as \<union> (set kinds - {None})"
      "set (nd_DeletedKinds n') = set (Kinds_Remove (nd_DeletedKinds n) k) - set kinds" "nd_Properties n' = nd_Properties n" by auto
    have "Node_AddKinds n (k # kinds) = Some n'" using n'(1) ks(1) as(1) Some by (simp add: Node_AddKinds_def)
    then show ?thesis using n' ks(2) as(2) del(1) Some by auto
  qed
qed

lemma Node_DeleteKinds_result:
  assumes "node_inv n" and "no_nil kinds"
  shows "\<exists>n'. Node_DeleteKinds n kinds = Some n' \<and> node_inv n' \<and>
     set (nd_Kinds n') = set (nd_Kinds n) - set kinds \<and> set (nd_AddedKinds n') = set (nd_AddedKinds n) - set kinds \<and>
     set (nd_DeletedKinds n') = set (nd_DeletedKinds n) \<union> set kinds \<and> nd_Properties n' = nd_Properties n"
  using assms
proof (induction kinds arbitrary: n)
  case Nil
  then show ?case by (auto simp: Node_DeleteKinds_def)
next
  case (Cons k kinds)
  have nn: "no_nil [k]" using Cons.prems by auto
  have inv: "distinct (nd_Kinds n)" "distinct (nd_AddedKinds n)" "distinct (nd_DeletedKinds n)"
    "None \<notin> set (nd_Kinds n) \<union> set (nd_AddedKinds n) \<union> set (nd_DeletedKinds n)"
    "set (nd_AddedKinds n) \<subseteq> set (nd_Kinds n)" "set (nd_DeletedKinds n) \<inter> set (nd_Kinds n) = {}"
    using Cons.prems by (simp_all add: node_inv_def)
  obtain ds where ds: "Kinds_Add (nd_DeletedKinds n) [k] = Some ds" "set ds = set (nd_DeletedKinds n) \<union> set [k]" "distinct ds"
    by (rule Kinds_Add_obtain [OF nn inv(3)])
  let ?n = "n\<lparr>nd_Kinds := Kinds_Remove (nd_Kinds n) k, nd_AddedKinds := Kinds_Remove (nd_AddedKinds n) k, nd_DeletedKinds := ds\<rparr>"
  have rem: "set (Kinds_Remove (nd_Kinds n) k) = set (nd_Kinds n) - {k}" "distinct (Kinds_Remove (nd_Kinds n) k)"
    "set (Kinds_Remove (nd_AddedKinds n) k) = set (nd_AddedKinds n) - {k}" "distinct (Kinds_Remove (nd_AddedKinds n) k)"
    using inv(1,2) set_Kinds_Remove distinct_Kinds_Remove by blast+
  have "node_inv ?n" using inv ds rem nn by (auto simp: node_inv_def)
  moreover have "no_nil kinds" using Cons.prems(2) by auto
  ultimately obtain n' where n': "Node_DeleteKinds ?n kinds = Some n'" "node_inv n'"
    "set (nd_Kinds n') = set (Kinds_Remove (nd_Kinds n) k) - set kinds"
    "set (nd_AddedKinds n') = set (Kinds_Remove (nd_AddedKinds n) k) - set kinds"
    "set (nd_DeletedKinds n') = set ds \<union> set kinds" "nd_Properties n' = nd_Properties n" using Cons.IH [of ?n] by auto
  have "Node_DeleteKinds n (k # kinds) = Some n'" using n'(1) ds(1) by (simp add: Node_DeleteKinds_def)
  then show ?case using n' rem ds(2) by auto
qed

text \<open>Changes of the kinds of a node.\<close>

datatype kind_op = AddKindsOp Kinds | DeleteKindsOp Kinds

fun kind_apply :: "kind_op \<Rightarrow> 'v Node \<Rightarrow> 'v Node option" where
  "kind_apply (AddKindsOp ks) n = Node_AddKinds n ks"
| "kind_apply (DeleteKindsOp ks) n = Node_DeleteKinds n ks"

fun op_ok :: "kind_op \<Rightarrow> bool" where
  "op_ok (AddKindsOp ks) \<longleftrightarrow> True"
| "op_ok (DeleteKindsOp ks) \<longleftrightarrow> no_nil ks"

lemma kind_history:
  assumes "\<forall>p \<in> set ops. op_ok p" and "node_inv n" and "set (nd_Kinds n) = (B - set (nd_DeletedKinds n)) \<union> set (nd_AddedKinds n)"
  shows "\<exists>n'. for_each kind_apply ops n = Some n' \<and> node_inv n' \<and>
     set (nd_Kinds n') = (B - set (nd_DeletedKinds n')) \<union> set (nd_AddedKinds n')"
  using assms
proof (induction ops arbitrary: n)
  case (Cons p ops)
  have "\<exists>n1. kind_apply p n = Some n1 \<and> node_inv n1 \<and> set (nd_Kinds n1) = (B - set (nd_DeletedKinds n1)) \<union> set (nd_AddedKinds n1)"
  proof (cases p)
    case (AddKindsOp ks)
    obtain n1 where n1: "Node_AddKinds n ks = Some n1" "node_inv n1" "set (nd_Kinds n1) = set (nd_Kinds n) \<union> (set ks - {None})"
      "set (nd_AddedKinds n1) = set (nd_AddedKinds n) \<union> (set ks - {None})" "set (nd_DeletedKinds n1) = set (nd_DeletedKinds n) - set ks"
      using Node_AddKinds_result [OF Cons.prems(2), of ks] by blast
    have "None \<notin> set (nd_Kinds n)" using Cons.prems(2) by (simp add: node_inv_def)
    with n1(3-5) Cons.prems(3) have "set (nd_Kinds n1) = (B - set (nd_DeletedKinds n1)) \<union> set (nd_AddedKinds n1)"
      using Cons.prems(2) by (auto simp: node_inv_def)
    with n1 AddKindsOp show ?thesis by simp
  next
    case (DeleteKindsOp ks)
    then have "no_nil ks" using Cons.prems(1) by simp
    from Node_DeleteKinds_result [OF Cons.prems(2) this] obtain n1 where n1: "Node_DeleteKinds n ks = Some n1" "node_inv n1"
      "set (nd_Kinds n1) = set (nd_Kinds n) - set ks" "set (nd_AddedKinds n1) = set (nd_AddedKinds n) - set ks"
      "set (nd_DeletedKinds n1) = set (nd_DeletedKinds n) \<union> set ks" by blast
    then have "set (nd_Kinds n1) = (B - set (nd_DeletedKinds n1)) \<union> set (nd_AddedKinds n1)" using Cons.prems(3) by blast
    with n1 DeleteKindsOp show ?thesis by simp
  qed
  then obtain n1 where "kind_apply p n = Some n1" "node_inv n1" "set (nd_Kinds n1) = (B - set (nd_DeletedKinds n1)) \<union> set (nd_AddedKinds n1)" by blast
  with Cons.IH [of n1] Cons.prems(1) show ?case by simp
qed simp

lemma set_fold_Remove: "distinct ys \<Longrightarrow> set (fold (\<lambda>k ks. Kinds_Remove ks k) xs ys) = set ys - set xs \<and> distinct (fold (\<lambda>k ks. Kinds_Remove ks k) xs ys)"
proof (induction xs arbitrary: ys)
  case (Cons x xs)
  from Cons.IH [OF distinct_Kinds_Remove [OF Cons.prems, of x]] show ?case
    using set_Kinds_Remove [OF Cons.prems, of x] by auto
qed simp

lemma Node_Merge_kinds:
  assumes "node_inv s" and "node_inv t" and "nd_Properties t = None \<or> nd_Properties s \<noteq> None"
  shows "\<exists>m. Node_Merge s t = Some m \<and> nd_ID m = nd_ID s \<and>
     set (nd_Kinds m) = (set (nd_Kinds s) \<union> set (nd_Kinds t)) - set (nd_DeletedKinds t) \<and>
     set (nd_AddedKinds m) = (set (nd_AddedKinds s) - set (nd_DeletedKinds t)) \<union> set (nd_AddedKinds t) \<and>
     set (nd_DeletedKinds m) = (set (nd_DeletedKinds s) - set (nd_AddedKinds t)) \<union> set (nd_DeletedKinds t) \<and>
     distinct (nd_Kinds m) \<and> distinct (nd_AddedKinds m) \<and> distinct (nd_DeletedKinds m)"
proof -
  have s: "distinct (nd_Kinds s)" "distinct (nd_AddedKinds s)" "distinct (nd_DeletedKinds s)"
    and t: "no_nil (nd_Kinds t)" "no_nil (nd_AddedKinds t)" "no_nil (nd_DeletedKinds t)"
    using assms(1,2) by (simp_all add: node_inv_def)
  let ?rm = "\<lambda>xs ys. fold (\<lambda>k ks. Kinds_Remove ks k) xs ys"
  obtain k1 where k1: "Kinds_Add (nd_Kinds s) (nd_Kinds t) = Some k1" "set k1 = set (nd_Kinds s) \<union> set (nd_Kinds t)" "distinct k1"
    by (rule Kinds_Add_obtain [OF t(1) s(1)])
  have d1: "distinct (?rm (nd_AddedKinds t) (nd_DeletedKinds s))" "set (?rm (nd_AddedKinds t) (nd_DeletedKinds s)) = set (nd_DeletedKinds s) - set (nd_AddedKinds t)"
    using set_fold_Remove [OF s(3)] by blast+
  have a1: "distinct (?rm (nd_DeletedKinds t) (nd_AddedKinds s))" "set (?rm (nd_DeletedKinds t) (nd_AddedKinds s)) = set (nd_AddedKinds s) - set (nd_DeletedKinds t)"
    using set_fold_Remove [OF s(2)] by blast+
  obtain a2 where a2: "Kinds_Add (?rm (nd_DeletedKinds t) (nd_AddedKinds s)) (nd_AddedKinds t) = Some a2"
    "set a2 = set (?rm (nd_DeletedKinds t) (nd_AddedKinds s)) \<union> set (nd_AddedKinds t)" "distinct a2"
    by (rule Kinds_Add_obtain [OF t(2) a1(1)])
  obtain d2 where d2: "Kinds_Add (?rm (nd_AddedKinds t) (nd_DeletedKinds s)) (nd_DeletedKinds t) = Some d2"
    "set d2 = set (?rm (nd_AddedKinds t) (nd_DeletedKinds s)) \<union> set (nd_DeletedKinds t)" "distinct d2"
    by (rule Kinds_Add_obtain [OF t(3) d1(1)])
  obtain pr where pr: "merge_properties (nd_Properties s) (nd_Properties t) = Some pr"
    using assms(3) by (cases "nd_Properties t"; cases "nd_Properties s") (auto simp: merge_properties_def)
  have "Node_Merge s t = Some (s\<lparr>nd_Kinds := ?rm (nd_DeletedKinds t) k1, nd_AddedKinds := a2, nd_DeletedKinds := d2, nd_Properties := pr\<rparr>)"
    using k1(1) a2(1) d2(1) pr by (simp add: Node_Merge_def Let_def)
  then show ?thesis
    using k1 a2 d2 a1(2) d1(2) set_fold_Remove [OF k1(3), of "nd_DeletedKinds t"] by simp
qed

section \<open>Sorted slices of sets\<close>

definition nodeset_ok :: "'v NodeSet \<Rightarrow> bool" where
  "nodeset_ok s \<longleftrightarrow> (\<forall>k n. s k = Some n \<longrightarrow> nd_ID n = k)"

lemma nodeset_ok_add: "nodeset_ok s \<Longrightarrow> nodeset_ok (NodeSet_Add s nodes)"
  unfolding NodeSet_Add_def
proof (induction nodes arbitrary: s)
  case (Cons n nodes)
  have "nodeset_ok (s(nd_ID n \<mapsto> n))" using Cons.prems by (simp add: nodeset_ok_def)
  from Cons.IH [OF this] show ?case by simp
qed simp

lemma NodeSet_IDs_order:
  assumes "nodeset_ok s" and "range_order s order"
  shows "NodeSet_IDs order s = order"
proof -
  have "\<forall>k \<in> set order. \<exists>n. s k = Some n \<and> nd_ID n = k"
    using assms by (auto simp: nodeset_ok_def range_order_def)
  then show ?thesis unfolding NodeSet_IDs_def by (induction order) (auto simp: map_filter_simps)
qed

lemma SortNodeSetById_result:
  assumes "nodeset_ok s" and "range_order s order"
  shows "SortNodeSetById order s = Some (map (\<lambda>k. the (s k)) (sort_key ID_Int64 order))"
proof -
  have "for_each (\<lambda>nodeID results. map_option (\<lambda>node. results @ [node]) (NodeSet_Get s nodeID)) ks acc =
      Some (acc @ map (\<lambda>k. the (s k)) ks)" if "set ks \<subseteq> dom s" for ks acc
    using that by (induction ks arbitrary: acc) (auto simp: NodeSet_Get_def)
  moreover have "set (sort_key ID_Int64 order) \<subseteq> dom s" using assms(2) by (simp add: range_order_def)
  ultimately show ?thesis by (simp add: SortNodeSetById_def SortIDSlice_def NodeSet_IDs_order [OF assms])
qed

lemma NewNodeSet_map:
  assumes "nodeset_ok s" and "set ks \<subseteq> dom s"
  shows "NewNodeSet (map (\<lambda>k. the (s k)) ks) = s |` set ks"
proof -
  have "fold (\<lambda>node s. s(nd_ID node \<mapsto> node)) (map (\<lambda>k. the (s k)) ks) t = t ++ (s |` set ks)" for t
    using assms(2)
  proof (induction ks arbitrary: t)
    case (Cons k ks)
    then obtain n where n: "s k = Some n" by auto
    then have "nd_ID n = k" using assms(1) by (simp add: nodeset_ok_def)
    moreover have "t(k \<mapsto> n) ++ (s |` set ks) = t ++ (s |` insert k (set ks))"
      using n by (auto simp: fun_eq_iff map_add_def restrict_map_def split: option.splits)
    moreover have "set ks \<subseteq> dom s" using Cons.prems by simp
    ultimately show ?case
      using Cons.IH [of "t(k \<mapsto> n)"] by (simp only: list.map fold_simps n option.sel list.set)
  qed simp
  from this [of Map.empty] show ?thesis by (simp add: NewNodeSet_def)
qed

section \<open>Properties of nodes\<close>



text \<open>\<open>Merge\<close> of two nodes with consistent kinds does not panic when the other has no properties or this one has
  some; the result is consistent exactly when every kind that is deleted here and present in the
  other node was added there: a kind the other node merely has comes back while it stays marked as
  deleted.\<close>

theorem Node_Merge_consistent:
  assumes "node_inv s" and "node_inv t" and "nd_Properties t = None \<or> nd_Properties s \<noteq> None"
  shows "\<exists>m. Node_Merge s t = Some m \<and>
     set (nd_Kinds m) = (set (nd_Kinds s) \<union> set (nd_Kinds t)) - set (nd_DeletedKinds t) \<and>
     (node_inv m \<longleftrightarrow> set (nd_DeletedKinds s) \<inter> set (nd_Kinds t) \<subseteq> set (nd_AddedKinds t))"
proof -
  obtain m where m: "Node_Merge s t = Some m"
    "set (nd_Kinds m) = (set (nd_Kinds s) \<union> set (nd_Kinds t)) - set (nd_DeletedKinds t)"
    "set (nd_AddedKinds m) = (set (nd_AddedKinds s) - set (nd_DeletedKinds t)) \<union> set (nd_AddedKinds t)"
    "set (nd_DeletedKinds m) = (set (nd_DeletedKinds s) - set (nd_AddedKinds t)) \<union> set (nd_DeletedKinds t)"
    "distinct (nd_Kinds m)" "distinct (nd_AddedKinds m)" "distinct (nd_DeletedKinds m)"
    using Node_Merge_kinds [OF assms] by blast
  have inv: "None \<notin> set (nd_Kinds s) \<union> set (nd_AddedKinds s) \<union> set (nd_DeletedKinds s)"
    "None \<notin> set (nd_Kinds t) \<union> set (nd_AddedKinds t) \<union> set (nd_DeletedKinds t)"
    "set (nd_AddedKinds s) \<subseteq> set (nd_Kinds s)" "set (nd_DeletedKinds s) \<inter> set (nd_Kinds s) = {}"
    "set (nd_AddedKinds t) \<subseteq> set (nd_Kinds t)" "set (nd_DeletedKinds t) \<inter> set (nd_Kinds t) = {}"
    using assms(1,2) by (simp_all add: node_inv_def)
  have "node_inv m \<longleftrightarrow> set (nd_DeletedKinds s) \<inter> set (nd_Kinds t) \<subseteq> set (nd_AddedKinds t)"
    unfolding node_inv_def m(2-4) using m(5-7) inv by blast
  with m(1,2) show ?thesis by blast
qed

theorem Node_Merge_consistent_witness:
  "\<exists>m. Node_Merge (NewNode 1 None [] \<lparr>nd_DeletedKinds := [Some ''A'']\<rparr>) (NewNode 1 (None :: nat Properties option) [Some ''A'']) = Some m \<and>
     \<not> node_inv m"
proof -
  let ?s = "NewNode 1 None [] \<lparr>nd_DeletedKinds := [Some ''A'']\<rparr> :: nat Node" and ?t = "NewNode 1 (None :: nat Properties option) [Some ''A'']"
  have "node_inv ?s" "node_inv ?t" "nd_Properties ?t = None \<or> nd_Properties ?s \<noteq> None" by (simp_all add: node_inv_def NewNode_def)
  from Node_Merge_consistent [OF this] show ?thesis by (auto simp: NewNode_def)
qed

text \<open>C34. \<open>SortAndSliceNodeSet\<close> returns the nodes at positions \<open>skip\<close> to \<open>skip + limit\<close> of the set sorted by identifier, read as signed
  numbers, and to the end when \<open>limit\<close> is 0; it panics when the slice ends beyond the set, so also for a
  last page that is not full.\<close>

theorem SortAndSliceNodeSet_bounds:
  assumes "nodeset_ok s" and "range_order s order" and "sorted_ids = sort_key ID_Int64 order"
  shows "SortAndSliceNodeSet order s skip limit =
     (if limit = 0 then if skip \<le> NodeSet_Len s then Some (s |` set (drop skip sorted_ids)) else None
      else if skip + limit \<le> NodeSet_Len s then Some (s |` set (take limit (drop skip sorted_ids))) else None)"
proof -
  let ?nodes = "map (\<lambda>k. the (s k)) sorted_ids"
  have ids: "set sorted_ids = dom s" "distinct sorted_ids" using assms(2,3) by (auto simp: range_order_def)
  then have len: "length sorted_ids = NodeSet_Len s" by (simp add: NodeSet_Len_def flip: distinct_card)
  have nodes: "NewNodeSet (map (\<lambda>k. the (s k)) ks) = s |` set ks" if "set ks \<subseteq> set sorted_ids" for ks
    by (rule NewNodeSet_map [OF assms(1)]) (use that ids in auto)
  have sub: "slice_sub ?nodes a b = (if a \<le> b \<and> b \<le> NodeSet_Len s then Some (map (\<lambda>k. the (s k)) (take (b - a) (drop a sorted_ids))) else None)" for a b
    using len by (simp add: slice_sub_def take_map drop_map)
  have "set (take b (drop a sorted_ids)) \<subseteq> set sorted_ids" for a b by (meson set_drop_subset set_take_subset subset_trans)
  note sl = nodes [OF this]
  have sorted: "SortNodeSetById order s = Some ?nodes" unfolding assms(3) by (rule SortNodeSetById_result [OF assms(1,2)])
  show ?thesis
    unfolding SortAndSliceNodeSet_def sorted
    using sub sl sl [of limit 0, unfolded drop_0] nodes [of "drop skip sorted_ids"] nodes [of sorted_ids] len set_drop_subset [of skip sorted_ids] by auto
qed

theorem SortAndSliceNodeSet_bounds_witness:
  "SortAndSliceNodeSet [7, 3] (NewNodeSet [NewNode 7 (None :: nat Properties option) [], NewNode 3 None []]) 1 2 = None"
proof -
  let ?s = "NewNodeSet [NewNode 7 (None :: nat Properties option) [], NewNode 3 None []]"
  have d: "dom ?s = {3, 7}" by (auto simp: NewNodeSet_def NewNode_def split: if_splits)
  have "nodeset_ok ?s" "range_order ?s [7, 3]" "NodeSet_Len ?s = 2"
    using d by (auto simp: nodeset_ok_def NewNodeSet_def NewNode_def range_order_def NodeSet_Len_def split: if_splits)
  then show ?thesis using SortAndSliceNodeSet_bounds [of ?s "[7, 3]", OF _ _ refl, of 1 2] by simp
qed

end
