(* ===== verification/Cy_Syntax.thy ===== *)
theory Cy_Syntax
  imports Gr_Kind Go_Std
begin

text \<open>
  src/cypher/models/cypher/model.go: the syntax tree of Cypher queries.

  Every struct of the source is a datatype with the fields of the struct as selectors. The fields of
  type \<open>Expression\<close> and \<open>SyntaxNode\<close> hold any value; their type is the parameter \<open>'e\<close> of the
  datatypes, and \<open>SyntaxNode\<close> at the end ties the knot: it is the sum of the pointer and value types
  such a field can hold. A pointer is an option with \<open>None\<close> for nil, an interface value is an option
  with \<open>None\<close> for the nil interface, so \<open>Some (N_Variable None)\<close> is the interface that holds a
  nil pointer of type \<open>*Variable\<close>. A slice is a list. Where the code tells a nil slice or map from an
  empty one the list is in an option. A map is the list of its entries in the order in which a range over it
  enumerates them.
\<close>

section \<open>Values and structs\<close>

text \<open>
  The values a literal or parameter holds (\<open>any\<close> in Go). The signed integers of all widths are
  \<open>GoInt\<close>, the unsigned ones \<open>GoUint\<close>, a float is given by the bits of its 64-bit form, \<open>GoNode\<close> is a syntax node and
  \<open>GoOther\<close> a value of any other type.
\<close>

datatype 'e go_value = GoNil | GoString string | GoInt int | GoUint uint64 | GoBool bool | GoFloat uint64 | GoNode 'e | GoOther string

type_synonym 'e expressionList = "'e option list"
type_synonym 'e MapLiteral = "(string \<times> 'e option) list option"
type_synonym Operator = string
type_synonym AssignmentOperator = string
type_synonym QuantifierType = string

datatype Variable =
  Variable (var_Symbol: "string")

datatype RangeQuantifier =
  RangeQuantifier (rq_Value: "string")

datatype PatternRange =
  PatternRange (pr_StartIndex: "int option") (pr_EndIndex: "int option")

datatype 'e Literal =
  Literal (lit_Value: "'e go_value") (lit_Null: "bool")

datatype 'e Parameter =
  Parameter (prm_Symbol: "string") (prm_Value: "'e go_value")

datatype 'e MapItem =
  MapItem (mi_Key: "string") (mi_Value: "'e option")

datatype 'e ListLiteral =
  ListLiteral (ll_Expressions: "'e option list")

datatype 'e Cy_Properties =
  Properties (pp_Map: "'e MapLiteral") (pp_Parameter: "'e Parameter option")

datatype 'e NodePattern =
  NodePattern (np_Variable: "Variable option") (np_Kinds: "Kinds option") (np_Properties: "'e option")

datatype 'e RelationshipPattern =
  RelationshipPattern (rp_Variable: "Variable option") (rp_Kinds: "Kinds option") (rp_Direction: "direction") (rp_Range: "PatternRange option") (rp_Properties: "'e option")

datatype 'e PatternElement =
  PatternElement (pe_Element: "'e option")

datatype 'e PatternPart =
  PatternPart (pt_Variable: "Variable option") (pt_ShortestPathPattern: "bool") (pt_AllShortestPathsPattern: "bool") (pt_PatternElements: "'e PatternElement option list") (pt_PathDirectionReversed: "bool")

datatype 'e PatternPredicate =
  PatternPredicate (ppr_PatternElements: "'e PatternElement option list")

datatype 'e Where =
  Where (wh_Expressions: "'e option list")

datatype 'e Conjunction =
  Conjunction (cj_Expressions: "'e option list")

datatype 'e Disjunction =
  Disjunction (dj_Expressions: "'e option list")

datatype 'e ExclusiveDisjunction =
  ExclusiveDisjunction (xj_Expressions: "'e option list")

datatype 'e Negation =
  Negation (ng_Expression: "'e option")

datatype 'e Parenthetical =
  Parenthetical (pa_Expression: "'e option")

datatype 'e FunctionInvocation =
  FunctionInvocation (fi_errors: "string list") (fi_Distinct: "bool") (fi_Namespace: "string list") (fi_Name: "string") (fi_Arguments: "'e option list")

datatype 'e PartialComparison =
  PartialComparison (pc_Operator: "string") (pc_Right: "'e option")

datatype 'e Comparison =
  Comparison (cm_Left: "'e option") (cm_Partials: "'e PartialComparison option list")

datatype 'e PartialArithmeticExpression =
  PartialArithmeticExpression (pae_Operator: "string") (pae_Right: "'e option")

datatype 'e ArithmeticExpression =
  ArithmeticExpression (ae_Left: "'e option") (ae_Partials: "'e PartialArithmeticExpression option list")

datatype 'e UnaryAddOrSubtractExpression =
  UnaryAddOrSubtractExpression (ue_Operator: "string") (ue_Right: "'e option")

datatype 'e KindMatcher =
  KindMatcher (km_Reference: "'e option") (km_Kinds: "Kinds option") (km_IsExclusive: "bool")

datatype 'e PropertyLookup =
  PropertyLookup (pl_Atom: "'e option") (pl_Symbol: "string")

datatype 'e IDInCollection =
  IDInCollection (ic_Variable: "Variable option") (ic_Expression: "'e option")

datatype 'e FilterExpression =
  FilterExpression (fe_Specifier: "'e IDInCollection option") (fe_Where: "'e Where option")

datatype 'e Quantifier =
  Quantifier (qf_Type: "string") (qf_Filter: "'e FilterExpression option")

datatype 'e ProjectionItem =
  ProjectionItem (pi_Expression: "'e option") (pi_Alias: "Variable option")

datatype 'e SortItem =
  SortItem (si_Ascending: "bool") (si_Expression: "'e option")

datatype 'e Order =
  Order (od_Items: "'e SortItem option list")

datatype 'e Skip =
  Skip (sk_Value: "'e option")

datatype 'e Limit =
  Limit (lm_Value: "'e option")

datatype 'e Projection =
  Projection (pj_Distinct: "bool") (pj_All: "bool") (pj_Order: "'e Order option") (pj_Skip: "'e Skip option") (pj_Limit: "'e Limit option") (pj_Items: "'e option list")

datatype 'e Return =
  Return (rt_Projection: "'e Projection option")

datatype 'e With =
  With (wt_Projection: "'e Projection option") (wt_Where: "'e Where option")

datatype 'e Match =
  Match (mt_Optional: "bool") (mt_Pattern: "'e PatternPart option list") (mt_Where: "'e Where option")

datatype 'e Unwind =
  Unwind (uw_Expression: "'e option") (uw_Variable: "Variable option")

datatype 'e ReadingClause =
  ReadingClause (rc_Match: "'e Match option") (rc_Unwind: "'e Unwind option")

datatype 'e SetItem =
  SetItem (sti_Left: "'e option") (sti_Operator: "string") (sti_Right: "'e option")

datatype 'e Set =
  Set (st_Items: "'e SetItem option list")

datatype 'e RemoveItem =
  RemoveItem (ri_KindMatcher: "'e KindMatcher option") (ri_Property: "'e option")

datatype 'e Remove =
  Remove (rm_Items: "'e RemoveItem option list")

datatype 'e Delete =
  Delete (dl_Detach: "bool") (dl_Expressions: "'e option list")

datatype 'e Create =
  Create (cr_errors: "string list") (cr_Unique: "bool") (cr_Pattern: "'e PatternPart option list")

datatype 'e MergeAction =
  MergeAction (ma_OnCreate: "bool") (ma_OnMatch: "bool") (ma_Set: "'e Set option")

datatype 'e Merge =
  Merge (mg_PatternPart: "'e PatternPart option") (mg_MergeActions: "'e MergeAction option list")

datatype 'e UpdatingClause =
  UpdatingClause (uc_errors: "string list") (uc_Clause: "'e option")

datatype 'e SinglePartQuery =
  SinglePartQuery (sp_errors: "string list") (sp_ReadingClauses: "'e ReadingClause option list") (sp_UpdatingClauses: "'e option list") (sp_Return: "'e Return option")

datatype 'e MultiPartQueryPart =
  MultiPartQueryPart (mp_ReadingClauses: "'e ReadingClause option list") (mp_UpdatingClauses: "'e UpdatingClause option list") (mp_With: "'e With option")

datatype 'e MultiPartQuery =
  MultiPartQuery (mq_Parts: "'e MultiPartQueryPart option list") (mq_SinglePartQuery: "'e SinglePartQuery option")

datatype 'e SingleQuery =
  SingleQuery (sq_SinglePartQuery: "'e SinglePartQuery option") (sq_MultiPartQuery: "'e MultiPartQuery option")

datatype 'e RegularQuery =
  RegularQuery (rg_SingleQuery: "'e SingleQuery option")

section \<open>Syntax nodes\<close>

datatype SyntaxNode =
    N_Variable "Variable option"
  | N_RangeQuantifier "RangeQuantifier option"
  | N_PatternRange "PatternRange option"
  | N_Literal "SyntaxNode Literal option"
  | N_Parameter "SyntaxNode Parameter option"
  | N_MapItem "SyntaxNode MapItem option"
  | N_ListLiteral "SyntaxNode ListLiteral option"
  | N_Properties "SyntaxNode Cy_Properties option"
  | N_NodePattern "SyntaxNode NodePattern option"
  | N_RelationshipPattern "SyntaxNode RelationshipPattern option"
  | N_PatternElement "SyntaxNode PatternElement option"
  | N_PatternPart "SyntaxNode PatternPart option"
  | N_PatternPredicate "SyntaxNode PatternPredicate option"
  | N_Where "SyntaxNode Where option"
  | N_Conjunction "SyntaxNode Conjunction option"
  | N_Disjunction "SyntaxNode Disjunction option"
  | N_ExclusiveDisjunction "SyntaxNode ExclusiveDisjunction option"
  | N_Negation "SyntaxNode Negation option"
  | N_Parenthetical "SyntaxNode Parenthetical option"
  | N_FunctionInvocation "SyntaxNode FunctionInvocation option"
  | N_PartialComparison "SyntaxNode PartialComparison option"
  | N_Comparison "SyntaxNode Comparison option"
  | N_PartialArithmeticExpression "SyntaxNode PartialArithmeticExpression option"
  | N_ArithmeticExpression "SyntaxNode ArithmeticExpression option"
  | N_UnaryAddOrSubtractExpression "SyntaxNode UnaryAddOrSubtractExpression option"
  | N_KindMatcher "SyntaxNode KindMatcher option"
  | N_PropertyLookup "SyntaxNode PropertyLookup option"
  | N_IDInCollection "SyntaxNode IDInCollection option"
  | N_FilterExpression "SyntaxNode FilterExpression option"
  | N_Quantifier "SyntaxNode Quantifier option"
  | N_ProjectionItem "SyntaxNode ProjectionItem option"
  | N_SortItem "SyntaxNode SortItem option"
  | N_Order "SyntaxNode Order option"
  | N_Skip "SyntaxNode Skip option"
  | N_Limit "SyntaxNode Limit option"
  | N_Projection "SyntaxNode Projection option"
  | N_Return "SyntaxNode Return option"
  | N_With "SyntaxNode With option"
  | N_Match "SyntaxNode Match option"
  | N_Unwind "SyntaxNode Unwind option"
  | N_ReadingClause "SyntaxNode ReadingClause option"
  | N_SetItem "SyntaxNode SetItem option"
  | N_Set "SyntaxNode Set option"
  | N_RemoveItem "SyntaxNode RemoveItem option"
  | N_Remove "SyntaxNode Remove option"
  | N_Delete "SyntaxNode Delete option"
  | N_Create "SyntaxNode Create option"
  | N_MergeAction "SyntaxNode MergeAction option"
  | N_Merge "SyntaxNode Merge option"
  | N_UpdatingClause "SyntaxNode UpdatingClause option"
  | N_SinglePartQuery "SyntaxNode SinglePartQuery option"
  | N_MultiPartQueryPart "SyntaxNode MultiPartQueryPart option"
  | N_MultiPartQuery "SyntaxNode MultiPartQuery option"
  | N_SingleQuery "SyntaxNode SingleQuery option"
  | N_RegularQuery "SyntaxNode RegularQuery option"
  | N_MapLiteral "SyntaxNode MapLiteral"
  | N_Operator string
  | N_Kinds "Kinds option"
  | N_Kind string
  | N_Other string

text \<open>\<open>reflect.ValueOf(node).IsNil\<close> on the pointers of the tree; maps and slices are not asked.\<close>

definition is_nil_pointer :: "SyntaxNode \<Rightarrow> bool" where
  "is_nil_pointer node = (case node of
     N_Variable p \<Rightarrow> p = None
   | N_RangeQuantifier p \<Rightarrow> p = None
   | N_PatternRange p \<Rightarrow> p = None
   | N_Literal p \<Rightarrow> p = None
   | N_Parameter p \<Rightarrow> p = None
   | N_MapItem p \<Rightarrow> p = None
   | N_ListLiteral p \<Rightarrow> p = None
   | N_Properties p \<Rightarrow> p = None
   | N_NodePattern p \<Rightarrow> p = None
   | N_RelationshipPattern p \<Rightarrow> p = None
   | N_PatternElement p \<Rightarrow> p = None
   | N_PatternPart p \<Rightarrow> p = None
   | N_PatternPredicate p \<Rightarrow> p = None
   | N_Where p \<Rightarrow> p = None
   | N_Conjunction p \<Rightarrow> p = None
   | N_Disjunction p \<Rightarrow> p = None
   | N_ExclusiveDisjunction p \<Rightarrow> p = None
   | N_Negation p \<Rightarrow> p = None
   | N_Parenthetical p \<Rightarrow> p = None
   | N_FunctionInvocation p \<Rightarrow> p = None
   | N_PartialComparison p \<Rightarrow> p = None
   | N_Comparison p \<Rightarrow> p = None
   | N_PartialArithmeticExpression p \<Rightarrow> p = None
   | N_ArithmeticExpression p \<Rightarrow> p = None
   | N_UnaryAddOrSubtractExpression p \<Rightarrow> p = None
   | N_KindMatcher p \<Rightarrow> p = None
   | N_PropertyLookup p \<Rightarrow> p = None
   | N_IDInCollection p \<Rightarrow> p = None
   | N_FilterExpression p \<Rightarrow> p = None
   | N_Quantifier p \<Rightarrow> p = None
   | N_ProjectionItem p \<Rightarrow> p = None
   | N_SortItem p \<Rightarrow> p = None
   | N_Order p \<Rightarrow> p = None
   | N_Skip p \<Rightarrow> p = None
   | N_Limit p \<Rightarrow> p = None
   | N_Projection p \<Rightarrow> p = None
   | N_Return p \<Rightarrow> p = None
   | N_With p \<Rightarrow> p = None
   | N_Match p \<Rightarrow> p = None
   | N_Unwind p \<Rightarrow> p = None
   | N_ReadingClause p \<Rightarrow> p = None
   | N_SetItem p \<Rightarrow> p = None
   | N_Set p \<Rightarrow> p = None
   | N_RemoveItem p \<Rightarrow> p = None
   | N_Remove p \<Rightarrow> p = None
   | N_Delete p \<Rightarrow> p = None
   | N_Create p \<Rightarrow> p = None
   | N_MergeAction p \<Rightarrow> p = None
   | N_Merge p \<Rightarrow> p = None
   | N_UpdatingClause p \<Rightarrow> p = None
   | N_SinglePartQuery p \<Rightarrow> p = None
   | N_MultiPartQueryPart p \<Rightarrow> p = None
   | N_MultiPartQuery p \<Rightarrow> p = None
   | N_SingleQuery p \<Rightarrow> p = None
   | N_RegularQuery p \<Rightarrow> p = None
   | _ \<Rightarrow> False)"

end
