(* ===== verification/Cy_Model.thy ===== *)
theory Cy_Model
  imports Cy_Syntax
begin

text \<open>
  src/cypher/models/cypher/model.go: the constructors of the syntax tree and the methods that change or read
  a struct. A method that changes a struct through its pointer returns the changed struct.
\<close>

section \<open>Lists of expressions\<close>

definition el_Len :: "'e expressionList \<Rightarrow> nat" where
  "el_Len s = length s"

definition el_Add :: "'e expressionList \<Rightarrow> 'e option \<Rightarrow> 'e expressionList" where
  "el_Add s expression = s @ [expression]"

definition el_AddSlice :: "'e expressionList \<Rightarrow> 'e option list \<Rightarrow> 'e expressionList" where
  "el_AddSlice s expressions = s @ expressions"

definition el_Get :: "'e expressionList \<Rightarrow> int \<Rightarrow> 'e option option" where
  "el_Get s index = (if 0 \<le> index \<and> nat index < length s then Some (s ! nat index) else None)"

definition el_Replace :: "'e expressionList \<Rightarrow> int \<Rightarrow> 'e option \<Rightarrow> 'e expressionList option" where
  "el_Replace s index expression =
     (if 0 \<le> index \<and> nat index < length s then Some (s[nat index := expression]) else None)"

section \<open>Queries and their parts\<close>

definition NewRegularQuery :: "'e RegularQuery" where
  "NewRegularQuery = RegularQuery None"

definition NewSingleQuery :: "'e SingleQuery" where
  "NewSingleQuery = SingleQuery None None"

definition NewSinglePartQuery :: "'e SinglePartQuery" where
  "NewSinglePartQuery = SinglePartQuery [] [] [] None"

definition NewRegularQueryWithSingleQuery :: "'e RegularQuery" where
  "NewRegularQueryWithSingleQuery = RegularQuery (Some (SingleQuery (Some NewSinglePartQuery) None))"

definition NewMultiPartQuery :: "'e MultiPartQuery" where
  "NewMultiPartQuery = MultiPartQuery [] None"

definition NewMultiPartQueryPart :: "'e MultiPartQueryPart" where
  "NewMultiPartQueryPart = MultiPartQueryPart [] [] None"

fun AppendPart :: "'e MultiPartQuery \<Rightarrow> 'e MultiPartQuery" where
  "AppendPart (MultiPartQuery parts singlePartQuery) =
     MultiPartQuery (parts @ [Some NewMultiPartQueryPart]) singlePartQuery"

text \<open>\<open>s.Parts[len(s.Parts)-1]\<close> panics without parts.\<close>

definition CurrentPart :: "'e MultiPartQuery \<Rightarrow> 'e MultiPartQueryPart option option" where
  "CurrentPart s = (if mq_Parts s = [] then None else Some (last (mq_Parts s)))"

fun mp_AddReadingClause :: "'e MultiPartQueryPart \<Rightarrow> 'e ReadingClause option \<Rightarrow> 'e MultiPartQueryPart" where
  "mp_AddReadingClause (MultiPartQueryPart readings updates with) clause =
     MultiPartQueryPart (readings @ [clause]) updates with"

fun mp_AddUpdatingClause :: "'e MultiPartQueryPart \<Rightarrow> 'e UpdatingClause option \<Rightarrow> 'e MultiPartQueryPart" where
  "mp_AddUpdatingClause (MultiPartQueryPart readings updates with) clause =
     MultiPartQueryPart readings (updates @ [clause]) with"

fun sp_AddReadingClause :: "'e SinglePartQuery \<Rightarrow> 'e ReadingClause option \<Rightarrow> 'e SinglePartQuery" where
  "sp_AddReadingClause (SinglePartQuery errs readings updates ret) clause =
     SinglePartQuery errs (readings @ [clause]) updates ret"

fun sp_AddUpdatingClause :: "SyntaxNode SinglePartQuery \<Rightarrow> SyntaxNode UpdatingClause option \<Rightarrow> SyntaxNode SinglePartQuery" where
  "sp_AddUpdatingClause (SinglePartQuery errs readings updates ret) clause =
     SinglePartQuery errs readings (updates @ [Some (N_UpdatingClause clause)]) ret"

definition NewMatch :: "bool \<Rightarrow> 'e Match" where
  "NewMatch optional = Match optional [] None"

definition NewPatternPart :: "'e PatternPart" where
  "NewPatternPart = PatternPart None False False [] False"

fun mt_NewPatternPart :: "'e Match \<Rightarrow> 'e Match" where
  "mt_NewPatternPart (Match optional pattern whr) = Match optional (pattern @ [Some NewPatternPart]) whr"

fun mt_NewWhere :: "'e Match \<Rightarrow> 'e Match" where
  "mt_NewWhere (Match optional pattern whr) = Match optional pattern (Some (Where []))"

fun rc_NewMatch :: "'e ReadingClause \<Rightarrow> bool \<Rightarrow> 'e ReadingClause" where
  "rc_NewMatch (ReadingClause match unwind) optional = ReadingClause (Some (NewMatch optional)) unwind"

fun sp_NewMatch :: "'e SinglePartQuery \<Rightarrow> bool \<Rightarrow> 'e SinglePartQuery" where
  "sp_NewMatch s optional = sp_AddReadingClause s (Some (rc_NewMatch (ReadingClause None None) optional))"

definition NewProjection :: "bool \<Rightarrow> 'e Projection" where
  "NewProjection dist = Projection dist False None None None []"

fun rt_NewProjection :: "'e Return \<Rightarrow> bool \<Rightarrow> 'e Return" where
  "rt_NewProjection (Return projection) dist = Return (Some (NewProjection dist))"

fun sp_NewProjection :: "'e SinglePartQuery \<Rightarrow> bool \<Rightarrow> 'e SinglePartQuery" where
  "sp_NewProjection (SinglePartQuery errs readings updates ret) dist =
     SinglePartQuery errs readings updates (Some (rt_NewProjection (Return None) dist))"

fun pj_AddItem :: "SyntaxNode Projection \<Rightarrow> SyntaxNode ProjectionItem option \<Rightarrow> SyntaxNode Projection" where
  "pj_AddItem (Projection dist all order skip limit items) item =
     Projection dist all order skip limit (items @ [Some (N_ProjectionItem item)])"

fun od_AddItem :: "'e Order \<Rightarrow> 'e SortItem option \<Rightarrow> 'e Order" where
  "od_AddItem (Order items) item = Order (items @ [item])"

fun dl_AddExpression :: "'e Delete \<Rightarrow> 'e option \<Rightarrow> 'e Delete" where
  "dl_AddExpression (Delete detach expressions) expression = Delete detach (expressions @ [expression])"

section \<open>Patterns\<close>

definition AsNodePattern :: "SyntaxNode PatternElement option \<Rightarrow> SyntaxNode NodePattern option option" where
  "AsNodePattern s = (case s of Some (PatternElement (Some (N_NodePattern p))) \<Rightarrow> Some p | _ \<Rightarrow> None)"

definition IsNodePattern :: "SyntaxNode PatternElement option \<Rightarrow> bool" where
  "IsNodePattern s \<longleftrightarrow> AsNodePattern s \<noteq> None"

definition AsRelationshipPattern :: "SyntaxNode PatternElement option \<Rightarrow> SyntaxNode RelationshipPattern option option" where
  "AsRelationshipPattern s = (case s of Some (PatternElement (Some (N_RelationshipPattern p))) \<Rightarrow> Some p | _ \<Rightarrow> None)"

definition IsRelationshipPattern :: "SyntaxNode PatternElement option \<Rightarrow> bool" where
  "IsRelationshipPattern s \<longleftrightarrow> AsRelationshipPattern s \<noteq> None"

text \<open>The first relationship pattern of the first pattern part; a nil first part panics.\<close>

fun first_relationship :: "SyntaxNode PatternElement option list \<Rightarrow> SyntaxNode RelationshipPattern option" where
  "first_relationship [] = None"
| "first_relationship (patternElement # rest) =
     (case AsRelationshipPattern patternElement of Some p \<Rightarrow> p | None \<Rightarrow> first_relationship rest)"

definition FirstRelationshipPattern :: "SyntaxNode Match option \<Rightarrow> SyntaxNode RelationshipPattern option option" where
  "FirstRelationshipPattern s = (case s of
     Some (Match optional (part # pattern) whr) \<Rightarrow>
       map_option (\<lambda>p. first_relationship (pt_PatternElements p)) part
   | _ \<Rightarrow> Some None)"

definition CurrentElement :: "'e PatternPart \<Rightarrow> 'e PatternElement option option" where
  "CurrentElement s = (if pt_PatternElements s = [] then None else Some (last (pt_PatternElements s)))"

fun AddPatternElements :: "'e PatternPart \<Rightarrow> 'e option list \<Rightarrow> 'e PatternPart" where
  "AddPatternElements (PatternPart variable sp asp elements rvs) nextElements =
     PatternPart variable sp asp (elements @ map (\<lambda>nextElement. Some (PatternElement nextElement)) nextElements) rvs"

fun ppr_AddElement :: "'e PatternPredicate \<Rightarrow> 'e option \<Rightarrow> 'e PatternPredicate" where
  "ppr_AddElement (PatternPredicate elements) element = PatternPredicate (elements @ [Some (PatternElement element)])"

definition append_kind :: "Kinds option \<Rightarrow> Kind \<Rightarrow> Kinds option" where
  "append_kind kinds kind = Some (case_option [] id kinds @ [kind])"

fun np_AddKind :: "'e NodePattern \<Rightarrow> Kind \<Rightarrow> 'e NodePattern" where
  "np_AddKind (NodePattern variable kinds properties) kind = NodePattern variable (append_kind kinds kind) properties"

fun rp_AddKind :: "'e RelationshipPattern \<Rightarrow> Kind \<Rightarrow> 'e RelationshipPattern" where
  "rp_AddKind (RelationshipPattern variable kinds dir rng properties) kind =
     RelationshipPattern variable (append_kind kinds kind) dir rng properties"

section \<open>Expressions\<close>

fun lit_Set :: "'e Literal \<Rightarrow> 'e go_value \<Rightarrow> 'e Literal" where
  "lit_Set (Literal v null) val = Literal val False"

fun lit_SetNull :: "'e Literal \<Rightarrow> 'e Literal" where
  "lit_SetNull (Literal v null) = Literal v True"

definition NewComparison :: "'e option \<Rightarrow> Operator \<Rightarrow> 'e option \<Rightarrow> 'e Comparison" where
  "NewComparison left operator right = Comparison left [Some (PartialComparison operator right)]"

fun AddPartialComparison :: "'e Comparison \<Rightarrow> 'e PartialComparison option \<Rightarrow> 'e Comparison" where
  "AddPartialComparison (Comparison left partials) part = Comparison left (partials @ [part])"

definition cm_NewPartialComparison :: "'e Comparison \<Rightarrow> Operator \<Rightarrow> 'e option \<Rightarrow> 'e Comparison" where
  "cm_NewPartialComparison s operator rightOperand = AddPartialComparison s (Some (PartialComparison operator rightOperand))"

definition FirstPartial :: "'e Comparison \<Rightarrow> 'e PartialComparison option" where
  "FirstPartial s = (case cm_Partials s of [] \<Rightarrow> None | part # _ \<Rightarrow> part)"

definition LastPartial :: "'e Comparison \<Rightarrow> 'e PartialComparison option" where
  "LastPartial s = (if cm_Partials s = [] then None else last (cm_Partials s))"

fun AddArithmeticExpressionPart :: "'e ArithmeticExpression \<Rightarrow> 'e PartialArithmeticExpression option \<Rightarrow> 'e ArithmeticExpression" where
  "AddArithmeticExpressionPart (ArithmeticExpression left partials) part = ArithmeticExpression left (partials @ [part])"

fun AddArgument :: "'e FunctionInvocation \<Rightarrow> 'e option \<Rightarrow> 'e FunctionInvocation" where
  "AddArgument (FunctionInvocation errs dist namespace name arguments) arg =
     FunctionInvocation errs dist namespace name (arguments @ [arg])"

fun SetSymbol :: "'e PropertyLookup \<Rightarrow> string \<Rightarrow> 'e PropertyLookup" where
  "SetSymbol (PropertyLookup atm old) symbol = PropertyLookup atm symbol"

definition NewPropertyLookup :: "string \<Rightarrow> string \<Rightarrow> SyntaxNode PropertyLookup" where
  "NewPropertyLookup variableSymbol propertySymbol =
     PropertyLookup (Some (N_Variable (Some (Variable variableSymbol)))) propertySymbol"

section \<open>Map literals\<close>

definition sortedKeys :: "'e MapLiteral \<Rightarrow> string list" where
  "sortedKeys s = (case s of None \<Rightarrow> [] | Some entries \<Rightarrow> sort (map fst entries))"

text \<open>\<open>s[key]\<close>: the zero value is the nil interface.\<close>

definition map_literal_get :: "'e MapLiteral \<Rightarrow> string \<Rightarrow> 'e option" where
  "map_literal_get s key = (case s of None \<Rightarrow> None | Some entries \<Rightarrow> case_option None id (map_of entries key))"

definition ForEachItem ::
    "'e MapLiteral \<Rightarrow> (string \<times> 'e option \<Rightarrow> 's \<Rightarrow> 'err option \<times> 's) \<Rightarrow> 's \<Rightarrow> 'err option \<times> 's" where
  "ForEachItem s delegate = until_error delegate (map (\<lambda>key. (key, map_literal_get s key)) (sortedKeys s))"

definition MapLiteral_Items :: "'e MapLiteral \<Rightarrow> 'e MapItem list" where
  "MapLiteral_Items s = snd (ForEachItem s (\<lambda>(key, val) items. (None :: unit option, items @ [MapItem key val])) [])"

text \<open>
  The items of a map literal come in the order of its keys, whatever the order of the entries.
\<close>

lemma until_error_None: "until_error (\<lambda>x s. (None, g x s)) xs s = (None, fold g xs s)"
  by (induction xs arbitrary: s) auto

lemma fold_snoc_item: "fold (\<lambda>x acc. acc @ [f x]) xs acc = acc @ map f xs"
  by (induction xs arbitrary: acc) auto

lemma MapLiteral_Items_eq:
  "MapLiteral_Items s = map (\<lambda>key. MapItem key (map_literal_get s key)) (sortedKeys s)"
  by (simp add: MapLiteral_Items_def ForEachItem_def until_error_None case_prod_unfold fold_snoc_item comp_def)

end
