(* ===== verification/Cy_Walk.thy ===== *)
theory Cy_Walk
  imports Go_Std
begin

text \<open>
  src/cypher/models/walk/walk.go: visitors and the generic walk over a syntax tree.

  \<open>Generic\<close> keeps an explicit stack of cursors, one per open node. It is compared with the recursive
  traversal \<open>walk_tree\<close>. The slice \<open>stack\<close> is a list with its last element first. A visitor is its
  three callbacks; its state is the embedded \<open>cancelableVisitorHandler\<close> and whatever else the callbacks
  capture. The error of the handler is the list of the errors joined into it, empty for nil.
\<close>

section \<open>Visitors\<close>

record 'err cancelableVisitorHandler =
  currentSyntaxNodeConsumed :: bool
  vh_done :: bool
  vh_err :: "'err list"

type_synonym ('u, 'err) visitor_state = "'u \<times> 'err cancelableVisitorHandler"

record ('n, 'u, 'err) Visitor =
  Visitor_Enter :: "'n \<Rightarrow> ('u, 'err) visitor_state \<Rightarrow> ('u, 'err) visitor_state"
  Visitor_Visit :: "'n \<Rightarrow> ('u, 'err) visitor_state \<Rightarrow> ('u, 'err) visitor_state"
  Visitor_Exit :: "'n \<Rightarrow> ('u, 'err) visitor_state \<Rightarrow> ('u, 'err) visitor_state"

definition vh_Done :: "('u, 'err) visitor_state \<Rightarrow> bool" where
  "vh_Done s = vh_done (snd s)"

definition vh_Error :: "('u, 'err) visitor_state \<Rightarrow> 'err list" where
  "vh_Error s = vh_err (snd s)"

definition vh_SetDone :: "'err cancelableVisitorHandler \<Rightarrow> 'err cancelableVisitorHandler" where
  "vh_SetDone s = s\<lparr>vh_done := True\<rparr>"

definition vh_SetError :: "'err option \<Rightarrow> 'err cancelableVisitorHandler \<Rightarrow> 'err cancelableVisitorHandler" where
  "vh_SetError err s = (case err of None \<Rightarrow> s | Some e \<Rightarrow> s\<lparr>vh_err := vh_err s @ [e], vh_done := True\<rparr>)"

definition vh_Consume :: "'err cancelableVisitorHandler \<Rightarrow> 'err cancelableVisitorHandler" where
  "vh_Consume s = s\<lparr>currentSyntaxNodeConsumed := True\<rparr>"

definition vh_WasConsumed :: "('u, 'err) visitor_state \<Rightarrow> bool \<times> ('u, 'err) visitor_state" where
  "vh_WasConsumed s = (currentSyntaxNodeConsumed (snd s), (fst s, (snd s)\<lparr>currentSyntaxNodeConsumed := False\<rparr>))"

definition NewCancelableErrorHandler :: "'err cancelableVisitorHandler" where
  "NewCancelableErrorHandler = \<lparr>currentSyntaxNodeConsumed = False, vh_done = False, vh_err = []\<rparr>"

datatype visit_order = OrderPrefix | OrderInfix | OrderPostfix

definition NewSimpleVisitorWithOrder ::
    "visit_order \<Rightarrow> ('n \<Rightarrow> ('u, 'err) visitor_state \<Rightarrow> ('u, 'err) visitor_state) \<Rightarrow> ('n, 'u, 'err) Visitor" where
  "NewSimpleVisitorWithOrder order visitorFunc =
     \<lparr>Visitor_Enter = (\<lambda>node s. if order = OrderPrefix then visitorFunc node s else s),
      Visitor_Visit = (\<lambda>node s. if order = OrderInfix then visitorFunc node s else s),
      Visitor_Exit = (\<lambda>node s. if order = OrderPostfix then visitorFunc node s else s)\<rparr>"

definition NewSimpleVisitor ::
    "('n \<Rightarrow> ('u, 'err) visitor_state \<Rightarrow> ('u, 'err) visitor_state) \<Rightarrow> ('n, 'u, 'err) Visitor" where
  "NewSimpleVisitor = NewSimpleVisitorWithOrder OrderPrefix"

section \<open>Cursors\<close>

record 'n Cursor =
  Cursor_Node :: 'n
  Cursor_Branches :: "'n list"
  Cursor_BranchIndex :: nat

definition AddBranches :: "'n Cursor \<Rightarrow> 'n list \<Rightarrow> 'n Cursor" where
  "AddBranches s branches = s\<lparr>Cursor_Branches := Cursor_Branches s @ branches\<rparr>"

definition NumBranchesRemaining :: "'n Cursor \<Rightarrow> int" where
  "NumBranchesRemaining s = int (length (Cursor_Branches s)) - int (Cursor_BranchIndex s)"

definition IsFirstVisit :: "'n Cursor \<Rightarrow> bool" where
  "IsFirstVisit s \<longleftrightarrow> Cursor_BranchIndex s = 0"

definition HasNext :: "'n Cursor \<Rightarrow> bool" where
  "HasNext s \<longleftrightarrow> Cursor_BranchIndex s < length (Cursor_Branches s)"

definition NextBranch :: "'n Cursor \<Rightarrow> ('n \<times> 'n Cursor) option" where
  "NextBranch s = (if HasNext s
     then Some (Cursor_Branches s ! Cursor_BranchIndex s, s\<lparr>Cursor_BranchIndex := Cursor_BranchIndex s + 1\<rparr>)
     else None)"

section \<open>The walk\<close>

text \<open>
  The result of the walk is an error of the cursor constructor or the error the visitor set;
  \<open>wk_return\<close> is \<open>Some r\<close> once the function has returned \<open>r\<close>, where \<open>None\<close> is the nil error.
\<close>

datatype ('c, 'err) walk_error = CursorError 'c | VisitorError "'err list"

record ('n, 'u, 'c, 'err) walk_state =
  wk_stack :: "'n Cursor list"
  wk_visitor :: "('u, 'err) visitor_state"
  wk_return :: "('c, 'err) walk_error option option"

definition walk_return ::
    "('c, 'err) walk_error option \<Rightarrow> ('u, 'err) visitor_state \<Rightarrow> ('n, 'u, 'c, 'err) walk_state \<Rightarrow> ('n, 'u, 'c, 'err) walk_state" where
  "walk_return r vs w = w\<lparr>wk_visitor := vs, wk_return := Some r\<rparr>"

text \<open>The code that leaves a node: \<open>Exit\<close>, the error check, clearing the flag and the pop.\<close>

definition walk_exit ::
    "('n, 'u, 'err) Visitor \<Rightarrow> 'n \<Rightarrow> 'n Cursor list \<Rightarrow> ('u, 'err) visitor_state \<Rightarrow>
     ('n, 'u, 'c, 'err) walk_state \<Rightarrow> ('n, 'u, 'c, 'err) walk_state" where
  "walk_exit v node rest vs w =
     (let vs1 = Visitor_Exit v node vs in
      if vh_Error vs1 \<noteq> [] then walk_return (Some (VisitorError (vh_Error vs1))) vs1 w
      else w\<lparr>wk_stack := rest, wk_visitor := snd (vh_WasConsumed vs1)\<rparr>)"

text \<open>The code that goes down to the next branch.\<close>

definition walk_descend ::
    "('n \<Rightarrow> 'c + 'n Cursor) \<Rightarrow> 'n Cursor \<Rightarrow> 'n Cursor list \<Rightarrow> ('u, 'err) visitor_state \<Rightarrow>
     ('n, 'u, 'c, 'err) walk_state \<Rightarrow> ('n, 'u, 'c, 'err) walk_state option" where
  "walk_descend cons nextNode rest vs w =
     map_option (\<lambda>(branch, nextNode'). case cons branch of
         Inl err \<Rightarrow> walk_return (Some (CursorError err)) vs w
       | Inr cursor \<Rightarrow> w\<lparr>wk_stack := cursor # nextNode' # rest, wk_visitor := vs\<rparr>)
       (NextBranch nextNode)"

text \<open>One round of the loop of \<open>Generic\<close>.\<close>

fun walk_round ::
    "('n \<Rightarrow> 'c + 'n Cursor) \<Rightarrow> ('n, 'u, 'err) Visitor \<Rightarrow> ('n, 'u, 'c, 'err) walk_state \<Rightarrow> ('n, 'u, 'c, 'err) walk_state option" where
  "walk_round cons v w = (case wk_stack w of
     [] \<Rightarrow> None
   | nextNode # rest \<Rightarrow>
     let isFirstVisit = IsFirstVisit nextNode;
         node = Cursor_Node nextNode;
         vs1 = (if isFirstVisit then Visitor_Enter v node (wk_visitor w) else wk_visitor w)
     in if isFirstVisit \<and> vh_Error vs1 \<noteq> [] then Some (walk_return (Some (VisitorError (vh_Error vs1))) vs1 w)
        else if isFirstVisit \<and> vh_Done vs1 then Some (walk_return None vs1 w)
        else if \<not> HasNext nextNode then Some (walk_exit v node rest vs1 w)
        else (case vh_WasConsumed vs1 of (consumed, vs2) \<Rightarrow>
          if consumed then Some (walk_exit v node rest vs2 w)
          else if isFirstVisit then walk_descend cons nextNode rest vs2 w
          else let vs3 = Visitor_Visit v node vs2 in
            if vh_Error vs3 \<noteq> [] then Some (walk_return (Some (VisitorError (vh_Error vs3))) vs3 w)
            else if vh_Done vs3 then Some (walk_return None vs3 w)
            else (case vh_WasConsumed vs3 of (consumed3, vs4) \<Rightarrow>
              if consumed3 then Some (walk_exit v node rest vs4 w)
              else walk_descend cons nextNode rest vs4 w)))"

definition walk_goes_on :: "('n, 'u, 'c, 'err) walk_state \<Rightarrow> bool" where
  "walk_goes_on w \<longleftrightarrow> wk_return w = None \<and> wk_stack w \<noteq> [] \<and> \<not> vh_Done (wk_visitor w)"

definition walk_result :: "('n, 'u, 'c, 'err) walk_state \<Rightarrow> ('c, 'err) walk_error option \<times> ('u, 'err) visitor_state" where
  "walk_result w = (case_option None id (wk_return w), wk_visitor w)"

definition Generic ::
    "'n \<Rightarrow> ('n, 'u, 'err) Visitor \<Rightarrow> ('n \<Rightarrow> 'c + 'n Cursor) \<Rightarrow> ('u, 'err) visitor_state \<Rightarrow>
     (('c, 'err) walk_error option \<times> ('u, 'err) visitor_state) option" where
  "Generic node v cons vs = (case cons node of
     Inl err \<Rightarrow> Some (Some (CursorError err), vs)
   | Inr cursor \<Rightarrow> map_option walk_result
       (loop walk_goes_on (walk_round cons v) \<lparr>wk_stack = [cursor], wk_visitor = vs, wk_return = None\<rparr>))"

section \<open>The recursive traversal\<close>

text \<open>
  The tree a cursor constructor unfolds: \<open>Fail\<close> where it returns an error.
\<close>

datatype ('n, 'c) unfolded = Fail 'c | Tree 'n "('n, 'c) unfolded list"

inductive unfolds :: "('n \<Rightarrow> 'c + 'n Cursor) \<Rightarrow> 'n \<Rightarrow> ('n, 'c) unfolded \<Rightarrow> bool" for cons where
  fails: "cons n = Inl err \<Longrightarrow> unfolds cons n (Fail err)"
| opens: "cons n = Inr c \<Longrightarrow> Cursor_BranchIndex c = 0 \<Longrightarrow> list_all2 (unfolds cons) (Cursor_Branches c) ts \<Longrightarrow>
    unfolds cons n (Tree (Cursor_Node c) ts)"

datatype 'r outcome = Go | Stop 'r

type_synonym ('u, 'c, 'err) walked = "('c, 'err) walk_error option outcome \<times> ('u, 'err) visitor_state"

definition leave :: "('n, 'u, 'err) Visitor \<Rightarrow> 'n \<Rightarrow> ('u, 'err) visitor_state \<Rightarrow> ('u, 'c, 'err) walked" where
  "leave v n s = (let s1 = Visitor_Exit v n s in
     if vh_Error s1 \<noteq> [] then (Stop (Some (VisitorError (vh_Error s1))), s1) else (Go, snd (vh_WasConsumed s1)))"

text \<open>
  A node is entered, its branches are walked with a visit of the node between two of them, and it is
  exited. An error or the done flag stops the walk; the consume flag skips the remaining branches.
\<close>

fun walk_tree :: "('n, 'u, 'err) Visitor \<Rightarrow> ('n, 'c) unfolded \<Rightarrow> ('u, 'err) visitor_state \<Rightarrow> ('u, 'c, 'err) walked"
  and walk_branches :: "('n, 'u, 'err) Visitor \<Rightarrow> 'n \<Rightarrow> bool \<Rightarrow> ('n, 'c) unfolded list \<Rightarrow> ('u, 'err) visitor_state \<Rightarrow> ('u, 'c, 'err) walked" where
  "walk_tree v (Fail err) s = (Stop (Some (CursorError err)), s)"
| "walk_tree v (Tree n ts) s = (let s1 = Visitor_Enter v n s in
     if vh_Error s1 \<noteq> [] then (Stop (Some (VisitorError (vh_Error s1))), s1)
     else if vh_Done s1 then (Stop None, s1)
     else walk_branches v n True ts s1)"
| "walk_branches v n first [] s = leave v n s"
| "walk_branches v n first (t # ts) s = (case vh_WasConsumed s of (consumed, s1) \<Rightarrow>
     if consumed then leave v n s1
     else let s2 = (if first then s1 else Visitor_Visit v n s1) in
       if \<not> first \<and> vh_Error s2 \<noteq> [] then (Stop (Some (VisitorError (vh_Error s2))), s2)
       else if \<not> first \<and> vh_Done s2 then (Stop None, s2)
       else if \<not> first \<and> fst (vh_WasConsumed s2) then leave v n (snd (vh_WasConsumed s2))
       else (case walk_tree v t (snd (vh_WasConsumed s2)) of
         (Stop r, s3) \<Rightarrow> (Stop r, s3)
       | (Go, s3) \<Rightarrow> if vh_Done s3 then (Stop None, s3) else walk_branches v n False ts s3))"

definition walked_result :: "('u, 'c, 'err) walked \<Rightarrow> ('c, 'err) walk_error option \<times> ('u, 'err) visitor_state" where
  "walked_result r = (case fst r of Go \<Rightarrow> None | Stop e \<Rightarrow> e, snd r)"


section \<open>The loop and the recursion\<close>

lemma WasConsumed_simps [simp]:
  "vh_Done (snd (vh_WasConsumed s)) = vh_Done s"
  "vh_Error (snd (vh_WasConsumed s)) = vh_Error s"
  "fst (vh_WasConsumed (snd (vh_WasConsumed s))) = False"
  "snd (vh_WasConsumed (snd (vh_WasConsumed s))) = snd (vh_WasConsumed s)"
  by (simp_all add: vh_WasConsumed_def vh_Done_def vh_Error_def)

lemma case_WasConsumed: "(case vh_WasConsumed s of (a, b) \<Rightarrow> f a b) = f (fst (vh_WasConsumed s)) (snd (vh_WasConsumed s))"
  by (simp add: case_prod_unfold)

definition walk_run ::
    "('n \<Rightarrow> 'c + 'n Cursor) \<Rightarrow> ('n, 'u, 'err) Visitor \<Rightarrow> 'n Cursor list \<Rightarrow> ('u, 'err) visitor_state \<Rightarrow>
     (('c, 'err) walk_error option \<times> ('u, 'err) visitor_state) option" where
  "walk_run cons v stack vs = map_option walk_result
     (loop walk_goes_on (walk_round cons v) \<lparr>wk_stack = stack, wk_visitor = vs, wk_return = None\<rparr>)"

definition walk_cont ::
    "('n \<Rightarrow> 'c + 'n Cursor) \<Rightarrow> ('n, 'u, 'err) Visitor \<Rightarrow> ('n, 'u, 'c, 'err) walk_state option \<Rightarrow>
     (('c, 'err) walk_error option \<times> ('u, 'err) visitor_state) option" where
  "walk_cont cons v ws = Option.bind ws (\<lambda>w. map_option walk_result (loop walk_goes_on (walk_round cons v) w))"

definition resume ::
    "('n \<Rightarrow> 'c + 'n Cursor) \<Rightarrow> ('n, 'u, 'err) Visitor \<Rightarrow> 'n Cursor list \<Rightarrow> ('u, 'c, 'err) walked \<Rightarrow>
     (('c, 'err) walk_error option \<times> ('u, 'err) visitor_state) option" where
  "resume cons v rest r = (case r of (Stop e, s) \<Rightarrow> Some (e, s) | (Go, s) \<Rightarrow> walk_run cons v rest s)"

lemma resume_Stop [simp]: "resume cons v rest (Stop e, s) = Some (e, s)"
  by (simp add: resume_def)

lemma walk_run_done: "stack = [] \<or> vh_Done vs \<Longrightarrow> walk_run cons v stack vs = Some (None, vs)"
  by (simp add: walk_run_def loop_done walk_goes_on_def walk_result_def)

lemma walk_run_round:
  "stack \<noteq> [] \<Longrightarrow> \<not> vh_Done vs \<Longrightarrow>
   walk_run cons v stack vs = walk_cont cons v (walk_round cons v \<lparr>wk_stack = stack, wk_visitor = vs, wk_return = None\<rparr>)"
  by (simp add: walk_run_def walk_cont_def loop.simps [of walk_goes_on _ "\<lparr>wk_stack = stack, wk_visitor = vs, wk_return = None\<rparr>"]
      walk_goes_on_def map_option_bind comp_def)

lemma walk_cont_return: "walk_cont cons v (Some (walk_return r vs w)) = Some (r, vs)"
  by (simp add: walk_cont_def walk_return_def loop_done walk_goes_on_def walk_result_def)

lemma walk_state_running:
  "wk_return w = None \<Longrightarrow> w\<lparr>wk_stack := st, wk_visitor := vs\<rparr> = \<lparr>wk_stack = st, wk_visitor = vs, wk_return = None\<rparr>"
  by (cases w) simp

lemma walk_cont_exit:
  "wk_return w = None \<Longrightarrow> walk_cont cons v (Some (walk_exit v n rest vs w)) = resume cons v rest (leave v n vs)"
  by (simp add: walk_exit_def leave_def Let_def walk_cont_return resume_def)
    (simp add: walk_cont_def walk_run_def walk_state_running)

text \<open>
  The claim about a subtree: with its cursor on top of the stack, the loop does what the recursive
  traversal of the subtree does and goes on with the rest of the stack.
\<close>

definition simulated :: "('n \<Rightarrow> 'c + 'n Cursor) \<Rightarrow> ('n, 'u, 'err) Visitor \<Rightarrow> 'n \<Rightarrow> ('n, 'c) unfolded \<Rightarrow> bool" where
  "simulated cons v n t \<longleftrightarrow> (\<forall>c rest vs. cons n = Inr c \<longrightarrow> \<not> vh_Done vs \<longrightarrow>
     walk_run cons v (c # rest) vs = resume cons v rest (walk_tree v t vs))"

lemma walk_cont_descend:
  assumes sim: "simulated cons v (Cursor_Branches c ! i) t" and unf: "unfolds cons (Cursor_Branches c ! i) t"
    and i: "i < length (Cursor_Branches c)" and idx: "Cursor_BranchIndex c = i" and nd: "\<not> vh_Done vs" and w: "wk_return w = None"
  shows "walk_cont cons v (walk_descend cons c rest vs w) =
     resume cons v (c\<lparr>Cursor_BranchIndex := i + 1\<rparr> # rest) (walk_tree v t vs)"
proof (cases "cons (Cursor_Branches c ! i)")
  case (Inl err)
  with unf have "t = Fail err" by (auto elim: unfolds.cases)
  with Inl i idx show ?thesis
    by (simp add: walk_descend_def NextBranch_def HasNext_def walk_cont_return resume_def)
next
  case (Inr cursor)
  with i idx have "walk_descend cons c rest vs w =
      Some (w\<lparr>wk_stack := cursor # c\<lparr>Cursor_BranchIndex := i + 1\<rparr> # rest, wk_visitor := vs\<rparr>)"
    by (simp add: walk_descend_def NextBranch_def HasNext_def)
  then have "walk_cont cons v (walk_descend cons c rest vs w) = walk_run cons v (cursor # c\<lparr>Cursor_BranchIndex := i + 1\<rparr> # rest) vs"
    using w by (simp add: walk_cont_def walk_run_def walk_state_running)
  also have "\<dots> = resume cons v (c\<lparr>Cursor_BranchIndex := i + 1\<rparr> # rest) (walk_tree v t vs)"
    by (rule sim [unfolded simulated_def, rule_format, OF Inr nd])
  finally show ?thesis .
qed

lemma walk_branches_sim:
  assumes all: "\<And>i. i < length ts \<Longrightarrow> simulated cons v (Cursor_Branches c ! i) (ts ! i) \<and> unfolds cons (Cursor_Branches c ! i) (ts ! i)"
    and len: "length ts = length (Cursor_Branches c)" and nd: "\<not> vh_Done vs" and i: "0 < i" "i \<le> length ts"
  shows "walk_run cons v (c\<lparr>Cursor_BranchIndex := i\<rparr> # rest) vs =
     resume cons v rest (walk_branches v (Cursor_Node c) False (drop i ts) vs)"
  using nd i
proof (induction "length ts - i" arbitrary: i vs)
  case 0
  then have "i = length ts" by simp
  with 0 len show ?case
    by (simp add: walk_run_round IsFirstVisit_def HasNext_def walk_cont_exit)
next
  case (Suc k)
  then have i: "i < length ts" by simp
  then have dr: "drop i ts = ts ! i # drop (Suc i) ts" by (simp add: Cons_nth_drop_Suc)
  let ?c = "c\<lparr>Cursor_BranchIndex := i\<rparr>" and ?n = "Cursor_Node c"
  let ?w = "\<lparr>wk_stack = ?c # rest, wk_visitor = vs, wk_return = None\<rparr>"
  have nxt: "resume cons v (c\<lparr>Cursor_BranchIndex := i + 1\<rparr> # rest) r =
      resume cons v rest (case r of (Stop r, s3) \<Rightarrow> (Stop r, s3)
        | (Go, s3) \<Rightarrow> if vh_Done s3 then (Stop None, s3) else walk_branches v ?n False (drop (Suc i) ts) s3)" for r
    using Suc.hyps(1) [of "i + 1"] Suc.hyps(2) i
    by (auto simp: resume_def walk_run_done split: outcome.splits prod.splits)
  have desc: "walk_cont cons v (walk_descend cons ?c rest s ?w) =
      resume cons v rest (case walk_tree v (ts ! i) s of (Stop r, s3) \<Rightarrow> (Stop r, s3)
        | (Go, s3) \<Rightarrow> if vh_Done s3 then (Stop None, s3) else walk_branches v ?n False (drop (Suc i) ts) s3)"
    if "\<not> vh_Done s" for s
    using walk_cont_descend [of cons v ?c i "ts ! i" s ?w rest] all [OF i] len i that by (simp add: nxt [symmetric])
  have "walk_run cons v (?c # rest) vs = walk_cont cons v (walk_round cons v ?w)"
    using Suc.prems by (simp add: walk_run_round del: walk_round.simps)
  also have "\<dots> = resume cons v rest (walk_branches v ?n False (drop i ts) vs)"
    using Suc.prems i len
    by (simp add: dr IsFirstVisit_def HasNext_def Let_def walk_cont_return walk_cont_exit case_WasConsumed desc)
  finally show ?case .
qed

lemma unfolds_simulated:
  fixes v :: "('n, 'u, 'err) Visitor"
  shows "unfolds cons n t \<Longrightarrow> simulated cons v n t"
proof (induction rule: unfolds.induct)
  case (fails n err)
  then show ?case by (simp add: simulated_def)
next
  case (opens n c ts)
  have len: "length ts = length (Cursor_Branches c)" using opens.IH by (simp add: list_all2_lengthD)
  have all: "simulated cons v (Cursor_Branches c ! i) (ts ! i) \<and> unfolds cons (Cursor_Branches c ! i) (ts ! i)" if "i < length ts" for i
    using opens.IH that len by (simp add: list_all2_conv_all_nth)
  let ?n = "Cursor_Node c"
  show ?case unfolding simulated_def
  proof (intro allI impI)
    fix c' rest and vs :: "('u, 'err) visitor_state"
    assume "cons n = Inr c'" and nd: "\<not> vh_Done vs"
    with opens.hyps have [simp]: "c' = c" by simp
    let ?w = "\<lparr>wk_stack = c # rest, wk_visitor = vs, wk_return = None\<rparr>"
    have nxt: "resume cons v (c\<lparr>Cursor_BranchIndex := 1\<rparr> # rest) r =
        resume cons v rest (case r of (Stop r, s3) \<Rightarrow> (Stop r, s3)
          | (Go, s3) \<Rightarrow> if vh_Done s3 then (Stop None, s3) else walk_branches v ?n False ts' s3)" if "ts = t # ts'" for r t ts'
      using walk_branches_sim [OF all len, of _ 1] that
      by (auto simp: resume_def walk_run_done Suc_le_eq split: outcome.splits prod.splits)
    have desc: "walk_cont cons v (walk_descend cons c rest s ?w) =
        resume cons v rest (case walk_tree v t s of (Stop r, s3) \<Rightarrow> (Stop r, s3)
          | (Go, s3) \<Rightarrow> if vh_Done s3 then (Stop None, s3) else walk_branches v ?n False ts' s3)"
      if "\<not> vh_Done s" and ts: "ts = t # ts'" for s t ts'
    proof -
      from ts len have "0 < length (Cursor_Branches c)" by (cases "Cursor_Branches c") simp_all
      from walk_cont_descend [OF _ _ this opens.hyps(2) that(1), of cons v t ?w rest] all [of 0] ts nxt [OF ts]
      show ?thesis by simp
    qed
    have "walk_run cons v (c # rest) vs = walk_cont cons v (walk_round cons v ?w)"
      using nd by (simp add: walk_run_round del: walk_round.simps)
    also have "\<dots> = resume cons v rest (walk_tree v (Tree ?n ts) vs)"
    proof (cases ts)
      case Nil
      with len opens.hyps(2) show ?thesis
        by (simp add: IsFirstVisit_def HasNext_def Let_def walk_cont_return walk_cont_exit)
    next
      case (Cons t ts')
      with len have "0 < length (Cursor_Branches c)" by (cases "Cursor_Branches c") simp_all
      with Cons opens.hyps(2) show ?thesis
        by (simp add: IsFirstVisit_def HasNext_def Let_def walk_cont_return walk_cont_exit case_WasConsumed desc)
    qed
    finally show "walk_run cons v (c' # rest) vs = resume cons v rest (walk_tree v (Tree ?n ts) vs)" by simp
  qed
qed

lemma Generic_walk_tree:
  assumes "unfolds cons n t" and nd: "\<not> vh_Done vs"
  shows "Generic n v cons vs = Some (walked_result (walk_tree v t vs))"
  using assms(1)
proof cases
  case (fails err)
  then show ?thesis by (simp add: Generic_def walked_result_def)
next
  case (opens c ts)
  have "walk_run cons v [c] vs = resume cons v [] (walk_tree v t vs)"
    using unfolds_simulated [OF assms(1), of v] opens(2) nd by (simp only: simulated_def) blast
  with opens show ?thesis
    by (auto simp: Generic_def walk_run_def [symmetric] resume_def walked_result_def walk_run_done split: prod.splits outcome.splits)
qed

lemma unfolds_unique: "unfolds cons n t \<Longrightarrow> unfolds cons n t' \<Longrightarrow> t = t'"
proof (induction arbitrary: t' rule: unfolds.induct)
  case (fails n err)
  then show ?case by (auto elim: unfolds.cases)
next
  case (opens n c ts)
  from opens.prems opens.hyps obtain ts' where t': "t' = Tree (Cursor_Node c) ts'" "list_all2 (unfolds cons) (Cursor_Branches c) ts'"
    by (cases rule: unfolds.cases) auto
  have "ts = ts'"
  proof (rule nth_equalityI)
    show "length ts = length ts'" using opens.IH t'(2) by (simp add: list_all2_lengthD [symmetric])
    fix i assume "i < length ts"
    then show "ts ! i = ts' ! i" using opens.IH t'(2) by (simp add: list_all2_conv_all_nth)
  qed
  with t' show ?case by simp
qed

section \<open>Visitors that only look\<close>

datatype 'n event = Entered 'n | Visited 'n | Exited 'n

fun events :: "('n, 'c) unfolded \<Rightarrow> 'n event list"
  and branch_events :: "'n \<Rightarrow> bool \<Rightarrow> ('n, 'c) unfolded list \<Rightarrow> 'n event list" where
  "events (Fail err) = []"
| "events (Tree n ts) = Entered n # branch_events n True ts"
| "branch_events n first [] = [Exited n]"
| "branch_events n first (t # ts) = (if first then [] else [Visited n]) @ events t @ branch_events n False ts"

fun sound :: "('n, 'c) unfolded \<Rightarrow> bool" where
  "sound (Fail err) \<longleftrightarrow> False"
| "sound (Tree n ts) \<longleftrightarrow> (\<forall>t \<in> set ts. sound t)"

fun apply_event :: "('n, 'u, 'err) Visitor \<Rightarrow> 'err cancelableVisitorHandler \<Rightarrow> 'n event \<Rightarrow> 'u \<Rightarrow> 'u" where
  "apply_event v h (Entered n) u = fst (Visitor_Enter v n (u, h))"
| "apply_event v h (Visited n) u = fst (Visitor_Visit v n (u, h))"
| "apply_event v h (Exited n) u = fst (Visitor_Exit v n (u, h))"

text \<open>The callbacks leave the handler as it is.\<close>

definition quiet :: "('n, 'u, 'err) Visitor \<Rightarrow> 'err cancelableVisitorHandler \<Rightarrow> bool" where
  "quiet v h \<longleftrightarrow> (\<forall>n u. snd (Visitor_Enter v n (u, h)) = h \<and> snd (Visitor_Visit v n (u, h)) = h \<and> snd (Visitor_Exit v n (u, h)) = h)"

lemma quiet_walk:
  fixes h :: "'err cancelableVisitorHandler" and v :: "('n, 'u, 'err) Visitor"
    and t :: "('n, 'c) unfolded" and ts :: "('n, 'c) unfolded list"
  assumes q: "quiet v h" and h: "h = NewCancelableErrorHandler"
  shows "sound t \<Longrightarrow> walk_tree v t (u, h) = (Go, fold (apply_event v h) (events t) u, h)"
    and "\<forall>t \<in> set ts. sound t \<Longrightarrow> walk_branches v n first ts (u, h) = (Go, fold (apply_event v h) (branch_events n first ts) u, h)"
proof -
  have idle: "vh_Done (u, h) = False" "vh_Error (u, h) = []" "vh_WasConsumed (u, h) = (False, (u, h))" for u :: 'u
    by (simp_all add: h vh_Done_def vh_Error_def vh_WasConsumed_def NewCancelableErrorHandler_def)
  have cb: "Visitor_Enter v n (u, h) = (fst (Visitor_Enter v n (u, h)), h)"
    "Visitor_Visit v n (u, h) = (fst (Visitor_Visit v n (u, h)), h)"
    "Visitor_Exit v n (u, h) = (fst (Visitor_Exit v n (u, h)), h)" for n u
    using q by (simp_all add: quiet_def prod_eq_iff)
  have lv: "leave v n (u, h) = (Go, fst (Visitor_Exit v n (u, h)), h)" for n u
    by (subst leave_def, subst cb(3)) (simp add: idle Let_def)
  show "sound t \<Longrightarrow> walk_tree v t (u, h) = (Go, fold (apply_event v h) (events t) u, h)"
    and "\<forall>t \<in> set ts. sound t \<Longrightarrow> walk_branches v n first ts (u, h) = (Go, fold (apply_event v h) (branch_events n first ts) u, h)"
  proof (induction t and n first ts arbitrary: u and u rule: events_branch_events.induct)
    case (2 n ts)
    then show ?case by (subst walk_tree.simps, subst cb(1)) (simp add: idle Let_def)
  next
    case (4 n first t ts)
    obtain u' where "Visitor_Visit v n (u, h) = (u', h)" by (rule that, rule cb(2))
    with 4 show ?case by (cases first) (simp_all add: idle)
  qed (simp_all add: lv)
qed

section \<open>Cursor constructors that unfold finite trees\<close>

definition branch_rel :: "('n \<Rightarrow> 'c + 'n Cursor) \<Rightarrow> ('n \<times> 'n) set" where
  "branch_rel cons = {(n, b). \<exists>c. cons n = Inr c \<and> b \<in> set (Cursor_Branches c)}"

locale cursor_constructor =
  fixes cons :: "'n \<Rightarrow> 'c + 'n Cursor"
  assumes fresh: "cons n = Inr c \<Longrightarrow> Cursor_BranchIndex c = 0"
    and node: "cons n = Inr c \<Longrightarrow> Cursor_Node c = n"
    and finite_trees: "wf ((branch_rel cons)\<inverse>)"
begin

lemma unfolds_exists: "\<exists>t. unfolds cons n t"
proof (induction n rule: wf_induct_rule [OF finite_trees])
  case (1 n)
  show ?case
  proof (cases "cons n")
    case (Inl err)
    then show ?thesis by (blast intro: unfolds.fails)
  next
    case (Inr c)
    have "\<forall>b \<in> set (Cursor_Branches c). \<exists>t. unfolds cons b t"
      using 1 [unfolded branch_rel_def] Inr by blast
    then obtain f where f: "\<forall>b \<in> set (Cursor_Branches c). unfolds cons b (f b)" by metis
    then have "list_all2 (unfolds cons) (Cursor_Branches c) (map f (Cursor_Branches c))"
      by (simp add: list_all2_conv_all_nth)
    from unfolds.opens [OF Inr fresh [OF Inr] this] show ?thesis by (rule exI)
  qed
qed

text \<open>A tree is sound when the constructor accepts every node the walk can reach.\<close>

lemma unfolds_reaches:
  assumes "unfolds cons n t"
  shows "(\<forall>m. (n, m) \<in> (branch_rel cons)\<^sup>* \<longrightarrow> (\<exists>c. cons m = Inr c)) \<Longrightarrow> sound t"
    and "sound t \<Longrightarrow> {m. Entered m \<in> set (events t)} = {m. (n, m) \<in> (branch_rel cons)\<^sup>*}"
proof -
  have "((\<forall>m. (n, m) \<in> (branch_rel cons)\<^sup>* \<longrightarrow> (\<exists>c. cons m = Inr c)) \<longrightarrow> sound t) \<and>
    (sound t \<longrightarrow> {m. Entered m \<in> set (events t)} = {m. (n, m) \<in> (branch_rel cons)\<^sup>*})"
    using assms
  proof (induction rule: unfolds.induct)
    case (fails n err)
    then show ?case by auto
  next
    case (opens n c ts)
    let ?bs = "Cursor_Branches c" and ?R = "branch_rel cons"
    have len: "length ts = length ?bs" using opens.IH by (simp add: list_all2_lengthD)
    have step: "(n, b) \<in> ?R \<longleftrightarrow> b \<in> set ?bs" for b using opens.hyps(1) by (simp add: branch_rel_def)
    have reach: "{m. (n, m) \<in> ?R\<^sup>*} = insert n (\<Union>b \<in> set ?bs. {m. (b, m) \<in> ?R\<^sup>*})"
      using step by (auto elim: converse_rtranclE intro: converse_rtrancl_into_rtrancl)
    have snd1: "sound t" if all: "\<forall>m. (n, m) \<in> ?R\<^sup>* \<longrightarrow> (\<exists>c. cons m = Inr c)" and t: "t \<in> set ts" for t
    proof -
      from t obtain i where i: "i < length ts" "t = ts ! i" by (auto simp: in_set_conv_nth)
      with len have "?bs ! i \<in> set ?bs" by simp
      with all reach have "\<forall>m. (?bs ! i, m) \<in> ?R\<^sup>* \<longrightarrow> (\<exists>c. cons m = Inr c)" by blast
      with opens.IH i len show "sound t" by (simp add: list_all2_conv_all_nth)
    qed
    have ev: "{m. Entered m \<in> set (branch_events k first us)} = (\<Union>t \<in> set us. {m. Entered m \<in> set (events t)})" for k first us
      by (induction us arbitrary: first) auto
    have set: "(\<Union>t \<in> set ts. {m. Entered m \<in> set (events t)}) = (\<Union>b \<in> set ?bs. {m. (b, m) \<in> ?R\<^sup>*})"
      if "\<forall>t \<in> set ts. sound t"
    proof -
      have "{m. Entered m \<in> set (events (ts ! i))} = {m. (?bs ! i, m) \<in> ?R\<^sup>*}" if i: "i < length ts" for i
        using opens.IH i len that \<open>\<forall>t \<in> set ts. sound t\<close> by (simp add: list_all2_conv_all_nth)
      then have "(\<Union>i < length ts. {m. Entered m \<in> set (events (ts ! i))}) = (\<Union>i < length ts. {m. (?bs ! i, m) \<in> ?R\<^sup>*})"
        by simp
      then show ?thesis by (simp add: set_conv_nth len image_UN setcompr_eq_image lessThan_def [symmetric])
    qed
    have "Cursor_Node c = n" by (rule node [OF opens.hyps(1)])
    then have "{m. Entered m \<in> set (events (Tree (Cursor_Node c) ts))} = insert n (\<Union>t \<in> set ts. {m. Entered m \<in> set (events t)})"
      using ev [of "Cursor_Node c" True ts] by auto
    with snd1 set reach show ?case by simp
  qed
  then show "(\<forall>m. (n, m) \<in> (branch_rel cons)\<^sup>* \<longrightarrow> (\<exists>c. cons m = Inr c)) \<Longrightarrow> sound t"
    and "sound t \<Longrightarrow> {m. Entered m \<in> set (events t)} = {m. (n, m) \<in> (branch_rel cons)\<^sup>*}" by blast+
qed

lemma walk_total: "\<not> vh_Done vs \<Longrightarrow> \<exists>t. unfolds cons n t \<and> Generic n v cons vs = Some (walked_result (walk_tree v t vs))"
  by (rule exE [OF unfolds_exists [of n]], rule exI, rule conjI, assumption, rule Generic_walk_tree)

end

end
