(* ===== verification/Cy_Cursor.thy ===== *)
theory Cy_Cursor
  imports Cy_Model Cy_Walk
begin

text \<open>
  src/cypher/models/walk/walk_cypher.go: the cursors of the nodes of a Cypher syntax tree.

  A node is an interface value, \<open>None\<close> for nil. Every handler is a function that returns the cursor of a
  node it handles and \<open>None\<close> for the others; the handlers are only called on nodes that are not nil.
\<close>

type_synonym node = "SyntaxNode option"

definition isNilNode :: "node \<Rightarrow> bool" where
  "isNilNode node = (case node of None \<Rightarrow> True | Some n \<Rightarrow> is_nil_pointer n)"

definition node_cursor :: "SyntaxNode \<Rightarrow> node list \<Rightarrow> node Cursor" where
  "node_cursor node branches = \<lparr>Cursor_Node = Some node, Cursor_Branches = branches, Cursor_BranchIndex = 0\<rparr>"

text \<open>\<open>if field != nil \<lbrace> nextCursor.AddBranches(field) \<rbrace>\<close> for an interface and for a pointer field.\<close>

definition add_expression :: "node \<Rightarrow> node Cursor \<Rightarrow> node Cursor" where
  "add_expression e cursor = (case e of None \<Rightarrow> cursor | Some n \<Rightarrow> AddBranches cursor [Some n])"

definition add_pointer :: "('p option \<Rightarrow> SyntaxNode) \<Rightarrow> 'p option \<Rightarrow> node Cursor \<Rightarrow> node Cursor" where
  "add_pointer wrap p cursor = (if p \<noteq> None then AddBranches cursor [Some (wrap p)] else cursor)"

definition addCypherBranches :: "('f \<Rightarrow> node) \<Rightarrow> 'f list \<Rightarrow> node Cursor \<Rightarrow> node Cursor" where
  "addCypherBranches wrap branches cursor = fold (\<lambda>branch cursor. AddBranches cursor [wrap branch]) branches cursor"

definition newCypherWalkCursorWithBranches :: "('f \<Rightarrow> node) \<Rightarrow> SyntaxNode \<Rightarrow> 'f list \<Rightarrow> node Cursor" where
  "newCypherWalkCursorWithBranches wrap node branches = addCypherBranches wrap branches (node_cursor node [])"

definition newCypherWalkCursorWithBranchPrefix :: "('f \<Rightarrow> node) \<Rightarrow> SyntaxNode \<Rightarrow> node \<Rightarrow> 'f list \<Rightarrow> node Cursor" where
  "newCypherWalkCursorWithBranchPrefix wrap node pfx branches =
     addCypherBranches wrap branches
       (if \<not> isNilNode pfx then AddBranches (node_cursor node []) [pfx] else node_cursor node [])"

definition newCypherWalkCursorWithMapItems :: "SyntaxNode \<Rightarrow> SyntaxNode MapLiteral \<Rightarrow> node Cursor" where
  "newCypherWalkCursorWithMapItems node mapLiteral =
     snd (ForEachItem mapLiteral (\<lambda>(key, val) cursor.
       (None :: unit option, AddBranches cursor [Some (N_MapItem (Some (MapItem key val)))])) (node_cursor node []))"

abbreviation wrap_pointer :: "('p option \<Rightarrow> SyntaxNode) \<Rightarrow> 'p option \<Rightarrow> node" where
  "wrap_pointer wrap p \<equiv> Some (wrap p)"

section \<open>Cursors of the semantic walk\<close>

definition newCypherLeafWalkCursor :: "SyntaxNode \<Rightarrow> node Cursor option" where
  "newCypherLeafWalkCursor node = (case node of
     N_RangeQuantifier _ \<Rightarrow> Some (node_cursor node [])
   | N_PatternRange _ \<Rightarrow> Some (node_cursor node [])
   | N_Operator _ \<Rightarrow> Some (node_cursor node [])
   | N_Limit _ \<Rightarrow> Some (node_cursor node [])
   | N_Skip _ \<Rightarrow> Some (node_cursor node [])
   | N_Kinds _ \<Rightarrow> Some (node_cursor node [])
   | N_MapLiteral _ \<Rightarrow> Some (node_cursor node [])
   | N_Parameter _ \<Rightarrow> Some (node_cursor node [])
   | N_Literal _ \<Rightarrow> Some (node_cursor node [])
   | N_Variable _ \<Rightarrow> Some (node_cursor node [])
   | _ \<Rightarrow> None)"

definition newCypherValueWalkCursor :: "SyntaxNode \<Rightarrow> node Cursor option" where
  "newCypherValueWalkCursor node = (case node of
     N_KindMatcher (Some (KindMatcher reference _ _)) \<Rightarrow> Some (add_expression reference (node_cursor node []))
   | N_PropertyLookup (Some (PropertyLookup atm _)) \<Rightarrow> Some (add_expression atm (node_cursor node []))
   | N_MapItem (Some (MapItem _ val)) \<Rightarrow> Some (add_expression val (node_cursor node []))
   | N_Properties (Some (Properties entries parameter)) \<Rightarrow>
       Some (if parameter \<noteq> None
             then node_cursor node [Some (N_Parameter parameter)]
             else newCypherWalkCursorWithMapItems node entries)
   | N_ListLiteral (Some (ListLiteral expressions)) \<Rightarrow> Some (newCypherWalkCursorWithBranches id node expressions)
   | N_FunctionInvocation (Some (FunctionInvocation _ _ _ _ arguments)) \<Rightarrow> Some (newCypherWalkCursorWithBranches id node arguments)
   | N_Parenthetical (Some (Parenthetical expression)) \<Rightarrow> Some (add_expression expression (node_cursor node []))
   | _ \<Rightarrow> None)"

definition newCypherPredicateWalkCursor :: "SyntaxNode \<Rightarrow> node Cursor option" where
  "newCypherPredicateWalkCursor node = (case node of
     N_Quantifier (Some (Quantifier _ flt)) \<Rightarrow> Some (add_pointer N_FilterExpression flt (node_cursor node []))
   | N_FilterExpression (Some (FilterExpression specifier whr)) \<Rightarrow>
       Some (add_pointer N_Where whr
         (add_pointer N_IDInCollection specifier (node_cursor node [])))
   | N_IDInCollection (Some (IDInCollection _ expression)) \<Rightarrow> Some (add_expression expression (node_cursor node []))
   | N_Where (Some (Where expressions)) \<Rightarrow> Some (newCypherWalkCursorWithBranches id node expressions)
   | N_Negation (Some (Negation expression)) \<Rightarrow> Some (add_expression expression (node_cursor node []))
   | N_Conjunction (Some (Conjunction expressions)) \<Rightarrow> Some (newCypherWalkCursorWithBranches id node expressions)
   | N_Disjunction (Some (Disjunction expressions)) \<Rightarrow> Some (newCypherWalkCursorWithBranches id node expressions)
   | N_ExclusiveDisjunction (Some (ExclusiveDisjunction expressions)) \<Rightarrow> Some (newCypherWalkCursorWithBranches id node expressions)
   | _ \<Rightarrow> None)"

definition newCypherOperatorWalkCursor :: "SyntaxNode \<Rightarrow> node Cursor option" where
  "newCypherOperatorWalkCursor node = (case node of
     N_ArithmeticExpression (Some (ArithmeticExpression left partials)) \<Rightarrow>
       Some (newCypherWalkCursorWithBranchPrefix (wrap_pointer N_PartialArithmeticExpression) node
         left partials)
   | N_PartialArithmeticExpression (Some (PartialArithmeticExpression operator right)) \<Rightarrow>
       Some (add_expression right (node_cursor node [Some (N_Operator operator)]))
   | N_PartialComparison (Some (PartialComparison _ right)) \<Rightarrow> Some (add_expression right (node_cursor node []))
   | N_Comparison (Some (Comparison left partials)) \<Rightarrow>
       Some (newCypherWalkCursorWithBranchPrefix (wrap_pointer N_PartialComparison) node
         left partials)
   | N_UnaryAddOrSubtractExpression (Some (UnaryAddOrSubtractExpression _ right)) \<Rightarrow> Some (add_expression right (node_cursor node []))
   | _ \<Rightarrow> None)"

definition newCypherProjectionWalkCursor :: "SyntaxNode \<Rightarrow> node Cursor option" where
  "newCypherProjectionWalkCursor node = (case node of
     N_Order (Some (Order items)) \<Rightarrow> Some (newCypherWalkCursorWithBranches (wrap_pointer N_SortItem) node items)
   | N_SortItem (Some (SortItem _ expression)) \<Rightarrow> Some (add_expression expression (node_cursor node []))
   | N_Projection (Some (Projection _ _ ord skip lim items)) \<Rightarrow>
       Some (add_pointer N_Limit lim
         (add_pointer N_Skip skip
           (add_pointer N_Order ord
             (addCypherBranches id items (node_cursor node [])))))
   | N_ProjectionItem (Some (ProjectionItem expression _)) \<Rightarrow> Some (add_expression expression (node_cursor node []))
   | _ \<Rightarrow> None)"

fun newCypherMultiPartQueryPartWalkCursor :: "SyntaxNode MultiPartQueryPart \<Rightarrow> node Cursor" where
  "newCypherMultiPartQueryPartWalkCursor (MultiPartQueryPart readings updates wth) =
     add_pointer N_With wth
       (addCypherBranches (wrap_pointer N_UpdatingClause) updates
         (addCypherBranches (wrap_pointer N_ReadingClause) readings
           (node_cursor (N_MultiPartQueryPart (Some (MultiPartQueryPart readings updates wth))) [])))"

fun newCypherSinglePartQueryWalkCursor :: "SyntaxNode SinglePartQuery \<Rightarrow> node Cursor" where
  "newCypherSinglePartQueryWalkCursor (SinglePartQuery errs readings updates ret) =
     add_pointer N_Return ret
       (addCypherBranches id updates
         (addCypherBranches (wrap_pointer N_ReadingClause) readings
           (node_cursor (N_SinglePartQuery (Some (SinglePartQuery errs readings updates ret))) [])))"

definition newCypherStatementWalkCursor :: "SyntaxNode \<Rightarrow> node Cursor option" where
  "newCypherStatementWalkCursor node = (case node of
     N_MultiPartQuery (Some (MultiPartQuery parts singlePartQuery)) \<Rightarrow>
       Some (add_pointer N_SinglePartQuery singlePartQuery
         (newCypherWalkCursorWithBranches (wrap_pointer N_MultiPartQueryPart) node parts))
   | N_MultiPartQueryPart (Some typedNode) \<Rightarrow> Some (newCypherMultiPartQueryPartWalkCursor typedNode)
   | N_RegularQuery (Some (RegularQuery singleQuery)) \<Rightarrow> Some (add_pointer N_SingleQuery singleQuery (node_cursor node []))
   | N_SingleQuery (Some (SingleQuery singlePartQuery multiPartQuery)) \<Rightarrow>
       Some (add_pointer N_MultiPartQuery multiPartQuery
         (add_pointer N_SinglePartQuery singlePartQuery (node_cursor node [])))
   | N_SinglePartQuery (Some typedNode) \<Rightarrow> Some (newCypherSinglePartQueryWalkCursor typedNode)
   | _ \<Rightarrow> None)"

definition newCypherClauseWalkCursor :: "SyntaxNode \<Rightarrow> node Cursor option" where
  "newCypherClauseWalkCursor node = (case node of
     N_Unwind (Some (Unwind expression variable)) \<Rightarrow>
       Some (add_pointer N_Variable variable
         (add_expression expression (node_cursor node [])))
   | N_With (Some (With projection whr)) \<Rightarrow>
       Some (add_pointer N_Where whr
         (add_pointer N_Projection projection (node_cursor node [])))
   | N_Return (Some (Return projection)) \<Rightarrow> Some (add_pointer N_Projection projection (node_cursor node []))
   | N_ReadingClause (Some (ReadingClause match unwind)) \<Rightarrow>
       Some (add_pointer N_Unwind unwind
         (add_pointer N_Match match (node_cursor node [])))
   | N_Match (Some (Match _ pattern whr)) \<Rightarrow>
       Some (add_pointer N_Where whr
         (addCypherBranches (wrap_pointer N_PatternPart) pattern (node_cursor node [])))
   | _ \<Rightarrow> None)"

definition newCypherQueryWalkCursor :: "SyntaxNode \<Rightarrow> node Cursor option" where
  "newCypherQueryWalkCursor node = (case newCypherStatementWalkCursor node of
     Some cursor \<Rightarrow> Some cursor
   | None \<Rightarrow> newCypherClauseWalkCursor node)"

definition newCypherUpdatingWalkCursor :: "SyntaxNode \<Rightarrow> node Cursor option" where
  "newCypherUpdatingWalkCursor node = (case node of
     N_Create (Some (Create _ _ pattern)) \<Rightarrow> Some (newCypherWalkCursorWithBranches (wrap_pointer N_PatternPart) node pattern)
   | N_RemoveItem (Some (RemoveItem _ property)) \<Rightarrow> Some (add_expression property (node_cursor node []))
   | N_Remove (Some (Remove items)) \<Rightarrow> Some (newCypherWalkCursorWithBranches (wrap_pointer N_RemoveItem) node items)
   | N_Delete (Some (Delete _ expressions)) \<Rightarrow> Some (newCypherWalkCursorWithBranches id node expressions)
   | N_SetItem (Some (SetItem left _ right)) \<Rightarrow>
       Some (add_expression right (add_expression left (node_cursor node [])))
   | N_Set (Some (Set items)) \<Rightarrow> Some (newCypherWalkCursorWithBranches (wrap_pointer N_SetItem) node items)
   | N_UpdatingClause (Some (UpdatingClause _ clause)) \<Rightarrow> Some (add_expression clause (node_cursor node []))
   | N_Merge (Some (Merge patternPart mergeActions)) \<Rightarrow>
       Some (newCypherWalkCursorWithBranchPrefix (wrap_pointer N_MergeAction) node
         (Some (N_PatternPart patternPart)) mergeActions)
   | N_MergeAction (Some (MergeAction _ _ sets)) \<Rightarrow> Some (add_pointer N_Set sets (node_cursor node []))
   | _ \<Rightarrow> None)"

definition newCypherPatternWalkCursor :: "SyntaxNode \<Rightarrow> node Cursor option" where
  "newCypherPatternWalkCursor node = (case node of
     N_PatternPredicate (Some (PatternPredicate patternElements)) \<Rightarrow>
       Some (newCypherWalkCursorWithBranches (wrap_pointer N_PatternElement) node patternElements)
   | N_PatternPart (Some (PatternPart _ _ _ patternElements _)) \<Rightarrow>
       Some (newCypherWalkCursorWithBranches (wrap_pointer N_PatternElement) node patternElements)
   | N_PatternElement (Some (PatternElement element)) \<Rightarrow> Some (add_expression element (node_cursor node []))
   | N_RelationshipPattern (Some (RelationshipPattern _ _ _ _ properties)) \<Rightarrow> Some (add_expression properties (node_cursor node []))
   | N_NodePattern (Some (NodePattern _ _ properties)) \<Rightarrow> Some (add_expression properties (node_cursor node []))
   | _ \<Rightarrow> None)"

text \<open>The handlers in turn; the error carries the node it is about.\<close>

fun first_handled :: "(SyntaxNode \<Rightarrow> node Cursor option) list \<Rightarrow> SyntaxNode \<Rightarrow> node + node Cursor" where
  "first_handled [] node = Inl (Some node)"
| "first_handled (handler # handlers) node = (case handler node of Some cursor \<Rightarrow> Inr cursor | None \<Rightarrow> first_handled handlers node)"

definition newCypherWalkCursor :: "node \<Rightarrow> node + node Cursor" where
  "newCypherWalkCursor node = (if isNilNode node then Inl node else first_handled
     [newCypherLeafWalkCursor, newCypherValueWalkCursor, newCypherPredicateWalkCursor, newCypherOperatorWalkCursor,
      newCypherProjectionWalkCursor, newCypherQueryWalkCursor, newCypherUpdatingWalkCursor, newCypherPatternWalkCursor]
     (the node))"

section \<open>Cursors of the structural walk\<close>

definition newCypherStructuralValueWalkCursor :: "SyntaxNode \<Rightarrow> node Cursor option" where
  "newCypherStructuralValueWalkCursor node = (case node of
     N_Limit (Some (Limit val)) \<Rightarrow> Some (add_expression val (node_cursor node []))
   | N_Skip (Some (Skip val)) \<Rightarrow> Some (add_expression val (node_cursor node []))
   | N_KindMatcher (Some (KindMatcher reference kinds _)) \<Rightarrow>
       Some (add_pointer N_Kinds kinds (add_expression reference (node_cursor node [])))
   | N_Properties (Some (Properties entries parameter)) \<Rightarrow>
       Some (add_pointer N_MapLiteral entries
         (add_pointer N_Parameter parameter (node_cursor node [])))
   | N_MapLiteral typedNode \<Rightarrow> Some (newCypherWalkCursorWithMapItems node typedNode)
   | N_RemoveItem (Some (RemoveItem kindMatcher property)) \<Rightarrow>
       Some (add_expression property
         (add_pointer N_KindMatcher kindMatcher (node_cursor node [])))
   | N_IDInCollection (Some (IDInCollection variable expression)) \<Rightarrow>
       Some (add_expression expression
         (add_pointer N_Variable variable (node_cursor node [])))
   | N_ProjectionItem (Some (ProjectionItem expression alias)) \<Rightarrow>
       Some (add_pointer N_Variable alias
         (add_expression expression (node_cursor node [])))
   | N_PartialComparison (Some (PartialComparison operator right)) \<Rightarrow>
       Some (add_expression right (node_cursor node [Some (N_Operator operator)]))
   | N_PartialArithmeticExpression (Some (PartialArithmeticExpression operator right)) \<Rightarrow>
       Some (add_expression right (node_cursor node [Some (N_Operator operator)]))
   | N_UnaryAddOrSubtractExpression (Some (UnaryAddOrSubtractExpression operator right)) \<Rightarrow>
       Some (add_expression right (node_cursor node [Some (N_Operator operator)]))
   | _ \<Rightarrow> None)"

definition newCypherStructuralPatternWalkCursor :: "SyntaxNode \<Rightarrow> node Cursor option" where
  "newCypherStructuralPatternWalkCursor node = (case node of
     N_PatternPart (Some (PatternPart variable _ _ patternElements _)) \<Rightarrow>
       Some (addCypherBranches (wrap_pointer N_PatternElement) patternElements
         (add_pointer N_Variable variable (node_cursor node [])))
   | N_RelationshipPattern (Some (RelationshipPattern variable kinds _ rng properties)) \<Rightarrow>
       Some (add_expression properties
         (add_pointer N_PatternRange rng
           (add_pointer N_Kinds kinds
             (add_pointer N_Variable variable (node_cursor node [])))))
   | N_NodePattern (Some (NodePattern variable kinds properties)) \<Rightarrow>
       Some (add_expression properties
         (add_pointer N_Kinds kinds
           (add_pointer N_Variable variable (node_cursor node []))))
   | _ \<Rightarrow> None)"

definition newCypherStructuralWalkCursor :: "node \<Rightarrow> node + node Cursor" where
  "newCypherStructuralWalkCursor node = (if isNilNode node then Inl node else
     (case newCypherStructuralValueWalkCursor (the node) of
        Some cursor \<Rightarrow> Inr cursor
      | None \<Rightarrow> (case newCypherStructuralPatternWalkCursor (the node) of
          Some cursor \<Rightarrow> Inr cursor
        | None \<Rightarrow> newCypherWalkCursor node)))"

definition Cypher :: "node \<Rightarrow> (node, 'u, 'err) Visitor \<Rightarrow> ('u, 'err) visitor_state \<Rightarrow>
    ((node, 'err) walk_error option \<times> ('u, 'err) visitor_state) option" where
  "Cypher node visitor = Generic node visitor newCypherWalkCursor"

definition CypherStructural :: "node \<Rightarrow> (node, 'u, 'err) Visitor \<Rightarrow> ('u, 'err) visitor_state \<Rightarrow>
    ((node, 'err) walk_error option \<times> ('u, 'err) visitor_state) option" where
  "CypherStructural node visitor = Generic node visitor newCypherStructuralWalkCursor"


section \<open>Branches of a cursor\<close>

lemma node_cursor_simps [simp]:
  "Cursor_Node (node_cursor n bs) = Some n" "Cursor_BranchIndex (node_cursor n bs) = 0" "Cursor_Branches (node_cursor n bs) = bs"
  by (simp_all add: node_cursor_def)

lemma add_expression_simps [simp]:
  "Cursor_Node (add_expression e c) = Cursor_Node c" "Cursor_BranchIndex (add_expression e c) = Cursor_BranchIndex c"
  "set (Cursor_Branches (add_expression e c)) = set (Cursor_Branches c) \<union> Some ` set_option e"
  by (simp_all add: add_expression_def AddBranches_def split: option.split)

lemma add_pointer_simps [simp]:
  "Cursor_Node (add_pointer wrap p c) = Cursor_Node c" "Cursor_BranchIndex (add_pointer wrap p c) = Cursor_BranchIndex c"
  "set (Cursor_Branches (add_pointer wrap p c)) = set (Cursor_Branches c) \<union> (\<lambda>x. Some (wrap (Some x))) ` set_option p"
  by (auto simp: add_pointer_def AddBranches_def)

lemma addCypherBranches_simps [simp]:
  "Cursor_Node (addCypherBranches wrap bs c) = Cursor_Node c" "Cursor_BranchIndex (addCypherBranches wrap bs c) = Cursor_BranchIndex c"
  "set (Cursor_Branches (addCypherBranches wrap bs c)) = set (Cursor_Branches c) \<union> wrap ` set bs"
  unfolding addCypherBranches_def
  by (induction bs arbitrary: c) (auto simp: AddBranches_def)

lemma WithBranches_simps [simp]:
  "Cursor_Node (newCypherWalkCursorWithBranches wrap n bs) = Some n" "Cursor_BranchIndex (newCypherWalkCursorWithBranches wrap n bs) = 0"
  "set (Cursor_Branches (newCypherWalkCursorWithBranches wrap n bs)) = wrap ` set bs"
  by (simp_all add: newCypherWalkCursorWithBranches_def)

lemma WithBranchPrefix_simps [simp]:
  "Cursor_Node (newCypherWalkCursorWithBranchPrefix wrap n pfx bs) = Some n"
  "Cursor_BranchIndex (newCypherWalkCursorWithBranchPrefix wrap n pfx bs) = 0"
  "set (Cursor_Branches (newCypherWalkCursorWithBranchPrefix wrap n pfx bs)) = (if isNilNode pfx then {} else {pfx}) \<union> wrap ` set bs"
  by (simp_all add: newCypherWalkCursorWithBranchPrefix_def AddBranches_def)

lemma WithMapItems_simps [simp]:
  "Cursor_Node (newCypherWalkCursorWithMapItems n m) = Some n" "Cursor_BranchIndex (newCypherWalkCursorWithMapItems n m) = 0"
  "set (Cursor_Branches (newCypherWalkCursorWithMapItems n m)) = (\<lambda>i. Some (N_MapItem (Some i))) ` set (MapLiteral_Items m)"
proof -
  have "newCypherWalkCursorWithMapItems n m = addCypherBranches (\<lambda>i. Some (N_MapItem (Some i))) (MapLiteral_Items m) (node_cursor n [])"
    by (simp add: newCypherWalkCursorWithMapItems_def MapLiteral_Items_eq ForEachItem_def until_error_None case_prod_unfold
        addCypherBranches_def fold_map comp_def)
  then show "Cursor_Node (newCypherWalkCursorWithMapItems n m) = Some n" "Cursor_BranchIndex (newCypherWalkCursorWithMapItems n m) = 0"
    "set (Cursor_Branches (newCypherWalkCursorWithMapItems n m)) = (\<lambda>i. Some (N_MapItem (Some i))) ` set (MapLiteral_Items m)"
    by simp_all
qed

section \<open>Branches are smaller\<close>

definition node_size :: "node \<Rightarrow> nat" where
  "node_size n = (case n of None \<Rightarrow> 0 | Some m \<Rightarrow> Suc (size m))"

lemma size_in_list: "x \<in> set xs \<Longrightarrow> f x < size_list f xs"
  by (induction xs) auto

lemma size_MapItem_le:
  assumes "i \<in> set (MapLiteral_Items m)"
  shows "Suc (size_MapItem size i) < size_option (size_list (size_prod (\<lambda>_. 0) (size_option size))) m"
proof -
  from assms obtain key entries where i: "i = MapItem key (map_literal_get m key)" and m: "m = Some entries"
    and key: "key \<in> fst ` set entries"
    by (auto simp: MapLiteral_Items_eq sortedKeys_def split: option.splits)
  then obtain e where e: "map_of entries key = Some e" by (metis (no_types) domIff dom_map_of_conv_image_fst not_None_eq)
  then have "(key, e) \<in> set entries" by (rule map_of_SomeD)
  from size_in_list [OF this, of "size_prod (\<lambda>_. 0) (size_option size)"] i m e
  show ?thesis by (simp add: map_literal_get_def)
qed

definition proper_cursor :: "SyntaxNode \<Rightarrow> node Cursor \<Rightarrow> bool" where
  "proper_cursor n c \<longleftrightarrow> Cursor_Node c = Some n \<and> Cursor_BranchIndex c = 0 \<and>
     (\<forall>b \<in> set (Cursor_Branches c). node_size b < node_size (Some n))"

lemmas size_in_lists =
  size_in_list [where f = "size_option size"]
  size_in_list [where f = "size_option (size_MergeAction size)"]
  size_in_list [where f = "size_option (size_MultiPartQueryPart size)"]
  size_in_list [where f = "size_option (size_PartialArithmeticExpression size)"]
  size_in_list [where f = "size_option (size_PartialComparison size)"]
  size_in_list [where f = "size_option (size_PatternElement size)"]
  size_in_list [where f = "size_option (size_PatternPart size)"]
  size_in_list [where f = "size_option (size_ReadingClause size)"]
  size_in_list [where f = "size_option (size_RemoveItem size)"]
  size_in_list [where f = "size_option (size_SetItem size)"]
  size_in_list [where f = "size_option (size_SortItem size)"]
  size_in_list [where f = "size_option (size_UpdatingClause size)"]

lemma newCypherLeafWalkCursor_proper:
  "newCypherLeafWalkCursor n = Some c \<Longrightarrow> proper_cursor n c"
  by (cases n; clarsimp simp: proper_cursor_def newCypherLeafWalkCursor_def)

lemma newCypherValueWalkCursor_proper:
  "newCypherValueWalkCursor n = Some c \<Longrightarrow> proper_cursor n c"
  by (cases n; clarsimp simp: proper_cursor_def newCypherValueWalkCursor_def split: option.splits KindMatcher.splits PropertyLookup.splits MapItem.splits Cy_Properties.splits ListLiteral.splits FunctionInvocation.splits Parenthetical.splits)
    (auto simp: node_size_def dest!: size_in_lists size_MapItem_le split: if_splits option.splits)

lemma newCypherPredicateWalkCursor_proper:
  "newCypherPredicateWalkCursor n = Some c \<Longrightarrow> proper_cursor n c"
  by (cases n; clarsimp simp: proper_cursor_def newCypherPredicateWalkCursor_def split: option.splits Quantifier.splits FilterExpression.splits IDInCollection.splits Where.splits Negation.splits Conjunction.splits Disjunction.splits ExclusiveDisjunction.splits)
    (auto simp: node_size_def dest!: size_in_lists size_MapItem_le split: if_splits option.splits)

lemma newCypherOperatorWalkCursor_proper:
  "newCypherOperatorWalkCursor n = Some c \<Longrightarrow> proper_cursor n c"
  by (cases n; clarsimp simp: proper_cursor_def newCypherOperatorWalkCursor_def split: option.splits ArithmeticExpression.splits PartialArithmeticExpression.splits PartialComparison.splits Comparison.splits UnaryAddOrSubtractExpression.splits)
    (auto simp: node_size_def dest!: size_in_lists size_MapItem_le split: if_splits option.splits)

lemma newCypherProjectionWalkCursor_proper:
  "newCypherProjectionWalkCursor n = Some c \<Longrightarrow> proper_cursor n c"
  by (cases n; clarsimp simp: proper_cursor_def newCypherProjectionWalkCursor_def split: option.splits Order.splits SortItem.splits Projection.splits ProjectionItem.splits)
    (auto simp: node_size_def dest!: size_in_lists size_MapItem_le split: if_splits option.splits)

lemma newCypherPartWalkCursor_proper:
  "proper_cursor (N_SinglePartQuery (Some x)) (newCypherSinglePartQueryWalkCursor x)"
  "proper_cursor (N_MultiPartQueryPart (Some y)) (newCypherMultiPartQueryPartWalkCursor y)"
  by (cases x; clarsimp simp: proper_cursor_def; auto simp: node_size_def dest!: size_in_lists split: option.splits)
    (cases y; clarsimp simp: proper_cursor_def; auto simp: node_size_def dest!: size_in_lists split: option.splits)

lemma newCypherStatementWalkCursor_proper:
  "newCypherStatementWalkCursor n = Some c \<Longrightarrow> proper_cursor n c"
  by (cases n; clarsimp simp: proper_cursor_def newCypherStatementWalkCursor_def split: option.splits MultiPartQuery.splits RegularQuery.splits SingleQuery.splits intro!: newCypherPartWalkCursor_proper [unfolded proper_cursor_def])
    (auto simp: node_size_def dest!: size_in_lists size_MapItem_le split: if_splits option.splits)

lemma newCypherClauseWalkCursor_proper:
  "newCypherClauseWalkCursor n = Some c \<Longrightarrow> proper_cursor n c"
  by (cases n; clarsimp simp: proper_cursor_def newCypherClauseWalkCursor_def split: option.splits Unwind.splits With.splits Return.splits ReadingClause.splits Match.splits)
    (auto simp: node_size_def dest!: size_in_lists size_MapItem_le split: if_splits option.splits)

lemma newCypherUpdatingWalkCursor_proper:
  "newCypherUpdatingWalkCursor n = Some c \<Longrightarrow> proper_cursor n c"
  by (cases n; clarsimp simp: proper_cursor_def newCypherUpdatingWalkCursor_def split: option.splits Create.splits RemoveItem.splits Remove.splits Delete.splits SetItem.splits Set.splits UpdatingClause.splits Merge.splits MergeAction.splits)
    (auto simp: node_size_def dest!: size_in_lists size_MapItem_le split: if_splits option.splits)

lemma newCypherPatternWalkCursor_proper:
  "newCypherPatternWalkCursor n = Some c \<Longrightarrow> proper_cursor n c"
  by (cases n; clarsimp simp: proper_cursor_def newCypherPatternWalkCursor_def split: option.splits PatternPredicate.splits PatternPart.splits PatternElement.splits RelationshipPattern.splits NodePattern.splits)
    (auto simp: node_size_def dest!: size_in_lists size_MapItem_le split: if_splits option.splits)

lemma newCypherStructuralValueWalkCursor_proper:
  "newCypherStructuralValueWalkCursor n = Some c \<Longrightarrow> proper_cursor n c"
  by (cases n; clarsimp simp: proper_cursor_def newCypherStructuralValueWalkCursor_def split: option.splits Limit.splits Skip.splits KindMatcher.splits Cy_Properties.splits RemoveItem.splits IDInCollection.splits ProjectionItem.splits PartialComparison.splits PartialArithmeticExpression.splits UnaryAddOrSubtractExpression.splits)
    (auto simp: node_size_def dest!: size_in_lists size_MapItem_le split: if_splits option.splits)

lemma newCypherStructuralPatternWalkCursor_proper:
  "newCypherStructuralPatternWalkCursor n = Some c \<Longrightarrow> proper_cursor n c"
  by (cases n; clarsimp simp: proper_cursor_def newCypherStructuralPatternWalkCursor_def split: option.splits PatternPart.splits RelationshipPattern.splits NodePattern.splits)
    (auto simp: node_size_def dest!: size_in_lists size_MapItem_le split: if_splits option.splits)

lemma newCypherQueryWalkCursor_proper: "newCypherQueryWalkCursor n = Some c \<Longrightarrow> proper_cursor n c"
  by (auto simp: newCypherQueryWalkCursor_def split: option.splits
      intro: newCypherStatementWalkCursor_proper newCypherClauseWalkCursor_proper)

lemmas handlers_proper =
  newCypherLeafWalkCursor_proper newCypherValueWalkCursor_proper newCypherPredicateWalkCursor_proper
  newCypherOperatorWalkCursor_proper newCypherProjectionWalkCursor_proper newCypherQueryWalkCursor_proper
  newCypherUpdatingWalkCursor_proper newCypherPatternWalkCursor_proper

lemma newCypherWalkCursor_proper: "newCypherWalkCursor node = Inr c \<Longrightarrow> \<exists>n. node = Some n \<and> proper_cursor n c"
  by (cases node) (auto simp: newCypherWalkCursor_def isNilNode_def split: if_splits option.splits dest: handlers_proper)

lemma newCypherStructuralWalkCursor_proper: "newCypherStructuralWalkCursor node = Inr c \<Longrightarrow> \<exists>n. node = Some n \<and> proper_cursor n c"
  by (cases node) (auto simp: newCypherStructuralWalkCursor_def isNilNode_def split: if_splits option.splits
      dest: newCypherStructuralValueWalkCursor_proper newCypherStructuralPatternWalkCursor_proper newCypherWalkCursor_proper)

lemma proper_cursor_constructor:
  assumes "\<And>node c. cons node = Inr c \<Longrightarrow> \<exists>n. node = Some n \<and> proper_cursor n c"
  shows "cursor_constructor cons"
proof
  have "(branch_rel cons)\<inverse> \<subseteq> measure node_size"
    using assms by (fastforce simp: branch_rel_def proper_cursor_def)
  then show "wf ((branch_rel cons)\<inverse>)" by (rule wf_subset [OF wf_measure])
qed (use assms in \<open>auto simp: proper_cursor_def\<close>)

interpretation semantic: cursor_constructor newCypherWalkCursor
  by (rule proper_cursor_constructor) (rule newCypherWalkCursor_proper)

interpretation structural: cursor_constructor newCypherStructuralWalkCursor
  by (rule proper_cursor_constructor) (rule newCypherStructuralWalkCursor_proper)

section \<open>Which nodes have a cursor\<close>

definition foreign :: "node \<Rightarrow> bool" where
  "foreign node \<longleftrightarrow> isNilNode node \<or> (case node of Some (N_Kind _) \<Rightarrow> True | Some (N_Other _) \<Rightarrow> True | _ \<Rightarrow> False)"

lemmas handler_defs = newCypherLeafWalkCursor_def newCypherValueWalkCursor_def newCypherPredicateWalkCursor_def
  newCypherOperatorWalkCursor_def newCypherProjectionWalkCursor_def newCypherQueryWalkCursor_def newCypherStatementWalkCursor_def
  newCypherClauseWalkCursor_def newCypherUpdatingWalkCursor_def newCypherPatternWalkCursor_def

lemmas struct_case_eq_if =
  Variable.case_eq_if RangeQuantifier.case_eq_if PatternRange.case_eq_if Literal.case_eq_if Parameter.case_eq_if
  MapItem.case_eq_if ListLiteral.case_eq_if Cy_Properties.case_eq_if NodePattern.case_eq_if
  RelationshipPattern.case_eq_if PatternElement.case_eq_if PatternPart.case_eq_if PatternPredicate.case_eq_if
  Where.case_eq_if Conjunction.case_eq_if Disjunction.case_eq_if ExclusiveDisjunction.case_eq_if
  Negation.case_eq_if Parenthetical.case_eq_if FunctionInvocation.case_eq_if PartialComparison.case_eq_if
  Comparison.case_eq_if PartialArithmeticExpression.case_eq_if ArithmeticExpression.case_eq_if
  UnaryAddOrSubtractExpression.case_eq_if KindMatcher.case_eq_if PropertyLookup.case_eq_if
  IDInCollection.case_eq_if FilterExpression.case_eq_if Quantifier.case_eq_if ProjectionItem.case_eq_if
  SortItem.case_eq_if Order.case_eq_if Skip.case_eq_if Limit.case_eq_if Projection.case_eq_if Return.case_eq_if
  With.case_eq_if Match.case_eq_if Unwind.case_eq_if ReadingClause.case_eq_if SetItem.case_eq_if Set.case_eq_if
  RemoveItem.case_eq_if Remove.case_eq_if Delete.case_eq_if Create.case_eq_if MergeAction.case_eq_if
  Merge.case_eq_if UpdatingClause.case_eq_if SinglePartQuery.case_eq_if MultiPartQueryPart.case_eq_if
  MultiPartQuery.case_eq_if SingleQuery.case_eq_if RegularQuery.case_eq_if

lemma newCypherWalkCursor_error: "newCypherWalkCursor node = Inl err \<longleftrightarrow> foreign node \<and> err = node"
proof (cases node)
  case (Some n)
  show ?thesis unfolding Some
  proof (cases "is_nil_pointer n")
    case False
    then show "newCypherWalkCursor (Some n) = Inl err \<longleftrightarrow> foreign (Some n) \<and> err = Some n"
      by (cases n) (auto simp: newCypherWalkCursor_def isNilNode_def is_nil_pointer_def foreign_def handler_defs struct_case_eq_if)
  qed (auto simp: newCypherWalkCursor_def isNilNode_def foreign_def)
qed (auto simp: newCypherWalkCursor_def isNilNode_def foreign_def)

section \<open>The walks\<close>

lemma Cypher_unfolds: "\<not> vh_Done vs \<Longrightarrow> unfolds newCypherWalkCursor n t \<Longrightarrow> Cypher n v vs = Some (walked_result (walk_tree v t vs))"
  by (simp add: Cypher_def Generic_walk_tree)

lemma Cypher_sound:
  assumes "\<forall>m. (n, m) \<in> (branch_rel newCypherWalkCursor)\<^sup>* \<longrightarrow> \<not> foreign m"
  obtains t where "unfolds newCypherWalkCursor n t" "sound t"
    "{m. Entered m \<in> set (events t)} = {m. (n, m) \<in> (branch_rel newCypherWalkCursor)\<^sup>*}"
proof -
  obtain t where t: "unfolds newCypherWalkCursor n t" using semantic.unfolds_exists by blast
  have "\<exists>c. newCypherWalkCursor m = Inr c" if "(n, m) \<in> (branch_rel newCypherWalkCursor)\<^sup>*" for m
    using assms that newCypherWalkCursor_error [of m] by (cases "newCypherWalkCursor m") auto
  then have "sound t" by (intro semantic.unfolds_reaches(1) [OF t]) blast
  with t semantic.unfolds_reaches(2) [OF t] show ?thesis by (intro that)
qed

text \<open>A visitor that records its callbacks.\<close>

definition recorder :: "(node, node event list, 'err) Visitor" where
  "recorder = \<lparr>Visitor_Enter = (\<lambda>n (es, h). (es @ [Entered n], h)), Visitor_Visit = (\<lambda>n (es, h). (es @ [Visited n], h)),
     Visitor_Exit = (\<lambda>n (es, h). (es @ [Exited n], h))\<rparr>"

lemma recorder_walk: "sound t \<Longrightarrow>
  walk_tree recorder t ([], NewCancelableErrorHandler) = (Go, events t, NewCancelableErrorHandler :: 'err cancelableVisitorHandler)"
proof -
  have "quiet recorder (NewCancelableErrorHandler :: 'err cancelableVisitorHandler)" by (simp add: quiet_def recorder_def)
  moreover have "apply_event recorder (NewCancelableErrorHandler :: 'err cancelableVisitorHandler) e es = es @ [e]" for e es
    by (cases e) (simp_all add: recorder_def)
  then have "fold (apply_event recorder (NewCancelableErrorHandler :: 'err cancelableVisitorHandler)) es es' = es' @ es" for es es'
    by (induction es arbitrary: es') simp_all
  ultimately show "sound t \<Longrightarrow> ?thesis" by (simp add: quiet_walk(1))
qed

text \<open>C7. \<open>walk.Cypher\<close> and \<open>walk.CypherStructural\<close> terminate on every tree, nil and unknown nodes included, for every visitor, and
  do what the recursive traversal of the tree of branches does: the same callbacks in the same order with the
  same final state, the same early stops for errors, the done flag and consumed nodes, and the same result.\<close>

theorem Cypher_walks_recursively:
  assumes "\<not> vh_Done vs"
  shows "\<exists>t t'. unfolds newCypherWalkCursor n t \<and> Cypher n v vs = Some (walked_result (walk_tree v t vs)) \<and>
    unfolds newCypherStructuralWalkCursor n t' \<and> CypherStructural n v vs = Some (walked_result (walk_tree v t' vs))"
proof -
  obtain t where "unfolds newCypherWalkCursor n t" using semantic.unfolds_exists by blast
  moreover obtain t' where "unfolds newCypherStructuralWalkCursor n t'" using structural.unfolds_exists by blast
  ultimately show ?thesis using assms by (intro exI conjI) (simp_all add: Cypher_def CypherStructural_def Generic_walk_tree)
qed

definition negated_pair :: node where
  "negated_pair = Some (N_Negation (Some (Negation (Some (N_Conjunction (Some (Conjunction
     [Some (N_Variable (Some (Variable ''a''))), Some (N_Variable (Some (Variable ''b'')))])))))))"

theorem Cypher_walks_recursively_witness:
  "\<exists>t. unfolds newCypherWalkCursor negated_pair t \<and>
     Cypher negated_pair recorder ([], NewCancelableErrorHandler :: unit cancelableVisitorHandler) =
       Some (walked_result (walk_tree recorder t ([], NewCancelableErrorHandler)))"
proof -
  have "\<not> vh_Done ([] :: node event list, NewCancelableErrorHandler :: unit cancelableVisitorHandler)"
    by (simp add: vh_Done_def NewCancelableErrorHandler_def)
  from Cypher_walks_recursively [OF this, of negated_pair recorder] show ?thesis by blast
qed

text \<open>C35. Every node type of the model has a cursor: when no node reachable through branches is nil or of a type that
  is not part of the model, \<open>walk.Cypher\<close> returns no error and enters exactly the reachable nodes, and the
  only error a cursor constructor can return is for a nil node or a foreign type.\<close>

theorem Cypher_walk_is_total:
  assumes "\<forall>m. (n, m) \<in> (branch_rel newCypherWalkCursor)\<^sup>* \<longrightarrow> \<not> foreign m"
  shows "(\<exists>es. Cypher n recorder ([], NewCancelableErrorHandler) = Some (None, es, NewCancelableErrorHandler :: 'err cancelableVisitorHandler) \<and>
      {m. Entered m \<in> set es} = {m. (n, m) \<in> (branch_rel newCypherWalkCursor)\<^sup>*}) \<and>
    (newCypherWalkCursor m = Inl err \<longleftrightarrow> foreign m \<and> err = m)"
proof -
  from assms obtain t where t: "unfolds newCypherWalkCursor n t" "sound t"
    and ev: "{m. Entered m \<in> set (events t)} = {m. (n, m) \<in> (branch_rel newCypherWalkCursor)\<^sup>*}" by (rule Cypher_sound)
  have "\<not> vh_Done ([] :: node event list, NewCancelableErrorHandler :: 'err cancelableVisitorHandler)"
    by (simp add: vh_Done_def NewCancelableErrorHandler_def)
  from Cypher_unfolds [OF this t(1), of recorder] recorder_walk [OF t(2), where 'err = 'err]
  have "Cypher n recorder ([], NewCancelableErrorHandler) = Some (None, events t, NewCancelableErrorHandler :: 'err cancelableVisitorHandler)"
    by (simp add: walked_result_def)
  with ev newCypherWalkCursor_error show ?thesis by blast
qed

theorem Cypher_walk_is_total_witness:
  "(\<exists>es. Cypher negated_pair recorder ([], NewCancelableErrorHandler) = Some (None, es, NewCancelableErrorHandler :: unit cancelableVisitorHandler) \<and>
      {m. Entered m \<in> set es} = {m. (negated_pair, m) \<in> (branch_rel newCypherWalkCursor)\<^sup>*}) \<and>
    (newCypherWalkCursor None = Inl None)"
proof -
  let ?a = "Some (N_Variable (Some (Variable ''a'')))" and ?b = "Some (N_Variable (Some (Variable ''b'')))"
  let ?c = "Some (N_Conjunction (Some (Conjunction [?a, ?b])))"
  have cursors: "newCypherWalkCursor negated_pair = Inr (node_cursor (the negated_pair) [?c])"
    "newCypherWalkCursor ?c = Inr (node_cursor (the ?c) [?a, ?b])"
    "newCypherWalkCursor ?a = Inr (node_cursor (the ?a) [])" "newCypherWalkCursor ?b = Inr (node_cursor (the ?b) [])"
    by (simp_all add: negated_pair_def newCypherWalkCursor_def isNilNode_def is_nil_pointer_def handler_defs
        newCypherWalkCursorWithBranches_def addCypherBranches_def AddBranches_def add_expression_def node_cursor_def)
  have "m \<in> {negated_pair, ?c, ?a, ?b}" if "(negated_pair, m) \<in> (branch_rel newCypherWalkCursor)\<^sup>*" for m
    using that by (induction rule: rtrancl_induct) (auto simp: branch_rel_def cursors)
  then have "\<not> foreign m" if "(negated_pair, m) \<in> (branch_rel newCypherWalkCursor)\<^sup>*" for m
    using that cursors newCypherWalkCursor_error by (metis empty_iff insert_iff sum.distinct(1))
  then show ?thesis using Cypher_walk_is_total [of negated_pair None None, where 'err = unit] by (simp add: foreign_def isNilNode_def)
qed

end
