(* ===== verification/Cy_Copy.thy ===== *)
theory Cy_Copy
  imports Cy_Cursor "HOL-Library.Monad_Syntax"
begin

text \<open>
  src/cypher/models/cypher/copy.go and the \<open>copy\<close> methods of src/cypher/models/cypher/model.go: deep copies of syntax trees.

  \<open>Copy\<close> dispatches on the type of a value and the \<open>copy\<close> method of a struct calls \<open>Copy\<close> on its fields. The
  outer option of a result is \<open>None\<close> when the call panics: on a type the switch does not list, and in the
  methods that read a field of a nil pointer. In the argument of a \<open>copy\<close> method every field of type
  \<open>Expression\<close> holds a pair of the expression and the result of \<open>Copy\<close> on it, so that the method
  is a function of the struct and the recursive calls alone.
\<close>

type_synonym 'e leaf = "'e \<times> 'e option"

text \<open>\<open>Copy\<close> of an \<open>Expression\<close>: the nil interface is copied to nil.\<close>

definition copy_any :: "'e leaf option \<Rightarrow> 'e option option" where
  "copy_any e = (case e of None \<Rightarrow> Some None | Some (_, r) \<Rightarrow> map_option Some r)"

fun copySlice :: "('a \<Rightarrow> 'b option) \<Rightarrow> 'a list \<Rightarrow> 'b list option" where
  "copySlice copy [] = Some []"
| "copySlice copy (item # items) = do {
     item' \<leftarrow> copy item;
     items' \<leftarrow> copySlice copy items;
     Some (item' # items')
   }"

definition Kinds_Copy :: "Kinds option \<Rightarrow> Kinds option" where
  "Kinds_Copy s = (case s of None \<Rightarrow> None | Some kinds \<Rightarrow> Some (map id kinds))"

section \<open>The copy methods\<close>

fun copy_Variable :: "Variable option \<Rightarrow> Variable option option" where
  "copy_Variable None = Some None"
| "copy_Variable (Some (Variable symbol)) = Some (Some (Variable symbol))"

fun copy_RangeQuantifier :: "RangeQuantifier option \<Rightarrow> RangeQuantifier option option" where
  "copy_RangeQuantifier None = Some None"
| "copy_RangeQuantifier (Some (RangeQuantifier val)) = Some (Some (RangeQuantifier val))"

fun copy_PatternRange :: "PatternRange option \<Rightarrow> PatternRange option option" where
  "copy_PatternRange None = Some None"
| "copy_PatternRange (Some (PatternRange startIndex endIndex)) = Some (Some (PatternRange startIndex endIndex))"

definition copy_MapLiteral :: "'e leaf MapLiteral \<Rightarrow> 'e MapLiteral option" where
  "copy_MapLiteral s = (case s of
     None \<Rightarrow> Some None
   | Some entries \<Rightarrow> map_option Some (copySlice (\<lambda>(key, val). map_option (Pair key) (copy_any val)) entries))"

fun copy_Literal :: "'e leaf Literal option \<Rightarrow> 'e Literal option option" where
  "copy_Literal None = None"
| "copy_Literal (Some (Literal val null)) = Some (Some (Literal (map_go_value fst val) null))"

fun copy_Parameter :: "'e leaf Parameter option \<Rightarrow> 'e Parameter option option" where
  "copy_Parameter None = Some None"
| "copy_Parameter (Some (Parameter symbol val)) = Some (Some (Parameter symbol (map_go_value fst val)))"

fun copy_MapItem :: "'e leaf MapItem option \<Rightarrow> 'e MapItem option option" where
  "copy_MapItem None = Some None"
| "copy_MapItem (Some (MapItem key val)) = do {
     val' \<leftarrow> copy_any val;
     Some (Some (MapItem key val'))
   }"

fun copy_ListLiteral :: "'e leaf ListLiteral option \<Rightarrow> 'e ListLiteral option option" where
  "copy_ListLiteral None = Some None"
| "copy_ListLiteral (Some (ListLiteral expressions)) = do {
     expressions' \<leftarrow> copySlice copy_any expressions;
     Some (Some (ListLiteral expressions'))
   }"

fun copy_Properties :: "'e leaf Cy_Properties option \<Rightarrow> 'e Cy_Properties option option" where
  "copy_Properties None = Some None"
| "copy_Properties (Some (Properties entries parameter)) = do {
     entries' \<leftarrow> copy_MapLiteral entries;
     parameter' \<leftarrow> copy_Parameter parameter;
     Some (Some (Properties entries' parameter'))
   }"

fun copy_NodePattern :: "'e leaf NodePattern option \<Rightarrow> 'e NodePattern option option" where
  "copy_NodePattern None = Some None"
| "copy_NodePattern (Some (NodePattern variable kinds properties)) = do {
     variable' \<leftarrow> copy_Variable variable;
     properties' \<leftarrow> copy_any properties;
     Some (Some (NodePattern variable' (Kinds_Copy kinds) properties'))
   }"

fun copy_RelationshipPattern :: "'e leaf RelationshipPattern option \<Rightarrow> 'e RelationshipPattern option option" where
  "copy_RelationshipPattern None = Some None"
| "copy_RelationshipPattern (Some (RelationshipPattern variable kinds direction rng properties)) = do {
     variable' \<leftarrow> copy_Variable variable;
     rng' \<leftarrow> copy_PatternRange rng;
     properties' \<leftarrow> copy_any properties;
     Some (Some (RelationshipPattern variable' (Kinds_Copy kinds) direction rng' properties'))
   }"

fun copy_PatternElement :: "'e leaf PatternElement option \<Rightarrow> 'e PatternElement option option" where
  "copy_PatternElement None = None"
| "copy_PatternElement (Some (PatternElement element)) = do {
     element' \<leftarrow> copy_any element;
     Some (Some (PatternElement element'))
   }"

fun copy_PatternPart :: "'e leaf PatternPart option \<Rightarrow> 'e PatternPart option option" where
  "copy_PatternPart None = Some None"
| "copy_PatternPart (Some (PatternPart variable shortestPathPattern allShortestPathsPattern patternElements pathDirectionReversed)) = do {
     variable' \<leftarrow> copy_Variable variable;
     patternElements' \<leftarrow> copySlice copy_PatternElement patternElements;
     Some (Some (PatternPart variable' shortestPathPattern allShortestPathsPattern patternElements' pathDirectionReversed))
   }"

fun copy_PatternPredicate :: "'e leaf PatternPredicate option \<Rightarrow> 'e PatternPredicate option option" where
  "copy_PatternPredicate None = Some None"
| "copy_PatternPredicate (Some (PatternPredicate patternElements)) = do {
     patternElements' \<leftarrow> copySlice copy_PatternElement patternElements;
     Some (Some (PatternPredicate patternElements'))
   }"

fun copy_Where :: "'e leaf Where option \<Rightarrow> 'e Where option option" where
  "copy_Where None = Some None"
| "copy_Where (Some (Where expressions)) = do {
     expressions' \<leftarrow> copySlice copy_any expressions;
     Some (Some (Where expressions'))
   }"

fun copy_Conjunction :: "'e leaf Conjunction option \<Rightarrow> 'e Conjunction option option" where
  "copy_Conjunction None = Some None"
| "copy_Conjunction (Some (Conjunction expressions)) = do {
     expressions' \<leftarrow> copySlice copy_any expressions;
     Some (Some (Conjunction expressions'))
   }"

fun copy_Disjunction :: "'e leaf Disjunction option \<Rightarrow> 'e Disjunction option option" where
  "copy_Disjunction None = Some None"
| "copy_Disjunction (Some (Disjunction expressions)) = do {
     expressions' \<leftarrow> copySlice copy_any expressions;
     Some (Some (Disjunction expressions'))
   }"

fun copy_ExclusiveDisjunction :: "'e leaf ExclusiveDisjunction option \<Rightarrow> 'e ExclusiveDisjunction option option" where
  "copy_ExclusiveDisjunction None = Some None"
| "copy_ExclusiveDisjunction (Some (ExclusiveDisjunction expressions)) = do {
     expressions' \<leftarrow> copySlice copy_any expressions;
     Some (Some (ExclusiveDisjunction expressions'))
   }"

fun copy_Negation :: "'e leaf Negation option \<Rightarrow> 'e Negation option option" where
  "copy_Negation None = Some None"
| "copy_Negation (Some (Negation expression)) = do {
     expression' \<leftarrow> copy_any expression;
     Some (Some (Negation expression'))
   }"

fun copy_Parenthetical :: "'e leaf Parenthetical option \<Rightarrow> 'e Parenthetical option option" where
  "copy_Parenthetical None = None"
| "copy_Parenthetical (Some (Parenthetical expression)) = do {
     expression' \<leftarrow> copy_any expression;
     Some (Some (Parenthetical expression'))
   }"

fun copy_FunctionInvocation :: "'e leaf FunctionInvocation option \<Rightarrow> 'e FunctionInvocation option option" where
  "copy_FunctionInvocation None = Some None"
| "copy_FunctionInvocation (Some (FunctionInvocation errs dist namespace name arguments)) = do {
     arguments' \<leftarrow> copySlice copy_any arguments;
     Some (Some (FunctionInvocation errs dist namespace name arguments'))
   }"

fun copy_PartialComparison :: "'e leaf PartialComparison option \<Rightarrow> 'e PartialComparison option option" where
  "copy_PartialComparison None = None"
| "copy_PartialComparison (Some (PartialComparison operator right)) = do {
     right' \<leftarrow> copy_any right;
     Some (Some (PartialComparison operator right'))
   }"

fun copy_Comparison :: "'e leaf Comparison option \<Rightarrow> 'e Comparison option option" where
  "copy_Comparison None = Some None"
| "copy_Comparison (Some (Comparison left partials)) = do {
     left' \<leftarrow> copy_any left;
     partials' \<leftarrow> copySlice copy_PartialComparison partials;
     Some (Some (Comparison left' partials'))
   }"

fun copy_PartialArithmeticExpression :: "'e leaf PartialArithmeticExpression option \<Rightarrow> 'e PartialArithmeticExpression option option" where
  "copy_PartialArithmeticExpression None = None"
| "copy_PartialArithmeticExpression (Some (PartialArithmeticExpression operator right)) = do {
     right' \<leftarrow> copy_any right;
     Some (Some (PartialArithmeticExpression operator right'))
   }"

fun copy_ArithmeticExpression :: "'e leaf ArithmeticExpression option \<Rightarrow> 'e ArithmeticExpression option option" where
  "copy_ArithmeticExpression None = None"
| "copy_ArithmeticExpression (Some (ArithmeticExpression left partials)) = do {
     left' \<leftarrow> copy_any left;
     partials' \<leftarrow> copySlice copy_PartialArithmeticExpression partials;
     Some (Some (ArithmeticExpression left' partials'))
   }"

fun copy_UnaryAddOrSubtractExpression :: "'e leaf UnaryAddOrSubtractExpression option \<Rightarrow> 'e UnaryAddOrSubtractExpression option option" where
  "copy_UnaryAddOrSubtractExpression None = None"
| "copy_UnaryAddOrSubtractExpression (Some (UnaryAddOrSubtractExpression operator right)) = do {
     right' \<leftarrow> copy_any right;
     Some (Some (UnaryAddOrSubtractExpression operator right'))
   }"

fun copy_KindMatcher :: "'e leaf KindMatcher option \<Rightarrow> 'e KindMatcher option option" where
  "copy_KindMatcher None = Some None"
| "copy_KindMatcher (Some (KindMatcher reference kinds isExclusive)) = do {
     reference' \<leftarrow> copy_any reference;
     Some (Some (KindMatcher reference' (Kinds_Copy kinds) isExclusive))
   }"

fun copy_PropertyLookup :: "'e leaf PropertyLookup option \<Rightarrow> 'e PropertyLookup option option" where
  "copy_PropertyLookup None = Some None"
| "copy_PropertyLookup (Some (PropertyLookup atm symbol)) = do {
     atm' \<leftarrow> copy_any atm;
     Some (Some (PropertyLookup atm' symbol))
   }"

fun copy_IDInCollection :: "'e leaf IDInCollection option \<Rightarrow> 'e IDInCollection option option" where
  "copy_IDInCollection None = Some None"
| "copy_IDInCollection (Some (IDInCollection variable expression)) = do {
     variable' \<leftarrow> copy_Variable variable;
     expression' \<leftarrow> copy_any expression;
     Some (Some (IDInCollection variable' expression'))
   }"

fun copy_FilterExpression :: "'e leaf FilterExpression option \<Rightarrow> 'e FilterExpression option option" where
  "copy_FilterExpression None = Some None"
| "copy_FilterExpression (Some (FilterExpression specifier whr)) = do {
     specifier' \<leftarrow> copy_IDInCollection specifier;
     whr' \<leftarrow> copy_Where whr;
     Some (Some (FilterExpression specifier' whr'))
   }"

fun copy_Quantifier :: "'e leaf Quantifier option \<Rightarrow> 'e Quantifier option option" where
  "copy_Quantifier None = Some None"
| "copy_Quantifier (Some (Quantifier typ flt)) = do {
     flt' \<leftarrow> copy_FilterExpression flt;
     Some (Some (Quantifier typ flt'))
   }"

fun copy_ProjectionItem :: "'e leaf ProjectionItem option \<Rightarrow> 'e ProjectionItem option option" where
  "copy_ProjectionItem None = Some None"
| "copy_ProjectionItem (Some (ProjectionItem expression alias)) = do {
     expression' \<leftarrow> copy_any expression;
     alias' \<leftarrow> copy_Variable alias;
     Some (Some (ProjectionItem expression' alias'))
   }"

fun copy_SortItem :: "'e leaf SortItem option \<Rightarrow> 'e SortItem option option" where
  "copy_SortItem None = None"
| "copy_SortItem (Some (SortItem ascending expression)) = do {
     expression' \<leftarrow> copy_any expression;
     Some (Some (SortItem ascending expression'))
   }"

fun copy_Order :: "'e leaf Order option \<Rightarrow> 'e Order option option" where
  "copy_Order None = Some None"
| "copy_Order (Some (Order items)) = do {
     items' \<leftarrow> copySlice copy_SortItem items;
     Some (Some (Order items'))
   }"

fun copy_Skip :: "'e leaf Skip option \<Rightarrow> 'e Skip option option" where
  "copy_Skip None = Some None"
| "copy_Skip (Some (Skip val)) = do {
     val' \<leftarrow> copy_any val;
     Some (Some (Skip val'))
   }"

fun copy_Limit :: "'e leaf Limit option \<Rightarrow> 'e Limit option option" where
  "copy_Limit None = Some None"
| "copy_Limit (Some (Limit val)) = do {
     val' \<leftarrow> copy_any val;
     Some (Some (Limit val'))
   }"

fun copy_Projection :: "'e leaf Projection option \<Rightarrow> 'e Projection option option" where
  "copy_Projection None = Some None"
| "copy_Projection (Some (Projection dist all ord skip lim items)) = do {
     ord' \<leftarrow> copy_Order ord;
     skip' \<leftarrow> copy_Skip skip;
     lim' \<leftarrow> copy_Limit lim;
     items' \<leftarrow> copySlice copy_any items;
     Some (Some (Projection dist all ord' skip' lim' items'))
   }"

fun copy_Return :: "'e leaf Return option \<Rightarrow> 'e Return option option" where
  "copy_Return None = Some None"
| "copy_Return (Some (Return projection)) = do {
     projection' \<leftarrow> copy_Projection projection;
     Some (Some (Return projection'))
   }"

fun copy_With :: "'e leaf With option \<Rightarrow> 'e With option option" where
  "copy_With None = Some None"
| "copy_With (Some (With projection whr)) = do {
     projection' \<leftarrow> copy_Projection projection;
     whr' \<leftarrow> copy_Where whr;
     Some (Some (With projection' whr'))
   }"

fun copy_Match :: "'e leaf Match option \<Rightarrow> 'e Match option option" where
  "copy_Match None = Some None"
| "copy_Match (Some (Match optional pattern whr)) = do {
     pattern' \<leftarrow> copySlice copy_PatternPart pattern;
     whr' \<leftarrow> copy_Where whr;
     Some (Some (Match optional pattern' whr'))
   }"

fun copy_Unwind :: "'e leaf Unwind option \<Rightarrow> 'e Unwind option option" where
  "copy_Unwind None = Some None"
| "copy_Unwind (Some (Unwind expression variable)) = do {
     expression' \<leftarrow> copy_any expression;
     variable' \<leftarrow> copy_Variable variable;
     Some (Some (Unwind expression' variable'))
   }"

fun copy_ReadingClause :: "'e leaf ReadingClause option \<Rightarrow> 'e ReadingClause option option" where
  "copy_ReadingClause None = Some None"
| "copy_ReadingClause (Some (ReadingClause match unwind)) = do {
     match' \<leftarrow> copy_Match match;
     unwind' \<leftarrow> copy_Unwind unwind;
     Some (Some (ReadingClause match' unwind'))
   }"

fun copy_SetItem :: "'e leaf SetItem option \<Rightarrow> 'e SetItem option option" where
  "copy_SetItem None = Some None"
| "copy_SetItem (Some (SetItem left operator right)) = do {
     left' \<leftarrow> copy_any left;
     right' \<leftarrow> copy_any right;
     Some (Some (SetItem left' operator right'))
   }"

fun copy_Set :: "'e leaf Set option \<Rightarrow> 'e Set option option" where
  "copy_Set None = Some None"
| "copy_Set (Some (Set items)) = do {
     items' \<leftarrow> copySlice copy_SetItem items;
     Some (Some (Set items'))
   }"

fun copy_RemoveItem :: "'e leaf RemoveItem option \<Rightarrow> 'e RemoveItem option option" where
  "copy_RemoveItem None = Some None"
| "copy_RemoveItem (Some (RemoveItem kindMatcher property)) = do {
     kindMatcher' \<leftarrow> copy_KindMatcher kindMatcher;
     property' \<leftarrow> copy_any property;
     Some (Some (RemoveItem kindMatcher' property'))
   }"

fun copy_Remove :: "'e leaf Remove option \<Rightarrow> 'e Remove option option" where
  "copy_Remove None = Some None"
| "copy_Remove (Some (Remove items)) = do {
     items' \<leftarrow> copySlice copy_RemoveItem items;
     Some (Some (Remove items'))
   }"

fun copy_Delete :: "'e leaf Delete option \<Rightarrow> 'e Delete option option" where
  "copy_Delete None = Some None"
| "copy_Delete (Some (Delete detach expressions)) = do {
     expressions' \<leftarrow> copySlice copy_any expressions;
     Some (Some (Delete detach expressions'))
   }"

fun copy_Create :: "'e leaf Create option \<Rightarrow> 'e Create option option" where
  "copy_Create None = Some None"
| "copy_Create (Some (Create errs uniq pattern)) = do {
     pattern' \<leftarrow> copySlice copy_PatternPart pattern;
     Some (Some (Create errs uniq pattern'))
   }"

fun copy_MergeAction :: "'e leaf MergeAction option \<Rightarrow> 'e MergeAction option option" where
  "copy_MergeAction None = Some None"
| "copy_MergeAction (Some (MergeAction onCreate onMatch sets)) = do {
     sets' \<leftarrow> copy_Set sets;
     Some (Some (MergeAction onCreate onMatch sets'))
   }"

fun copy_Merge :: "'e leaf Merge option \<Rightarrow> 'e Merge option option" where
  "copy_Merge None = Some None"
| "copy_Merge (Some (Merge patternPart mergeActions)) = do {
     patternPart' \<leftarrow> copy_PatternPart patternPart;
     mergeActions' \<leftarrow> copySlice copy_MergeAction mergeActions;
     Some (Some (Merge patternPart' mergeActions'))
   }"

fun copy_UpdatingClause :: "'e leaf UpdatingClause option \<Rightarrow> 'e UpdatingClause option option" where
  "copy_UpdatingClause None = Some None"
| "copy_UpdatingClause (Some (UpdatingClause errs clause)) = do {
     clause' \<leftarrow> copy_any clause;
     Some (Some (UpdatingClause errs clause'))
   }"

fun copy_SinglePartQuery :: "'e leaf SinglePartQuery option \<Rightarrow> 'e SinglePartQuery option option" where
  "copy_SinglePartQuery None = Some None"
| "copy_SinglePartQuery (Some (SinglePartQuery errs readingClauses updatingClauses ret)) = do {
     readingClauses' \<leftarrow> copySlice copy_ReadingClause readingClauses;
     updatingClauses' \<leftarrow> copySlice copy_any updatingClauses;
     ret' \<leftarrow> copy_Return ret;
     Some (Some (SinglePartQuery errs readingClauses' updatingClauses' ret'))
   }"

fun copy_MultiPartQueryPart :: "'e leaf MultiPartQueryPart option \<Rightarrow> 'e MultiPartQueryPart option option" where
  "copy_MultiPartQueryPart None = Some None"
| "copy_MultiPartQueryPart (Some (MultiPartQueryPart readingClauses updatingClauses wth)) = do {
     readingClauses' \<leftarrow> copySlice copy_ReadingClause readingClauses;
     updatingClauses' \<leftarrow> copySlice copy_UpdatingClause updatingClauses;
     wth' \<leftarrow> copy_With wth;
     Some (Some (MultiPartQueryPart readingClauses' updatingClauses' wth'))
   }"

fun copy_MultiPartQuery :: "'e leaf MultiPartQuery option \<Rightarrow> 'e MultiPartQuery option option" where
  "copy_MultiPartQuery None = Some None"
| "copy_MultiPartQuery (Some (MultiPartQuery parts singlePartQuery)) = do {
     parts' \<leftarrow> copySlice copy_MultiPartQueryPart parts;
     singlePartQuery' \<leftarrow> copy_SinglePartQuery singlePartQuery;
     Some (Some (MultiPartQuery parts' singlePartQuery'))
   }"

fun copy_SingleQuery :: "'e leaf SingleQuery option \<Rightarrow> 'e SingleQuery option option" where
  "copy_SingleQuery None = Some None"
| "copy_SingleQuery (Some (SingleQuery singlePartQuery multiPartQuery)) = do {
     singlePartQuery' \<leftarrow> copy_SinglePartQuery singlePartQuery;
     multiPartQuery' \<leftarrow> copy_MultiPartQuery multiPartQuery;
     Some (Some (SingleQuery singlePartQuery' multiPartQuery'))
   }"

fun copy_RegularQuery :: "'e leaf RegularQuery option \<Rightarrow> 'e RegularQuery option option" where
  "copy_RegularQuery None = Some None"
| "copy_RegularQuery (Some (RegularQuery singleQuery)) = do {
     singleQuery' \<leftarrow> copy_SingleQuery singleQuery;
     Some (Some (RegularQuery singleQuery'))
   }"

section \<open>Dispatch\<close>

primrec Copy :: "SyntaxNode \<Rightarrow> SyntaxNode option" where
  "Copy (N_Variable p) = map_option N_Variable (copy_Variable p)"
| "Copy (N_RangeQuantifier p) = map_option N_RangeQuantifier (copy_RangeQuantifier p)"
| "Copy (N_PatternRange p) = map_option N_PatternRange (copy_PatternRange p)"
| "Copy (N_Literal p) = map_option N_Literal (copy_Literal (map_option (map_Literal (\<lambda>e. (e, Copy e))) p))"
| "Copy (N_Parameter p) = map_option N_Parameter (copy_Parameter (map_option (map_Parameter (\<lambda>e. (e, Copy e))) p))"
| "Copy (N_MapItem p) = map_option N_MapItem (copy_MapItem (map_option (map_MapItem (\<lambda>e. (e, Copy e))) p))"
| "Copy (N_ListLiteral p) = map_option N_ListLiteral (copy_ListLiteral (map_option (map_ListLiteral (\<lambda>e. (e, Copy e))) p))"
| "Copy (N_Properties p) = map_option N_Properties (copy_Properties (map_option (map_Cy_Properties (\<lambda>e. (e, Copy e))) p))"
| "Copy (N_NodePattern p) = map_option N_NodePattern (copy_NodePattern (map_option (map_NodePattern (\<lambda>e. (e, Copy e))) p))"
| "Copy (N_RelationshipPattern p) = map_option N_RelationshipPattern (copy_RelationshipPattern (map_option (map_RelationshipPattern (\<lambda>e. (e, Copy e))) p))"
| "Copy (N_PatternElement p) = map_option N_PatternElement (copy_PatternElement (map_option (map_PatternElement (\<lambda>e. (e, Copy e))) p))"
| "Copy (N_PatternPart p) = map_option N_PatternPart (copy_PatternPart (map_option (map_PatternPart (\<lambda>e. (e, Copy e))) p))"
| "Copy (N_PatternPredicate p) = map_option N_PatternPredicate (copy_PatternPredicate (map_option (map_PatternPredicate (\<lambda>e. (e, Copy e))) p))"
| "Copy (N_Where p) = map_option N_Where (copy_Where (map_option (map_Where (\<lambda>e. (e, Copy e))) p))"
| "Copy (N_Conjunction p) = map_option N_Conjunction (copy_Conjunction (map_option (map_Conjunction (\<lambda>e. (e, Copy e))) p))"
| "Copy (N_Disjunction p) = map_option N_Disjunction (copy_Disjunction (map_option (map_Disjunction (\<lambda>e. (e, Copy e))) p))"
| "Copy (N_ExclusiveDisjunction p) = map_option N_ExclusiveDisjunction (copy_ExclusiveDisjunction (map_option (map_ExclusiveDisjunction (\<lambda>e. (e, Copy e))) p))"
| "Copy (N_Negation p) = map_option N_Negation (copy_Negation (map_option (map_Negation (\<lambda>e. (e, Copy e))) p))"
| "Copy (N_Parenthetical p) = map_option N_Parenthetical (copy_Parenthetical (map_option (map_Parenthetical (\<lambda>e. (e, Copy e))) p))"
| "Copy (N_FunctionInvocation p) = map_option N_FunctionInvocation (copy_FunctionInvocation (map_option (map_FunctionInvocation (\<lambda>e. (e, Copy e))) p))"
| "Copy (N_PartialComparison p) = map_option N_PartialComparison (copy_PartialComparison (map_option (map_PartialComparison (\<lambda>e. (e, Copy e))) p))"
| "Copy (N_Comparison p) = map_option N_Comparison (copy_Comparison (map_option (map_Comparison (\<lambda>e. (e, Copy e))) p))"
| "Copy (N_PartialArithmeticExpression p) = map_option N_PartialArithmeticExpression (copy_PartialArithmeticExpression (map_option (map_PartialArithmeticExpression (\<lambda>e. (e, Copy e))) p))"
| "Copy (N_ArithmeticExpression p) = map_option N_ArithmeticExpression (copy_ArithmeticExpression (map_option (map_ArithmeticExpression (\<lambda>e. (e, Copy e))) p))"
| "Copy (N_UnaryAddOrSubtractExpression p) = map_option N_UnaryAddOrSubtractExpression (copy_UnaryAddOrSubtractExpression (map_option (map_UnaryAddOrSubtractExpression (\<lambda>e. (e, Copy e))) p))"
| "Copy (N_KindMatcher p) = map_option N_KindMatcher (copy_KindMatcher (map_option (map_KindMatcher (\<lambda>e. (e, Copy e))) p))"
| "Copy (N_PropertyLookup p) = map_option N_PropertyLookup (copy_PropertyLookup (map_option (map_PropertyLookup (\<lambda>e. (e, Copy e))) p))"
| "Copy (N_IDInCollection p) = map_option N_IDInCollection (copy_IDInCollection (map_option (map_IDInCollection (\<lambda>e. (e, Copy e))) p))"
| "Copy (N_FilterExpression p) = map_option N_FilterExpression (copy_FilterExpression (map_option (map_FilterExpression (\<lambda>e. (e, Copy e))) p))"
| "Copy (N_Quantifier p) = map_option N_Quantifier (copy_Quantifier (map_option (map_Quantifier (\<lambda>e. (e, Copy e))) p))"
| "Copy (N_ProjectionItem p) = map_option N_ProjectionItem (copy_ProjectionItem (map_option (map_ProjectionItem (\<lambda>e. (e, Copy e))) p))"
| "Copy (N_SortItem p) = map_option N_SortItem (copy_SortItem (map_option (map_SortItem (\<lambda>e. (e, Copy e))) p))"
| "Copy (N_Order p) = map_option N_Order (copy_Order (map_option (map_Order (\<lambda>e. (e, Copy e))) p))"
| "Copy (N_Skip p) = map_option N_Skip (copy_Skip (map_option (map_Skip (\<lambda>e. (e, Copy e))) p))"
| "Copy (N_Limit p) = map_option N_Limit (copy_Limit (map_option (map_Limit (\<lambda>e. (e, Copy e))) p))"
| "Copy (N_Projection p) = map_option N_Projection (copy_Projection (map_option (map_Projection (\<lambda>e. (e, Copy e))) p))"
| "Copy (N_Return p) = map_option N_Return (copy_Return (map_option (map_Return (\<lambda>e. (e, Copy e))) p))"
| "Copy (N_With p) = map_option N_With (copy_With (map_option (map_With (\<lambda>e. (e, Copy e))) p))"
| "Copy (N_Match p) = map_option N_Match (copy_Match (map_option (map_Match (\<lambda>e. (e, Copy e))) p))"
| "Copy (N_Unwind p) = map_option N_Unwind (copy_Unwind (map_option (map_Unwind (\<lambda>e. (e, Copy e))) p))"
| "Copy (N_ReadingClause p) = map_option N_ReadingClause (copy_ReadingClause (map_option (map_ReadingClause (\<lambda>e. (e, Copy e))) p))"
| "Copy (N_SetItem p) = map_option N_SetItem (copy_SetItem (map_option (map_SetItem (\<lambda>e. (e, Copy e))) p))"
| "Copy (N_Set p) = map_option N_Set (copy_Set (map_option (map_Set (\<lambda>e. (e, Copy e))) p))"
| "Copy (N_RemoveItem p) = map_option N_RemoveItem (copy_RemoveItem (map_option (map_RemoveItem (\<lambda>e. (e, Copy e))) p))"
| "Copy (N_Remove p) = map_option N_Remove (copy_Remove (map_option (map_Remove (\<lambda>e. (e, Copy e))) p))"
| "Copy (N_Delete p) = map_option N_Delete (copy_Delete (map_option (map_Delete (\<lambda>e. (e, Copy e))) p))"
| "Copy (N_Create p) = map_option N_Create (copy_Create (map_option (map_Create (\<lambda>e. (e, Copy e))) p))"
| "Copy (N_MergeAction p) = map_option N_MergeAction (copy_MergeAction (map_option (map_MergeAction (\<lambda>e. (e, Copy e))) p))"
| "Copy (N_Merge p) = map_option N_Merge (copy_Merge (map_option (map_Merge (\<lambda>e. (e, Copy e))) p))"
| "Copy (N_UpdatingClause p) = map_option N_UpdatingClause (copy_UpdatingClause (map_option (map_UpdatingClause (\<lambda>e. (e, Copy e))) p))"
| "Copy (N_SinglePartQuery p) = map_option N_SinglePartQuery (copy_SinglePartQuery (map_option (map_SinglePartQuery (\<lambda>e. (e, Copy e))) p))"
| "Copy (N_MultiPartQueryPart p) = map_option N_MultiPartQueryPart (copy_MultiPartQueryPart (map_option (map_MultiPartQueryPart (\<lambda>e. (e, Copy e))) p))"
| "Copy (N_MultiPartQuery p) = map_option N_MultiPartQuery (copy_MultiPartQuery (map_option (map_MultiPartQuery (\<lambda>e. (e, Copy e))) p))"
| "Copy (N_SingleQuery p) = map_option N_SingleQuery (copy_SingleQuery (map_option (map_SingleQuery (\<lambda>e. (e, Copy e))) p))"
| "Copy (N_RegularQuery p) = map_option N_RegularQuery (copy_RegularQuery (map_option (map_RegularQuery (\<lambda>e. (e, Copy e))) p))"
| "Copy (N_MapLiteral m) = map_option N_MapLiteral (copy_MapLiteral (map_option (map (map_prod id (map_option (\<lambda>e. (e, Copy e))))) m))"
| "Copy (N_Operator operator) = None"
| "Copy (N_Kinds kinds) = Some (N_Kinds (Kinds_Copy kinds))"
| "Copy (N_Kind kind) = None"
| "Copy (N_Other type_name) = None"

section \<open>Copies are equal to the original\<close>

text \<open>
  A call that returns, returns a value equal to the original. For a field of type \<open>Expression\<close> the
  recursive call is assumed to do so.
\<close>

definition leaf_faithful :: "'e leaf \<Rightarrow> bool" where
  "leaf_faithful l \<longleftrightarrow> (\<forall>e. snd l = Some e \<longrightarrow> e = fst l)"

lemma copySlice_eq:
  "copySlice copy xs = Some ys \<Longrightarrow> (\<And>x y. x \<in> set xs \<Longrightarrow> copy x = Some y \<Longrightarrow> y = original x) \<Longrightarrow> ys = map original xs"
  by (induction xs arbitrary: ys) (auto simp: bind_eq_Some_conv)

lemma copy_any_eq: "copy_any e = Some e' \<Longrightarrow> (\<And>l. l \<in> set_option e \<Longrightarrow> leaf_faithful l) \<Longrightarrow> e' = map_option fst e"
  by (auto simp: copy_any_def leaf_faithful_def split: option.splits)

lemma copy_constants_eq:
  "copy_Variable v = Some v' \<Longrightarrow> v' = v" "copy_RangeQuantifier q = Some q' \<Longrightarrow> q' = q" "copy_PatternRange r = Some r' \<Longrightarrow> r' = r"
  by (auto elim: copy_Variable.elims copy_RangeQuantifier.elims copy_PatternRange.elims)

lemma Kinds_Copy_id [simp]: "Kinds_Copy k = k"
  by (cases k) (simp_all add: Kinds_Copy_def)

lemmas copySlice_any_eq = copySlice_eq [where copy = copy_any and original = "map_option fst"]

lemma copy_MapLiteral_eq:
  assumes "copy_MapLiteral m = Some m'"
    and "\<And>entries e l. m = Some entries \<Longrightarrow> e \<in> set entries \<Longrightarrow> l \<in> set_option (snd e) \<Longrightarrow> leaf_faithful l"
  shows "m' = map_option (map (map_prod id (map_option fst))) m"
proof (cases m)
  case (Some entries)
  with assms(1) obtain es where es: "copySlice (\<lambda>(key, val). map_option (Pair key) (copy_any val)) entries = Some es" "m' = Some es"
    by (auto simp: copy_MapLiteral_def)
  have "y = map_prod id (map_option fst) x" if "x \<in> set entries" "(\<lambda>(key, val). map_option (Pair key) (copy_any val)) x = Some y" for x y
    using that assms(2) [OF Some that(1)] by (auto simp: case_prod_unfold map_prod_def dest!: copy_any_eq)
  from copySlice_eq [OF es(1) this] es(2) Some show ?thesis by simp
qed (use assms(1) in \<open>simp add: copy_MapLiteral_def\<close>)

lemma copy_Literal_eq:
  "copy_Literal p = Some q \<Longrightarrow> (\<And>x l. x \<in> set_option p \<Longrightarrow> l \<in> set_Literal x \<Longrightarrow> leaf_faithful l) \<Longrightarrow> q = map_option (map_Literal fst) p"
  by (cases p rule: copy_Literal.cases) (fastforce simp: bind_eq_Some_conv dest!: copy_any_eq)+

lemma copy_Parameter_eq:
  "copy_Parameter p = Some q \<Longrightarrow> (\<And>x l. x \<in> set_option p \<Longrightarrow> l \<in> set_Parameter x \<Longrightarrow> leaf_faithful l) \<Longrightarrow> q = map_option (map_Parameter fst) p"
  by (cases p rule: copy_Parameter.cases) (fastforce simp: bind_eq_Some_conv dest!: copy_any_eq)+

lemma copy_MapItem_eq:
  "copy_MapItem p = Some q \<Longrightarrow> (\<And>x l. x \<in> set_option p \<Longrightarrow> l \<in> set_MapItem x \<Longrightarrow> leaf_faithful l) \<Longrightarrow> q = map_option (map_MapItem fst) p"
  by (cases p rule: copy_MapItem.cases) (fastforce simp: bind_eq_Some_conv dest!: copy_any_eq)+

lemma copy_ListLiteral_eq:
  "copy_ListLiteral p = Some q \<Longrightarrow> (\<And>x l. x \<in> set_option p \<Longrightarrow> l \<in> set_ListLiteral x \<Longrightarrow> leaf_faithful l) \<Longrightarrow> q = map_option (map_ListLiteral fst) p"
  by (cases p rule: copy_ListLiteral.cases) (fastforce simp: bind_eq_Some_conv dest!: copySlice_any_eq copy_any_eq)+

lemma copy_Properties_eq:
  "copy_Properties p = Some q \<Longrightarrow> (\<And>x l. x \<in> set_option p \<Longrightarrow> l \<in> set_Cy_Properties x \<Longrightarrow> leaf_faithful l) \<Longrightarrow> q = map_option (map_Cy_Properties fst) p"
  by (cases p rule: copy_Properties.cases) (fastforce simp: bind_eq_Some_conv dest!: copy_MapLiteral_eq copy_Parameter_eq)+

lemma copy_NodePattern_eq:
  "copy_NodePattern p = Some q \<Longrightarrow> (\<And>x l. x \<in> set_option p \<Longrightarrow> l \<in> set_NodePattern x \<Longrightarrow> leaf_faithful l) \<Longrightarrow> q = map_option (map_NodePattern fst) p"
  by (cases p rule: copy_NodePattern.cases) (fastforce simp: bind_eq_Some_conv dest!: copy_constants_eq copy_any_eq)+

lemma copy_RelationshipPattern_eq:
  "copy_RelationshipPattern p = Some q \<Longrightarrow> (\<And>x l. x \<in> set_option p \<Longrightarrow> l \<in> set_RelationshipPattern x \<Longrightarrow> leaf_faithful l) \<Longrightarrow> q = map_option (map_RelationshipPattern fst) p"
  by (cases p rule: copy_RelationshipPattern.cases) (fastforce simp: bind_eq_Some_conv dest!: copy_constants_eq copy_any_eq)+

lemma copy_PatternElement_eq:
  "copy_PatternElement p = Some q \<Longrightarrow> (\<And>x l. x \<in> set_option p \<Longrightarrow> l \<in> set_PatternElement x \<Longrightarrow> leaf_faithful l) \<Longrightarrow> q = map_option (map_PatternElement fst) p"
  by (cases p rule: copy_PatternElement.cases) (fastforce simp: bind_eq_Some_conv dest!: copy_any_eq)+

lemma copy_PatternPart_eq:
  "copy_PatternPart p = Some q \<Longrightarrow> (\<And>x l. x \<in> set_option p \<Longrightarrow> l \<in> set_PatternPart x \<Longrightarrow> leaf_faithful l) \<Longrightarrow> q = map_option (map_PatternPart fst) p"
  by (cases p rule: copy_PatternPart.cases) (fastforce simp: bind_eq_Some_conv dest!: copy_constants_eq copySlice_eq [where copy = copy_PatternElement and original = "map_option (map_PatternElement fst)"] copy_PatternElement_eq)+

lemma copy_PatternPredicate_eq:
  "copy_PatternPredicate p = Some q \<Longrightarrow> (\<And>x l. x \<in> set_option p \<Longrightarrow> l \<in> set_PatternPredicate x \<Longrightarrow> leaf_faithful l) \<Longrightarrow> q = map_option (map_PatternPredicate fst) p"
  by (cases p rule: copy_PatternPredicate.cases) (fastforce simp: bind_eq_Some_conv dest!: copySlice_eq [where copy = copy_PatternElement and original = "map_option (map_PatternElement fst)"] copy_PatternElement_eq)+

lemma copy_Where_eq:
  "copy_Where p = Some q \<Longrightarrow> (\<And>x l. x \<in> set_option p \<Longrightarrow> l \<in> set_Where x \<Longrightarrow> leaf_faithful l) \<Longrightarrow> q = map_option (map_Where fst) p"
  by (cases p rule: copy_Where.cases) (fastforce simp: bind_eq_Some_conv dest!: copySlice_any_eq copy_any_eq)+

lemma copy_Conjunction_eq:
  "copy_Conjunction p = Some q \<Longrightarrow> (\<And>x l. x \<in> set_option p \<Longrightarrow> l \<in> set_Conjunction x \<Longrightarrow> leaf_faithful l) \<Longrightarrow> q = map_option (map_Conjunction fst) p"
  by (cases p rule: copy_Conjunction.cases) (fastforce simp: bind_eq_Some_conv dest!: copySlice_any_eq copy_any_eq)+

lemma copy_Disjunction_eq:
  "copy_Disjunction p = Some q \<Longrightarrow> (\<And>x l. x \<in> set_option p \<Longrightarrow> l \<in> set_Disjunction x \<Longrightarrow> leaf_faithful l) \<Longrightarrow> q = map_option (map_Disjunction fst) p"
  by (cases p rule: copy_Disjunction.cases) (fastforce simp: bind_eq_Some_conv dest!: copySlice_any_eq copy_any_eq)+

lemma copy_ExclusiveDisjunction_eq:
  "copy_ExclusiveDisjunction p = Some q \<Longrightarrow> (\<And>x l. x \<in> set_option p \<Longrightarrow> l \<in> set_ExclusiveDisjunction x \<Longrightarrow> leaf_faithful l) \<Longrightarrow> q = map_option (map_ExclusiveDisjunction fst) p"
  by (cases p rule: copy_ExclusiveDisjunction.cases) (fastforce simp: bind_eq_Some_conv dest!: copySlice_any_eq copy_any_eq)+

lemma copy_Negation_eq:
  "copy_Negation p = Some q \<Longrightarrow> (\<And>x l. x \<in> set_option p \<Longrightarrow> l \<in> set_Negation x \<Longrightarrow> leaf_faithful l) \<Longrightarrow> q = map_option (map_Negation fst) p"
  by (cases p rule: copy_Negation.cases) (fastforce simp: bind_eq_Some_conv dest!: copy_any_eq)+

lemma copy_Parenthetical_eq:
  "copy_Parenthetical p = Some q \<Longrightarrow> (\<And>x l. x \<in> set_option p \<Longrightarrow> l \<in> set_Parenthetical x \<Longrightarrow> leaf_faithful l) \<Longrightarrow> q = map_option (map_Parenthetical fst) p"
  by (cases p rule: copy_Parenthetical.cases) (fastforce simp: bind_eq_Some_conv dest!: copy_any_eq)+

lemma copy_FunctionInvocation_eq:
  "copy_FunctionInvocation p = Some q \<Longrightarrow> (\<And>x l. x \<in> set_option p \<Longrightarrow> l \<in> set_FunctionInvocation x \<Longrightarrow> leaf_faithful l) \<Longrightarrow> q = map_option (map_FunctionInvocation fst) p"
  by (cases p rule: copy_FunctionInvocation.cases) (fastforce simp: bind_eq_Some_conv dest!: copySlice_any_eq copy_any_eq)+

lemma copy_PartialComparison_eq:
  "copy_PartialComparison p = Some q \<Longrightarrow> (\<And>x l. x \<in> set_option p \<Longrightarrow> l \<in> set_PartialComparison x \<Longrightarrow> leaf_faithful l) \<Longrightarrow> q = map_option (map_PartialComparison fst) p"
  by (cases p rule: copy_PartialComparison.cases) (fastforce simp: bind_eq_Some_conv dest!: copy_any_eq)+

lemma copy_Comparison_eq:
  "copy_Comparison p = Some q \<Longrightarrow> (\<And>x l. x \<in> set_option p \<Longrightarrow> l \<in> set_Comparison x \<Longrightarrow> leaf_faithful l) \<Longrightarrow> q = map_option (map_Comparison fst) p"
  by (cases p rule: copy_Comparison.cases) (fastforce simp: bind_eq_Some_conv dest!: copy_any_eq copySlice_eq [where copy = copy_PartialComparison and original = "map_option (map_PartialComparison fst)"] copy_PartialComparison_eq)+

lemma copy_PartialArithmeticExpression_eq:
  "copy_PartialArithmeticExpression p = Some q \<Longrightarrow> (\<And>x l. x \<in> set_option p \<Longrightarrow> l \<in> set_PartialArithmeticExpression x \<Longrightarrow> leaf_faithful l) \<Longrightarrow> q = map_option (map_PartialArithmeticExpression fst) p"
  by (cases p rule: copy_PartialArithmeticExpression.cases) (fastforce simp: bind_eq_Some_conv dest!: copy_any_eq)+

lemma copy_ArithmeticExpression_eq:
  "copy_ArithmeticExpression p = Some q \<Longrightarrow> (\<And>x l. x \<in> set_option p \<Longrightarrow> l \<in> set_ArithmeticExpression x \<Longrightarrow> leaf_faithful l) \<Longrightarrow> q = map_option (map_ArithmeticExpression fst) p"
  by (cases p rule: copy_ArithmeticExpression.cases) (fastforce simp: bind_eq_Some_conv dest!: copy_any_eq copySlice_eq [where copy = copy_PartialArithmeticExpression and original = "map_option (map_PartialArithmeticExpression fst)"] copy_PartialArithmeticExpression_eq)+

lemma copy_UnaryAddOrSubtractExpression_eq:
  "copy_UnaryAddOrSubtractExpression p = Some q \<Longrightarrow> (\<And>x l. x \<in> set_option p \<Longrightarrow> l \<in> set_UnaryAddOrSubtractExpression x \<Longrightarrow> leaf_faithful l) \<Longrightarrow> q = map_option (map_UnaryAddOrSubtractExpression fst) p"
  by (cases p rule: copy_UnaryAddOrSubtractExpression.cases) (fastforce simp: bind_eq_Some_conv dest!: copy_any_eq)+

lemma copy_KindMatcher_eq:
  "copy_KindMatcher p = Some q \<Longrightarrow> (\<And>x l. x \<in> set_option p \<Longrightarrow> l \<in> set_KindMatcher x \<Longrightarrow> leaf_faithful l) \<Longrightarrow> q = map_option (map_KindMatcher fst) p"
  by (cases p rule: copy_KindMatcher.cases) (fastforce simp: bind_eq_Some_conv dest!: copy_any_eq)+

lemma copy_PropertyLookup_eq:
  "copy_PropertyLookup p = Some q \<Longrightarrow> (\<And>x l. x \<in> set_option p \<Longrightarrow> l \<in> set_PropertyLookup x \<Longrightarrow> leaf_faithful l) \<Longrightarrow> q = map_option (map_PropertyLookup fst) p"
  by (cases p rule: copy_PropertyLookup.cases) (fastforce simp: bind_eq_Some_conv dest!: copy_any_eq)+

lemma copy_IDInCollection_eq:
  "copy_IDInCollection p = Some q \<Longrightarrow> (\<And>x l. x \<in> set_option p \<Longrightarrow> l \<in> set_IDInCollection x \<Longrightarrow> leaf_faithful l) \<Longrightarrow> q = map_option (map_IDInCollection fst) p"
  by (cases p rule: copy_IDInCollection.cases) (fastforce simp: bind_eq_Some_conv dest!: copy_constants_eq copy_any_eq)+

lemma copy_FilterExpression_eq:
  "copy_FilterExpression p = Some q \<Longrightarrow> (\<And>x l. x \<in> set_option p \<Longrightarrow> l \<in> set_FilterExpression x \<Longrightarrow> leaf_faithful l) \<Longrightarrow> q = map_option (map_FilterExpression fst) p"
  by (cases p rule: copy_FilterExpression.cases) (fastforce simp: bind_eq_Some_conv dest!: copy_IDInCollection_eq copy_Where_eq)+

lemma copy_Quantifier_eq:
  "copy_Quantifier p = Some q \<Longrightarrow> (\<And>x l. x \<in> set_option p \<Longrightarrow> l \<in> set_Quantifier x \<Longrightarrow> leaf_faithful l) \<Longrightarrow> q = map_option (map_Quantifier fst) p"
  by (cases p rule: copy_Quantifier.cases) (fastforce simp: bind_eq_Some_conv dest!: copy_FilterExpression_eq)+

lemma copy_ProjectionItem_eq:
  "copy_ProjectionItem p = Some q \<Longrightarrow> (\<And>x l. x \<in> set_option p \<Longrightarrow> l \<in> set_ProjectionItem x \<Longrightarrow> leaf_faithful l) \<Longrightarrow> q = map_option (map_ProjectionItem fst) p"
  by (cases p rule: copy_ProjectionItem.cases) (fastforce simp: bind_eq_Some_conv dest!: copy_any_eq copy_constants_eq)+

lemma copy_SortItem_eq:
  "copy_SortItem p = Some q \<Longrightarrow> (\<And>x l. x \<in> set_option p \<Longrightarrow> l \<in> set_SortItem x \<Longrightarrow> leaf_faithful l) \<Longrightarrow> q = map_option (map_SortItem fst) p"
  by (cases p rule: copy_SortItem.cases) (fastforce simp: bind_eq_Some_conv dest!: copy_any_eq)+

lemma copy_Order_eq:
  "copy_Order p = Some q \<Longrightarrow> (\<And>x l. x \<in> set_option p \<Longrightarrow> l \<in> set_Order x \<Longrightarrow> leaf_faithful l) \<Longrightarrow> q = map_option (map_Order fst) p"
  by (cases p rule: copy_Order.cases) (fastforce simp: bind_eq_Some_conv dest!: copySlice_eq [where copy = copy_SortItem and original = "map_option (map_SortItem fst)"] copy_SortItem_eq)+

lemma copy_Skip_eq:
  "copy_Skip p = Some q \<Longrightarrow> (\<And>x l. x \<in> set_option p \<Longrightarrow> l \<in> set_Skip x \<Longrightarrow> leaf_faithful l) \<Longrightarrow> q = map_option (map_Skip fst) p"
  by (cases p rule: copy_Skip.cases) (fastforce simp: bind_eq_Some_conv dest!: copy_any_eq)+

lemma copy_Limit_eq:
  "copy_Limit p = Some q \<Longrightarrow> (\<And>x l. x \<in> set_option p \<Longrightarrow> l \<in> set_Limit x \<Longrightarrow> leaf_faithful l) \<Longrightarrow> q = map_option (map_Limit fst) p"
  by (cases p rule: copy_Limit.cases) (fastforce simp: bind_eq_Some_conv dest!: copy_any_eq)+

lemma copy_Projection_eq:
  "copy_Projection p = Some q \<Longrightarrow> (\<And>x l. x \<in> set_option p \<Longrightarrow> l \<in> set_Projection x \<Longrightarrow> leaf_faithful l) \<Longrightarrow> q = map_option (map_Projection fst) p"
  by (cases p rule: copy_Projection.cases) (fastforce simp: bind_eq_Some_conv dest!: copy_Order_eq copy_Skip_eq copy_Limit_eq copySlice_any_eq copy_any_eq)+

lemma copy_Return_eq:
  "copy_Return p = Some q \<Longrightarrow> (\<And>x l. x \<in> set_option p \<Longrightarrow> l \<in> set_Return x \<Longrightarrow> leaf_faithful l) \<Longrightarrow> q = map_option (map_Return fst) p"
  by (cases p rule: copy_Return.cases) (fastforce simp: bind_eq_Some_conv dest!: copy_Projection_eq)+

lemma copy_With_eq:
  "copy_With p = Some q \<Longrightarrow> (\<And>x l. x \<in> set_option p \<Longrightarrow> l \<in> set_With x \<Longrightarrow> leaf_faithful l) \<Longrightarrow> q = map_option (map_With fst) p"
  by (cases p rule: copy_With.cases) (fastforce simp: bind_eq_Some_conv dest!: copy_Projection_eq copy_Where_eq)+

lemma copy_Match_eq:
  "copy_Match p = Some q \<Longrightarrow> (\<And>x l. x \<in> set_option p \<Longrightarrow> l \<in> set_Match x \<Longrightarrow> leaf_faithful l) \<Longrightarrow> q = map_option (map_Match fst) p"
  by (cases p rule: copy_Match.cases) (fastforce simp: bind_eq_Some_conv dest!: copySlice_eq [where copy = copy_PatternPart and original = "map_option (map_PatternPart fst)"] copy_PatternPart_eq copy_Where_eq)+

lemma copy_Unwind_eq:
  "copy_Unwind p = Some q \<Longrightarrow> (\<And>x l. x \<in> set_option p \<Longrightarrow> l \<in> set_Unwind x \<Longrightarrow> leaf_faithful l) \<Longrightarrow> q = map_option (map_Unwind fst) p"
  by (cases p rule: copy_Unwind.cases) (fastforce simp: bind_eq_Some_conv dest!: copy_any_eq copy_constants_eq)+

lemma copy_ReadingClause_eq:
  "copy_ReadingClause p = Some q \<Longrightarrow> (\<And>x l. x \<in> set_option p \<Longrightarrow> l \<in> set_ReadingClause x \<Longrightarrow> leaf_faithful l) \<Longrightarrow> q = map_option (map_ReadingClause fst) p"
  by (cases p rule: copy_ReadingClause.cases) (fastforce simp: bind_eq_Some_conv dest!: copy_Match_eq copy_Unwind_eq)+

lemma copy_SetItem_eq:
  "copy_SetItem p = Some q \<Longrightarrow> (\<And>x l. x \<in> set_option p \<Longrightarrow> l \<in> set_SetItem x \<Longrightarrow> leaf_faithful l) \<Longrightarrow> q = map_option (map_SetItem fst) p"
  by (cases p rule: copy_SetItem.cases) (fastforce simp: bind_eq_Some_conv dest!: copy_any_eq)+

lemma copy_Set_eq:
  "copy_Set p = Some q \<Longrightarrow> (\<And>x l. x \<in> set_option p \<Longrightarrow> l \<in> set_Set x \<Longrightarrow> leaf_faithful l) \<Longrightarrow> q = map_option (map_Set fst) p"
  by (cases p rule: copy_Set.cases) (fastforce simp: bind_eq_Some_conv dest!: copySlice_eq [where copy = copy_SetItem and original = "map_option (map_SetItem fst)"] copy_SetItem_eq)+

lemma copy_RemoveItem_eq:
  "copy_RemoveItem p = Some q \<Longrightarrow> (\<And>x l. x \<in> set_option p \<Longrightarrow> l \<in> set_RemoveItem x \<Longrightarrow> leaf_faithful l) \<Longrightarrow> q = map_option (map_RemoveItem fst) p"
  by (cases p rule: copy_RemoveItem.cases) (fastforce simp: bind_eq_Some_conv dest!: copy_KindMatcher_eq copy_any_eq)+

lemma copy_Remove_eq:
  "copy_Remove p = Some q \<Longrightarrow> (\<And>x l. x \<in> set_option p \<Longrightarrow> l \<in> set_Remove x \<Longrightarrow> leaf_faithful l) \<Longrightarrow> q = map_option (map_Remove fst) p"
  by (cases p rule: copy_Remove.cases) (fastforce simp: bind_eq_Some_conv dest!: copySlice_eq [where copy = copy_RemoveItem and original = "map_option (map_RemoveItem fst)"] copy_RemoveItem_eq)+

lemma copy_Delete_eq:
  "copy_Delete p = Some q \<Longrightarrow> (\<And>x l. x \<in> set_option p \<Longrightarrow> l \<in> set_Delete x \<Longrightarrow> leaf_faithful l) \<Longrightarrow> q = map_option (map_Delete fst) p"
  by (cases p rule: copy_Delete.cases) (fastforce simp: bind_eq_Some_conv dest!: copySlice_any_eq copy_any_eq)+

lemma copy_Create_eq:
  "copy_Create p = Some q \<Longrightarrow> (\<And>x l. x \<in> set_option p \<Longrightarrow> l \<in> set_Create x \<Longrightarrow> leaf_faithful l) \<Longrightarrow> q = map_option (map_Create fst) p"
  by (cases p rule: copy_Create.cases) (fastforce simp: bind_eq_Some_conv dest!: copySlice_eq [where copy = copy_PatternPart and original = "map_option (map_PatternPart fst)"] copy_PatternPart_eq)+

lemma copy_MergeAction_eq:
  "copy_MergeAction p = Some q \<Longrightarrow> (\<And>x l. x \<in> set_option p \<Longrightarrow> l \<in> set_MergeAction x \<Longrightarrow> leaf_faithful l) \<Longrightarrow> q = map_option (map_MergeAction fst) p"
  by (cases p rule: copy_MergeAction.cases) (fastforce simp: bind_eq_Some_conv dest!: copy_Set_eq)+

lemma copy_Merge_eq:
  "copy_Merge p = Some q \<Longrightarrow> (\<And>x l. x \<in> set_option p \<Longrightarrow> l \<in> set_Merge x \<Longrightarrow> leaf_faithful l) \<Longrightarrow> q = map_option (map_Merge fst) p"
  by (cases p rule: copy_Merge.cases) (fastforce simp: bind_eq_Some_conv dest!: copy_PatternPart_eq copySlice_eq [where copy = copy_MergeAction and original = "map_option (map_MergeAction fst)"] copy_MergeAction_eq)+

lemma copy_UpdatingClause_eq:
  "copy_UpdatingClause p = Some q \<Longrightarrow> (\<And>x l. x \<in> set_option p \<Longrightarrow> l \<in> set_UpdatingClause x \<Longrightarrow> leaf_faithful l) \<Longrightarrow> q = map_option (map_UpdatingClause fst) p"
  by (cases p rule: copy_UpdatingClause.cases) (fastforce simp: bind_eq_Some_conv dest!: copy_any_eq)+

lemma copy_SinglePartQuery_eq:
  "copy_SinglePartQuery p = Some q \<Longrightarrow> (\<And>x l. x \<in> set_option p \<Longrightarrow> l \<in> set_SinglePartQuery x \<Longrightarrow> leaf_faithful l) \<Longrightarrow> q = map_option (map_SinglePartQuery fst) p"
  by (cases p rule: copy_SinglePartQuery.cases) (fastforce simp: bind_eq_Some_conv dest!: copySlice_eq [where copy = copy_ReadingClause and original = "map_option (map_ReadingClause fst)"] copy_ReadingClause_eq copySlice_any_eq copy_any_eq copy_Return_eq)+

lemma copy_MultiPartQueryPart_eq:
  "copy_MultiPartQueryPart p = Some q \<Longrightarrow> (\<And>x l. x \<in> set_option p \<Longrightarrow> l \<in> set_MultiPartQueryPart x \<Longrightarrow> leaf_faithful l) \<Longrightarrow> q = map_option (map_MultiPartQueryPart fst) p"
  by (cases p rule: copy_MultiPartQueryPart.cases) (fastforce simp: bind_eq_Some_conv dest!: copySlice_eq [where copy = copy_ReadingClause and original = "map_option (map_ReadingClause fst)"] copy_ReadingClause_eq copySlice_eq [where copy = copy_UpdatingClause and original = "map_option (map_UpdatingClause fst)"] copy_UpdatingClause_eq copy_With_eq)+

lemma copy_MultiPartQuery_eq:
  "copy_MultiPartQuery p = Some q \<Longrightarrow> (\<And>x l. x \<in> set_option p \<Longrightarrow> l \<in> set_MultiPartQuery x \<Longrightarrow> leaf_faithful l) \<Longrightarrow> q = map_option (map_MultiPartQuery fst) p"
  by (cases p rule: copy_MultiPartQuery.cases) (fastforce simp: bind_eq_Some_conv dest!: copySlice_eq [where copy = copy_MultiPartQueryPart and original = "map_option (map_MultiPartQueryPart fst)"] copy_MultiPartQueryPart_eq copy_SinglePartQuery_eq)+

lemma copy_SingleQuery_eq:
  "copy_SingleQuery p = Some q \<Longrightarrow> (\<And>x l. x \<in> set_option p \<Longrightarrow> l \<in> set_SingleQuery x \<Longrightarrow> leaf_faithful l) \<Longrightarrow> q = map_option (map_SingleQuery fst) p"
  by (cases p rule: copy_SingleQuery.cases) (fastforce simp: bind_eq_Some_conv dest!: copy_SinglePartQuery_eq copy_MultiPartQuery_eq)+

lemma copy_RegularQuery_eq:
  "copy_RegularQuery p = Some q \<Longrightarrow> (\<And>x l. x \<in> set_option p \<Longrightarrow> l \<in> set_RegularQuery x \<Longrightarrow> leaf_faithful l) \<Longrightarrow> q = map_option (map_RegularQuery fst) p"
  by (cases p rule: copy_RegularQuery.cases) (fastforce simp: bind_eq_Some_conv dest!: copy_SingleQuery_eq)+

lemmas copy_eqs =
  copy_Literal_eq copy_Parameter_eq copy_MapItem_eq copy_ListLiteral_eq copy_Properties_eq copy_NodePattern_eq
  copy_RelationshipPattern_eq copy_PatternElement_eq copy_PatternPart_eq copy_PatternPredicate_eq copy_Where_eq
  copy_Conjunction_eq copy_Disjunction_eq copy_ExclusiveDisjunction_eq copy_Negation_eq copy_Parenthetical_eq
  copy_FunctionInvocation_eq copy_PartialComparison_eq copy_Comparison_eq copy_PartialArithmeticExpression_eq
  copy_ArithmeticExpression_eq copy_UnaryAddOrSubtractExpression_eq copy_KindMatcher_eq copy_PropertyLookup_eq
  copy_IDInCollection_eq copy_FilterExpression_eq copy_Quantifier_eq copy_ProjectionItem_eq copy_SortItem_eq
  copy_Order_eq copy_Skip_eq copy_Limit_eq copy_Projection_eq copy_Return_eq copy_With_eq copy_Match_eq
  copy_Unwind_eq copy_ReadingClause_eq copy_SetItem_eq copy_Set_eq copy_RemoveItem_eq copy_Remove_eq
  copy_Delete_eq copy_Create_eq copy_MergeAction_eq copy_Merge_eq copy_UpdatingClause_eq copy_SinglePartQuery_eq
  copy_MultiPartQueryPart_eq copy_MultiPartQuery_eq copy_SingleQuery_eq copy_RegularQuery_eq

lemmas struct_map_comp =
  Literal.map_comp Parameter.map_comp MapItem.map_comp ListLiteral.map_comp Cy_Properties.map_comp
  NodePattern.map_comp RelationshipPattern.map_comp PatternElement.map_comp PatternPart.map_comp
  PatternPredicate.map_comp Where.map_comp Conjunction.map_comp Disjunction.map_comp
  ExclusiveDisjunction.map_comp Negation.map_comp Parenthetical.map_comp FunctionInvocation.map_comp
  PartialComparison.map_comp Comparison.map_comp PartialArithmeticExpression.map_comp
  ArithmeticExpression.map_comp UnaryAddOrSubtractExpression.map_comp KindMatcher.map_comp
  PropertyLookup.map_comp IDInCollection.map_comp FilterExpression.map_comp Quantifier.map_comp
  ProjectionItem.map_comp SortItem.map_comp Order.map_comp Skip.map_comp Limit.map_comp Projection.map_comp
  Return.map_comp With.map_comp Match.map_comp Unwind.map_comp ReadingClause.map_comp SetItem.map_comp
  Set.map_comp RemoveItem.map_comp Remove.map_comp Delete.map_comp Create.map_comp MergeAction.map_comp
  Merge.map_comp UpdatingClause.map_comp SinglePartQuery.map_comp MultiPartQueryPart.map_comp
  MultiPartQuery.map_comp SingleQuery.map_comp RegularQuery.map_comp

lemmas struct_map_ident =
  Literal.map_ident Parameter.map_ident MapItem.map_ident ListLiteral.map_ident Cy_Properties.map_ident
  NodePattern.map_ident RelationshipPattern.map_ident PatternElement.map_ident PatternPart.map_ident
  PatternPredicate.map_ident Where.map_ident Conjunction.map_ident Disjunction.map_ident
  ExclusiveDisjunction.map_ident Negation.map_ident Parenthetical.map_ident FunctionInvocation.map_ident
  PartialComparison.map_ident Comparison.map_ident PartialArithmeticExpression.map_ident
  ArithmeticExpression.map_ident UnaryAddOrSubtractExpression.map_ident KindMatcher.map_ident
  PropertyLookup.map_ident IDInCollection.map_ident FilterExpression.map_ident Quantifier.map_ident
  ProjectionItem.map_ident SortItem.map_ident Order.map_ident Skip.map_ident Limit.map_ident
  Projection.map_ident Return.map_ident With.map_ident Match.map_ident Unwind.map_ident ReadingClause.map_ident
  SetItem.map_ident Set.map_ident RemoveItem.map_ident Remove.map_ident Delete.map_ident Create.map_ident
  MergeAction.map_ident Merge.map_ident UpdatingClause.map_ident SinglePartQuery.map_ident
  MultiPartQueryPart.map_ident MultiPartQuery.map_ident SingleQuery.map_ident RegularQuery.map_ident

lemmas struct_set_map =
  Literal.set_map Parameter.set_map MapItem.set_map ListLiteral.set_map Cy_Properties.set_map
  NodePattern.set_map RelationshipPattern.set_map PatternElement.set_map PatternPart.set_map
  PatternPredicate.set_map Where.set_map Conjunction.set_map Disjunction.set_map ExclusiveDisjunction.set_map
  Negation.set_map Parenthetical.set_map FunctionInvocation.set_map PartialComparison.set_map Comparison.set_map
  PartialArithmeticExpression.set_map ArithmeticExpression.set_map UnaryAddOrSubtractExpression.set_map
  KindMatcher.set_map PropertyLookup.set_map IDInCollection.set_map FilterExpression.set_map Quantifier.set_map
  ProjectionItem.set_map SortItem.set_map Order.set_map Skip.set_map Limit.set_map Projection.set_map
  Return.set_map With.set_map Match.set_map Unwind.set_map ReadingClause.set_map SetItem.set_map Set.set_map
  RemoveItem.set_map Remove.set_map Delete.set_map Create.set_map MergeAction.set_map Merge.set_map
  UpdatingClause.set_map SinglePartQuery.set_map MultiPartQueryPart.set_map MultiPartQuery.set_map
  SingleQuery.set_map RegularQuery.set_map

lemma Copy_eq: "Copy n = Some m \<Longrightarrow> m = n"
proof (induction n arbitrary: m)
  case (N_MapLiteral entries)
  let ?leaves = "map_option (map (map_prod id (map_option (\<lambda>e. (e, Copy e))))) entries"
  from N_MapLiteral.prems obtain m' where m': "copy_MapLiteral ?leaves = Some m'" "m = N_MapLiteral m'" by auto
  have "m' = map_option (map (map_prod id (map_option fst))) ?leaves"
  proof (rule copy_MapLiteral_eq [OF m'(1)])
    fix es e l assume "?leaves = Some es" "e \<in> set es" "l \<in> set_option (snd e)"
    then obtain es' key v where "entries = Some es'" "(key, Some v) \<in> set es'" "l = (v, Copy v)" by auto
    with N_MapLiteral.IH show "leaf_faithful l" by (fastforce simp: leaf_faithful_def)
  qed
  also have "\<dots> = entries"
    by (simp add: option.map_comp list.map_comp prod.map_comp comp_def option.map_ident list.map_ident prod.map_ident id_def)
  finally show ?case using m'(2) by simp
qed (auto simp: leaf_faithful_def struct_map_comp struct_map_ident comp_def option.map_comp struct_set_map option.map_ident
    dest!: copy_eqs copy_constants_eq)

end
