(* ===== verification/Cy_Complete.thy ===== *)
theory Cy_Complete
  imports Cy_Copy
begin

text \<open>
  When \<open>Copy\<close> of src/cypher/models/cypher/copy.go succeeds. The \<open>copy\<close> methods of eight structs read a field of a nil
  receiver, and the type switch of \<open>Copy\<close> lacks \<open>Operator\<close> and graph kinds, so a copy can panic. A tree is complete when
  the structural walk of src/cypher/models/walk/walk_cypher.go meets none of these; the handlers of that walk
  are compared, one by one, with the copy methods.
\<close>

text \<open>The expressions a node holds in its fields and in the structs its fields point to.\<close>

definition held :: "SyntaxNode \<Rightarrow> SyntaxNode set" where
  "held n = (case n of
     N_Literal p \<Rightarrow> \<Union> (set_Literal ` set_option p)
   | N_Parameter p \<Rightarrow> \<Union> (set_Parameter ` set_option p)
   | N_MapItem p \<Rightarrow> \<Union> (set_MapItem ` set_option p)
   | N_ListLiteral p \<Rightarrow> \<Union> (set_ListLiteral ` set_option p)
   | N_Properties p \<Rightarrow> \<Union> (set_Cy_Properties ` set_option p)
   | N_NodePattern p \<Rightarrow> \<Union> (set_NodePattern ` set_option p)
   | N_RelationshipPattern p \<Rightarrow> \<Union> (set_RelationshipPattern ` set_option p)
   | N_PatternElement p \<Rightarrow> \<Union> (set_PatternElement ` set_option p)
   | N_PatternPart p \<Rightarrow> \<Union> (set_PatternPart ` set_option p)
   | N_PatternPredicate p \<Rightarrow> \<Union> (set_PatternPredicate ` set_option p)
   | N_Where p \<Rightarrow> \<Union> (set_Where ` set_option p)
   | N_Conjunction p \<Rightarrow> \<Union> (set_Conjunction ` set_option p)
   | N_Disjunction p \<Rightarrow> \<Union> (set_Disjunction ` set_option p)
   | N_ExclusiveDisjunction p \<Rightarrow> \<Union> (set_ExclusiveDisjunction ` set_option p)
   | N_Negation p \<Rightarrow> \<Union> (set_Negation ` set_option p)
   | N_Parenthetical p \<Rightarrow> \<Union> (set_Parenthetical ` set_option p)
   | N_FunctionInvocation p \<Rightarrow> \<Union> (set_FunctionInvocation ` set_option p)
   | N_PartialComparison p \<Rightarrow> \<Union> (set_PartialComparison ` set_option p)
   | N_Comparison p \<Rightarrow> \<Union> (set_Comparison ` set_option p)
   | N_PartialArithmeticExpression p \<Rightarrow> \<Union> (set_PartialArithmeticExpression ` set_option p)
   | N_ArithmeticExpression p \<Rightarrow> \<Union> (set_ArithmeticExpression ` set_option p)
   | N_UnaryAddOrSubtractExpression p \<Rightarrow> \<Union> (set_UnaryAddOrSubtractExpression ` set_option p)
   | N_KindMatcher p \<Rightarrow> \<Union> (set_KindMatcher ` set_option p)
   | N_PropertyLookup p \<Rightarrow> \<Union> (set_PropertyLookup ` set_option p)
   | N_IDInCollection p \<Rightarrow> \<Union> (set_IDInCollection ` set_option p)
   | N_FilterExpression p \<Rightarrow> \<Union> (set_FilterExpression ` set_option p)
   | N_Quantifier p \<Rightarrow> \<Union> (set_Quantifier ` set_option p)
   | N_ProjectionItem p \<Rightarrow> \<Union> (set_ProjectionItem ` set_option p)
   | N_SortItem p \<Rightarrow> \<Union> (set_SortItem ` set_option p)
   | N_Order p \<Rightarrow> \<Union> (set_Order ` set_option p)
   | N_Skip p \<Rightarrow> \<Union> (set_Skip ` set_option p)
   | N_Limit p \<Rightarrow> \<Union> (set_Limit ` set_option p)
   | N_Projection p \<Rightarrow> \<Union> (set_Projection ` set_option p)
   | N_Return p \<Rightarrow> \<Union> (set_Return ` set_option p)
   | N_With p \<Rightarrow> \<Union> (set_With ` set_option p)
   | N_Match p \<Rightarrow> \<Union> (set_Match ` set_option p)
   | N_Unwind p \<Rightarrow> \<Union> (set_Unwind ` set_option p)
   | N_ReadingClause p \<Rightarrow> \<Union> (set_ReadingClause ` set_option p)
   | N_SetItem p \<Rightarrow> \<Union> (set_SetItem ` set_option p)
   | N_Set p \<Rightarrow> \<Union> (set_Set ` set_option p)
   | N_RemoveItem p \<Rightarrow> \<Union> (set_RemoveItem ` set_option p)
   | N_Remove p \<Rightarrow> \<Union> (set_Remove ` set_option p)
   | N_Delete p \<Rightarrow> \<Union> (set_Delete ` set_option p)
   | N_Create p \<Rightarrow> \<Union> (set_Create ` set_option p)
   | N_MergeAction p \<Rightarrow> \<Union> (set_MergeAction ` set_option p)
   | N_Merge p \<Rightarrow> \<Union> (set_Merge ` set_option p)
   | N_UpdatingClause p \<Rightarrow> \<Union> (set_UpdatingClause ` set_option p)
   | N_SinglePartQuery p \<Rightarrow> \<Union> (set_SinglePartQuery ` set_option p)
   | N_MultiPartQueryPart p \<Rightarrow> \<Union> (set_MultiPartQueryPart ` set_option p)
   | N_MultiPartQuery p \<Rightarrow> \<Union> (set_MultiPartQuery ` set_option p)
   | N_SingleQuery p \<Rightarrow> \<Union> (set_SingleQuery ` set_option p)
   | N_RegularQuery p \<Rightarrow> \<Union> (set_RegularQuery ` set_option p)
   | N_MapLiteral m \<Rightarrow> \<Union> (set_option ` snd ` \<Union> (set ` set_option m))
   | _ \<Rightarrow> {})"

text \<open>
  A tree is complete when the structural walk reaches neither a nil node nor a foreign type and no field of a
  reached node holds a nil pointer or an operator.
\<close>

definition is_operator :: "SyntaxNode \<Rightarrow> bool" where
  "is_operator n \<longleftrightarrow> (\<exists>operator. n = N_Operator operator)"

definition intact :: "SyntaxNode \<Rightarrow> bool" where
  "intact n \<longleftrightarrow> (\<forall>e \<in> held n. \<not> is_nil_pointer e \<and> \<not> is_operator e) \<and>
     (case n of N_MapLiteral (Some entries) \<Rightarrow> distinct (map fst entries) | _ \<Rightarrow> True)"

definition complete :: "node \<Rightarrow> bool" where
  "complete n \<longleftrightarrow> (\<forall>m. (n, m) \<in> (branch_rel newCypherStructuralWalkCursor)\<^sup>* \<longrightarrow> \<not> foreign m \<and> intact (the m))"

lemma copy_any_Some: "(\<And>e. e \<in> set_option x \<Longrightarrow> Copy e = Some e) \<Longrightarrow> copy_any (map_option (\<lambda>e. (e, Copy e)) x) = Some x"
  by (cases x) (simp_all add: copy_any_def)

lemma copySlice_Some: "(\<And>x. x \<in> set xs \<Longrightarrow> copy (h x) = Some x) \<Longrightarrow> copySlice copy (map h xs) = Some xs"
  by (induction xs) simp_all

lemma copy_constants_Some [simp]:
  "copy_Variable v = Some v" "copy_RangeQuantifier q = Some q" "copy_PatternRange r = Some r"
  by (cases v rule: copy_Variable.cases, simp_all, cases q rule: copy_RangeQuantifier.cases, simp_all,
      cases r rule: copy_PatternRange.cases, simp_all)

lemma is_nil_pointer_simps [simp]:
  "is_nil_pointer (N_Variable p0) \<longleftrightarrow> p0 = None"
  "is_nil_pointer (N_RangeQuantifier p1) \<longleftrightarrow> p1 = None"
  "is_nil_pointer (N_PatternRange p2) \<longleftrightarrow> p2 = None"
  "is_nil_pointer (N_Literal p3) \<longleftrightarrow> p3 = None"
  "is_nil_pointer (N_Parameter p4) \<longleftrightarrow> p4 = None"
  "is_nil_pointer (N_MapItem p5) \<longleftrightarrow> p5 = None"
  "is_nil_pointer (N_ListLiteral p6) \<longleftrightarrow> p6 = None"
  "is_nil_pointer (N_Properties p7) \<longleftrightarrow> p7 = None"
  "is_nil_pointer (N_NodePattern p8) \<longleftrightarrow> p8 = None"
  "is_nil_pointer (N_RelationshipPattern p9) \<longleftrightarrow> p9 = None"
  "is_nil_pointer (N_PatternElement p10) \<longleftrightarrow> p10 = None"
  "is_nil_pointer (N_PatternPart p11) \<longleftrightarrow> p11 = None"
  "is_nil_pointer (N_PatternPredicate p12) \<longleftrightarrow> p12 = None"
  "is_nil_pointer (N_Where p13) \<longleftrightarrow> p13 = None"
  "is_nil_pointer (N_Conjunction p14) \<longleftrightarrow> p14 = None"
  "is_nil_pointer (N_Disjunction p15) \<longleftrightarrow> p15 = None"
  "is_nil_pointer (N_ExclusiveDisjunction p16) \<longleftrightarrow> p16 = None"
  "is_nil_pointer (N_Negation p17) \<longleftrightarrow> p17 = None"
  "is_nil_pointer (N_Parenthetical p18) \<longleftrightarrow> p18 = None"
  "is_nil_pointer (N_FunctionInvocation p19) \<longleftrightarrow> p19 = None"
  "is_nil_pointer (N_PartialComparison p20) \<longleftrightarrow> p20 = None"
  "is_nil_pointer (N_Comparison p21) \<longleftrightarrow> p21 = None"
  "is_nil_pointer (N_PartialArithmeticExpression p22) \<longleftrightarrow> p22 = None"
  "is_nil_pointer (N_ArithmeticExpression p23) \<longleftrightarrow> p23 = None"
  "is_nil_pointer (N_UnaryAddOrSubtractExpression p24) \<longleftrightarrow> p24 = None"
  "is_nil_pointer (N_KindMatcher p25) \<longleftrightarrow> p25 = None"
  "is_nil_pointer (N_PropertyLookup p26) \<longleftrightarrow> p26 = None"
  "is_nil_pointer (N_IDInCollection p27) \<longleftrightarrow> p27 = None"
  "is_nil_pointer (N_FilterExpression p28) \<longleftrightarrow> p28 = None"
  "is_nil_pointer (N_Quantifier p29) \<longleftrightarrow> p29 = None"
  "is_nil_pointer (N_ProjectionItem p30) \<longleftrightarrow> p30 = None"
  "is_nil_pointer (N_SortItem p31) \<longleftrightarrow> p31 = None"
  "is_nil_pointer (N_Order p32) \<longleftrightarrow> p32 = None"
  "is_nil_pointer (N_Skip p33) \<longleftrightarrow> p33 = None"
  "is_nil_pointer (N_Limit p34) \<longleftrightarrow> p34 = None"
  "is_nil_pointer (N_Projection p35) \<longleftrightarrow> p35 = None"
  "is_nil_pointer (N_Return p36) \<longleftrightarrow> p36 = None"
  "is_nil_pointer (N_With p37) \<longleftrightarrow> p37 = None"
  "is_nil_pointer (N_Match p38) \<longleftrightarrow> p38 = None"
  "is_nil_pointer (N_Unwind p39) \<longleftrightarrow> p39 = None"
  "is_nil_pointer (N_ReadingClause p40) \<longleftrightarrow> p40 = None"
  "is_nil_pointer (N_SetItem p41) \<longleftrightarrow> p41 = None"
  "is_nil_pointer (N_Set p42) \<longleftrightarrow> p42 = None"
  "is_nil_pointer (N_RemoveItem p43) \<longleftrightarrow> p43 = None"
  "is_nil_pointer (N_Remove p44) \<longleftrightarrow> p44 = None"
  "is_nil_pointer (N_Delete p45) \<longleftrightarrow> p45 = None"
  "is_nil_pointer (N_Create p46) \<longleftrightarrow> p46 = None"
  "is_nil_pointer (N_MergeAction p47) \<longleftrightarrow> p47 = None"
  "is_nil_pointer (N_Merge p48) \<longleftrightarrow> p48 = None"
  "is_nil_pointer (N_UpdatingClause p49) \<longleftrightarrow> p49 = None"
  "is_nil_pointer (N_SinglePartQuery p50) \<longleftrightarrow> p50 = None"
  "is_nil_pointer (N_MultiPartQueryPart p51) \<longleftrightarrow> p51 = None"
  "is_nil_pointer (N_MultiPartQuery p52) \<longleftrightarrow> p52 = None"
  "is_nil_pointer (N_SingleQuery p53) \<longleftrightarrow> p53 = None"
  "is_nil_pointer (N_RegularQuery p54) \<longleftrightarrow> p54 = None"
  by (simp_all add: is_nil_pointer_def)

lemma copy_shallow_Some [simp]:
  "copy_Literal (Some (map_Literal (\<lambda>e. (e, Copy e)) y)) = Some (Some y)"
  "copy_Parameter (Some (map_Parameter (\<lambda>e. (e, Copy e)) z)) = Some (Some z)"
  by (cases y, simp_all add: go_value.map_comp comp_def go_value.map_ident, cases z, simp_all add: go_value.map_comp comp_def go_value.map_ident)

lemma copy_pointer_Some:
  "Copy (N_Literal p3) = Some (N_Literal p3) \<Longrightarrow> copy_Literal (map_option (map_Literal (\<lambda>e. (e, Copy e))) p3) = Some p3"
  "(case p4 of None \<Rightarrow> True | Some y \<Rightarrow> Copy (N_Parameter (Some y)) = Some (N_Parameter (Some y))) \<Longrightarrow> copy_Parameter (map_option (map_Parameter (\<lambda>e. (e, Copy e))) p4) = Some p4"
  "(case p5 of None \<Rightarrow> True | Some y \<Rightarrow> Copy (N_MapItem (Some y)) = Some (N_MapItem (Some y))) \<Longrightarrow> copy_MapItem (map_option (map_MapItem (\<lambda>e. (e, Copy e))) p5) = Some p5"
  "(case p6 of None \<Rightarrow> True | Some y \<Rightarrow> Copy (N_ListLiteral (Some y)) = Some (N_ListLiteral (Some y))) \<Longrightarrow> copy_ListLiteral (map_option (map_ListLiteral (\<lambda>e. (e, Copy e))) p6) = Some p6"
  "(case p7 of None \<Rightarrow> True | Some y \<Rightarrow> Copy (N_Properties (Some y)) = Some (N_Properties (Some y))) \<Longrightarrow> copy_Properties (map_option (map_Cy_Properties (\<lambda>e. (e, Copy e))) p7) = Some p7"
  "(case p8 of None \<Rightarrow> True | Some y \<Rightarrow> Copy (N_NodePattern (Some y)) = Some (N_NodePattern (Some y))) \<Longrightarrow> copy_NodePattern (map_option (map_NodePattern (\<lambda>e. (e, Copy e))) p8) = Some p8"
  "(case p9 of None \<Rightarrow> True | Some y \<Rightarrow> Copy (N_RelationshipPattern (Some y)) = Some (N_RelationshipPattern (Some y))) \<Longrightarrow> copy_RelationshipPattern (map_option (map_RelationshipPattern (\<lambda>e. (e, Copy e))) p9) = Some p9"
  "Copy (N_PatternElement p10) = Some (N_PatternElement p10) \<Longrightarrow> copy_PatternElement (map_option (map_PatternElement (\<lambda>e. (e, Copy e))) p10) = Some p10"
  "(case p11 of None \<Rightarrow> True | Some y \<Rightarrow> Copy (N_PatternPart (Some y)) = Some (N_PatternPart (Some y))) \<Longrightarrow> copy_PatternPart (map_option (map_PatternPart (\<lambda>e. (e, Copy e))) p11) = Some p11"
  "(case p12 of None \<Rightarrow> True | Some y \<Rightarrow> Copy (N_PatternPredicate (Some y)) = Some (N_PatternPredicate (Some y))) \<Longrightarrow> copy_PatternPredicate (map_option (map_PatternPredicate (\<lambda>e. (e, Copy e))) p12) = Some p12"
  "(case p13 of None \<Rightarrow> True | Some y \<Rightarrow> Copy (N_Where (Some y)) = Some (N_Where (Some y))) \<Longrightarrow> copy_Where (map_option (map_Where (\<lambda>e. (e, Copy e))) p13) = Some p13"
  "(case p14 of None \<Rightarrow> True | Some y \<Rightarrow> Copy (N_Conjunction (Some y)) = Some (N_Conjunction (Some y))) \<Longrightarrow> copy_Conjunction (map_option (map_Conjunction (\<lambda>e. (e, Copy e))) p14) = Some p14"
  "(case p15 of None \<Rightarrow> True | Some y \<Rightarrow> Copy (N_Disjunction (Some y)) = Some (N_Disjunction (Some y))) \<Longrightarrow> copy_Disjunction (map_option (map_Disjunction (\<lambda>e. (e, Copy e))) p15) = Some p15"
  "(case p16 of None \<Rightarrow> True | Some y \<Rightarrow> Copy (N_ExclusiveDisjunction (Some y)) = Some (N_ExclusiveDisjunction (Some y))) \<Longrightarrow> copy_ExclusiveDisjunction (map_option (map_ExclusiveDisjunction (\<lambda>e. (e, Copy e))) p16) = Some p16"
  "(case p17 of None \<Rightarrow> True | Some y \<Rightarrow> Copy (N_Negation (Some y)) = Some (N_Negation (Some y))) \<Longrightarrow> copy_Negation (map_option (map_Negation (\<lambda>e. (e, Copy e))) p17) = Some p17"
  "Copy (N_Parenthetical p18) = Some (N_Parenthetical p18) \<Longrightarrow> copy_Parenthetical (map_option (map_Parenthetical (\<lambda>e. (e, Copy e))) p18) = Some p18"
  "(case p19 of None \<Rightarrow> True | Some y \<Rightarrow> Copy (N_FunctionInvocation (Some y)) = Some (N_FunctionInvocation (Some y))) \<Longrightarrow> copy_FunctionInvocation (map_option (map_FunctionInvocation (\<lambda>e. (e, Copy e))) p19) = Some p19"
  "Copy (N_PartialComparison p20) = Some (N_PartialComparison p20) \<Longrightarrow> copy_PartialComparison (map_option (map_PartialComparison (\<lambda>e. (e, Copy e))) p20) = Some p20"
  "(case p21 of None \<Rightarrow> True | Some y \<Rightarrow> Copy (N_Comparison (Some y)) = Some (N_Comparison (Some y))) \<Longrightarrow> copy_Comparison (map_option (map_Comparison (\<lambda>e. (e, Copy e))) p21) = Some p21"
  "Copy (N_PartialArithmeticExpression p22) = Some (N_PartialArithmeticExpression p22) \<Longrightarrow> copy_PartialArithmeticExpression (map_option (map_PartialArithmeticExpression (\<lambda>e. (e, Copy e))) p22) = Some p22"
  "Copy (N_ArithmeticExpression p23) = Some (N_ArithmeticExpression p23) \<Longrightarrow> copy_ArithmeticExpression (map_option (map_ArithmeticExpression (\<lambda>e. (e, Copy e))) p23) = Some p23"
  "Copy (N_UnaryAddOrSubtractExpression p24) = Some (N_UnaryAddOrSubtractExpression p24) \<Longrightarrow> copy_UnaryAddOrSubtractExpression (map_option (map_UnaryAddOrSubtractExpression (\<lambda>e. (e, Copy e))) p24) = Some p24"
  "(case p25 of None \<Rightarrow> True | Some y \<Rightarrow> Copy (N_KindMatcher (Some y)) = Some (N_KindMatcher (Some y))) \<Longrightarrow> copy_KindMatcher (map_option (map_KindMatcher (\<lambda>e. (e, Copy e))) p25) = Some p25"
  "(case p26 of None \<Rightarrow> True | Some y \<Rightarrow> Copy (N_PropertyLookup (Some y)) = Some (N_PropertyLookup (Some y))) \<Longrightarrow> copy_PropertyLookup (map_option (map_PropertyLookup (\<lambda>e. (e, Copy e))) p26) = Some p26"
  "(case p27 of None \<Rightarrow> True | Some y \<Rightarrow> Copy (N_IDInCollection (Some y)) = Some (N_IDInCollection (Some y))) \<Longrightarrow> copy_IDInCollection (map_option (map_IDInCollection (\<lambda>e. (e, Copy e))) p27) = Some p27"
  "(case p28 of None \<Rightarrow> True | Some y \<Rightarrow> Copy (N_FilterExpression (Some y)) = Some (N_FilterExpression (Some y))) \<Longrightarrow> copy_FilterExpression (map_option (map_FilterExpression (\<lambda>e. (e, Copy e))) p28) = Some p28"
  "(case p29 of None \<Rightarrow> True | Some y \<Rightarrow> Copy (N_Quantifier (Some y)) = Some (N_Quantifier (Some y))) \<Longrightarrow> copy_Quantifier (map_option (map_Quantifier (\<lambda>e. (e, Copy e))) p29) = Some p29"
  "(case p30 of None \<Rightarrow> True | Some y \<Rightarrow> Copy (N_ProjectionItem (Some y)) = Some (N_ProjectionItem (Some y))) \<Longrightarrow> copy_ProjectionItem (map_option (map_ProjectionItem (\<lambda>e. (e, Copy e))) p30) = Some p30"
  "Copy (N_SortItem p31) = Some (N_SortItem p31) \<Longrightarrow> copy_SortItem (map_option (map_SortItem (\<lambda>e. (e, Copy e))) p31) = Some p31"
  "(case p32 of None \<Rightarrow> True | Some y \<Rightarrow> Copy (N_Order (Some y)) = Some (N_Order (Some y))) \<Longrightarrow> copy_Order (map_option (map_Order (\<lambda>e. (e, Copy e))) p32) = Some p32"
  "(case p33 of None \<Rightarrow> True | Some y \<Rightarrow> Copy (N_Skip (Some y)) = Some (N_Skip (Some y))) \<Longrightarrow> copy_Skip (map_option (map_Skip (\<lambda>e. (e, Copy e))) p33) = Some p33"
  "(case p34 of None \<Rightarrow> True | Some y \<Rightarrow> Copy (N_Limit (Some y)) = Some (N_Limit (Some y))) \<Longrightarrow> copy_Limit (map_option (map_Limit (\<lambda>e. (e, Copy e))) p34) = Some p34"
  "(case p35 of None \<Rightarrow> True | Some y \<Rightarrow> Copy (N_Projection (Some y)) = Some (N_Projection (Some y))) \<Longrightarrow> copy_Projection (map_option (map_Projection (\<lambda>e. (e, Copy e))) p35) = Some p35"
  "(case p36 of None \<Rightarrow> True | Some y \<Rightarrow> Copy (N_Return (Some y)) = Some (N_Return (Some y))) \<Longrightarrow> copy_Return (map_option (map_Return (\<lambda>e. (e, Copy e))) p36) = Some p36"
  "(case p37 of None \<Rightarrow> True | Some y \<Rightarrow> Copy (N_With (Some y)) = Some (N_With (Some y))) \<Longrightarrow> copy_With (map_option (map_With (\<lambda>e. (e, Copy e))) p37) = Some p37"
  "(case p38 of None \<Rightarrow> True | Some y \<Rightarrow> Copy (N_Match (Some y)) = Some (N_Match (Some y))) \<Longrightarrow> copy_Match (map_option (map_Match (\<lambda>e. (e, Copy e))) p38) = Some p38"
  "(case p39 of None \<Rightarrow> True | Some y \<Rightarrow> Copy (N_Unwind (Some y)) = Some (N_Unwind (Some y))) \<Longrightarrow> copy_Unwind (map_option (map_Unwind (\<lambda>e. (e, Copy e))) p39) = Some p39"
  "(case p40 of None \<Rightarrow> True | Some y \<Rightarrow> Copy (N_ReadingClause (Some y)) = Some (N_ReadingClause (Some y))) \<Longrightarrow> copy_ReadingClause (map_option (map_ReadingClause (\<lambda>e. (e, Copy e))) p40) = Some p40"
  "(case p41 of None \<Rightarrow> True | Some y \<Rightarrow> Copy (N_SetItem (Some y)) = Some (N_SetItem (Some y))) \<Longrightarrow> copy_SetItem (map_option (map_SetItem (\<lambda>e. (e, Copy e))) p41) = Some p41"
  "(case p42 of None \<Rightarrow> True | Some y \<Rightarrow> Copy (N_Set (Some y)) = Some (N_Set (Some y))) \<Longrightarrow> copy_Set (map_option (map_Set (\<lambda>e. (e, Copy e))) p42) = Some p42"
  "(case p43 of None \<Rightarrow> True | Some y \<Rightarrow> Copy (N_RemoveItem (Some y)) = Some (N_RemoveItem (Some y))) \<Longrightarrow> copy_RemoveItem (map_option (map_RemoveItem (\<lambda>e. (e, Copy e))) p43) = Some p43"
  "(case p44 of None \<Rightarrow> True | Some y \<Rightarrow> Copy (N_Remove (Some y)) = Some (N_Remove (Some y))) \<Longrightarrow> copy_Remove (map_option (map_Remove (\<lambda>e. (e, Copy e))) p44) = Some p44"
  "(case p45 of None \<Rightarrow> True | Some y \<Rightarrow> Copy (N_Delete (Some y)) = Some (N_Delete (Some y))) \<Longrightarrow> copy_Delete (map_option (map_Delete (\<lambda>e. (e, Copy e))) p45) = Some p45"
  "(case p46 of None \<Rightarrow> True | Some y \<Rightarrow> Copy (N_Create (Some y)) = Some (N_Create (Some y))) \<Longrightarrow> copy_Create (map_option (map_Create (\<lambda>e. (e, Copy e))) p46) = Some p46"
  "(case p47 of None \<Rightarrow> True | Some y \<Rightarrow> Copy (N_MergeAction (Some y)) = Some (N_MergeAction (Some y))) \<Longrightarrow> copy_MergeAction (map_option (map_MergeAction (\<lambda>e. (e, Copy e))) p47) = Some p47"
  "(case p48 of None \<Rightarrow> True | Some y \<Rightarrow> Copy (N_Merge (Some y)) = Some (N_Merge (Some y))) \<Longrightarrow> copy_Merge (map_option (map_Merge (\<lambda>e. (e, Copy e))) p48) = Some p48"
  "(case p49 of None \<Rightarrow> True | Some y \<Rightarrow> Copy (N_UpdatingClause (Some y)) = Some (N_UpdatingClause (Some y))) \<Longrightarrow> copy_UpdatingClause (map_option (map_UpdatingClause (\<lambda>e. (e, Copy e))) p49) = Some p49"
  "(case p50 of None \<Rightarrow> True | Some y \<Rightarrow> Copy (N_SinglePartQuery (Some y)) = Some (N_SinglePartQuery (Some y))) \<Longrightarrow> copy_SinglePartQuery (map_option (map_SinglePartQuery (\<lambda>e. (e, Copy e))) p50) = Some p50"
  "(case p51 of None \<Rightarrow> True | Some y \<Rightarrow> Copy (N_MultiPartQueryPart (Some y)) = Some (N_MultiPartQueryPart (Some y))) \<Longrightarrow> copy_MultiPartQueryPart (map_option (map_MultiPartQueryPart (\<lambda>e. (e, Copy e))) p51) = Some p51"
  "(case p52 of None \<Rightarrow> True | Some y \<Rightarrow> Copy (N_MultiPartQuery (Some y)) = Some (N_MultiPartQuery (Some y))) \<Longrightarrow> copy_MultiPartQuery (map_option (map_MultiPartQuery (\<lambda>e. (e, Copy e))) p52) = Some p52"
  "(case p53 of None \<Rightarrow> True | Some y \<Rightarrow> Copy (N_SingleQuery (Some y)) = Some (N_SingleQuery (Some y))) \<Longrightarrow> copy_SingleQuery (map_option (map_SingleQuery (\<lambda>e. (e, Copy e))) p53) = Some p53"
  "(case p54 of None \<Rightarrow> True | Some y \<Rightarrow> Copy (N_RegularQuery (Some y)) = Some (N_RegularQuery (Some y))) \<Longrightarrow> copy_RegularQuery (map_option (map_RegularQuery (\<lambda>e. (e, Copy e))) p54) = Some p54"
  by (auto split: option.splits)

lemma copy_entries_Some:
  "(\<And>key val. (key, val) \<in> set entries \<Longrightarrow> copy_any (map_option (\<lambda>e. (e, Copy e)) val) = Some val) \<Longrightarrow>
   copySlice (\<lambda>(key, val). map_option (Pair key) (copy_any val)) (map (map_prod id (map_option (\<lambda>e. (e, Copy e)))) entries) = Some entries"
  by (rule copySlice_Some) auto

lemma copy_MapLiteral_Some:
  assumes "distinct (map fst entries)"
    and "\<And>i. i \<in> set (MapLiteral_Items (Some entries)) \<Longrightarrow> Copy (N_MapItem (Some i)) = Some (N_MapItem (Some i))"
  shows "copy_MapLiteral (Some (map (map_prod id (map_option (\<lambda>e. (e, Copy e)))) entries)) = Some (Some entries)"
proof -
  have "copy_any (map_option (\<lambda>e. (e, Copy e)) val) = Some val" if "(key, val) \<in> set entries" for key val
  proof -
    from that assms(1) have "map_literal_get (Some entries) key = val" by (simp add: map_literal_get_def)
    with that have "MapItem key val \<in> set (MapLiteral_Items (Some entries))" by (force simp: MapLiteral_Items_eq sortedKeys_def)
    from assms(2) [OF this] show ?thesis by (auto simp: bind_eq_Some_conv)
  qed
  from copy_entries_Some [OF this] show ?thesis by (simp add: copy_MapLiteral_def)
qed

lemma copy_MapLiteral_None [simp]: "copy_MapLiteral None = Some None"
  by (simp add: copy_MapLiteral_def)

lemma copy_MapLiteral_pointer:
  "(case m of None \<Rightarrow> True | Some y \<Rightarrow> Copy (N_MapLiteral (Some y)) = Some (N_MapLiteral (Some y))) \<Longrightarrow>
   copy_MapLiteral (map_option (map (map_prod id (map_option (\<lambda>e. (e, Copy e))))) m) = Some m"
  by (auto simp: copy_MapLiteral_def split: option.splits)

lemmas copy_intros = copySlice_Some copy_any_Some copy_pointer_Some copy_MapLiteral_pointer copy_MapLiteral_Some

definition copies_like :: "(SyntaxNode \<Rightarrow> node Cursor option) \<Rightarrow> SyntaxNode \<Rightarrow> bool" where
  "copies_like handler n \<longleftrightarrow> (\<forall>c. handler n = Some c \<longrightarrow> \<not> is_nil_pointer n \<longrightarrow> \<not> is_operator n \<longrightarrow>
     intact n \<longrightarrow>
     (\<forall>b. Some b \<in> set (Cursor_Branches c) \<longrightarrow> is_operator b \<or> Copy b = Some b) \<longrightarrow> Copy n = Some n)"

lemma newCypherLeafWalkCursor_copies: "newCypherStructuralValueWalkCursor n = None \<Longrightarrow> newCypherStructuralPatternWalkCursor n = None \<Longrightarrow> copies_like newCypherLeafWalkCursor n"
  unfolding copies_like_def
  by (cases n; clarsimp simp: newCypherLeafWalkCursor_def newCypherStructuralValueWalkCursor_def newCypherStructuralPatternWalkCursor_def intact_def held_def is_operator_def bind_eq_Some_conv split: option.splits Skip.splits Limit.splits; (intro conjI copy_intros | succeed); (auto simp: isNilNode_def copy_any_def simp del: Copy.simps split: option.splits intro!: copy_intros | succeed))


lemma newCypherValueWalkCursor_copies: "newCypherStructuralValueWalkCursor n = None \<Longrightarrow> newCypherStructuralPatternWalkCursor n = None \<Longrightarrow> copies_like newCypherValueWalkCursor n"
  unfolding copies_like_def
  by (cases n; clarsimp simp: newCypherValueWalkCursor_def newCypherStructuralValueWalkCursor_def newCypherStructuralPatternWalkCursor_def intact_def held_def is_operator_def bind_eq_Some_conv split: option.splits KindMatcher.splits PropertyLookup.splits MapItem.splits Cy_Properties.splits ListLiteral.splits FunctionInvocation.splits Parenthetical.splits; (intro conjI copy_intros | succeed); (auto simp: isNilNode_def copy_any_def simp del: Copy.simps split: option.splits intro!: copy_intros | succeed))


lemma newCypherPredicateWalkCursor_copies: "newCypherStructuralValueWalkCursor n = None \<Longrightarrow> newCypherStructuralPatternWalkCursor n = None \<Longrightarrow> copies_like newCypherPredicateWalkCursor n"
  unfolding copies_like_def
  by (cases n; clarsimp simp: newCypherPredicateWalkCursor_def newCypherStructuralValueWalkCursor_def newCypherStructuralPatternWalkCursor_def intact_def held_def is_operator_def bind_eq_Some_conv split: option.splits Quantifier.splits FilterExpression.splits IDInCollection.splits Where.splits Negation.splits Conjunction.splits Disjunction.splits ExclusiveDisjunction.splits; (intro conjI copy_intros | succeed); (auto simp: isNilNode_def copy_any_def simp del: Copy.simps split: option.splits intro!: copy_intros | succeed))


lemma newCypherOperatorWalkCursor_copies: "newCypherStructuralValueWalkCursor n = None \<Longrightarrow> newCypherStructuralPatternWalkCursor n = None \<Longrightarrow> copies_like newCypherOperatorWalkCursor n"
  unfolding copies_like_def
  by (cases n; clarsimp simp: newCypherOperatorWalkCursor_def newCypherStructuralValueWalkCursor_def newCypherStructuralPatternWalkCursor_def intact_def held_def is_operator_def bind_eq_Some_conv split: option.splits ArithmeticExpression.splits PartialArithmeticExpression.splits PartialComparison.splits Comparison.splits UnaryAddOrSubtractExpression.splits; (intro conjI copy_intros | succeed); (auto simp: isNilNode_def copy_any_def simp del: Copy.simps split: option.splits intro!: copy_intros | succeed))


lemma newCypherProjectionWalkCursor_copies: "newCypherStructuralValueWalkCursor n = None \<Longrightarrow> newCypherStructuralPatternWalkCursor n = None \<Longrightarrow> copies_like newCypherProjectionWalkCursor n"
  unfolding copies_like_def
  by (cases n; clarsimp simp: newCypherProjectionWalkCursor_def newCypherStructuralValueWalkCursor_def newCypherStructuralPatternWalkCursor_def intact_def held_def is_operator_def bind_eq_Some_conv split: option.splits Order.splits SortItem.splits Projection.splits ProjectionItem.splits; (intro conjI copy_intros | succeed); (auto simp: isNilNode_def copy_any_def simp del: Copy.simps split: option.splits intro!: copy_intros | succeed))


lemma newCypherStatementWalkCursor_copies: "newCypherStructuralValueWalkCursor n = None \<Longrightarrow> newCypherStructuralPatternWalkCursor n = None \<Longrightarrow> copies_like newCypherStatementWalkCursor n"
  unfolding copies_like_def
  by (cases n; clarsimp simp: newCypherStatementWalkCursor_def newCypherSinglePartQueryWalkCursor.simps newCypherMultiPartQueryPartWalkCursor.simps newCypherStructuralValueWalkCursor_def newCypherStructuralPatternWalkCursor_def intact_def held_def is_operator_def bind_eq_Some_conv split: option.splits MultiPartQuery.splits RegularQuery.splits SingleQuery.splits MultiPartQueryPart.splits SinglePartQuery.splits; (intro conjI copy_intros | succeed); (auto simp: isNilNode_def copy_any_def simp del: Copy.simps split: option.splits intro!: copy_intros | succeed))
    (rename_tac x, case_tac x; auto simp: bind_eq_Some_conv simp del: Copy.simps split: option.splits intro!: copy_intros)+


lemma newCypherClauseWalkCursor_copies: "newCypherStructuralValueWalkCursor n = None \<Longrightarrow> newCypherStructuralPatternWalkCursor n = None \<Longrightarrow> copies_like newCypherClauseWalkCursor n"
  unfolding copies_like_def
  by (cases n; clarsimp simp: newCypherClauseWalkCursor_def newCypherStructuralValueWalkCursor_def newCypherStructuralPatternWalkCursor_def intact_def held_def is_operator_def bind_eq_Some_conv split: option.splits Unwind.splits With.splits Return.splits ReadingClause.splits Match.splits; (intro conjI copy_intros | succeed); (auto simp: isNilNode_def copy_any_def simp del: Copy.simps split: option.splits intro!: copy_intros | succeed))


lemma newCypherUpdatingWalkCursor_copies: "newCypherStructuralValueWalkCursor n = None \<Longrightarrow> newCypherStructuralPatternWalkCursor n = None \<Longrightarrow> copies_like newCypherUpdatingWalkCursor n"
  unfolding copies_like_def
  by (cases n; clarsimp simp: newCypherUpdatingWalkCursor_def newCypherStructuralValueWalkCursor_def newCypherStructuralPatternWalkCursor_def intact_def held_def is_operator_def bind_eq_Some_conv split: option.splits Create.splits RemoveItem.splits Remove.splits Delete.splits SetItem.splits Set.splits UpdatingClause.splits Merge.splits MergeAction.splits; (intro conjI copy_intros | succeed); (auto simp: isNilNode_def copy_any_def simp del: Copy.simps split: option.splits intro!: copy_intros | succeed))


lemma newCypherPatternWalkCursor_copies: "newCypherStructuralValueWalkCursor n = None \<Longrightarrow> newCypherStructuralPatternWalkCursor n = None \<Longrightarrow> copies_like newCypherPatternWalkCursor n"
  unfolding copies_like_def
  by (cases n; clarsimp simp: newCypherPatternWalkCursor_def newCypherStructuralValueWalkCursor_def newCypherStructuralPatternWalkCursor_def intact_def held_def is_operator_def bind_eq_Some_conv split: option.splits PatternPredicate.splits PatternPart.splits PatternElement.splits RelationshipPattern.splits NodePattern.splits; (intro conjI copy_intros | succeed); (auto simp: isNilNode_def copy_any_def simp del: Copy.simps split: option.splits intro!: copy_intros | succeed))


lemma newCypherStructuralValueWalkCursor_copies: "copies_like newCypherStructuralValueWalkCursor n"
  unfolding copies_like_def
  by (cases n; clarsimp simp: newCypherStructuralValueWalkCursor_def intact_def held_def is_operator_def bind_eq_Some_conv split: option.splits Limit.splits Skip.splits KindMatcher.splits Cy_Properties.splits RemoveItem.splits IDInCollection.splits ProjectionItem.splits PartialComparison.splits PartialArithmeticExpression.splits UnaryAddOrSubtractExpression.splits; (intro conjI copy_intros | succeed); (auto simp: isNilNode_def copy_any_def simp del: Copy.simps split: option.splits intro!: copy_intros | succeed))


lemma newCypherStructuralPatternWalkCursor_copies: "copies_like newCypherStructuralPatternWalkCursor n"
  unfolding copies_like_def
  by (cases n; clarsimp simp: newCypherStructuralPatternWalkCursor_def intact_def held_def is_operator_def bind_eq_Some_conv split: option.splits PatternPart.splits RelationshipPattern.splits NodePattern.splits; (intro conjI copy_intros | succeed); (auto simp: isNilNode_def copy_any_def simp del: Copy.simps split: option.splits intro!: copy_intros | succeed))


lemma newCypherQueryWalkCursor_copies:
  "newCypherStructuralValueWalkCursor n = None \<Longrightarrow> newCypherStructuralPatternWalkCursor n = None \<Longrightarrow> copies_like newCypherQueryWalkCursor n"
  using newCypherStatementWalkCursor_copies [of n] newCypherClauseWalkCursor_copies [of n]
  by (simp add: copies_like_def newCypherQueryWalkCursor_def split: option.split)

lemmas handlers_copy =
  newCypherLeafWalkCursor_copies newCypherValueWalkCursor_copies newCypherPredicateWalkCursor_copies
  newCypherOperatorWalkCursor_copies newCypherProjectionWalkCursor_copies newCypherQueryWalkCursor_copies
  newCypherUpdatingWalkCursor_copies newCypherPatternWalkCursor_copies

lemma first_handled_copies:
  "first_handled handlers n = Inr c \<Longrightarrow> \<forall>handler \<in> set handlers. copies_like handler n \<Longrightarrow> copies_like (\<lambda>_. Some c) n"
  by (induction handlers) (auto simp: copies_like_def split: option.splits)

lemma newCypherStructuralWalkCursor_copies:
  assumes "newCypherStructuralWalkCursor (Some n) = Inr c"
  shows "copies_like (\<lambda>_. Some c) n"
proof (cases "newCypherStructuralValueWalkCursor n")
  case (Some c')
  with assms have "c = c'" by (simp add: newCypherStructuralWalkCursor_def split: if_splits)
  with Some newCypherStructuralValueWalkCursor_copies [of n] show ?thesis by (simp add: copies_like_def)
next
  case plain: None
  show ?thesis
  proof (cases "newCypherStructuralPatternWalkCursor n")
    case (Some c')
    with assms plain have "c = c'" by (simp add: newCypherStructuralWalkCursor_def split: if_splits)
    with Some newCypherStructuralPatternWalkCursor_copies [of n] show ?thesis by (simp add: copies_like_def)
  next
    case None
    from assms plain None have "newCypherWalkCursor (Some n) = Inr c"
      by (simp add: newCypherStructuralWalkCursor_def split: if_splits)
    then have "first_handled
       [newCypherLeafWalkCursor, newCypherValueWalkCursor, newCypherPredicateWalkCursor, newCypherOperatorWalkCursor,
        newCypherProjectionWalkCursor, newCypherQueryWalkCursor, newCypherUpdatingWalkCursor, newCypherPatternWalkCursor] n = Inr c"
      unfolding newCypherWalkCursor_def by (simp only: option.sel sum.distinct split: if_splits)
    then show ?thesis by (rule first_handled_copies) (simp add: handlers_copy [OF plain None])
  qed
qed

lemma newCypherStructuralWalkCursor_error: "newCypherStructuralWalkCursor node = Inl err \<Longrightarrow> foreign node"
proof (cases "isNilNode node")
  case False
  assume "newCypherStructuralWalkCursor node = Inl err"
  with False have "newCypherWalkCursor node = Inl err"
    by (simp add: newCypherStructuralWalkCursor_def split: option.splits)
  then show "foreign node" by (simp add: newCypherWalkCursor_error)
qed (simp add: foreign_def)

lemma Copy_complete_node:
  "n = Some s \<Longrightarrow> complete n \<Longrightarrow> \<not> is_operator s \<Longrightarrow> Copy s = Some s"
proof (induction n arbitrary: s rule: wf_induct_rule [OF structural.finite_trees])
  case (1 n)
  let ?R = "branch_rel newCypherStructuralWalkCursor"
  from \<open>complete n\<close> have n: "\<not> foreign n" "intact s" using \<open>n = Some s\<close> by (auto simp: complete_def)
  then obtain c where c: "newCypherStructuralWalkCursor n = Inr c"
    using newCypherStructuralWalkCursor_error [of n] by (cases "newCypherStructuralWalkCursor n") auto
  have "is_operator b \<or> Copy b = Some b" if "Some b \<in> set (Cursor_Branches c)" for b
  proof -
    from that c have step: "(n, Some b) \<in> ?R" by (auto simp: branch_rel_def)
    then have "complete (Some b)" using \<open>complete n\<close> unfolding complete_def by (meson converse_rtrancl_into_rtrancl)
    with 1(1) [of "Some b" b] step show ?thesis by auto
  qed
  moreover have "\<not> is_nil_pointer s" using n(1) \<open>n = Some s\<close> by (simp add: foreign_def isNilNode_def)
  ultimately show ?case
    using newCypherStructuralWalkCursor_copies [of s c] c n(2) \<open>n = Some s\<close> \<open>\<not> is_operator s\<close> by (simp add: copies_like_def)
qed

section \<open>Copies of complete trees\<close>

text \<open>C36. \<open>cypher.Copy\<close> does not panic on a complete tree and returns a tree equal to its argument in every field; and on any
  value at all, \<open>Copy\<close> panics or returns a value equal to its argument.\<close>

theorem Copy_of_complete_tree:
  assumes "complete (Some n)" "\<not> is_operator n"
  shows "Copy n = Some n \<and> Copy k \<in> {None, Some k}"
  using Copy_complete_node [OF refl assms] Copy_eq [of k] by (cases "Copy k") auto

theorem Copy_of_complete_tree_witness:
  "Copy (the negated_pair) = Some (the negated_pair) \<and> Copy (N_Literal None) \<in> {None, Some (N_Literal None)}"
proof -
  let ?a = "Some (N_Variable (Some (Variable ''a'')))" and ?b = "Some (N_Variable (Some (Variable ''b'')))"
  let ?c = "Some (N_Conjunction (Some (Conjunction [?a, ?b])))"
  let ?R = "branch_rel newCypherStructuralWalkCursor"
  have cursors: "newCypherStructuralWalkCursor negated_pair = Inr (node_cursor (the negated_pair) [?c])"
    "newCypherStructuralWalkCursor ?c = Inr (node_cursor (the ?c) [?a, ?b])"
    "newCypherStructuralWalkCursor ?a = Inr (node_cursor (the ?a) [])" "newCypherStructuralWalkCursor ?b = Inr (node_cursor (the ?b) [])"
    by (simp_all add: negated_pair_def newCypherStructuralWalkCursor_def newCypherStructuralValueWalkCursor_def
        newCypherStructuralPatternWalkCursor_def newCypherWalkCursor_def isNilNode_def handler_defs
        newCypherWalkCursorWithBranches_def addCypherBranches_def AddBranches_def add_expression_def node_cursor_def)
  have reach: "m \<in> {negated_pair, ?c, ?a, ?b}" if "(negated_pair, m) \<in> ?R\<^sup>*" for m
    using that by (induction rule: rtrancl_induct) (auto simp: branch_rel_def cursors)
  have "\<forall>m \<in> {negated_pair, ?c, ?a, ?b}. \<not> foreign m \<and> intact (the m)"
    by (simp add: negated_pair_def foreign_def isNilNode_def intact_def held_def is_operator_def)
  with reach have "complete negated_pair" unfolding complete_def by blast
  then have "complete (Some (the negated_pair))" by (simp add: negated_pair_def)
  moreover have "\<not> is_operator (the negated_pair)" by (simp add: negated_pair_def is_operator_def)
  ultimately show ?thesis by (rule Copy_of_complete_tree)
qed

end
