(* ===== verification/Ut_Atomics.thy ===== *)
theory Ut_Atomics
  imports Go_Std "HOL-Library.Word"
begin

text \<open>
  src/util/atomics/counter.go: a counter that any number of goroutines may call and that answers false exactly as often as
  its maximum.

  A call of the closure is a thread that is at the head of its loop (\<open>Loading\<close>), holds the value it loaded
  (\<open>Comparing\<close>) or has returned. \<open>Load\<close> and \<open>CompareAndSwap\<close> of sync/atomic are the atomic steps; a step relation interleaves the
  steps of all calls.
\<close>

datatype 'w call = Loading | Comparing 'w | Answered bool

record 'w counter =
  ct_value :: 'w
  ct_calls :: "'w call list"

text \<open>\<open>atomic.CompareAndSwap\<close>: whether the swap happened and the new value.\<close>

definition CompareAndSwap :: "'w \<Rightarrow> 'w \<Rightarrow> 'w \<Rightarrow> bool \<times> 'w" where
  "CompareAndSwap val old new = (if val = old then (True, new) else (False, val))"

text \<open>One atomic step of a call: the load with the test of the loop, or the swap with its branch.\<close>

fun counterFunc :: "('w :: len) word \<Rightarrow> 'w word \<Rightarrow> 'w word call \<Rightarrow> ('w word \<times> 'w word call) option" where
  "counterFunc maximum counter Loading =
     Some (counter, if counter < maximum then Comparing counter else Answered True)"
| "counterFunc maximum counter (Comparing currentValue) =
     (case CompareAndSwap counter currentValue (currentValue + 1) of
        (True, counter') \<Rightarrow> Some (counter', Answered False)
      | (False, counter') \<Rightarrow> Some (counter', Loading))"
| "counterFunc maximum counter (Answered done) = None"

inductive counter_step :: "('w :: len) word \<Rightarrow> 'w word counter \<Rightarrow> 'w word counter \<Rightarrow> bool" for maximum where
  act: "i < length calls \<Longrightarrow> counterFunc maximum v (calls ! i) = Some (v', c) \<Longrightarrow>
     counter_step maximum \<lparr>ct_value = v, ct_calls = calls\<rparr> \<lparr>ct_value = v', ct_calls = calls[i := c]\<rparr>"

inductive_cases counter_stepE: "counter_step maximum s s'"

definition NewCounter :: "nat \<Rightarrow> ('w :: len) word counter" where
  "NewCounter n = \<lparr>ct_value = 0, ct_calls = replicate n Loading\<rparr>"

section \<open>The invariant\<close>

definition answers :: "bool \<Rightarrow> 'w counter \<Rightarrow> nat" where
  "answers b s = (\<Sum>c \<leftarrow> ct_calls s. if c = Answered b then 1 else 0)"

fun call_ok :: "('w :: len) word \<Rightarrow> 'w word \<Rightarrow> 'w word call \<Rightarrow> bool" where
  "call_ok maximum v Loading = True"
| "call_ok maximum v (Comparing u) = (u < maximum \<and> u \<le> v)"
| "call_ok maximum v (Answered b) = (b \<longrightarrow> v = maximum)"

definition counter_inv :: "('w :: len) word \<Rightarrow> 'w word counter \<Rightarrow> bool" where
  "counter_inv maximum s \<longleftrightarrow>
     ct_value s \<le> maximum \<and> answers False s = unat (ct_value s) \<and> list_all (call_ok maximum (ct_value s)) (ct_calls s)"

lemma sum_list_swap:
  fixes f :: "'a \<Rightarrow> nat"
  shows "i < length xs \<Longrightarrow> sum_list (map f (xs[i := x])) + f (xs ! i) = sum_list (map f xs) + f x"
  by (induction xs arbitrary: i) (auto split: nat.split)

lemma list_all_update: "list_all P xs \<Longrightarrow> P x \<Longrightarrow> list_all P (xs[i := x])"
  by (auto simp: list_all_iff dest!: set_update_subset_insert [THEN subsetD])

lemma word_up:
  fixes v m :: "('w :: len) word"
  assumes "v < m"
  shows "unat (v + 1) = Suc (unat v)" "v < v + 1" "v + 1 \<le> m"
proof -
  have "unat v < unat m" using assms by (simp add: word_less_nat_alt)
  then have "Suc (unat v) < 2 ^ LENGTH('w)" using unsigned_less [of m] by (rule Suc_leI [THEN le_less_trans])
  then show up: "unat (v + 1) = Suc (unat v)" by (simp add: unat_word_ariths)
  with assms show "v < v + 1" "v + 1 \<le> m" by (simp_all add: word_less_nat_alt word_le_nat_alt)
qed

lemma counter_inv_step:
  assumes "counter_inv maximum s" "counter_step maximum s s'"
  shows "counter_inv maximum s'"
  using assms(2)
proof cases
  case (act i calls v v' c)
  let ?f = "\<lambda>c. if c = Answered False then 1 else 0 :: nat"
  from assms(1) act(1) have le: "v \<le> maximum" and ans: "sum_list (map ?f calls) = unat v"
    and each: "list_all (call_ok maximum v) calls" by (auto simp: counter_inv_def answers_def)
  note sum = sum_list_swap [OF act(3), of ?f c]
  have ok: "call_ok maximum v (calls ! i)" using each act(3) by (simp add: list_all_length)
  show ?thesis
  proof (cases "calls ! i")
    case Loading
    with act have "v' = v" "c = (if v < maximum then Comparing v else Answered True)" by auto
    with act(2) Loading sum le ans each show ?thesis
      by (auto simp: counter_inv_def answers_def intro!: list_all_update)
  next
    case (Comparing u)
    show ?thesis
    proof (cases "v = u")
      case True
      with act Comparing have v': "v' = v + 1" "c = Answered False" by (auto simp: CompareAndSwap_def)
      have "v < maximum" using ok Comparing True by simp
      note up = word_up [OF this]
      have "call_ok maximum v d \<Longrightarrow> call_ok maximum (v + 1) d" for d
        using \<open>v < maximum\<close> up by (cases d) auto
      with each have "list_all (call_ok maximum (v + 1)) calls" by (auto simp: list_all_iff)
      with act(2) v' Comparing sum up ans show ?thesis
        by (auto simp: counter_inv_def answers_def intro!: list_all_update)
    next
      case False
      with act Comparing have "v' = v" "c = Loading" by (auto simp: CompareAndSwap_def)
      with act(2) Comparing sum le ans each show ?thesis
        by (auto simp: counter_inv_def answers_def intro!: list_all_update)
    qed
  qed (use act in auto)
qed

lemma counter_inv_NewCounter: "counter_inv maximum (NewCounter n)"
  by (simp add: counter_inv_def NewCounter_def answers_def list_all_iff sum_list_replicate map_replicate_const)

lemma counter_inv_run: "(counter_step maximum)\<^sup>*\<^sup>* s s' \<Longrightarrow> counter_inv maximum s \<Longrightarrow> counter_inv maximum s'"
  by (induction rule: rtranclp_induct) (auto intro: counter_inv_step)

section \<open>Lock freedom\<close>

text \<open>The number of steps a call can still take before the counter is exhausted.\<close>

fun call_steps :: "('w :: len) word \<Rightarrow> 'w word \<Rightarrow> 'w word call \<Rightarrow> nat" where
  "call_steps maximum v Loading = 2 * (unat maximum - unat v) + 2"
| "call_steps maximum v (Comparing u) = 2 * (unat maximum - unat v) + (if u = v then 1 else 3)"
| "call_steps maximum v (Answered b) = 0"

definition counter_steps :: "('w :: len) word \<Rightarrow> 'w word counter \<Rightarrow> nat" where
  "counter_steps maximum s = (\<Sum>c \<leftarrow> ct_calls s. call_steps maximum (ct_value s) c)"

lemma counter_steps_decrease:
  assumes "counter_inv maximum s" "counter_step maximum s s'"
  shows "counter_steps maximum s' < counter_steps maximum s"
  using assms(2)
proof cases
  case (act i calls v v' c)
  let ?f = "call_steps maximum v" and ?g = "call_steps maximum v'"
  from assms(1) act(1) have each: "list_all (call_ok maximum v) calls" by (simp add: counter_inv_def)
  then have ok: "call_ok maximum v (calls ! i)" using act(3) by (simp add: list_all_length)
  have others: "?g d \<le> ?f d" if "d \<in> set calls" for d
  proof (cases "v' = v")
    case False
    then obtain u where u: "calls ! i = Comparing u" "u = v" "v' = v + 1"
      using act(4) by (cases "calls ! i") (auto simp: CompareAndSwap_def split: if_splits)
    with ok have "v < maximum" by simp
    from word_up [OF this] this u(3) show ?thesis by (cases d) (auto simp: word_less_nat_alt)
  qed simp
  then have "sum_list (map ?g calls) \<le> sum_list (map ?f calls)" by (rule sum_list_mono)
  moreover have "?g c < ?g (calls ! i)"
    using act(4) ok by (cases "calls ! i") (auto simp: CompareAndSwap_def split: if_splits)
  ultimately show ?thesis using sum_list_swap [OF act(3), of ?g c] act by (simp add: counter_steps_def)
qed

lemma counter_progress:
  assumes "\<nexists>s'. counter_step maximum s s'"
  shows "list_all (\<lambda>c. c = Answered True \<or> c = Answered False) (ct_calls s)"
proof -
  obtain v calls where s: "s = \<lparr>ct_value = v, ct_calls = calls\<rparr>" by (cases s) auto
  have "calls ! i = Answered True \<or> calls ! i = Answered False" if i: "i < length calls" for i
  proof -
    have "counterFunc maximum v (calls ! i) = None"
      using assms counter_step.act [OF i, of maximum v] s by (cases "counterFunc maximum v (calls ! i)") auto
    then show ?thesis by (cases "calls ! i") (auto split: prod.splits bool.splits)
  qed
  then show ?thesis by (simp add: s list_all_length)
qed

lemma answers_total:
  "list_all (\<lambda>c. c = Answered True \<or> c = Answered False) calls \<Longrightarrow>
   answers True \<lparr>ct_value = v, ct_calls = calls\<rparr> + answers False \<lparr>ct_value = v, ct_calls = calls\<rparr> = length calls"
  by (induction calls) (auto simp: answers_def)

lemma answers_True_none:
  "list_all (call_ok maximum v) calls \<Longrightarrow> v \<noteq> maximum \<Longrightarrow> answers True \<lparr>ct_value = v, ct_calls = calls\<rparr> = 0"
  by (induction calls) (auto simp: answers_def)

lemma counter_run:
  "(counter_step maximum ^^ k) (NewCounter n) s \<Longrightarrow>
   counter_inv maximum s \<and> length (ct_calls s) = n \<and> k + counter_steps maximum s \<le> n * (2 * unat maximum + 2)"
proof (induction k arbitrary: s)
  case 0
  then show ?case
    using counter_inv_NewCounter by (auto simp: NewCounter_def counter_steps_def sum_list_replicate map_replicate_const)
next
  case (Suc k)
  then obtain r where r: "(counter_step maximum ^^ k) (NewCounter n) r" and step: "counter_step maximum r s" by auto
  from Suc.IH [OF r] counter_inv_step [OF _ step] counter_steps_decrease [OF _ step] step
  show ?case by (auto elim!: counter_stepE)
qed

text \<open>C17. Any number of goroutines may call a counter at once: however the loads and swaps of the calls interleave, the calls
  finish within a bounded number of atomic steps, and then exactly as many of them as the maximum allows answered false.\<close>

theorem NewCounter_counts:
  assumes "(counter_step maximum ^^ k) (NewCounter n) s" "\<nexists>s'. counter_step maximum s s'"
  shows "answers False s = min n (unat maximum) \<and> answers True s = n - unat maximum \<and> k \<le> n * (2 * unat maximum + 2)"
proof -
  obtain v calls where s: "s = \<lparr>ct_value = v, ct_calls = calls\<rparr>" by (cases s) auto
  from counter_run [OF assms(1)] s have inv: "counter_inv maximum s" "length calls = n" "k \<le> n * (2 * unat maximum + 2)" by auto
  have total: "answers True s + answers False s = n" using answers_total [of calls v] counter_progress [OF assms(2)] inv s by simp
  from inv s have "answers False s = unat v" "v \<le> maximum" and ok: "list_all (call_ok maximum v) calls" by (auto simp: counter_inv_def)
  moreover have "unat v < unat maximum" "answers True s = 0" if "v \<noteq> maximum"
    using that \<open>v \<le> maximum\<close> answers_True_none [OF ok that] s by (auto simp: word_less_nat_alt [symmetric])
  ultimately show ?thesis using total inv(3) by (cases "v = maximum") auto
qed

definition counted_out :: "8 word counter" where
  "counted_out = \<lparr>ct_value = 1, ct_calls = [Answered True, Answered False]\<rparr>"

theorem NewCounter_counts_witness:
  "answers False counted_out = 1 \<and> answers True counted_out = 1 \<and> (5 :: nat) \<le> 2 * (2 * unat (1 :: 8 word) + 2)"
proof -
  let ?s = "\<lambda>v a b. \<lparr>ct_value = v, ct_calls = [a, b]\<rparr> :: 8 word counter"
  have first: "counter_step 1 (?s v a b) (?s v' a' b)" if "counterFunc 1 v a = Some (v', a')" for v v' a a' b
    using counter_step.act [of 0 "[a, b]" 1 v v' a'] that by simp
  have second: "counter_step 1 (?s v a b) (?s v' a b')" if "counterFunc 1 v b = Some (v', b')" for v v' a b b'
    using counter_step.act [of 1 "[a, b]" 1 v v' b'] that by simp
  have "counter_step 1 (?s 0 Loading Loading) (?s 0 (Comparing 0) Loading)"
    "counter_step 1 (?s 0 (Comparing 0) Loading) (?s 0 (Comparing 0) (Comparing 0))"
    "counter_step 1 (?s 0 (Comparing 0) (Comparing 0)) (?s 1 (Comparing 0) (Answered False))"
    "counter_step 1 (?s 1 (Comparing 0) (Answered False)) (?s 1 Loading (Answered False))"
    "counter_step 1 (?s 1 Loading (Answered False)) (?s 1 (Answered True) (Answered False))"
    by (rule first second; simp add: CompareAndSwap_def)+
  then have "(counter_step 1 ^^ 5) (NewCounter 2) counted_out"
    by (auto simp: numeral_eq_Suc NewCounter_def counted_out_def relcompp_apply)
  moreover have "\<nexists>s'. counter_step 1 counted_out s'"
    by (auto simp: counted_out_def less_Suc_eq elim!: counter_stepE)
  ultimately have "answers False counted_out = min 2 (unat (1 :: 8 word)) \<and> answers True counted_out = 2 - unat (1 :: 8 word) \<and>
    5 \<le> 2 * (2 * unat (1 :: 8 word) + 2)"
    by (rule NewCounter_counts)
  then show ?thesis by simp
qed

end
