(* ===== verification/Ut_Channels.thy ===== *)
theory Ut_Channels
  imports Dawgs_Prelude Go_Std
begin

text \<open>
  src/util/channels: the buffered pipe between two channels, the context aware channel operations and the concurrency limiter.

  A channel operation is an atomic step of the goroutines that take part in it. The pipe is a step relation whose labels are the
  operations on its two unbuffered channels, the cancellation of the context and the return of its goroutine; values
  written and read so far are recorded in the state. The buffer is the third-party deque of the prelude.
\<close>

section \<open>BufferedPipe\<close>

text \<open>The goroutine reads and writes in its first loop, flushes in its second, and closes \<open>readerC\<close> when it returns.\<close>

datatype pipe_phase = Reading | Flushing | Returned

record ('q, 'a) pipe =
  pp_phase :: pipe_phase
  pp_buffer :: 'q
  pp_writer_closed :: bool
  pp_ctx_done :: bool
  pp_written :: "'a list"
  pp_read :: "'a list"

definition getNext :: "('q, 'a) deque_ops \<Rightarrow> 'q \<Rightarrow> 'a option" where
  "getNext D buffer = (if 0 < dq_Len D buffer then dq_Front D buffer else None)"

definition getReaderC :: "('q, 'a) deque_ops \<Rightarrow> 'q \<Rightarrow> bool" where
  "getReaderC D buffer \<longleftrightarrow> 0 < dq_Len D buffer"

text \<open>The bodies of the cases of the two selects. Popping an empty deque panics, which is \<open>None\<close>.\<close>

definition pipe_receive :: "('q, 'a) deque_ops \<Rightarrow> 'a \<Rightarrow> ('q, 'a) pipe \<Rightarrow> ('q, 'a) pipe" where
  "pipe_receive D v s = s\<lparr>pp_buffer := dq_PushBack D (pp_buffer s) v, pp_written := pp_written s @ [v]\<rparr>"

definition pipe_send :: "('q, 'a) deque_ops \<Rightarrow> 'a \<Rightarrow> ('q, 'a) pipe \<Rightarrow> ('q, 'a) pipe option" where
  "pipe_send D v s = map_option (\<lambda>(_, buffer). s\<lparr>pp_buffer := buffer, pp_read := pp_read s @ [v]\<rparr>) (dq_PopFront D (pp_buffer s))"

datatype 'a pipe_label = Write 'a | CloseWriter | Cancel | Read 'a | SeeClosed | Abort | Finish

text \<open>
  The caller of the pipe writes to \<open>writerC\<close>, closes it and cancels the context; all other steps are those of the
  goroutine, with \<open>Read\<close> the joint step with a reader of \<open>readerC\<close>.
\<close>

inductive pipe_step :: "('q, 'a) deque_ops \<Rightarrow> ('q, 'a) pipe \<Rightarrow> 'a pipe_label \<Rightarrow> ('q, 'a) pipe \<Rightarrow> bool" for D where
  close_writer: "\<not> pp_writer_closed s \<Longrightarrow> pipe_step D s CloseWriter (s\<lparr>pp_writer_closed := True\<rparr>)"
| cancel: "\<not> pp_ctx_done s \<Longrightarrow> pipe_step D s Cancel (s\<lparr>pp_ctx_done := True\<rparr>)"
| accept: "pp_phase s = Reading \<Longrightarrow> \<not> pp_writer_closed s \<Longrightarrow> pipe_step D s (Write v) (pipe_receive D v s)"
| see_closed: "pp_phase s = Reading \<Longrightarrow> pp_writer_closed s \<Longrightarrow> pipe_step D s SeeClosed (s\<lparr>pp_phase := Flushing\<rparr>)"
| deliver: "pp_phase s = Reading \<Longrightarrow> getReaderC D (pp_buffer s) \<Longrightarrow> getNext D (pp_buffer s) = Some v \<Longrightarrow>
    pipe_send D v s = Some s' \<Longrightarrow> pipe_step D s (Read v) s'"
| abort: "pp_phase s = Reading \<Longrightarrow> pp_ctx_done s \<Longrightarrow> pipe_step D s Abort (s\<lparr>pp_phase := Returned\<rparr>)"
| flush: "pp_phase s = Flushing \<Longrightarrow> 0 < dq_Len D (pp_buffer s) \<Longrightarrow> dq_Front D (pp_buffer s) = Some v \<Longrightarrow>
    pipe_send D v s = Some s' \<Longrightarrow> pipe_step D s (Read v) s'"
| flush_abort: "pp_phase s = Flushing \<Longrightarrow> 0 < dq_Len D (pp_buffer s) \<Longrightarrow> pp_ctx_done s \<Longrightarrow>
    pipe_step D s Abort (s\<lparr>pp_phase := Returned\<rparr>)"
| finish: "pp_phase s = Flushing \<Longrightarrow> dq_Len D (pp_buffer s) = 0 \<Longrightarrow> pipe_step D s Finish (s\<lparr>pp_phase := Returned\<rparr>)"

inductive_cases pipe_stepE: "pipe_step D s l s'"

definition BufferedPipe :: "('q, 'a) deque_ops \<Rightarrow> ('q, 'a) pipe" where
  "BufferedPipe D = \<lparr>pp_phase = Reading, pp_buffer = dq_New D, pp_writer_closed = False, pp_ctx_done = False,
     pp_written = [], pp_read = []\<rparr>"

inductive pipe_reach :: "('q, 'a) deque_ops \<Rightarrow> ('q, 'a) pipe \<Rightarrow> bool" for D where
  start: "pipe_reach D (BufferedPipe D)"
| step: "pipe_reach D s \<Longrightarrow> pipe_step D s l s' \<Longrightarrow> pipe_reach D s'"

definition pipe_inv :: "('q \<Rightarrow> 'a list) \<Rightarrow> ('q, 'a) pipe \<Rightarrow> bool" where
  "pipe_inv items s \<longleftrightarrow>
     pp_written s = pp_read s @ items (pp_buffer s) \<and>
     (pp_phase s = Flushing \<longrightarrow> pp_writer_closed s) \<and>
     (pp_phase s = Returned \<longrightarrow> pp_ctx_done s \<or> pp_writer_closed s \<and> items (pp_buffer s) = [])"

text \<open>
  A run takes a step whenever the goroutine, together with a reader that keeps reading, can take one; it may idle otherwise.
  A fair run does not pass over the cancelled context forever.
\<close>

definition pipe_idle :: "('q, 'a) deque_ops \<Rightarrow> ('q, 'a) pipe \<Rightarrow> bool" where
  "pipe_idle D s \<longleftrightarrow> (\<forall>l s'. pipe_step D s l s' \<longrightarrow> l \<in> {CloseWriter, Cancel} \<union> Write ` UNIV)"

definition pipe_run :: "('q, 'a) deque_ops \<Rightarrow> (nat \<Rightarrow> ('q, 'a) pipe) \<Rightarrow> (nat \<Rightarrow> 'a pipe_label option) \<Rightarrow> bool" where
  "pipe_run D \<sigma> ls \<longleftrightarrow> \<sigma> 0 = BufferedPipe D \<and> (\<forall>i. case ls i of
     None \<Rightarrow> pipe_idle D (\<sigma> i) \<and> \<sigma> (Suc i) = \<sigma> i | Some l \<Rightarrow> pipe_step D (\<sigma> i) l (\<sigma> (Suc i)))"

definition pipe_fair :: "('q, 'a) deque_ops \<Rightarrow> (nat \<Rightarrow> ('q, 'a) pipe) \<Rightarrow> (nat \<Rightarrow> 'a pipe_label option) \<Rightarrow> bool" where
  "pipe_fair D \<sigma> ls \<longleftrightarrow> (\<forall>i. (\<forall>j \<ge> i. \<exists>s'. pipe_step D (\<sigma> j) Abort s') \<longrightarrow> (\<exists>j \<ge> i. ls j = Some Abort))"

context deque
begin

lemma getNext_items: "getNext D q = (case items q of [] \<Rightarrow> None | x # _ \<Rightarrow> Some x)"
  by (cases "items q") (simp_all add: getNext_def dq_Front_Cons)

lemma pipe_send_Some:
  assumes "items (pp_buffer s) = v # vs"
  shows "\<exists>q. pipe_send D v s = Some (s\<lparr>pp_buffer := q, pp_read := pp_read s @ [v]\<rparr>) \<and> items q = vs"
  using dq_PopFront_Cons [OF assms] by (auto simp: pipe_send_def)

lemma front_items: "dq_Front D q = Some v \<Longrightarrow> \<exists>vs. items q = v # vs"
  by (cases "items q") (simp_all add: dq_Front_Cons dq_Front_Nil)

lemma getReaderC_sends: "getReaderC D (pp_buffer s) \<longleftrightarrow> (\<exists>v s'. getNext D (pp_buffer s) = Some v \<and> pipe_send D v s = Some s')"
proof (cases "items (pp_buffer s)")
  case (Cons v vs)
  then show ?thesis using pipe_send_Some [OF Cons] by (auto simp: getReaderC_def getNext_items)
qed (simp add: getReaderC_def getNext_items)

lemma pipe_inv_send:
  assumes "dq_Front D (pp_buffer s) = Some v" "pipe_send D v s = Some s'" "pipe_inv items s" "pp_phase s \<noteq> Returned"
  shows "pipe_inv items s'"
proof -
  from front_items [OF assms(1)] obtain vs where vs: "items (pp_buffer s) = v # vs" by blast
  from pipe_send_Some [OF this] assms vs show ?thesis by (auto simp: pipe_inv_def)
qed

lemma getNext_Front: "getNext D q = Some v \<Longrightarrow> dq_Front D q = Some v"
  by (simp add: getNext_def split: if_splits)

lemma pipe_inv_step: "pipe_step D s l s' \<Longrightarrow> pipe_inv items s \<Longrightarrow> pipe_inv items s'"
proof (induction rule: pipe_step.induct)
  case (deliver s v s')
  then show ?case by (auto intro: pipe_inv_send getNext_Front)
next
  case (flush s v s')
  then show ?case by (auto intro: pipe_inv_send)
qed (auto simp: pipe_inv_def pipe_receive_def)

lemma pipe_inv_reach: "pipe_reach D s \<Longrightarrow> pipe_inv items s"
  by (induction rule: pipe_reach.induct) (blast intro: pipe_inv_step | simp add: pipe_inv_def BufferedPipe_def)+

lemma pipe_run_reach: "pipe_run D \<sigma> ls \<Longrightarrow> pipe_reach D (\<sigma> i)"
proof (induction i)
  case 0
  then show ?case by (simp add: pipe_run_def pipe_reach.start)
next
  case (Suc i)
  then show ?case
    unfolding pipe_run_def by (cases "ls i") (auto intro: pipe_reach.step dest!: spec [where x = i])
qed

section \<open>Progress of the pipe\<close>

text \<open>What is left to do once \<open>writerC\<close> is closed.\<close>

definition pipe_rank :: "('q, 'a) pipe \<Rightarrow> nat" where
  "pipe_rank s = length (items (pp_buffer s)) + (if pp_ctx_done s then 0 else 1) +
     (case pp_phase s of Reading \<Rightarrow> 2 | Flushing \<Rightarrow> 1 | Returned \<Rightarrow> 0)"

lemma pipe_send_rank:
  "dq_Front D (pp_buffer s) = Some v \<Longrightarrow> pipe_send D v s = Some s' \<Longrightarrow>
   pipe_rank s' < pipe_rank s \<and> pp_writer_closed s' = pp_writer_closed s"
  using front_items [of "pp_buffer s" v] pipe_send_Some [of s v] by (auto simp: pipe_rank_def)

lemma pipe_rank_step:
  "pipe_step D s l s' \<Longrightarrow> pp_writer_closed s \<Longrightarrow> pipe_rank s' < pipe_rank s \<and> pp_writer_closed s'"
proof (induction rule: pipe_step.induct)
  case (deliver s v s')
  then show ?case using pipe_send_rank [OF getNext_Front] by blast
next
  case (flush s v s')
  then show ?case using pipe_send_rank by blast
qed (auto simp: pipe_rank_def)

lemma pipe_flush_enabled:
  "pp_phase s = Flushing \<Longrightarrow> \<exists>l s'. pipe_step D s l s' \<and> l \<notin> {CloseWriter, Cancel} \<union> Write ` UNIV"
proof (cases "items (pp_buffer s)")
  case Nil
  assume "pp_phase s = Flushing"
  with pipe_step.finish [of s D] Nil show ?thesis by fastforce
next
  case (Cons v vs)
  assume phase: "pp_phase s = Flushing"
  from pipe_send_Some [OF Cons] obtain s' where "pipe_send D v s = Some s'" by blast
  from pipe_step.flush [OF phase _ dq_Front_Cons [OF Cons] this] Cons show ?thesis by fastforce
qed

lemma pipe_idle_returned: "pipe_idle D s \<Longrightarrow> pp_writer_closed s \<Longrightarrow> pp_phase s = Returned"
proof (rule ccontr)
  assume idle: "pipe_idle D s" and closed: "pp_writer_closed s" and "pp_phase s \<noteq> Returned"
  then consider "pp_phase s = Reading" | "pp_phase s = Flushing" by (cases "pp_phase s") auto
  then show False
  proof cases
    case 1
    from pipe_step.see_closed [OF this closed, of D] idle show False by (auto simp: pipe_idle_def)
  next
    case 2
    from pipe_flush_enabled [OF this] idle show False by (auto simp: pipe_idle_def)
  qed
qed

lemma pipe_returns_closed:
  assumes "pipe_run D \<sigma> ls"
  shows "pp_writer_closed (\<sigma> i) \<Longrightarrow> \<exists>j. pp_phase (\<sigma> j) = Returned"
proof (induction "pipe_rank (\<sigma> i)" arbitrary: i rule: less_induct)
  case less
  show ?case
  proof (cases "ls i")
    case None
    with assms have "pipe_idle D (\<sigma> i)" by (auto simp: pipe_run_def dest: spec [where x = i])
    with less.prems pipe_idle_returned show ?thesis by blast
  next
    case (Some l)
    with assms have "pipe_step D (\<sigma> i) l (\<sigma> (Suc i))" by (auto simp: pipe_run_def dest: spec [where x = i])
    from pipe_rank_step [OF this less.prems] less.hyps show ?thesis by blast
  qed
qed

lemma pipe_step_done: "pipe_step D s l s' \<Longrightarrow> pp_ctx_done s \<Longrightarrow> pp_ctx_done s'"
  by (induction rule: pipe_step.induct) (auto simp: pipe_receive_def pipe_send_def)

lemma pipe_run_done:
  assumes "pipe_run D \<sigma> ls" "pp_ctx_done (\<sigma> i)"
  shows "i \<le> j \<Longrightarrow> pp_ctx_done (\<sigma> j)"
proof (induction j rule: dec_induct)
  case (step j)
  show ?case
    using assms(1) step.IH pipe_step_done unfolding pipe_run_def by (cases "ls j") (auto dest!: spec [where x = j])
qed (rule assms(2))

lemma pipe_flushed_step:
  assumes "pipe_step D s l s'" "pp_phase s = Flushing" "dq_Len D (pp_buffer s) = 0" "pp_ctx_done s" "pp_writer_closed s"
  shows "pp_phase s' = Returned"
  using assms by (induction rule: pipe_step.induct) auto

lemma pipe_returns_cancelled:
  assumes run: "pipe_run D \<sigma> ls" and fair: "pipe_fair D \<sigma> ls" and cancelled: "pp_ctx_done (\<sigma> i)"
  shows "\<exists>j. pp_phase (\<sigma> j) = Returned"
proof (rule ccontr)
  assume never: "\<nexists>j. pp_phase (\<sigma> j) = Returned"
  have "\<exists>s'. pipe_step D (\<sigma> j) Abort s'" if "i \<le> j" for j
  proof -
    have ctx: "pp_ctx_done (\<sigma> j)" using pipe_run_done [OF run cancelled that] .
    from never consider "pp_phase (\<sigma> j) = Reading" | "pp_phase (\<sigma> j) = Flushing" by (metis pipe_phase.exhaust)
    then show ?thesis
    proof cases
      case 1
      from pipe_step.abort [OF this ctx, of D] show ?thesis by blast
    next
      case 2
      have closed: "pp_writer_closed (\<sigma> j)" using pipe_inv_reach [OF pipe_run_reach [OF run, of j]] 2 by (simp add: pipe_inv_def)
      have "dq_Len D (pp_buffer (\<sigma> j)) \<noteq> 0"
      proof
        assume empty: "dq_Len D (pp_buffer (\<sigma> j)) = 0"
        show False
        proof (cases "ls j")
          case None
          with run pipe_idle_returned [OF _ closed] never show False by (auto simp: pipe_run_def dest: spec [where x = j])
        next
          case (Some l)
          with run have "pipe_step D (\<sigma> j) l (\<sigma> (Suc j))" by (auto simp: pipe_run_def dest: spec [where x = j])
          from pipe_flushed_step [OF this 2 empty ctx closed] never show False by blast
        qed
      qed
      with pipe_step.flush_abort [OF 2 _ ctx, of D] show ?thesis by blast
    qed
  qed
  with fair obtain j where "ls j = Some Abort" unfolding pipe_fair_def by blast
  with run have "pipe_step D (\<sigma> j) Abort (\<sigma> (Suc j))" by (auto simp: pipe_run_def dest: spec [where x = j])
  then have "pp_phase (\<sigma> (Suc j)) = Returned" by cases auto
  with never show False by blast
qed

end

section \<open>What the pipe promises\<close>

text \<open>C37. \<open>BufferedPipe\<close> is a queue: at every moment the values read from it followed by the buffered ones are the values written, in
  order, so none is lost, repeated or reordered; and whenever the buffer holds a value the goroutine can offer its front
  and pop it without a panic.\<close>

theorem BufferedPipe_fifo:
  assumes "deque D items" "pipe_reach D s"
  shows "pp_written s = pp_read s @ items (pp_buffer s) \<and>
    (getReaderC D (pp_buffer s) \<longleftrightarrow> (\<exists>v s'. getNext D (pp_buffer s) = Some v \<and> pipe_send D v s = Some s'))"
  using deque.pipe_inv_reach [OF assms] deque.getReaderC_sends [OF assms(1)] by (simp add: pipe_inv_def)

text \<open>A pipe that carries one value: the states of a run, after which the run idles.\<close>

definition piped_states :: "(nat list, nat) pipe list" where
  "piped_states = (let s0 = BufferedPipe list_deque; s1 = pipe_receive list_deque 7 s0; s2 = s1\<lparr>pp_writer_closed := True\<rparr>;
     s3 = s2\<lparr>pp_phase := Flushing\<rparr>; s4 = s3\<lparr>pp_buffer := [], pp_read := [7]\<rparr>; s5 = s4\<lparr>pp_phase := Returned\<rparr>
   in [s0, s1, s2, s3, s4, s5])"

definition piped_labels :: "nat pipe_label list" where
  "piped_labels = [Write 7, CloseWriter, SeeClosed, Read 7, Finish]"

definition piped_run :: "nat \<Rightarrow> (nat list, nat) pipe" where
  "piped_run i = piped_states ! min i 5"

definition piped_run_labels :: "nat \<Rightarrow> nat pipe_label option" where
  "piped_run_labels i = (if i < 5 then Some (piped_labels ! i) else None)"

lemma piped_steps:
  "pipe_step list_deque (piped_states ! 0) (Write 7) (piped_states ! 1)"
  "pipe_step list_deque (piped_states ! 1) CloseWriter (piped_states ! 2)"
  "pipe_step list_deque (piped_states ! 2) SeeClosed (piped_states ! 3)"
  "pipe_step list_deque (piped_states ! 3) (Read 7) (piped_states ! 4)"
  "pipe_step list_deque (piped_states ! 4) Finish (piped_states ! 5)"
proof -
  show "pipe_step list_deque (piped_states ! 0) (Write 7) (piped_states ! 1)"
    using pipe_step.accept [of "BufferedPipe list_deque" list_deque 7] by (simp add: piped_states_def Let_def BufferedPipe_def)
  show "pipe_step list_deque (piped_states ! 1) CloseWriter (piped_states ! 2)"
    using pipe_step.close_writer [of "piped_states ! 1" list_deque] by (simp add: piped_states_def Let_def BufferedPipe_def pipe_receive_def)
  show "pipe_step list_deque (piped_states ! 2) SeeClosed (piped_states ! 3)"
    using pipe_step.see_closed [of "piped_states ! 2" list_deque] by (simp add: piped_states_def Let_def BufferedPipe_def pipe_receive_def numeral_eq_Suc)
  show "pipe_step list_deque (piped_states ! 3) (Read 7) (piped_states ! 4)"
    using pipe_step.flush [of "piped_states ! 3" list_deque 7 "piped_states ! 4"]
    by (simp add: piped_states_def Let_def BufferedPipe_def pipe_receive_def pipe_send_def list_deque_def numeral_eq_Suc)
  show "pipe_step list_deque (piped_states ! 4) Finish (piped_states ! 5)"
    using pipe_step.finish [of "piped_states ! 4" list_deque]
    by (simp add: piped_states_def Let_def BufferedPipe_def pipe_receive_def list_deque_def numeral_eq_Suc)
qed

lemma piped_final:
  "piped_states ! 5 = \<lparr>pp_phase = Returned, pp_buffer = [], pp_writer_closed = True, pp_ctx_done = False, pp_written = [7], pp_read = [7]\<rparr>"
  by (simp add: piped_states_def Let_def BufferedPipe_def pipe_receive_def list_deque_def numeral_eq_Suc)

lemma piped_returned: "pipe_step list_deque (piped_states ! 5) l s' \<Longrightarrow> l = Cancel"
  unfolding piped_final by (erule pipe_stepE) auto

lemma piped_run: "pipe_run list_deque piped_run piped_run_labels"
proof -
  have "case piped_run_labels i of None \<Rightarrow> pipe_idle list_deque (piped_run i) \<and> piped_run (Suc i) = piped_run i
      | Some l \<Rightarrow> pipe_step list_deque (piped_run i) l (piped_run (Suc i))" for i
  proof (cases "i < 5")
    case True
    then consider "i = 0" | "i = 1" | "i = 2" | "i = 3" | "i = 4" by linarith
    then show ?thesis
      by cases (use piped_steps in \<open>simp_all add: piped_run_labels_def piped_run_def piped_labels_def numeral_eq_Suc\<close>)
  next
    case False
    then show ?thesis
      using piped_returned by (auto simp: piped_run_labels_def piped_run_def pipe_idle_def)
  qed
  moreover have "piped_run 0 = BufferedPipe list_deque" by (simp add: piped_run_def piped_states_def Let_def)
  ultimately show ?thesis by (simp add: pipe_run_def)
qed

lemma piped_reach: "pipe_reach list_deque (piped_states ! 2)"
  using ldq.pipe_run_reach [OF piped_run, of 2] by (simp add: piped_run_def)

theorem BufferedPipe_fifo_witness:
  "pp_written (piped_states ! 2) = pp_read (piped_states ! 2) @ pp_buffer (piped_states ! 2) \<and>
    (getReaderC list_deque (pp_buffer (piped_states ! 2)) \<longleftrightarrow>
      (\<exists>v s'. getNext list_deque (pp_buffer (piped_states ! 2)) = Some v \<and> pipe_send list_deque v (piped_states ! 2) = Some s'))"
  by (rule BufferedPipe_fifo [OF ldq.deque_axioms piped_reach])



section \<open>Context aware channel operations\<close>

text \<open>
  A select between a channel operation and \<open>ctx.Done\<close> has one of two outcomes. A channel that is read is the list of values
  it still delivers before it is closed, a channel that is written the list of values it took.
\<close>

datatype select_outcome = Ready | Expired

fun Submit :: "select_outcome \<Rightarrow> 'a \<Rightarrow> 'a list \<Rightarrow> bool \<times> 'a list" where
  "Submit Ready val channel = (True, channel @ [val])"
| "Submit Expired val channel = (False, channel)"

fun Receive :: "select_outcome \<Rightarrow> 'a list \<Rightarrow> 'a option \<times> 'a list" where
  "Receive Ready [] = (None, [])"
| "Receive Ready (val # inC) = (Some val, inC)"
| "Receive Expired inC = (None, inC)"

definition Pipe :: "select_outcome \<times> select_outcome \<Rightarrow> 'a list \<Rightarrow> 'a list \<Rightarrow> bool \<times> 'a list \<times> 'a list" where
  "Pipe sel inC outC = (case Receive (fst sel) inC of
     (Some val, inC') \<Rightarrow> (case Submit (snd sel) val outC of (submitted, outC') \<Rightarrow> (submitted, inC', outC'))
   | (None, inC') \<Rightarrow> (False, inC', outC))"

text \<open>\<open>PipeAll\<close> and \<open>PipelineAll\<close> consume one pair of outcomes per round; \<open>None\<close> means that they have not returned yet.\<close>

fun PipeAll :: "(select_outcome \<times> select_outcome) list \<Rightarrow> 'a list \<Rightarrow> 'a list \<Rightarrow> ('a list \<times> 'a list) option" where
  "PipeAll [] inC outC = None"
| "PipeAll (sel # sels) inC outC = (case Pipe sel inC outC of
     (True, inC', outC') \<Rightarrow> PipeAll sels inC' outC'
   | (False, inC', outC') \<Rightarrow> Some (inC', outC'))"

definition Pipeline :: "select_outcome \<times> select_outcome \<Rightarrow> ('r \<Rightarrow> 'err + 't) \<Rightarrow> 'r list \<Rightarrow> 't list \<Rightarrow>
    (bool \<times> 'err option) \<times> 'r list \<times> 't list" where
  "Pipeline sel convertor inC outC = (case Receive (fst sel) inC of
     (Some val, inC') \<Rightarrow> (case convertor val of
        Inl err \<Rightarrow> ((False, Some err), inC', outC)
      | Inr convertedValue \<Rightarrow> (case Submit (snd sel) convertedValue outC of (submitted, outC') \<Rightarrow> ((submitted, None), inC', outC')))
   | (None, inC') \<Rightarrow> ((False, None), inC', outC))"

fun PipelineAll :: "(select_outcome \<times> select_outcome) list \<Rightarrow> ('r \<Rightarrow> 'err + 't) \<Rightarrow> 'r list \<Rightarrow> 't list \<Rightarrow>
    ('err option \<times> 'r list \<times> 't list) option" where
  "PipelineAll [] convertor inC outC = None"
| "PipelineAll (sel # sels) convertor inC outC = (case Pipeline sel convertor inC outC of
     ((success, err), inC', outC') \<Rightarrow> if \<not> success \<or> err \<noteq> None then Some (err, inC', outC')
       else PipelineAll sels convertor inC' outC')"

text \<open>\<open>PipeAll\<close> is \<open>PipelineAll\<close> with a conversion that never fails.\<close>

lemma PipeAll_PipelineAll:
  "PipeAll sels inC outC = map_option snd (PipelineAll sels (\<lambda>v. Inr v :: unit + 'a) inC outC)"
proof (induction sels inC outC rule: PipeAll.induct)
  case (2 sel sels inC outC)
  then show ?case by (auto simp: Pipe_def Pipeline_def split: prod.splits option.splits bool.splits)
qed simp

text \<open>What a run of \<open>PipelineAll\<close> leaves behind after \<open>n\<close> values passed.\<close>

definition piped :: "('r \<Rightarrow> 'err + 't) \<Rightarrow> nat \<Rightarrow> 'r list \<Rightarrow> 't list \<Rightarrow> 'err option \<times> 'r list \<times> 't list \<Rightarrow> bool" where
  "piped convertor n inC outC r = (case r of (err, inC', outC') \<Rightarrow>
     n \<le> length inC \<and> map convertor (take n inC) = map Inr (drop (length outC) outC') \<and> take (length outC) outC' = outC \<and>
     (case err of Some e \<Rightarrow> n < length inC \<and> convertor (inC ! n) = Inl e \<and> inC' = drop (Suc n) inC
      | None \<Rightarrow> inC' = drop n inC \<or> inC' = drop (Suc n) inC))"

lemma piped_Cons:
  "convertor x = Inr y \<Longrightarrow> piped convertor n inC (outC @ [y]) r \<Longrightarrow> piped convertor (Suc n) (x # inC) outC r"
proof -
  assume x: "convertor x = Inr y" and p: "piped convertor n inC (outC @ [y]) r"
  obtain err inC' outC' where r: "r = (err, inC', outC')" by (cases r) auto
  from p r have pre: "take (Suc (length outC)) outC' = outC @ [y]" by (simp add: piped_def)
  define zs where "zs = drop (Suc (length outC)) outC'"
  have "outC' = outC @ y # zs" using append_take_drop_id [of "Suc (length outC)" outC'] pre by (simp add: zs_def)
  with x p r show ?thesis by (auto simp: piped_def split: option.splits)
qed

lemma PipelineAll_piped:
  "length inC < length sels \<Longrightarrow> \<exists>r n. PipelineAll sels convertor inC outC = Some r \<and> piped convertor n inC outC r \<and>
     (set sels \<subseteq> {(Ready, Ready)} \<longrightarrow> fst r = None \<longrightarrow> n = length inC)"
proof (induction inC arbitrary: sels outC)
  case Nil
  then obtain r w sels' where "sels = (r, w) # sels'" by (cases sels) auto
  then show ?case by (cases r) (auto simp: Pipeline_def piped_def intro!: exI [where x = 0])
next
  case (Cons x inC)
  then obtain r w sels' where sels: "sels = (r, w) # sels'" and len: "length inC < length sels'" by (cases sels) auto
  show ?case
  proof (cases "r = Ready \<and> w = Ready \<and> (\<exists>y. convertor x = Inr y)")
    case True
    then obtain y where y: "r = Ready" "w = Ready" "convertor x = Inr y" by blast
    from Cons.IH [OF len, of "outC @ [y]"] obtain q n where
      q: "PipelineAll sels' convertor inC (outC @ [y]) = Some q" "piped convertor n inC (outC @ [y]) q"
        "set sels' \<subseteq> {(Ready, Ready)} \<longrightarrow> fst q = None \<longrightarrow> n = length inC" by (elim exE conjE)
    from q(1) y sels have "PipelineAll sels convertor (x # inC) outC = Some q" by (simp add: Pipeline_def)
    moreover have "piped convertor (Suc n) (x # inC) outC q" using y(3) q(2) by (rule piped_Cons)
    moreover have "set sels \<subseteq> {(Ready, Ready)} \<longrightarrow> fst q = None \<longrightarrow> Suc n = length (x # inC)" using q(3) sels by simp
    ultimately show ?thesis by (intro exI conjI)
  next
    case False
    with sels show ?thesis
      by (cases r; cases w; cases "convertor x") (auto simp: Pipeline_def piped_def intro!: exI [where x = 0])
  qed
qed

text \<open>C38. \<open>PipelineAll\<close> returns after at most one round more than there are values, whatever the selects choose. It submitted the
  conversions of a prefix of the input, in order; at most one further value was received without being submitted; an
  error is the one of the first conversion that failed; and if the context never expires everything is converted unless there is one.\<close>

theorem PipelineAll_converts:
  assumes "length inC < length sels"
  shows "\<exists>r n. PipelineAll sels convertor inC [] = Some r \<and> piped convertor n inC [] r \<and>
     (set sels \<subseteq> {(Ready, Ready)} \<longrightarrow> fst r = None \<longrightarrow> n = length inC)"
  using assms by (rule PipelineAll_piped)

definition half :: "nat \<Rightarrow> string + nat" where
  "half n = (if even n then Inr (n div 2) else Inl ''odd'')"

theorem PipelineAll_converts_witness:
  "\<exists>n. PipelineAll [(Ready, Ready), (Ready, Ready), (Ready, Expired), (Ready, Ready)] half [4, 2, 5] [] = Some (Some ''odd'', [], [2, 1]) \<and>
     piped half n [4, 2, 5] [] (Some ''odd'', [], [2, 1])"
proof -
  let ?sels = "[(Ready, Ready), (Ready, Ready), (Ready, Expired), (Ready, Ready)]"
  have "PipelineAll ?sels half [4, 2, 5] [] = Some (Some ''odd'', [], [2, 1])"
    by (simp add: Pipeline_def half_def)
  with PipelineAll_converts [of "[4, 2, 5]" ?sels half] show ?thesis by auto
qed

section \<open>ConcurrencyLimiter\<close>

text \<open>The buffered channel \<open>slotC\<close> by its capacity and the number of slots in it; making a channel of negative capacity panics.\<close>

record ConcurrencyLimiter =
  cl_cap :: nat
  cl_slots :: nat

definition NewConcurrencyLimiter :: "int \<Rightarrow> ConcurrencyLimiter option" where
  "NewConcurrencyLimiter numSlots = (if numSlots < 0 then None else Some \<lparr>cl_cap = nat numSlots, cl_slots = 0\<rparr>)"

text \<open>Sending to a full buffered channel and receiving from an empty one block, which is \<open>None\<close>.\<close>

definition Acquire :: "select_outcome \<Rightarrow> ConcurrencyLimiter \<Rightarrow> (bool \<times> ConcurrencyLimiter) option" where
  "Acquire outcome s = (case outcome of
     Ready \<Rightarrow> if cl_slots s < cl_cap s then Some (True, s\<lparr>cl_slots := cl_slots s + 1\<rparr>) else None
   | Expired \<Rightarrow> Some (False, s))"

definition Release :: "ConcurrencyLimiter \<Rightarrow> ConcurrencyLimiter option" where
  "Release s = (if 0 < cl_slots s then Some (s\<lparr>cl_slots := cl_slots s - 1\<rparr>) else None)"

text \<open>Goroutines that release a slot only after they acquired it, with the set of those that hold one.\<close>

inductive limiter_reach :: "int \<Rightarrow> ConcurrencyLimiter \<Rightarrow> 'g set \<Rightarrow> bool" for numSlots where
  create: "NewConcurrencyLimiter numSlots = Some s \<Longrightarrow> limiter_reach numSlots s {}"
| acquire: "limiter_reach numSlots s holders \<Longrightarrow> g \<notin> holders \<Longrightarrow> Acquire outcome s = Some (acquired, s') \<Longrightarrow>
    limiter_reach numSlots s' (if acquired then insert g holders else holders)"
| release: "limiter_reach numSlots s holders \<Longrightarrow> g \<in> holders \<Longrightarrow> Release s = Some s' \<Longrightarrow>
    limiter_reach numSlots s' (holders - {g})"

lemma limiter_inv:
  "limiter_reach numSlots s holders \<Longrightarrow>
   finite holders \<and> card holders = cl_slots s \<and> int (cl_cap s) = numSlots \<and> cl_slots s \<le> cl_cap s"
  by (induction rule: limiter_reach.induct)
    (auto simp: NewConcurrencyLimiter_def Acquire_def Release_def split: select_outcome.splits if_splits)

text \<open>At most as many goroutines as there are slots hold one at any time; a goroutine that holds a slot releases it without
  blocking; and a goroutine that asks for a slot gets one without waiting exactly when fewer are held.\<close>

theorem ConcurrencyLimiter_bound:
  assumes "limiter_reach numSlots s holders"
  shows "int (card holders) \<le> numSlots \<and> (holders \<noteq> {} \<longleftrightarrow> Release s \<noteq> None) \<and>
    (Acquire Ready s \<noteq> None \<longleftrightarrow> int (card holders) < numSlots)"
  using limiter_inv [OF assms] by (auto simp: Acquire_def Release_def card_gt_0_iff)

theorem ConcurrencyLimiter_bound_witness:
  "int (card {''a'', ''b''}) \<le> 2 \<and> ({''a'', ''b''} \<noteq> {} \<longleftrightarrow> Release \<lparr>cl_cap = 2, cl_slots = 2\<rparr> \<noteq> None) \<and>
    (Acquire Ready \<lparr>cl_cap = 2, cl_slots = 2\<rparr> \<noteq> None \<longleftrightarrow> int (card {''a'', ''b''}) < 2)"
proof -
  have "limiter_reach 2 \<lparr>cl_cap = 2, cl_slots = 0\<rparr> {}" by (rule limiter_reach.create) (simp add: NewConcurrencyLimiter_def)
  from limiter_reach.acquire [OF this, of "''a''" Ready True "\<lparr>cl_cap = 2, cl_slots = 1\<rparr>"]
  have "limiter_reach 2 \<lparr>cl_cap = 2, cl_slots = 1\<rparr> {''a''}" by (simp add: Acquire_def)
  from limiter_reach.acquire [OF this, of "''b''" Ready True "\<lparr>cl_cap = 2, cl_slots = 2\<rparr>"]
  have "limiter_reach 2 \<lparr>cl_cap = 2, cl_slots = 2\<rparr> {''a'', ''b''}" by (simp add: Acquire_def insert_commute)
  from ConcurrencyLimiter_bound [OF this] show ?thesis .
qed

end
