(* ===== verification/Opt_Analysis.thy ===== *)
theory Opt_Analysis
  imports Cy_Cursor Cy_Model "HOL-Library.Monad_Syntax"
begin

text \<open>
  src/cypher/models/pgsql/optimize/analysis.go: the regions of consecutive plain MATCH clauses of a query, the barriers between
  them, the bindings they declare and the variables their predicates depend on.

  A Go map with empty values is a set of strings. Functions that read a field through a pointer that may be nil return \<open>None\<close> for
  the panic. Indices are integers, as in the code.
\<close>

section \<open>Types\<close>

datatype QueryPartKind = QueryPartKindSingle | QueryPartKindMulti

datatype BarrierKind =
  BarrierKindReturn | BarrierKindWith | BarrierKindUnwind | BarrierKindOptionalMatch | BarrierKindUpdate

datatype BindingKind = BindingKindNode | BindingKindRelationship | BindingKindPath

record MatchClause =
  mc_Index :: int
  mc_PatternCount :: int
  mc_WherePredicates :: int

record Barrier =
  ba_QueryPartIndex :: int
  ba_ClauseIndex :: int
  ba_Kind :: BarrierKind
  ba_Dependencies :: "string list"

record Binding =
  bd_Symbol :: string
  bd_Kind :: BindingKind
  bd_ClauseIndex :: int
  bd_PatternIndex :: int

record PathVariable =
  pv_Symbol :: string
  pv_ClauseIndex :: int
  pv_PatternIndex :: int
  pv_NodeCount :: int
  pv_RelationshipCount :: int
  pv_VariableLength :: bool
  pv_Dependencies :: "string list"

record Predicate =
  pd_ClauseIndex :: int
  pd_ExpressionIndex :: int
  pd_Dependencies :: "string list"

record Region =
  rg_QueryPartIndex :: int
  rg_StartClause :: int
  rg_EndClause :: int
  rg_Clauses :: "MatchClause list"
  rg_Bindings :: "Binding list"
  rg_BindingOccurrences :: "Binding list"
  rg_PathVariables :: "PathVariable list"
  rg_Predicates :: "Predicate list"

record QueryPart =
  qp_Index :: int
  qp_Kind :: QueryPartKind
  qp_Regions :: "Region list"
  qp_Barriers :: "Barrier list"
  qp_ProjectionDependencies :: "string list"

type_synonym Analysis = "QueryPart list"

type_synonym reading_clause = "SyntaxNode ReadingClause option"

definition indexed :: "'a list \<Rightarrow> (int \<times> 'a) list" where
  "indexed xs = map (\<lambda>(i, x). (int i, x)) (enumerate 0 xs)"

section \<open>Dependencies\<close>

definition sortedMapKeys :: "string set \<Rightarrow> string list" where
  "sortedMapKeys values = sorted_list_of_set values"

definition sortedUniqueStrings :: "string list \<Rightarrow> string list" where
  "sortedUniqueStrings values = sortedMapKeys (fold (\<lambda>val seen. if val \<noteq> '''' then insert val seen else seen) values {})"

definition TokenLiteralAsterisk :: string where
  "TokenLiteralAsterisk = ''*''"

text \<open>The visitor of \<open>sortedDependencies\<close>; the walk stops at a nil pointer before it is visited.\<close>

definition collect_dependency :: "node \<Rightarrow> (string set, unit) visitor_state \<Rightarrow> (string set, unit) visitor_state" where
  "collect_dependency node = (\<lambda>(dependencies, handler). (case node of
     Some (N_Variable (Some (Variable symbol))) \<Rightarrow>
       if symbol \<noteq> '''' \<and> symbol \<noteq> TokenLiteralAsterisk then insert symbol dependencies else dependencies
   | _ \<Rightarrow> dependencies, handler))"

definition sortedDependencies :: "node \<Rightarrow> string list" where
  "sortedDependencies node = (if node = None then [] else
     (case Cypher node (NewSimpleVisitor collect_dependency) ({}, NewCancelableErrorHandler) of
        Some (_, dependencies, _) \<Rightarrow> sortedMapKeys dependencies
      | None \<Rightarrow> []))"

definition predicatesForWhere :: "int \<Rightarrow> SyntaxNode Where option \<Rightarrow> Predicate list" where
  "predicatesForWhere clauseIndex whr = (case whr of
     None \<Rightarrow> []
   | Some w \<Rightarrow> map (\<lambda>(expressionIndex, expression).
       \<lparr>pd_ClauseIndex = clauseIndex, pd_ExpressionIndex = expressionIndex, pd_Dependencies = sortedDependencies expression\<rparr>)
       (indexed (wh_Expressions w)))"

definition dependenciesForMatch :: "SyntaxNode Match option \<Rightarrow> string list" where
  "dependenciesForMatch match = (case match of
     None \<Rightarrow> []
   | Some m \<Rightarrow> sortedUniqueStrings (concat (map pd_Dependencies (predicatesForWhere 0 (mt_Where m)))))"

definition dependenciesForReadingClause :: "reading_clause \<Rightarrow> string list" where
  "dependenciesForReadingClause readingClause = (case readingClause of
     None \<Rightarrow> []
   | Some clause \<Rightarrow>
       if rc_Match clause \<noteq> None then dependenciesForMatch (rc_Match clause)
       else (case rc_Unwind clause of Some unwind \<Rightarrow> sortedDependencies (uw_Expression unwind) | None \<Rightarrow> []))"

definition projectionDependencies :: "SyntaxNode Projection option \<Rightarrow> string list" where
  "projectionDependencies projection = (case projection of
     None \<Rightarrow> []
   | Some p \<Rightarrow> sortedUniqueStrings
       (concat (map sortedDependencies (pj_Items p)) @
        (if pj_Order p \<noteq> None then sortedDependencies (Some (N_Order (pj_Order p))) else []) @
        (if pj_Skip p \<noteq> None then sortedDependencies (Some (N_Skip (pj_Skip p))) else []) @
        (if pj_Limit p \<noteq> None then sortedDependencies (Some (N_Limit (pj_Limit p))) else [])))"

section \<open>Bindings\<close>

definition symbol_binding :: "BindingKind \<Rightarrow> int \<Rightarrow> int \<Rightarrow> Variable option \<Rightarrow> Binding list" where
  "symbol_binding kind clauseIndex patternIndex variable = (case variable of
     Some (Variable symbol) \<Rightarrow> if symbol \<noteq> ''''
       then [\<lparr>bd_Symbol = symbol, bd_Kind = kind, bd_ClauseIndex = clauseIndex, bd_PatternIndex = patternIndex\<rparr>] else []
   | None \<Rightarrow> [])"

text \<open>What the loops over pattern elements do with the node or relationship pattern an element holds.\<close>

definition on_element ::
    "(SyntaxNode NodePattern \<Rightarrow> 'r) \<Rightarrow> (SyntaxNode RelationshipPattern \<Rightarrow> 'r) \<Rightarrow> 'r \<Rightarrow> SyntaxNode PatternElement option \<Rightarrow> 'r option" where
  "on_element onNode onRelationship neither element = (case AsNodePattern element of
     Some nodePattern \<Rightarrow> map_option onNode nodePattern
   | None \<Rightarrow> (case AsRelationshipPattern element of
       Some relationshipPattern \<Rightarrow> map_option onRelationship relationshipPattern
     | None \<Rightarrow> Some neither))"

definition pattern_bindings :: "int \<Rightarrow> int \<Rightarrow> SyntaxNode PatternPart option \<Rightarrow> Binding list option" where
  "pattern_bindings clauseIndex patternIndex pattern = (case pattern of
     None \<Rightarrow> Some []
   | Some p \<Rightarrow> map_option (\<lambda>bs. symbol_binding BindingKindPath clauseIndex patternIndex (pt_Variable p) @ concat bs)
       (those (map (on_element (\<lambda>n. symbol_binding BindingKindNode clauseIndex patternIndex (np_Variable n))
          (\<lambda>r. symbol_binding BindingKindRelationship clauseIndex patternIndex (rp_Variable r)) [])
        (pt_PatternElements p))))"

definition bindingsForMatch :: "int \<Rightarrow> SyntaxNode Match \<Rightarrow> Binding list option" where
  "bindingsForMatch clauseIndex match =
     map_option concat (those (map (\<lambda>(patternIndex, pattern). pattern_bindings clauseIndex patternIndex pattern) (indexed (mt_Pattern match))))"

definition patternDependencies :: "SyntaxNode PatternPart \<Rightarrow> string list option" where
  "patternDependencies pattern =
     map_option (\<lambda>bs. sortedUniqueStrings (map bd_Symbol (concat bs)))
       (those (map (on_element (\<lambda>n. symbol_binding BindingKindNode 0 0 (np_Variable n))
          (\<lambda>r. symbol_binding BindingKindRelationship 0 0 (rp_Variable r)) []) (pt_PatternElements pattern)))"

text \<open>Counting the elements of a path: a nil relationship pattern panics, a nil node pattern is counted.\<close>

definition count_element :: "SyntaxNode PatternElement option \<Rightarrow> PathVariable \<Rightarrow> PathVariable option" where
  "count_element element v =
     (if IsNodePattern element then Some (v\<lparr>pv_NodeCount := pv_NodeCount v + 1\<rparr>)
      else (case AsRelationshipPattern element of
         None \<Rightarrow> Some v
       | Some relationshipPattern \<Rightarrow> map_option (\<lambda>r. v\<lparr>pv_RelationshipCount := pv_RelationshipCount v + 1,
           pv_VariableLength := (if rp_Range r \<noteq> None then True else pv_VariableLength v)\<rparr>) relationshipPattern))"

definition pathVariable :: "int \<Rightarrow> int \<Rightarrow> SyntaxNode PatternPart option \<Rightarrow> PathVariable list option" where
  "pathVariable clauseIndex patternIndex pattern = (case pattern of
     Some (PatternPart (Some (Variable symbol)) shortest allShortest elements reversed) \<Rightarrow>
       if symbol = '''' then Some [] else do {
         dependencies \<leftarrow> patternDependencies (PatternPart (Some (Variable symbol)) shortest allShortest elements reversed);
         v \<leftarrow> fold (\<lambda>element v. Option.bind v (count_element element)) elements
           (Some \<lparr>pv_Symbol = symbol, pv_ClauseIndex = clauseIndex, pv_PatternIndex = patternIndex, pv_NodeCount = 0,
             pv_RelationshipCount = 0, pv_VariableLength = False, pv_Dependencies = dependencies\<rparr>);
         Some [v]
       }
   | _ \<Rightarrow> Some [])"

definition pathVariablesForMatch :: "int \<Rightarrow> SyntaxNode Match \<Rightarrow> PathVariable list option" where
  "pathVariablesForMatch clauseIndex match =
     map_option concat (those (map (\<lambda>(patternIndex, pattern). pathVariable clauseIndex patternIndex pattern) (indexed (mt_Pattern match))))"

definition wherePredicateCount :: "SyntaxNode Where option \<Rightarrow> int" where
  "wherePredicateCount whr = (case whr of None \<Rightarrow> 0 | Some w \<Rightarrow> int (el_Len (wh_Expressions w)))"

text \<open>\<open>bindingKey\<close> joins the kind, which has no colon, and the symbol: a pair.\<close>

definition bindingKey :: "Binding \<Rightarrow> BindingKind \<times> string" where
  "bindingKey binding = (bd_Kind binding, bd_Symbol binding)"

definition merge_unseen :: "('a \<Rightarrow> 'k) \<Rightarrow> 'a list \<Rightarrow> 'a list \<Rightarrow> 'a list" where
  "merge_unseen key existing next_items = fst (fold (\<lambda>item (merged, seen).
     if key item \<in> seen then (merged, seen) else (merged @ [item], insert (key item) seen)) next_items (existing, key ` set existing))"

definition mergeBindings :: "Binding list \<Rightarrow> Binding list \<Rightarrow> Binding list" where
  "mergeBindings = merge_unseen bindingKey"

definition mergePathVariables :: "PathVariable list \<Rightarrow> PathVariable list \<Rightarrow> PathVariable list" where
  "mergePathVariables = merge_unseen pv_Symbol"

section \<open>Regions and barriers\<close>

record reading_state =
  rs_regions :: "Region list"
  rs_barriers :: "Barrier list"
  rs_currentRegion :: "Region option"

definition closeRegion :: "reading_state \<Rightarrow> reading_state" where
  "closeRegion s = (case rs_currentRegion s of
     None \<Rightarrow> s
   | Some region \<Rightarrow> s\<lparr>rs_regions := rs_regions s @ [region], rs_currentRegion := None\<rparr>)"

definition extend_region :: "int \<Rightarrow> SyntaxNode Match \<Rightarrow> Region \<Rightarrow> Region option" where
  "extend_region clauseIndex match region = do {
     nextBindings \<leftarrow> bindingsForMatch clauseIndex match;
     nextPaths \<leftarrow> pathVariablesForMatch clauseIndex match;
     Some (region\<lparr>rg_EndClause := clauseIndex,
       rg_Clauses := rg_Clauses region @ [\<lparr>mc_Index = clauseIndex, mc_PatternCount = int (length (mt_Pattern match)),
         mc_WherePredicates = wherePredicateCount (mt_Where match)\<rparr>],
       rg_BindingOccurrences := rg_BindingOccurrences region @ nextBindings,
       rg_Bindings := mergeBindings (rg_Bindings region) nextBindings,
       rg_PathVariables := mergePathVariables (rg_PathVariables region) nextPaths,
       rg_Predicates := rg_Predicates region @ predicatesForWhere clauseIndex (mt_Where match)\<rparr>)
   }"

definition new_region :: "int \<Rightarrow> int \<Rightarrow> Region" where
  "new_region queryPartIndex clauseIndex = \<lparr>rg_QueryPartIndex = queryPartIndex, rg_StartClause = clauseIndex, rg_EndClause = clauseIndex,
     rg_Clauses = [], rg_Bindings = [], rg_BindingOccurrences = [], rg_PathVariables = [], rg_Predicates = []\<rparr>"

definition analyze_clause :: "int \<Rightarrow> int \<times> reading_clause \<Rightarrow> reading_state \<Rightarrow> reading_state option" where
  "analyze_clause queryPartIndex = (\<lambda>(clauseIndex, readingClause) s. case readingClause of
     None \<Rightarrow> Some (closeRegion s)
   | Some (ReadingClause match unwind) \<Rightarrow>
       if unwind \<noteq> None then
         (let s1 = closeRegion s in Some (s1\<lparr>rs_barriers := rs_barriers s1 @ [\<lparr>ba_QueryPartIndex = queryPartIndex,
            ba_ClauseIndex = clauseIndex, ba_Kind = BarrierKindUnwind, ba_Dependencies = dependenciesForReadingClause readingClause\<rparr>]\<rparr>))
       else (case match of
          None \<Rightarrow> Some s
        | Some m \<Rightarrow>
            if mt_Optional m then
              (let s1 = closeRegion s in Some (s1\<lparr>rs_barriers := rs_barriers s1 @ [\<lparr>ba_QueryPartIndex = queryPartIndex,
                 ba_ClauseIndex = clauseIndex, ba_Kind = BarrierKindOptionalMatch, ba_Dependencies = dependenciesForMatch match\<rparr>]\<rparr>))
            else
              map_option (\<lambda>region. s\<lparr>rs_currentRegion := Some region\<rparr>)
                (extend_region clauseIndex m (case rs_currentRegion s of Some region \<Rightarrow> region | None \<Rightarrow> new_region queryPartIndex clauseIndex))))"

fun analyze_clauses :: "int \<Rightarrow> (int \<times> reading_clause) list \<Rightarrow> reading_state \<Rightarrow> reading_state option" where
  "analyze_clauses queryPartIndex [] s = Some s"
| "analyze_clauses queryPartIndex (clause # clauses) s =
     Option.bind (analyze_clause queryPartIndex clause s) (analyze_clauses queryPartIndex clauses)"

definition analyzeReadingClauses :: "int \<Rightarrow> reading_clause list \<Rightarrow> (Region list \<times> Barrier list) option" where
  "analyzeReadingClauses queryPartIndex readingClauses =
     map_option (\<lambda>s. let s1 = closeRegion s in (rs_regions s1, rs_barriers s1))
       (analyze_clauses queryPartIndex (indexed readingClauses) \<lparr>rs_regions = [], rs_barriers = [], rs_currentRegion = None\<rparr>)"

text \<open>The barriers after the reading clauses of a query part.\<close>

definition closing_barriers :: "int \<Rightarrow> BarrierKind \<Rightarrow> nat \<Rightarrow> nat \<Rightarrow> string list option \<Rightarrow> Barrier list" where
  "closing_barriers index kind readings updates projection =
     (if updates > 0 then [\<lparr>ba_QueryPartIndex = index, ba_ClauseIndex = int readings, ba_Kind = BarrierKindUpdate, ba_Dependencies = []\<rparr>] else []) @
     (case projection of
        None \<Rightarrow> []
      | Some dependencies \<Rightarrow> [\<lparr>ba_QueryPartIndex = index, ba_ClauseIndex = int readings + int updates, ba_Kind = kind, ba_Dependencies = dependencies\<rparr>])"

definition analyzeMultiPartQueryPart :: "int \<Rightarrow> SyntaxNode MultiPartQueryPart option \<Rightarrow> QueryPart option" where
  "analyzeMultiPartQueryPart index part = (case part of
     None \<Rightarrow> Some \<lparr>qp_Index = index, qp_Kind = QueryPartKindMulti, qp_Regions = [], qp_Barriers = [], qp_ProjectionDependencies = []\<rparr>
   | Some (MultiPartQueryPart readings updates wth) \<Rightarrow>
       (let projection = map_option (\<lambda>w. projectionDependencies (wt_Projection w)) wth in
        map_option (\<lambda>(regions, barriers). \<lparr>qp_Index = index, qp_Kind = QueryPartKindMulti, qp_Regions = regions,
          qp_Barriers = barriers @ closing_barriers index BarrierKindWith (length readings) (length updates) projection,
          qp_ProjectionDependencies = (case projection of None \<Rightarrow> [] | Some ds \<Rightarrow> ds)\<rparr>) (analyzeReadingClauses index readings)))"

definition analyzeSinglePartQuery :: "int \<Rightarrow> QueryPartKind \<Rightarrow> SyntaxNode SinglePartQuery option \<Rightarrow> QueryPart option" where
  "analyzeSinglePartQuery index kind part = (case part of
     None \<Rightarrow> Some \<lparr>qp_Index = index, qp_Kind = kind, qp_Regions = [], qp_Barriers = [], qp_ProjectionDependencies = []\<rparr>
   | Some (SinglePartQuery _ readings updates ret) \<Rightarrow>
       (let projection = map_option (\<lambda>r. projectionDependencies (rt_Projection r)) ret in
        map_option (\<lambda>(regions, barriers). \<lparr>qp_Index = index, qp_Kind = kind, qp_Regions = regions,
          qp_Barriers = barriers @ closing_barriers index BarrierKindReturn (length readings) (length updates) projection,
          qp_ProjectionDependencies = (case projection of None \<Rightarrow> [] | Some ds \<Rightarrow> ds)\<rparr>) (analyzeReadingClauses index readings)))"

definition analyzeMultiPartQuery :: "SyntaxNode MultiPartQuery \<Rightarrow> Analysis option" where
  "analyzeMultiPartQuery query = do {
     parts \<leftarrow> those (map (\<lambda>(idx, part). analyzeMultiPartQueryPart idx part) (indexed (mq_Parts query)));
     final \<leftarrow> (if mq_SinglePartQuery query \<noteq> None
       then map_option (\<lambda>p. [p]) (analyzeSinglePartQuery (int (length (mq_Parts query))) QueryPartKindSingle (mq_SinglePartQuery query))
       else Some []);
     Some (parts @ final)
   }"

definition Analyze :: "SyntaxNode RegularQuery option \<Rightarrow> Analysis option" where
  "Analyze query = (case query of
     Some (RegularQuery (Some (SingleQuery singlePart multiPart))) \<Rightarrow>
       (case multiPart of
          Some m \<Rightarrow> analyzeMultiPartQuery m
        | None \<Rightarrow> if singlePart \<noteq> None
            then map_option (\<lambda>p. [p]) (analyzeSinglePartQuery 0 QueryPartKindSingle singlePart) else Some [])
   | _ \<Rightarrow> Some [])"

section \<open>What the regions are\<close>

text \<open>A clause that may stand inside a region, a plain MATCH, and a clause that ends regions with a barrier.\<close>

fun plain_clause :: "reading_clause \<Rightarrow> bool" where
  "plain_clause (Some (ReadingClause (Some m) None)) = (\<not> mt_Optional m)"
| "plain_clause (Some (ReadingClause None None)) = True"
| "plain_clause _ = False"

fun plain_match :: "reading_clause \<Rightarrow> bool" where
  "plain_match (Some (ReadingClause (Some m) None)) = (\<not> mt_Optional m)"
| "plain_match _ = False"

fun barrier_clause :: "reading_clause \<Rightarrow> bool" where
  "barrier_clause (Some (ReadingClause match (Some _))) = True"
| "barrier_clause (Some (ReadingClause (Some m) None)) = mt_Optional m"
| "barrier_clause _ = False"

definition region_ok :: "reading_clause list \<Rightarrow> Region \<Rightarrow> bool" where
  "region_ok clauses r \<longleftrightarrow> 0 \<le> rg_StartClause r \<and> rg_StartClause r \<le> rg_EndClause r \<and> rg_EndClause r < int (length clauses) \<and>
     (\<forall>j. rg_StartClause r \<le> int j \<and> int j \<le> rg_EndClause r \<longrightarrow> plain_clause (clauses ! j))"

definition open_regions :: "reading_state \<Rightarrow> Region list" where
  "open_regions s = rs_regions s @ (case rs_currentRegion s of None \<Rightarrow> [] | Some r \<Rightarrow> [r])"

definition in_order :: "Region list \<Rightarrow> bool" where
  "in_order = sorted_wrt (\<lambda>r r'. rg_EndClause r < rg_StartClause r')"

definition covered :: "reading_clause list \<Rightarrow> Region list \<Rightarrow> bool" where
  "covered clauses regions \<longleftrightarrow> (\<forall>j < length clauses. plain_match (clauses ! j) \<longrightarrow>
     (\<exists>r \<in> set regions. rg_StartClause r \<le> int j \<and> int j \<le> rg_EndClause r))"

definition barrier_indices :: "reading_clause list \<Rightarrow> int list" where
  "barrier_indices clauses = map int (filter (\<lambda>j. barrier_clause (clauses ! j)) [0..<length clauses])"

text \<open>No barrier came after the region that is still open.\<close>

definition extensible :: "reading_clause list \<Rightarrow> reading_state \<Rightarrow> bool" where
  "extensible clauses s \<longleftrightarrow> (\<forall>r j. rs_currentRegion s = Some r \<longrightarrow> j < length clauses \<longrightarrow> rg_EndClause r < int j \<longrightarrow> plain_clause (clauses ! j))"

definition analyze_inv :: "reading_clause list \<Rightarrow> reading_state \<Rightarrow> bool" where
  "analyze_inv clauses s \<longleftrightarrow>
     in_order (open_regions s) \<and> list_all (region_ok clauses) (open_regions s) \<and> covered clauses (open_regions s) \<and>
     extensible clauses s \<and> map ba_ClauseIndex (rs_barriers s) = barrier_indices clauses"

lemma indexed_append_one: "indexed (xs @ [x]) = indexed xs @ [(int (length xs), x)]"
  by (simp add: indexed_def enumerate_append_eq)

lemma analyze_clauses_append:
  "analyze_clauses q (xs @ ys) s = Option.bind (analyze_clauses q xs s) (analyze_clauses q ys)"
  by (induction xs arbitrary: s) (auto split: Option.bind_splits)

lemma region_ok_snoc: "region_ok clauses r \<Longrightarrow> region_ok (clauses @ [c]) r"
  by (auto simp: region_ok_def nth_append)

lemma closeRegion_open: "open_regions (closeRegion s) = open_regions s" "rs_currentRegion (closeRegion s) = None"
    "rs_barriers (closeRegion s) = rs_barriers s" "rs_regions (closeRegion s) = open_regions s"
  by (simp_all add: closeRegion_def open_regions_def split: option.splits)

lemma open_regions_barriers: "open_regions (s\<lparr>rs_barriers := b\<rparr>) = open_regions s"
  by (simp add: open_regions_def)

lemma barrier_indices_snoc:
  "barrier_indices (clauses @ [c]) = barrier_indices clauses @ (if barrier_clause c then [int (length clauses)] else [])"
  by (auto simp: barrier_indices_def nth_append intro!: filter_cong)

lemma covered_snoc:
  "covered clauses regions \<Longrightarrow> \<not> plain_match c \<Longrightarrow> covered (clauses @ [c]) regions"
  by (auto simp: covered_def nth_append less_Suc_eq)

lemma analyze_inv_same_regions:
  assumes "analyze_inv clauses s" "open_regions s' = open_regions s" "\<not> plain_match c"
    "rs_currentRegion s' = None \<or> rs_currentRegion s' = rs_currentRegion s \<and> plain_clause c"
    "map ba_ClauseIndex (rs_barriers s') = map ba_ClauseIndex (rs_barriers s) @ (if barrier_clause c then [int (length clauses)] else [])"
  shows "analyze_inv (clauses @ [c]) s'"
proof -
  have "list_all (region_ok (clauses @ [c])) (open_regions s')"
    using assms(1,2) region_ok_snoc by (simp add: analyze_inv_def list_all_iff)
  moreover have "covered (clauses @ [c]) (open_regions s')" using assms(1-3) covered_snoc by (simp add: analyze_inv_def)
  moreover have "extensible (clauses @ [c]) s'"
    using assms(1,4) unfolding analyze_inv_def extensible_def by (auto simp: nth_append less_Suc_eq)
  ultimately show ?thesis using assms(1,2,5) by (simp add: analyze_inv_def barrier_indices_snoc)
qed

lemma extend_region_bounds:
  "extend_region i m region = Some region' \<Longrightarrow> rg_StartClause region' = rg_StartClause region \<and> rg_EndClause region' = i"
  by (auto simp: extend_region_def bind_eq_Some_conv)

text \<open>The region a plain MATCH extends or opens.\<close>

lemma analyze_inv_extend:
  assumes inv: "analyze_inv clauses s" and c: "plain_match c"
    and region: "region = (case rs_currentRegion s of Some r \<Rightarrow> r | None \<Rightarrow> new_region q (int (length clauses)))"
    and r': "rg_StartClause r' = rg_StartClause region" "rg_EndClause r' = int (length clauses)"
  shows "analyze_inv (clauses @ [c]) (s\<lparr>rs_currentRegion := Some r'\<rparr>)"
proof -
  let ?n = "length clauses" and ?s' = "s\<lparr>rs_currentRegion := Some r'\<rparr>"
  have plain: "plain_clause c" "\<not> barrier_clause c" using c by (cases c rule: plain_match.cases; simp)+
  have regs: "list_all (region_ok clauses) (rs_regions s)" "in_order (rs_regions s)"
    using inv by (auto simp: analyze_inv_def open_regions_def in_order_def sorted_wrt_append)
  have start: "0 \<le> rg_StartClause r'" "rg_StartClause r' \<le> int ?n" "list_all (\<lambda>r. rg_EndClause r < rg_StartClause r') (rs_regions s)"
    using inv region r' regs
    by (auto simp: analyze_inv_def open_regions_def in_order_def sorted_wrt_append region_ok_def list_all_iff new_region_def split: option.splits)
  have "plain_clause ((clauses @ [c]) ! j)" if "rg_StartClause r' \<le> int j" "int j \<le> int ?n" for j
  proof (cases "j = ?n")
    case False
    then have j: "j < ?n" using that by simp
    show ?thesis
    proof (cases "rs_currentRegion s")
      case None
      with region r' that j show ?thesis by (simp add: new_region_def)
    next
      case (Some r)
      with inv have "region_ok clauses r" "extensible clauses s" by (auto simp: analyze_inv_def open_regions_def)
      then show ?thesis
        using that Some j region r' by (cases "int j \<le> rg_EndClause r") (auto simp: region_ok_def extensible_def nth_append)
    qed
  qed (use plain in simp)
  then have ok: "region_ok (clauses @ [c]) r'" using start r' by (simp add: region_ok_def)
  have "covered (clauses @ [c]) (rs_regions s @ [r'])"
    unfolding covered_def
  proof (intro allI impI)
    fix j assume j: "j < length (clauses @ [c])" "plain_match ((clauses @ [c]) ! j)"
    show "\<exists>r \<in> set (rs_regions s @ [r']). rg_StartClause r \<le> int j \<and> int j \<le> rg_EndClause r"
    proof (cases "j = ?n")
      case False
      with j inv obtain r where r: "r \<in> set (open_regions s)" "rg_StartClause r \<le> int j" "int j \<le> rg_EndClause r"
        by (auto simp: analyze_inv_def covered_def nth_append less_Suc_eq)
      show ?thesis
      proof (cases "r \<in> set (rs_regions s)")
        case True
        with r show ?thesis by auto
      next
        case False
        with r(1) have "rs_currentRegion s = Some r" by (auto simp: open_regions_def split: option.splits)
        with r region r' j show ?thesis by auto
      qed
    qed (use start r' in auto)
  qed
  moreover have "in_order (rs_regions s @ [r'])" using regs start by (simp add: in_order_def sorted_wrt_append list_all_iff)
  moreover have "list_all (region_ok (clauses @ [c])) (rs_regions s @ [r'])"
    using regs(1) ok region_ok_snoc by (simp add: list_all_iff)
  moreover have "extensible (clauses @ [c]) ?s'" using r' by (auto simp: extensible_def)
  ultimately show ?thesis
    using inv plain by (simp add: analyze_inv_def open_regions_def barrier_indices_snoc)
qed

lemma analyze_inv_clause:
  assumes "analyze_inv clauses s" "analyze_clause q (int (length clauses), c) s = Some s'"
  shows "analyze_inv (clauses @ [c]) s'"
proof -
  consider "c = None" | m u where "c = Some (ReadingClause m (Some u))" | "c = Some (ReadingClause None None)"
    | m where "c = Some (ReadingClause (Some m) None)" "mt_Optional m" | m where "c = Some (ReadingClause (Some m) None)" "\<not> mt_Optional m"
    by (metis ReadingClause.exhaust option.exhaust)
  then show ?thesis
  proof cases
    case (5 m)
    with assms(2) obtain r' where r': "extend_region (int (length clauses)) m
        (case rs_currentRegion s of Some r \<Rightarrow> r | None \<Rightarrow> new_region q (int (length clauses))) = Some r'"
      and s': "s' = s\<lparr>rs_currentRegion := Some r'\<rparr>"
      by (auto simp: analyze_clause_def)
    from extend_region_bounds [OF r'] show ?thesis
      unfolding s' by (intro analyze_inv_extend [OF assms(1) _ refl]) (use 5 in auto)
  next
    case 1
    with assms(2) have "s' = closeRegion s" by (simp add: analyze_clause_def)
    with 1 show ?thesis by (intro analyze_inv_same_regions [OF assms(1)]) (simp_all add: closeRegion_open)
  next
    case (2 m u)
    with assms(2) have "s' = (closeRegion s)\<lparr>rs_barriers := rs_barriers s @ [\<lparr>ba_QueryPartIndex = q, ba_ClauseIndex = int (length clauses),
        ba_Kind = BarrierKindUnwind, ba_Dependencies = dependenciesForReadingClause c\<rparr>]\<rparr>"
      by (simp add: analyze_clause_def Let_def closeRegion_open)
    with 2 show ?thesis
      by (intro analyze_inv_same_regions [OF assms(1)]) (simp_all add: closeRegion_open open_regions_barriers)
  next
    case 3
    with assms(2) have "s' = s" by (simp add: analyze_clause_def)
    with 3 show ?thesis by (intro analyze_inv_same_regions [OF assms(1)]) simp_all
  next
    case (4 m)
    with assms(2) have "s' = (closeRegion s)\<lparr>rs_barriers := rs_barriers s @ [\<lparr>ba_QueryPartIndex = q, ba_ClauseIndex = int (length clauses),
        ba_Kind = BarrierKindOptionalMatch, ba_Dependencies = dependenciesForMatch (Some m)\<rparr>]\<rparr>"
      by (simp add: analyze_clause_def Let_def closeRegion_open)
    with 4 show ?thesis
      by (intro analyze_inv_same_regions [OF assms(1)]) (simp_all add: closeRegion_open open_regions_barriers)
  qed
qed

lemma analyze_clauses_inv:
  "analyze_clauses q (indexed clauses) \<lparr>rs_regions = [], rs_barriers = [], rs_currentRegion = None\<rparr> = Some s \<Longrightarrow> analyze_inv clauses s"
proof (induction clauses arbitrary: s rule: rev_induct)
  case Nil
  then show ?case by (auto simp: indexed_def analyze_inv_def open_regions_def in_order_def covered_def extensible_def barrier_indices_def)
next
  case (snoc c clauses)
  then obtain s1 where "analyze_clauses q (indexed clauses) \<lparr>rs_regions = [], rs_barriers = [], rs_currentRegion = None\<rparr> = Some s1"
    and step: "analyze_clause q (int (length clauses), c) s1 = Some s"
    by (auto simp: indexed_append_one analyze_clauses_append bind_eq_Some_conv)
  from snoc.IH [OF this(1)] step show ?case by (rule analyze_inv_clause)
qed

lemma analyzeReadingClauses_regions:
  assumes "analyzeReadingClauses q clauses = Some (regions, barriers)"
  shows "in_order regions" "list_all (region_ok clauses) regions" "covered clauses regions"
    "map ba_ClauseIndex barriers = barrier_indices clauses"
proof -
  from assms obtain s where s: "analyze_clauses q (indexed clauses) \<lparr>rs_regions = [], rs_barriers = [], rs_currentRegion = None\<rparr> = Some s"
    and r: "regions = open_regions s" "barriers = rs_barriers s"
    by (auto simp: analyzeReadingClauses_def Let_def closeRegion_open)
  from analyze_clauses_inv [OF s] r
  show "in_order regions" "list_all (region_ok clauses) regions" "covered clauses regions"
    "map ba_ClauseIndex barriers = barrier_indices clauses" by (simp_all add: analyze_inv_def)
qed

section \<open>Properties\<close>

definition plain_optional_plain :: "reading_clause list" where
  "plain_optional_plain = [Some (ReadingClause (Some (Match False [] None)) None), Some (ReadingClause (Some (Match True [] None)) None),
     Some (ReadingClause (Some (Match False [] None)) None)]"

text \<open>C40. The regions of a query part come in the order of its clauses and do not overlap, lie within the clauses and hold no
  UNWIND, no OPTIONAL MATCH and no nil clause; every plain MATCH lies in a region; and there is one barrier, in order, for
  every UNWIND and OPTIONAL MATCH.\<close>

theorem regions_partition_clauses:
  assumes "analyzeReadingClauses queryPartIndex clauses = Some (regions, barriers)"
  shows "in_order regions \<and> list_all (region_ok clauses) regions \<and> covered clauses regions \<and>
    map ba_ClauseIndex barriers = barrier_indices clauses"
  using analyzeReadingClauses_regions [OF assms] by simp

theorem regions_partition_clauses_witness:
  "in_order (fst (the (analyzeReadingClauses 0 plain_optional_plain))) \<and>
   list_all (region_ok plain_optional_plain) (fst (the (analyzeReadingClauses 0 plain_optional_plain))) \<and>
   covered plain_optional_plain (fst (the (analyzeReadingClauses 0 plain_optional_plain))) \<and>
   map ba_ClauseIndex (snd (the (analyzeReadingClauses 0 plain_optional_plain))) = barrier_indices plain_optional_plain"
proof (rule regions_partition_clauses)
  have "analyzeReadingClauses 0 plain_optional_plain \<noteq> None" by code_simp
  then show "analyzeReadingClauses 0 plain_optional_plain =
      Some (fst (the (analyzeReadingClauses 0 plain_optional_plain)), snd (the (analyzeReadingClauses 0 plain_optional_plain)))"
    by simp
qed

end
