(* ===== verification/Opt_Selectivity.thy ===== *)
theory Opt_Selectivity
  imports Opt_Analysis "HOL-Library.AList"
begin

text \<open>
  The heuristics of the optimizer for how much a pattern or predicate narrows a search: src/cypher/models/pgsql/optimize/source_references.go
  and the helpers of src/cypher/models/pgsql/optimize/lowering_plan.go that the rules of reordering.go and direction.go use.

  A type assertion to a pointer type succeeds on a nil pointer of that type; reading a field of it panics, which is \<open>None\<close>. The
  keys of \<open>matchPatternDeclarations\<close> are pointers; the model keeps the pattern parts they point to.
\<close>

section \<open>References to source identifiers\<close>

record sourceReferenceCollector =
  sr_referencedIdentifiers :: "string set"
  sr_matchPatternDeclarationRefs :: "(string \<times> nat) list"
  sr_matchPatternDeclarations :: "SyntaxNode PatternPart option set"
  sr_matchPatternDeclarationDepth :: int

definition newSourceReferenceCollector :: sourceReferenceCollector where
  "newSourceReferenceCollector = \<lparr>sr_referencedIdentifiers = {}, sr_matchPatternDeclarationRefs = [],
     sr_matchPatternDeclarations = {}, sr_matchPatternDeclarationDepth = 0\<rparr>"

definition variableSymbol :: "Variable option \<Rightarrow> string" where
  "variableSymbol variable = (case variable of None \<Rightarrow> '''' | Some v \<Rightarrow> var_Symbol v)"

definition sr_addVariable :: "Variable option \<Rightarrow> sourceReferenceCollector \<Rightarrow> sourceReferenceCollector" where
  "sr_addVariable variable s = (if variableSymbol variable \<noteq> ''''
     then s\<lparr>sr_referencedIdentifiers := insert (variableSymbol variable) (sr_referencedIdentifiers s)\<rparr> else s)"

definition addMatchPatternDeclaration :: "Variable option \<Rightarrow> sourceReferenceCollector \<Rightarrow> sourceReferenceCollector" where
  "addMatchPatternDeclaration variable s = (if variableSymbol variable \<noteq> ''''
     then s\<lparr>sr_matchPatternDeclarationRefs :=
       AList.map_default (variableSymbol variable) 1 (\<lambda>n. n + 1) (sr_matchPatternDeclarationRefs s)\<rparr> else s)"

definition collectRepeatedMatchPatternDeclarations :: "sourceReferenceCollector \<Rightarrow> sourceReferenceCollector" where
  "collectRepeatedMatchPatternDeclarations s =
     s\<lparr>sr_referencedIdentifiers := sr_referencedIdentifiers s \<union>
       set (map fst (filter (\<lambda>(identifier, numDeclarations). numDeclarations > 1) (sr_matchPatternDeclarationRefs s)))\<rparr>"

definition isMatchPatternDeclaration :: "SyntaxNode PatternPart option \<Rightarrow> sourceReferenceCollector \<Rightarrow> bool" where
  "isMatchPatternDeclaration patternPart s \<longleftrightarrow> patternPart \<in> sr_matchPatternDeclarations s"

definition declare_or_reference :: "Variable option \<Rightarrow> sourceReferenceCollector \<Rightarrow> sourceReferenceCollector" where
  "declare_or_reference variable s = (if sr_matchPatternDeclarationDepth s = 0
     then sr_addVariable variable s else addMatchPatternDeclaration variable s)"

definition sr_Enter :: "node \<Rightarrow> sourceReferenceCollector \<Rightarrow> sourceReferenceCollector" where
  "sr_Enter node s = (case node of
     Some (N_Match (Some m)) \<Rightarrow> s\<lparr>sr_matchPatternDeclarations := sr_matchPatternDeclarations s \<union> set (mt_Pattern m)\<rparr>
   | Some (N_PatternPart (Some p)) \<Rightarrow>
       if isMatchPatternDeclaration (Some p) s
       then (let s1 = addMatchPatternDeclaration (pt_Variable p) s in
             s1\<lparr>sr_matchPatternDeclarationDepth := sr_matchPatternDeclarationDepth s1 + 1\<rparr>)
       else sr_addVariable (pt_Variable p) s
   | Some (N_NodePattern (Some n)) \<Rightarrow> declare_or_reference (np_Variable n) s
   | Some (N_RelationshipPattern (Some r)) \<Rightarrow> declare_or_reference (rp_Variable r) s
   | Some (N_PropertyLookup (Some l)) \<Rightarrow> (case pl_Atom l of Some (N_Variable variable) \<Rightarrow> sr_addVariable variable s | _ \<Rightarrow> s)
   | Some (N_Variable variable) \<Rightarrow> if sr_matchPatternDeclarationDepth s = 0 then sr_addVariable variable s else s
   | _ \<Rightarrow> s)"

definition sr_Exit :: "node \<Rightarrow> sourceReferenceCollector \<Rightarrow> sourceReferenceCollector" where
  "sr_Exit node s = (case node of
     Some (N_PatternPart patternPart) \<Rightarrow> if isMatchPatternDeclaration patternPart s
       then s\<lparr>sr_matchPatternDeclarationDepth := sr_matchPatternDeclarationDepth s - 1\<rparr> else s
   | _ \<Rightarrow> s)"

definition source_reference_visitor :: "(node, sourceReferenceCollector, unit) Visitor" where
  "source_reference_visitor = \<lparr>Visitor_Enter = (\<lambda>node (s, h). (sr_Enter node s, h)), Visitor_Visit = (\<lambda>node s. s),
     Visitor_Exit = (\<lambda>node (s, h). (sr_Exit node s, h))\<rparr>"

text \<open>The identifiers and whether the walk returned an error.\<close>

definition collectReferencedSourceIdentifiers :: "node \<Rightarrow> string set \<times> bool" where
  "collectReferencedSourceIdentifiers root = (if root = None then ({}, False) else
     (case Cypher root source_reference_visitor (newSourceReferenceCollector, NewCancelableErrorHandler) of
        Some (None, s, _) \<Rightarrow> (sr_referencedIdentifiers (collectRepeatedMatchPatternDeclarations s), False)
      | Some (Some _, s, _) \<Rightarrow> (sr_referencedIdentifiers s, True)
      | None \<Rightarrow> ({}, True)))"

definition referencesSourceIdentifier :: "string set \<Rightarrow> string \<Rightarrow> bool" where
  "referencesSourceIdentifier references symbol \<longleftrightarrow>
     (if TokenLiteralAsterisk \<in> references then True else if symbol = '''' then False else symbol \<in> references)"

definition expressionReferencesAnySource :: "node \<Rightarrow> bool" where
  "expressionReferencesAnySource expression = (case expression of
     None \<Rightarrow> False
   | Some (N_Literal _) \<Rightarrow> False
   | Some (N_Parameter _) \<Rightarrow> False
   | _ \<Rightarrow> (case collectReferencedSourceIdentifiers expression of (references, err) \<Rightarrow> err \<or> references \<noteq> {}))"

section \<open>Selectivity of expressions\<close>

type_synonym boundSourceSelectivity = nat

definition boundSourceSelectivityNone :: boundSourceSelectivity where "boundSourceSelectivityNone = 0"
definition boundSourceSelectivityKindOnly :: boundSourceSelectivity where "boundSourceSelectivityKindOnly = 1"
definition boundSourceSelectivityPredicate :: boundSourceSelectivity where "boundSourceSelectivityPredicate = 2"
definition boundSourceSelectivityUnique :: boundSourceSelectivity where "boundSourceSelectivityUnique = 3"
definition boundSourceSelectivityLimited :: boundSourceSelectivity where "boundSourceSelectivityLimited = 4"
definition boundSourceSelectivityTopN :: boundSourceSelectivity where "boundSourceSelectivityTopN = 5"

lemmas selectivity_defs = boundSourceSelectivityNone_def boundSourceSelectivityKindOnly_def boundSourceSelectivityPredicate_def
  boundSourceSelectivityUnique_def boundSourceSelectivityLimited_def boundSourceSelectivityTopN_def

definition mergeSelectivityValue :: "boundSourceSelectivity \<Rightarrow> boundSourceSelectivity \<Rightarrow> boundSourceSelectivity" where
  "mergeSelectivityValue current new = (if new > current then new else current)"

text \<open>
  \<open>strings.EqualFold\<close> against a word in lower case without \<open>k\<close> and \<open>s\<close>, the two letters with a case variant outside ASCII.
\<close>

definition lower_ascii :: "char \<Rightarrow> char" where
  "lower_ascii c = (if 65 \<le> (of_char c :: nat) \<and> (of_char c :: nat) \<le> 90 then char_of (of_char c + 32 :: nat) else c)"

definition EqualFold :: "string \<Rightarrow> string \<Rightarrow> bool" where
  "EqualFold s t \<longleftrightarrow> map lower_ascii s = map lower_ascii t"

definition expressionIsConstant :: "node \<Rightarrow> bool" where
  "expressionIsConstant expression = (case expression of
     Some (N_Literal literal) \<Rightarrow> (case literal of None \<Rightarrow> False | Some l \<Rightarrow> \<not> lit_Null l)
   | Some (N_Parameter parameter) \<Rightarrow> parameter \<noteq> None
   | _ \<Rightarrow> False)"

definition propertySelectivity :: "string \<Rightarrow> node \<Rightarrow> boundSourceSelectivity" where
  "propertySelectivity property val =
     (if EqualFold property ''objectid'' \<and> expressionIsConstant val then boundSourceSelectivityUnique
      else if expressionIsConstant val then boundSourceSelectivityPredicate
      else boundSourceSelectivityNone)"

definition propertyConstraintSelectivity :: "node \<Rightarrow> boundSourceSelectivity" where
  "propertyConstraintSelectivity expression = (case expression of
     Some (N_Properties (Some (Properties entries None))) \<Rightarrow>
       fold (\<lambda>(property, val) highest. mergeSelectivityValue highest (propertySelectivity property val))
         (case entries of None \<Rightarrow> [] | Some es \<Rightarrow> es) boundSourceSelectivityNone
   | _ \<Rightarrow> boundSourceSelectivityNone)"

definition propertyLookupSymbol :: "node \<Rightarrow> (string \<times> string) option" where
  "propertyLookupSymbol expression = (case expression of
     Some (N_PropertyLookup (Some (PropertyLookup (Some (N_Variable (Some (Variable symbol)))) property))) \<Rightarrow>
       if symbol = '''' \<or> property = '''' then None else Some (symbol, property)
   | _ \<Rightarrow> None)"

definition propertyLookupVariableSymbol :: "node \<Rightarrow> string option" where
  "propertyLookupVariableSymbol expression = (case expression of
     Some (N_PropertyLookup (Some (PropertyLookup (Some (N_Variable (Some (Variable symbol)))) _))) \<Rightarrow>
       if symbol = '''' then None else Some symbol
   | _ \<Rightarrow> None)"

text \<open>
  A comparison with one partial: its left side, operator and right side. The outer option is \<open>None\<close> for the panic on a nil comparison
  or partial, the inner one for an expression of another shape.
\<close>

definition single_comparison :: "node \<Rightarrow> (node \<times> string \<times> node) option option" where
  "single_comparison expression = (case expression of
     Some (N_Comparison None) \<Rightarrow> None
   | Some (N_Comparison (Some (Comparison left [partial]))) \<Rightarrow>
       map_option (\<lambda>p. Some (left, pc_Operator p, pc_Right p)) partial
   | _ \<Rightarrow> Some None)"

definition propertyPredicateSelectivity :: "node \<Rightarrow> (string \<times> boundSourceSelectivity) option option" where
  "propertyPredicateSelectivity expression = map_option (\<lambda>comparison. case comparison of
     None \<Rightarrow> None
   | Some (left, operator, right) \<Rightarrow>
       if operator \<noteq> ''='' then None
       else (case propertyLookupSymbol left of
         Some (symbol, property) \<Rightarrow> if \<not> expressionReferencesAnySource right then Some (symbol, propertySelectivity property right)
           else (case propertyLookupSymbol right of
             Some (symbol, property) \<Rightarrow> if \<not> expressionReferencesAnySource left then Some (symbol, propertySelectivity property left) else None
           | None \<Rightarrow> None)
       | None \<Rightarrow> (case propertyLookupSymbol right of
             Some (symbol, property) \<Rightarrow> if \<not> expressionReferencesAnySource left then Some (symbol, propertySelectivity property left) else None
           | None \<Rightarrow> None))) (single_comparison expression)"

definition isEndpointSearchOperator :: "string \<Rightarrow> bool" where
  "isEndpointSearchOperator operator \<longleftrightarrow> operator \<in>
     {''='', ''=~'', ''>'', ''>='', ''<'', ''<='', ''starts with'', ''ends with'', ''contains'', ''in''}"

definition shortestPathSearchPredicateSymbol :: "node \<Rightarrow> string option option" where
  "shortestPathSearchPredicateSymbol expression = map_option (\<lambda>comparison. case comparison of
     None \<Rightarrow> None
   | Some (left, operator, right) \<Rightarrow>
       if \<not> isEndpointSearchOperator operator then None
       else if propertyLookupVariableSymbol left \<noteq> None \<and> \<not> expressionReferencesAnySource right then propertyLookupVariableSymbol left
       else if propertyLookupVariableSymbol right \<noteq> None \<and> \<not> expressionReferencesAnySource left then propertyLookupVariableSymbol right
       else None) (single_comparison expression)"

function cypherConjunctionTerms :: "node \<Rightarrow> node list option" where
  "cypherConjunctionTerms expression = (case expression of
     Some (N_Conjunction conjunction) \<Rightarrow> (case conjunction of
        None \<Rightarrow> None
      | Some (Conjunction expressions) \<Rightarrow> map_option concat (those (map cypherConjunctionTerms expressions)))
   | _ \<Rightarrow> Some [expression])"
  by auto

termination cypherConjunctionTerms
  by (relation "measure (size_option size)") (auto dest!: size_in_list [where f = "size_option size"])

declare cypherConjunctionTerms.simps [simp del]

definition addSymbol :: "string \<Rightarrow> string set \<Rightarrow> string set" where
  "addSymbol symbol symbols = (if symbol \<noteq> '''' then insert symbol symbols else symbols)"

definition addShortestPathSearchPredicateSymbols :: "node \<Rightarrow> string set \<Rightarrow> string set option" where
  "addShortestPathSearchPredicateSymbols expression symbols = do {
     terms \<leftarrow> cypherConjunctionTerms expression;
     found \<leftarrow> those (map shortestPathSearchPredicateSymbol terms);
     Some (fold (\<lambda>symbol symbols. case symbol of Some s \<Rightarrow> addSymbol s symbols | None \<Rightarrow> symbols) found symbols)
   }"

section \<open>Selectivity of patterns and clauses\<close>

definition nodePatternSelectivity :: "SyntaxNode NodePattern option \<Rightarrow> bool \<Rightarrow> boundSourceSelectivity" where
  "nodePatternSelectivity nodePattern hasAttachedPredicate = (case nodePattern of
     None \<Rightarrow> boundSourceSelectivityNone
   | Some n \<Rightarrow>
       (let base = (case np_Kinds n of Some (_ # _) \<Rightarrow> boundSourceSelectivityKindOnly | _ \<Rightarrow> boundSourceSelectivityNone);
            constrained = mergeSelectivityValue base (propertyConstraintSelectivity (np_Properties n))
        in if hasAttachedPredicate then mergeSelectivityValue constrained boundSourceSelectivityPredicate else constrained))"

text \<open>Every node pattern of a part, nil pointers included.\<close>

definition nodePatternsForPattern :: "SyntaxNode PatternPart option \<Rightarrow> SyntaxNode NodePattern option list" where
  "nodePatternsForPattern patternPart = (case patternPart of
     None \<Rightarrow> []
   | Some p \<Rightarrow> concat (map (\<lambda>element. case AsNodePattern element of Some n \<Rightarrow> [n] | None \<Rightarrow> []) (pt_PatternElements p)))"

record sourceTraversalStep =
  st_LeftNode :: "SyntaxNode NodePattern option"
  st_Relationship :: "SyntaxNode RelationshipPattern option"
  st_RightNode :: "SyntaxNode NodePattern option"

record step_scan =
  sc_steps :: "sourceTraversalStep list"
  sc_leftNode :: "SyntaxNode NodePattern option"
  sc_relationship :: "SyntaxNode RelationshipPattern option"

definition scan_element :: "SyntaxNode PatternElement option \<Rightarrow> step_scan \<Rightarrow> step_scan" where
  "scan_element element s = (case AsNodePattern element of
     Some nodePattern \<Rightarrow>
       if sc_leftNode s = None then s\<lparr>sc_leftNode := nodePattern\<rparr>
       else (s\<lparr>sc_steps := (if sc_relationship s \<noteq> None
           then sc_steps s @ [\<lparr>st_LeftNode = sc_leftNode s, st_Relationship = sc_relationship s, st_RightNode = nodePattern\<rparr>] else sc_steps s),
         sc_leftNode := nodePattern, sc_relationship := None\<rparr>)
   | None \<Rightarrow> (case AsRelationshipPattern element of Some r \<Rightarrow> s\<lparr>sc_relationship := r\<rparr> | None \<Rightarrow> s))"

definition traversalStepsForPattern :: "SyntaxNode PatternPart option \<Rightarrow> sourceTraversalStep list" where
  "traversalStepsForPattern patternPart = (case patternPart of
     None \<Rightarrow> []
   | Some p \<Rightarrow> sc_steps (fold scan_element (pt_PatternElements p) \<lparr>sc_steps = [], sc_leftNode = None, sc_relationship = None\<rparr>))"

definition step_selectivity :: "sourceTraversalStep \<Rightarrow> boundSourceSelectivity \<Rightarrow> boundSourceSelectivity" where
  "step_selectivity step selectivity = (case st_Relationship step of
     None \<Rightarrow> selectivity
   | Some r \<Rightarrow> mergeSelectivityValue
       (case rp_Kinds r of Some (_ # _) \<Rightarrow> mergeSelectivityValue selectivity boundSourceSelectivityKindOnly | _ \<Rightarrow> selectivity)
       (propertyConstraintSelectivity (rp_Properties r)))"

definition pattern_selectivity :: "SyntaxNode PatternPart option \<Rightarrow> boundSourceSelectivity \<Rightarrow> boundSourceSelectivity" where
  "pattern_selectivity patternPart selectivity =
     fold step_selectivity (traversalStepsForPattern patternPart)
       (fold (\<lambda>n s. mergeSelectivityValue s (nodePatternSelectivity n False)) (nodePatternsForPattern patternPart) selectivity)"

definition term_selectivity :: "node \<Rightarrow> boundSourceSelectivity option" where
  "term_selectivity trm = map_option (\<lambda>found. case found of
     Some (_, termSelectivity) \<Rightarrow> termSelectivity | None \<Rightarrow> boundSourceSelectivityPredicate) (propertyPredicateSelectivity trm)"

definition matchClauseSelectivity :: "reading_clause \<Rightarrow> boundSourceSelectivity option" where
  "matchClauseSelectivity readingClause = (case readingClause of
     Some (ReadingClause (Some m) _) \<Rightarrow> do {
       terms \<leftarrow> (case mt_Where m of None \<Rightarrow> Some []
         | Some w \<Rightarrow> map_option concat (those (map cypherConjunctionTerms (wh_Expressions w))));
       selectivities \<leftarrow> those (map term_selectivity terms);
       Some (fold (\<lambda>new s. mergeSelectivityValue s new) selectivities (fold pattern_selectivity (mt_Pattern m) boundSourceSelectivityNone))
     }
   | _ \<Rightarrow> Some boundSourceSelectivityNone)"

section \<open>Symbols in scope\<close>

definition declarePatternSymbols :: "SyntaxNode PatternPart option \<Rightarrow> string set \<Rightarrow> string set option" where
  "declarePatternSymbols patternPart declared = (case patternPart of
     None \<Rightarrow> Some declared
   | Some p \<Rightarrow> map_option (\<lambda>symbols. fold addSymbol symbols (addSymbol (variableSymbol (pt_Variable p)) declared))
       (those (map (on_element (\<lambda>n. variableSymbol (np_Variable n)) (\<lambda>r. variableSymbol (rp_Variable r)) '''') (pt_PatternElements p))))"

definition declareWhereSymbols :: "SyntaxNode Match \<Rightarrow> string set \<Rightarrow> string set" where
  "declareWhereSymbols match declared = fold addSymbol (dependenciesForMatch (Some match)) declared"

definition declareMatchSymbols :: "SyntaxNode Match option \<Rightarrow> string set \<Rightarrow> string set option" where
  "declareMatchSymbols match declared = (case match of
     None \<Rightarrow> Some declared
   | Some m \<Rightarrow> map_option (declareWhereSymbols m)
       (fold (\<lambda>patternPart declared. Option.bind declared (declarePatternSymbols patternPart)) (mt_Pattern m) (Some declared)))"

definition expressionVariableSymbol :: "node \<Rightarrow> string option" where
  "expressionVariableSymbol expression = (case expression of
     Some (N_Variable (Some (Variable symbol))) \<Rightarrow> if symbol = '''' then None else Some symbol
   | _ \<Rightarrow> None)"

definition projectionItemVariableSymbolAndAlias :: "node \<Rightarrow> (string \<times> string) option" where
  "projectionItemVariableSymbolAndAlias expression = (case expression of
     Some (N_ProjectionItem (Some (ProjectionItem e alias))) \<Rightarrow> (case expressionVariableSymbol e of
        None \<Rightarrow> None
      | Some symbol \<Rightarrow> (case alias of
          None \<Rightarrow> Some (symbol, symbol)
        | Some (Variable a) \<Rightarrow> if a = '''' then None else Some (symbol, a)))
   | _ \<Rightarrow> None)"

definition expressionHasAggregate :: "node \<Rightarrow> bool" where
  "expressionHasAggregate expression = (case expression of
     Some (N_FunctionInvocation (Some f)) \<Rightarrow> EqualFold (fi_Name f) ''count'' | _ \<Rightarrow> False)"

definition projectionHasAggregate :: "SyntaxNode Projection option \<Rightarrow> bool" where
  "projectionHasAggregate projection = (case projection of
     None \<Rightarrow> False
   | Some p \<Rightarrow> list_ex (\<lambda>item. case item of Some (N_ProjectionItem (Some i)) \<Rightarrow> expressionHasAggregate (pi_Expression i) | _ \<Rightarrow> False) (pj_Items p))"

definition projectionCardinalitySelectivity :: "SyntaxNode Projection option \<Rightarrow> boundSourceSelectivity" where
  "projectionCardinalitySelectivity projection = (case projection of
     None \<Rightarrow> boundSourceSelectivityNone
   | Some p \<Rightarrow> if pj_Limit p = None then boundSourceSelectivityNone
       else if pj_Order p \<noteq> None \<or> projectionHasAggregate projection then boundSourceSelectivityTopN else boundSourceSelectivityLimited)"

definition projectionCarriesAllSymbols :: "SyntaxNode Projection option \<Rightarrow> bool" where
  "projectionCarriesAllSymbols projection = (case projection of
     None \<Rightarrow> False
   | Some p \<Rightarrow> pj_All p \<or> pj_Items p = [] \<or>
       list_ex (\<lambda>item. map_option fst (projectionItemVariableSymbolAndAlias item) = Some TokenLiteralAsterisk \<or>
         expressionVariableSymbol item = Some TokenLiteralAsterisk) (pj_Items p))"

text \<open>A map from symbols to selectivities is a function; a symbol that is not in the map reads as 0.\<close>

definition mergeBoundSourceSelectivity :: "string \<Rightarrow> boundSourceSelectivity \<Rightarrow> (string \<Rightarrow> boundSourceSelectivity) \<Rightarrow> string \<Rightarrow> boundSourceSelectivity" where
  "mergeBoundSourceSelectivity symbol selectivity symbols = symbols(symbol := mergeSelectivityValue (symbols symbol) selectivity)"

definition carryProjectionSelectivity ::
    "SyntaxNode Projection option \<Rightarrow> string set \<Rightarrow> (string \<Rightarrow> boundSourceSelectivity) \<Rightarrow> string set \<times> (string \<Rightarrow> boundSourceSelectivity)" where
  "carryProjectionSelectivity projection incomingSymbols incomingSelectivity = (case projection of
     None \<Rightarrow> ({}, \<lambda>_. 0)
   | Some p \<Rightarrow>
       (let projectionSelectivity = projectionCardinalitySelectivity projection;
            carried = (if projectionCarriesAllSymbols projection
              then (incomingSymbols - {''''}, \<lambda>symbol. if symbol \<in> incomingSymbols
                then mergeSelectivityValue (incomingSelectivity symbol) projectionSelectivity else 0)
              else ({}, \<lambda>_. 0))
        in fold (\<lambda>item (symbols, selectivity). case projectionItemVariableSymbolAndAlias item of
             None \<Rightarrow> (symbols, selectivity)
           | Some (symbol, alias) \<Rightarrow> if symbol = TokenLiteralAsterisk then (symbols, selectivity)
               else (addSymbol alias symbols, mergeBoundSourceSelectivity alias projectionSelectivity
                 (mergeBoundSourceSelectivity alias (incomingSelectivity symbol) selectivity)))
           (pj_Items p) carried))"

text \<open>\<open>declareSelectiveMatchSymbols\<close>: what the patterns and the predicates of a match say of each symbol.\<close>

definition declareSelectiveMatchSymbols :: "SyntaxNode Match option \<Rightarrow> (string \<Rightarrow> boundSourceSelectivity) \<Rightarrow> (string \<Rightarrow> boundSourceSelectivity) option" where
  "declareSelectiveMatchSymbols match symbols = (case match of
     None \<Rightarrow> Some symbols
   | Some m \<Rightarrow> do {
       terms \<leftarrow> (case mt_Where m of None \<Rightarrow> Some []
         | Some w \<Rightarrow> map_option concat (those (map cypherConjunctionTerms (wh_Expressions w))));
       found \<leftarrow> those (map propertyPredicateSelectivity terms);
       Some (fold (\<lambda>predicate symbols. case predicate of
            Some (symbol, selectivity) \<Rightarrow> mergeBoundSourceSelectivity symbol selectivity symbols | None \<Rightarrow> symbols) found
         (fold (\<lambda>nodePattern symbols. case nodePattern of
              None \<Rightarrow> symbols
            | Some n \<Rightarrow> if variableSymbol (np_Variable n) = '''' then symbols
                else mergeBoundSourceSelectivity (variableSymbol (np_Variable n)) (propertyConstraintSelectivity (np_Properties n)) symbols)
           (concat (map nodePatternsForPattern (mt_Pattern m))) symbols))
     })"

definition declareReadingClauseSymbols :: "reading_clause list \<Rightarrow> string set \<Rightarrow> string set option" where
  "declareReadingClauseSymbols readingClauses symbols = fold (\<lambda>readingClause symbols. case readingClause of
     None \<Rightarrow> symbols | Some c \<Rightarrow> Option.bind symbols (declareMatchSymbols (rc_Match c))) readingClauses (Some symbols)"

definition declareReadingClauseSelectivity ::
    "reading_clause list \<Rightarrow> (string \<Rightarrow> boundSourceSelectivity) \<Rightarrow> (string \<Rightarrow> boundSourceSelectivity) option" where
  "declareReadingClauseSelectivity readingClauses symbols = fold (\<lambda>readingClause symbols. case readingClause of
     Some (ReadingClause (Some m) _) \<Rightarrow>
       if mt_Optional m then symbols else Option.bind symbols (declareSelectiveMatchSymbols (Some m))
   | _ \<Rightarrow> symbols) readingClauses (Some symbols)"

definition shortestPathSearchPredicateSymbols :: "reading_clause list \<Rightarrow> string set option" where
  "shortestPathSearchPredicateSymbols readingClauses = fold (\<lambda>readingClause symbols. case readingClause of
     Some (ReadingClause (Some (Match _ _ (Some w))) _) \<Rightarrow>
       fold (\<lambda>expression symbols. Option.bind symbols (addShortestPathSearchPredicateSymbols expression)) (wh_Expressions w) symbols
   | _ \<Rightarrow> symbols) readingClauses (Some {})"

definition nodePatternHasConstraints :: "SyntaxNode NodePattern option \<Rightarrow> bool" where
  "nodePatternHasConstraints nodePattern = (case nodePattern of
     None \<Rightarrow> False
   | Some n \<Rightarrow> (case np_Kinds n of Some (_ # _) \<Rightarrow> True | _ \<Rightarrow> False) \<or> np_Properties n \<noteq> None)"

definition nodePatternHasUniquePropertyConstraint :: "SyntaxNode NodePattern option \<Rightarrow> bool" where
  "nodePatternHasUniquePropertyConstraint nodePattern = (case nodePattern of
     None \<Rightarrow> False | Some n \<Rightarrow> propertyConstraintSelectivity (np_Properties n) = boundSourceSelectivityUnique)"

definition relationshipPatternHasProperties :: "SyntaxNode RelationshipPattern option \<Rightarrow> bool" where
  "relationshipPatternHasProperties relationshipPattern = (case relationshipPattern of None \<Rightarrow> False | Some r \<Rightarrow> rp_Properties r \<noteq> None)"

definition endpointHasSearchConstraint :: "SyntaxNode NodePattern option \<Rightarrow> string \<Rightarrow> string set \<Rightarrow> bool" where
  "endpointHasSearchConstraint nodePattern symbol predicateConstrainedSymbols = (case nodePattern of
     None \<Rightarrow> False
   | Some n \<Rightarrow> np_Properties n \<noteq> None \<or> referencesSourceIdentifier predicateConstrainedSymbols symbol)"

definition endpointHasTerminalFilterConstraint :: "SyntaxNode NodePattern option \<Rightarrow> string \<Rightarrow> string set \<Rightarrow> bool" where
  "endpointHasTerminalFilterConstraint nodePattern symbol predicateConstrainedSymbols \<longleftrightarrow>
     nodePattern \<noteq> None \<and> (nodePatternHasConstraints nodePattern \<or> referencesSourceIdentifier predicateConstrainedSymbols symbol)"

end
