(* ===== verification/Opt_Reorder.thy ===== *)
theory Opt_Reorder
  imports Opt_Selectivity Cy_Copy "HOL-Library.Multiset"
begin

text \<open>
  src/cypher/models/pgsql/optimize/reordering.go: within a region the rule schedules the clauses greedily, the most selective clause
  whose dependencies are declared first.

  The code compares pointers to reading clauses, so a pointer is nil or an address with the clause it points to. The clauses of a
  query are separate allocations: their position when the rule starts is their address. \<open>None\<close> is a panic on a nil pattern.
\<close>

section \<open>Candidates\<close>

type_synonym clause_ptr = "(nat \<times> SyntaxNode ReadingClause) option"

definition deref :: "clause_ptr \<Rightarrow> reading_clause" where
  "deref = map_option snd"

definition same_clause :: "clause_ptr \<Rightarrow> clause_ptr \<Rightarrow> bool" where
  "same_clause p q \<longleftrightarrow> map_option fst p = map_option fst q"

definition addressed :: "reading_clause list \<Rightarrow> clause_ptr list" where
  "addressed clauses = map (\<lambda>(address, clause). map_option (Pair address) clause) (enumerate 0 clauses)"

record reorderCandidate =
  cd_clause :: clause_ptr
  cd_declarations :: "string set"
  cd_dependencies :: "string set"
  cd_movable :: bool
  cd_score :: boundSourceSelectivity
  cd_index :: int

definition bindingsForReadingClause :: "int \<Rightarrow> reading_clause \<Rightarrow> Binding list option" where
  "bindingsForReadingClause clauseIndex readingClause = (case readingClause of
     Some (ReadingClause (Some m) _) \<Rightarrow> bindingsForMatch clauseIndex m
   | _ \<Rightarrow> Some [])"

definition pattern_local_dependencies :: "SyntaxNode PatternPart option \<Rightarrow> string list option" where
  "pattern_local_dependencies pattern = (case pattern of
     None \<Rightarrow> Some []
   | Some p \<Rightarrow> map_option concat (those (map
       (on_element (\<lambda>n. sortedDependencies (np_Properties n)) (\<lambda>r. sortedDependencies (rp_Properties r)) []) (pt_PatternElements p))))"

definition localMatchDependencies :: "SyntaxNode Match option \<Rightarrow> string list option" where
  "localMatchDependencies match = (case match of
     None \<Rightarrow> Some []
   | Some m \<Rightarrow> map_option (\<lambda>dependencies. sortedUniqueStrings (concat dependencies @ dependenciesForMatch match))
       (those (map pattern_local_dependencies (mt_Pattern m))))"

definition clause_match :: "reading_clause \<Rightarrow> SyntaxNode Match option" where
  "clause_match clause = (case clause of None \<Rightarrow> None | Some c \<Rightarrow> rc_Match c)"

definition all_symbols :: "(int \<times> clause_ptr) list \<Rightarrow> string set option" where
  "all_symbols clauses = map_option (\<lambda>bindings. bd_Symbol ` set (concat bindings))
     (those (map (\<lambda>(idx, clause). bindingsForReadingClause idx (deref clause)) clauses))"

definition declaredBeforeClause :: "clause_ptr list \<Rightarrow> int \<Rightarrow> string set option" where
  "declaredBeforeClause readingClauses clauseIndex = all_symbols (take (nat clauseIndex) (indexed readingClauses))"

text \<open>One binding of a clause: a symbol seen before is a dependency, a new one a declaration.\<close>

definition declare_binding :: "Binding \<Rightarrow> string set \<times> string set \<times> string set \<Rightarrow> string set \<times> string set \<times> string set" where
  "declare_binding binding = (\<lambda>(firstDeclaration, declarations, dependencies).
     if bd_Symbol binding \<in> firstDeclaration then (firstDeclaration, declarations, insert (bd_Symbol binding) dependencies)
     else (insert (bd_Symbol binding) firstDeclaration, insert (bd_Symbol binding) declarations, dependencies))"

fun candidates_from :: "string set \<Rightarrow> string set \<Rightarrow> string set \<Rightarrow> (int \<times> clause_ptr) list \<Rightarrow> reorderCandidate list option" where
  "candidates_from declaredBeforeRegion regionSymbols firstDeclaration [] = Some []"
| "candidates_from declaredBeforeRegion regionSymbols firstDeclaration ((idx, clause) # clauses) = do {
     bindings \<leftarrow> bindingsForReadingClause idx (deref clause);
     local \<leftarrow> localMatchDependencies (clause_match (deref clause));
     score \<leftarrow> matchClauseSelectivity (deref clause);
     let (firstDeclaration', declarations, repeated) = fold declare_binding bindings (firstDeclaration, {}, {});
     let dependencies = repeated \<union> set local;
     candidates \<leftarrow> candidates_from declaredBeforeRegion regionSymbols firstDeclaration' clauses;
     Some (\<lparr>cd_clause = clause, cd_declarations = declarations, cd_dependencies = dependencies,
       cd_movable = (dependencies \<subseteq> declaredBeforeRegion \<union> regionSymbols), cd_score = score, cd_index = idx\<rparr> # candidates)
   }"

definition reorderCandidates :: "clause_ptr list \<Rightarrow> string set \<Rightarrow> reorderCandidate list option" where
  "reorderCandidates regionClauses declaredBeforeRegion = do {
     regionSymbols \<leftarrow> all_symbols (indexed regionClauses);
     candidates_from declaredBeforeRegion regionSymbols declaredBeforeRegion (indexed regionClauses)
   }"

section \<open>Greedy scheduling\<close>

definition candidateDependenciesSatisfied :: "reorderCandidate \<Rightarrow> string set \<Rightarrow> bool" where
  "candidateDependenciesSatisfied candidate available \<longleftrightarrow> cd_dependencies candidate \<subseteq> available \<union> cd_declarations candidate"

definition better_candidate :: "reorderCandidate \<Rightarrow> reorderCandidate \<Rightarrow> bool" where
  "better_candidate candidate best \<longleftrightarrow>
     cd_score candidate > cd_score best \<or> cd_score candidate = cd_score best \<and> cd_index candidate < cd_index best"

text \<open>One candidate of the search for the best index, where \<open>None\<close> is -1.\<close>

definition best_step :: "reorderCandidate list \<Rightarrow> string set \<Rightarrow> nat \<times> reorderCandidate \<Rightarrow> nat option \<Rightarrow> nat option" where
  "best_step candidates available = (\<lambda>(idx, candidate) bestIndex.
     if \<not> candidateDependenciesSatisfied candidate available then bestIndex
     else (case bestIndex of
        None \<Rightarrow> Some idx
      | Some best \<Rightarrow> if better_candidate candidate (candidates ! best) then Some idx else bestIndex))"

definition bestSchedulableCandidateIndex :: "reorderCandidate list \<Rightarrow> string set \<Rightarrow> nat option" where
  "bestSchedulableCandidateIndex candidates available = fold (best_step candidates available) (enumerate 0 candidates) None"

lemma best_step_cases: "best_step candidates available (idx, candidate) bestIndex \<in> {bestIndex, Some idx}"
  by (simp add: best_step_def split: option.split)

lemma best_fold_bound:
  "fold (best_step candidates available) xs bestIndex \<in> insert bestIndex ((Some \<circ> fst) ` set xs)"
proof (induction xs arbitrary: bestIndex)
  case (Cons x xs)
  obtain idx candidate where x: "x = (idx, candidate)" by (cases x)
  from Cons [of "best_step candidates available x bestIndex"] best_step_cases [of candidates available idx candidate bestIndex]
  show ?case by (auto simp: x simp del: insert_iff)
qed simp

lemma bestSchedulableCandidateIndex_bound:
  assumes "bestSchedulableCandidateIndex candidates available = Some i"
  shows "i < length candidates"
proof -
  have "Some i \<in> insert None ((Some \<circ> fst) ` set (enumerate 0 candidates))"
    using best_fold_bound [of candidates available "enumerate 0 candidates" None] assms
    by (simp only: bestSchedulableCandidateIndex_def)
  then show ?thesis by (auto simp: in_set_enumerate_eq)
qed

text \<open>The map \<open>available\<close> is shared with the caller: it is returned with the order.\<close>

function reorderMovableCandidates :: "reorderCandidate list \<Rightarrow> string set \<Rightarrow> reorderCandidate list \<times> string set" where
  "reorderMovableCandidates remaining available = (if remaining = [] then ([], available) else
     (case bestSchedulableCandidateIndex remaining available of
        None \<Rightarrow> (remaining, available)
      | Some nextIndex \<Rightarrow>
          (case reorderMovableCandidates (take nextIndex remaining @ drop (nextIndex + 1) remaining)
              (available \<union> cd_declarations (remaining ! nextIndex)) of
             (reordered, available') \<Rightarrow> (remaining ! nextIndex # reordered, available'))))"
  by auto

termination reorderMovableCandidates
  by (relation "measure (\<lambda>(remaining, _). length remaining)") (auto dest: bestSchedulableCandidateIndex_bound)

declare reorderMovableCandidates.simps [simp del]

record segment_state =
  sg_reordered :: "reorderCandidate list"
  sg_available :: "string set"
  sg_segment :: "reorderCandidate list"

definition flushSegment :: "segment_state \<Rightarrow> segment_state" where
  "flushSegment s = (if sg_segment s = [] then s else
     (case reorderMovableCandidates (sg_segment s) (sg_available s) of (nextSegment, available) \<Rightarrow>
        \<lparr>sg_reordered = sg_reordered s @ nextSegment,
         sg_available = fold (\<lambda>candidate available. available \<union> cd_declarations candidate) nextSegment available,
         sg_segment = []\<rparr>))"

definition segment_candidate :: "reorderCandidate \<Rightarrow> segment_state \<Rightarrow> segment_state" where
  "segment_candidate candidate s = (if \<not> cd_movable candidate
     then (let s1 = flushSegment s in
       s1\<lparr>sg_reordered := sg_reordered s1 @ [candidate], sg_available := sg_available s1 \<union> cd_declarations candidate\<rparr>)
     else s\<lparr>sg_segment := sg_segment s @ [candidate]\<rparr>)"

definition reorderCandidateSegments :: "reorderCandidate list \<Rightarrow> string set \<Rightarrow> reorderCandidate list" where
  "reorderCandidateSegments candidates declaredBeforeRegion =
     sg_reordered (flushSegment (fold segment_candidate candidates
       \<lparr>sg_reordered = [], sg_available = declaredBeforeRegion, sg_segment = []\<rparr>))"

section \<open>Regions, clauses and queries\<close>

text \<open>The clauses of the region after the call and whether one of them changed.\<close>

definition reorderRegion :: "clause_ptr list \<Rightarrow> string set \<Rightarrow> (clause_ptr list \<times> bool) option" where
  "reorderRegion regionClauses declaredBeforeRegion = map_option (\<lambda>candidates.
     (let reordered = reorderCandidateSegments candidates declaredBeforeRegion in
      (map (\<lambda>(clause, candidate). if \<not> same_clause clause (cd_clause candidate) then cd_clause candidate else clause) (zip regionClauses reordered),
       list_ex (\<lambda>(clause, candidate). \<not> same_clause clause (cd_clause candidate)) (zip regionClauses reordered))))
     (reorderCandidates regionClauses declaredBeforeRegion)"

definition reorderRegionWouldApply :: "clause_ptr list \<Rightarrow> string set \<Rightarrow> bool option" where
  "reorderRegionWouldApply regionClauses declaredBeforeRegion = map_option (\<lambda>candidates.
     list_ex (\<lambda>(clause, candidate). \<not> same_clause clause (cd_clause candidate))
       (zip regionClauses (reorderCandidateSegments candidates declaredBeforeRegion)))
     (reorderCandidates regionClauses declaredBeforeRegion)"

definition region_skipped :: "'c list \<Rightarrow> Region \<Rightarrow> bool" where
  "region_skipped readingClauses region \<longleftrightarrow> rg_StartClause region < 0 \<or>
     rg_EndClause region \<ge> int (length readingClauses) \<or> rg_StartClause region \<ge> rg_EndClause region"

definition region_slice :: "'c list \<Rightarrow> Region \<Rightarrow> 'c list" where
  "region_slice readingClauses region =
     drop (nat (rg_StartClause region)) (take (nat (rg_EndClause region) + 1) readingClauses)"

definition replace_slice :: "'c list \<Rightarrow> Region \<Rightarrow> 'c list \<Rightarrow> 'c list" where
  "replace_slice readingClauses region regionClauses =
     take (nat (rg_StartClause region)) readingClauses @ regionClauses @ drop (nat (rg_EndClause region) + 1) readingClauses"

fun reorderReadingClauses :: "clause_ptr list \<Rightarrow> Region list \<Rightarrow> (clause_ptr list \<times> bool) option" where
  "reorderReadingClauses readingClauses [] = Some (readingClauses, False)"
| "reorderReadingClauses readingClauses (region # regions) =
     (if region_skipped readingClauses region then reorderReadingClauses readingClauses regions
      else do {
        declared \<leftarrow> declaredBeforeClause readingClauses (rg_StartClause region);
        (regionClauses, applied) \<leftarrow> reorderRegion (region_slice readingClauses region) declared;
        (readingClauses', applied') \<leftarrow> reorderReadingClauses (replace_slice readingClauses region regionClauses) regions;
        Some (readingClauses', applied \<or> applied')
      })"

fun readingClausesWouldReorder :: "clause_ptr list \<Rightarrow> Region list \<Rightarrow> bool option" where
  "readingClausesWouldReorder readingClauses [] = Some False"
| "readingClausesWouldReorder readingClauses (region # regions) =
     (if region_skipped readingClauses region then readingClausesWouldReorder readingClauses regions
      else do {
        declared \<leftarrow> declaredBeforeClause readingClauses (rg_StartClause region);
        applies \<leftarrow> reorderRegionWouldApply (region_slice readingClauses region) declared;
        if applies then Some True else readingClausesWouldReorder readingClauses regions
      })"

definition analysisQueryPart :: "Analysis \<Rightarrow> int \<Rightarrow> QueryPart option" where
  "analysisQueryPart analysis index = find (\<lambda>queryPart. qp_Index queryPart = index) analysis"

text \<open>The clauses of one part of a query: reordered, or unchanged when the analysis does not know the part.\<close>

definition reorder_part :: "Analysis \<Rightarrow> int \<Rightarrow> reading_clause list \<Rightarrow> (reading_clause list \<times> bool) option" where
  "reorder_part analysis index readingClauses = (case analysisQueryPart analysis index of
     None \<Rightarrow> Some (readingClauses, False)
   | Some queryPart \<Rightarrow> map_option (\<lambda>(clauses, applied). (map deref clauses, applied))
       (reorderReadingClauses (addressed readingClauses) (qp_Regions queryPart)))"

definition part_would_reorder :: "Analysis \<Rightarrow> int \<Rightarrow> reading_clause list \<Rightarrow> bool option" where
  "part_would_reorder analysis index readingClauses = (case analysisQueryPart analysis index of
     None \<Rightarrow> Some False
   | Some queryPart \<Rightarrow> readingClausesWouldReorder (addressed readingClauses) (qp_Regions queryPart))"

definition reorderSinglePartQuery :: "SyntaxNode SinglePartQuery \<Rightarrow> Analysis \<Rightarrow> int \<Rightarrow> (SyntaxNode SinglePartQuery \<times> bool) option" where
  "reorderSinglePartQuery query analysis index = map_option (\<lambda>(clauses, applied).
     (SinglePartQuery (sp_errors query) clauses (sp_UpdatingClauses query) (sp_Return query), applied))
     (reorder_part analysis index (sp_ReadingClauses query))"

definition reorder_multi_part :: "Analysis \<Rightarrow> int \<times> SyntaxNode MultiPartQueryPart option \<Rightarrow> (SyntaxNode MultiPartQueryPart option \<times> bool) option" where
  "reorder_multi_part analysis = (\<lambda>(partIndex, part). case part of
     None \<Rightarrow> Some (None, False)
   | Some p \<Rightarrow> map_option (\<lambda>(clauses, applied).
       (Some (MultiPartQueryPart clauses (mp_UpdatingClauses p) (mp_With p)), applied)) (reorder_part analysis partIndex (mp_ReadingClauses p)))"

definition reorderMultiPartQuery :: "SyntaxNode MultiPartQuery \<Rightarrow> Analysis \<Rightarrow> (SyntaxNode MultiPartQuery \<times> bool) option" where
  "reorderMultiPartQuery query analysis = do {
     parts \<leftarrow> those (map (reorder_multi_part analysis) (indexed (mq_Parts query)));
     (final, finalApplied) \<leftarrow> (case mq_SinglePartQuery query of
        None \<Rightarrow> Some (None, False)
      | Some s \<Rightarrow> map_option (map_prod Some id) (reorderSinglePartQuery s analysis (int (length (mq_Parts query)))));
     Some (MultiPartQuery (map fst parts) final, list_ex snd parts \<or> finalApplied)
   }"

fun any_would_reorder :: "Analysis \<Rightarrow> (int \<times> SyntaxNode MultiPartQueryPart option) list \<Rightarrow> bool option" where
  "any_would_reorder analysis [] = Some False"
| "any_would_reorder analysis ((partIndex, part) # parts) = (case part of
     None \<Rightarrow> any_would_reorder analysis parts
   | Some p \<Rightarrow> do {
       would \<leftarrow> part_would_reorder analysis partIndex (mp_ReadingClauses p);
       if would then Some True else any_would_reorder analysis parts
     })"

definition queryWouldReorder :: "SyntaxNode RegularQuery option \<Rightarrow> Analysis \<Rightarrow> bool option" where
  "queryWouldReorder query analysis = (case query of
     Some (RegularQuery (Some (SingleQuery singlePart multiPart))) \<Rightarrow>
       (case multiPart of
          Some m \<Rightarrow> do {
            would \<leftarrow> any_would_reorder analysis (indexed (mq_Parts m));
            if would then Some True
            else (case mq_SinglePartQuery m of
               None \<Rightarrow> Some False
             | Some final \<Rightarrow> part_would_reorder analysis (int (length (mq_Parts m))) (sp_ReadingClauses final))
          }
        | None \<Rightarrow> (case singlePart of
             None \<Rightarrow> Some False
           | Some s \<Rightarrow> part_would_reorder analysis 0 (sp_ReadingClauses s)))
   | _ \<Rightarrow> Some False)"

section \<open>What clauses bind and use\<close>

definition binds :: "reading_clause \<Rightarrow> string set" where
  "binds clause = (case bindingsForReadingClause 0 clause of Some bindings \<Rightarrow> bd_Symbol ` set bindings | None \<Rightarrow> {})"

definition uses :: "reading_clause \<Rightarrow> string set" where
  "uses clause = (case localMatchDependencies (clause_match clause) of Some dependencies \<Rightarrow> set dependencies | None \<Rightarrow> {})"

text \<open>Every variable a clause uses is in scope: it was there before, an earlier clause binds it or the clause itself does.\<close>

fun well_scoped :: "string set \<Rightarrow> reading_clause list \<Rightarrow> bool" where
  "well_scoped scope [] \<longleftrightarrow> True"
| "well_scoped scope (c # cs) \<longleftrightarrow> uses c \<subseteq> scope \<union> binds c \<and> well_scoped (scope \<union> binds c) cs"

lemma those_map_option: "those (map (map_option f) xs) = map_option (map f) (those xs)"
proof (induction xs)
  case (Cons x xs)
  then show ?case by (cases x; cases "those xs") auto
qed simp

lemma symbol_binding_index:
  "symbol_binding kind j p v = map (\<lambda>b. b\<lparr>bd_ClauseIndex := j\<rparr>) (symbol_binding kind i p v)"
  by (simp add: symbol_binding_def split: option.split Variable.split)

lemma on_element_index:
  "on_element (\<lambda>n. map h (f n)) (\<lambda>r. map h (g r)) [] e = map_option (map h) (on_element f g [] e)"
  by (simp add: on_element_def option.map_comp o_def split: option.split)

lemma pattern_bindings_index:
  "pattern_bindings j p pattern = map_option (map (\<lambda>b. b\<lparr>bd_ClauseIndex := j\<rparr>)) (pattern_bindings i p pattern)"
proof (cases pattern)
  case (Some q)
  let ?h = "\<lambda>b. b\<lparr>bd_ClauseIndex := j\<rparr>"
  let ?es = "\<lambda>i. map (on_element (\<lambda>n. symbol_binding BindingKindNode i p (np_Variable n))
          (\<lambda>r. symbol_binding BindingKindRelationship i p (rp_Variable r)) []) (pt_PatternElements q)"
  have "?es j = map (map_option (map ?h)) (?es i)"
    by (simp add: symbol_binding_index [of _ j p _ i] on_element_index)
  then have "those (?es j) = map_option (map (map ?h)) (those (?es i))" by (simp only: those_map_option)
  with Some show ?thesis
    by (simp add: pattern_bindings_def symbol_binding_index [of BindingKindPath j p _ i] option.map_comp o_def map_concat)
qed (simp add: pattern_bindings_def)

lemma bindingsForMatch_index:
  "bindingsForMatch j m = map_option (map (\<lambda>b. b\<lparr>bd_ClauseIndex := j\<rparr>)) (bindingsForMatch i m)"
proof -
  have "(\<lambda>(p, pattern). pattern_bindings j p pattern) =
      (\<lambda>x. map_option (map (\<lambda>b. b\<lparr>bd_ClauseIndex := j\<rparr>)) (case x of (p, pattern) \<Rightarrow> pattern_bindings i p pattern))"
    by (rule ext) (simp add: pattern_bindings_index [of j _ _ i] split: prod.split)
  then show ?thesis
    unfolding bindingsForMatch_def
    using those_map_option [of "map (\<lambda>b. b\<lparr>bd_ClauseIndex := j\<rparr>)" "map (\<lambda>(p, pattern). pattern_bindings i p pattern) (indexed (mt_Pattern m))"]
    by (simp add: option.map_comp o_def map_concat)
qed

lemma bindingsForReadingClause_index:
  "bindingsForReadingClause j clause = map_option (map (\<lambda>b. b\<lparr>bd_ClauseIndex := j\<rparr>)) (bindingsForReadingClause i clause)"
  by (auto simp: bindingsForReadingClause_def intro: bindingsForMatch_index split: option.splits ReadingClause.splits)

lemma bindings_index:
  assumes "bindingsForReadingClause i clause = Some bindings"
  shows "binds clause = bd_Symbol ` set bindings"
  using bindingsForReadingClause_index [of 0 clause i] assms by (simp add: binds_def image_image)

lemma those_Some: "those xs = Some ys \<longleftrightarrow> xs = map Some ys"
proof (induction xs arbitrary: ys)
  case (Cons x xs)
  then show ?case by (cases x; cases ys) auto
qed auto

lemma all_symbols_binds:
  assumes "all_symbols clauses = Some symbols"
  shows "symbols = (\<Union>(i, c) \<in> set clauses. binds (deref c))"
proof -
  obtain bss where bss: "map (\<lambda>(idx, clause). bindingsForReadingClause idx (deref clause)) clauses = map Some bss"
    and symbols: "symbols = bd_Symbol ` set (concat bss)"
    using assms by (auto simp: all_symbols_def those_Some)
  have "bd_Symbol ` set (concat bss) = (\<Union>(i, c) \<in> set clauses. binds (deref c))"
    using bss
  proof (induction clauses arbitrary: bss)
    case (Cons x clauses)
    then obtain bs bss' where "bss = bs # bss'" by (cases bss) auto
    with Cons show ?case by (cases x) (auto simp: image_Un bindings_index)
  qed simp
  with symbols show ?thesis by simp
qed

section \<open>What the candidates hold\<close>

definition candidate_ok :: "reorderCandidate \<Rightarrow> bool" where
  "candidate_ok c \<longleftrightarrow> uses (deref (cd_clause c)) \<subseteq> cd_dependencies c \<and> cd_declarations c \<subseteq> binds (deref (cd_clause c))"

lemma declare_bindings:
  assumes "fold declare_binding bindings (first, declarations, dependencies) = (first', declarations', dependencies')"
  shows "first' = first \<union> bd_Symbol ` set bindings \<and> declarations' = declarations \<union> (bd_Symbol ` set bindings - first)"
  using assms
proof (induction bindings arbitrary: first declarations dependencies)
  case (Cons b bindings)
  let ?s = "bd_Symbol b"
  show ?case
  proof (cases "?s \<in> first")
    case True
    with Cons.prems Cons.IH [of first declarations "insert ?s dependencies"] show ?thesis by (auto simp: declare_binding_def)
  next
    case False
    with Cons.prems Cons.IH [of "insert ?s first" "insert ?s declarations" dependencies] show ?thesis
      by (auto simp: declare_binding_def)
  qed
qed simp

lemma candidates_from_Cons:
  assumes "candidates_from before symbols first ((idx, clause) # clauses) = Some candidates"
  obtains c rest where "candidates = c # rest" "cd_clause c = clause" "cd_index c = idx"
    "cd_declarations c = binds (deref clause) - first" "uses (deref clause) \<subseteq> cd_dependencies c"
    "cd_movable c \<longleftrightarrow> cd_dependencies c \<subseteq> before \<union> symbols" "Some (cd_score c) = matchClauseSelectivity (deref clause)"
    "candidates_from before symbols (first \<union> binds (deref clause)) clauses = Some rest"
proof -
  from assms obtain bindings locals score where bindings: "bindingsForReadingClause idx (deref clause) = Some bindings"
      and locals: "localMatchDependencies (clause_match (deref clause)) = Some locals"
      and score: "matchClauseSelectivity (deref clause) = Some score"
    by (auto simp: bind_eq_Some_conv)
  obtain first' declarations repeated where fold: "fold declare_binding bindings (first, {}, {}) = (first', declarations, repeated)"
    by (rule prod_cases3)
  from assms obtain rest where rest: "candidates_from before symbols first' clauses = Some rest"
      and eq: "candidates = \<lparr>cd_clause = clause, cd_declarations = declarations, cd_dependencies = repeated \<union> set locals,
        cd_movable = (repeated \<union> set locals \<subseteq> before \<union> symbols), cd_score = score, cd_index = idx\<rparr> # rest"
    by (auto simp: bindings locals score fold bind_eq_Some_conv)
  have "first' = first \<union> binds (deref clause)" "declarations = binds (deref clause) - first"
    using declare_bindings [OF fold] bindings_index [OF bindings] by auto
  moreover have "uses (deref clause) = set locals" using locals by (simp add: uses_def)
  ultimately show thesis using that eq score rest by simp
qed

lemma candidates_from_ok:
  "candidates_from before symbols first clauses = Some candidates \<Longrightarrow>
     map cd_clause candidates = map snd clauses \<and> map cd_index candidates = map fst clauses \<and> list_all candidate_ok candidates"
proof (induction clauses arbitrary: first candidates)
  case (Cons x clauses)
  obtain idx clause where x: "x = (idx, clause)" by (cases x)
  from Cons.prems [unfolded x] show ?case
    by (rule candidates_from_Cons) (use Cons.IH x in \<open>auto simp: candidate_ok_def\<close>)
qed simp

lemma indexed_snd: "map snd (indexed xs) = xs"
  by (simp add: indexed_def case_prod_beta' o_def flip: map_map) (simp add: o_def)

lemma reorderCandidates_ok:
  assumes "reorderCandidates clauses before = Some candidates"
  shows "map cd_clause candidates = clauses" "list_all candidate_ok candidates"
proof -
  from assms candidates_from_ok indexed_snd [of clauses] show "map cd_clause candidates = clauses" "list_all candidate_ok candidates"
    by (auto simp: reorderCandidates_def bind_eq_Some_conv)
qed

section \<open>Scheduling\<close>

definition candidates_scoped :: "string set \<Rightarrow> reorderCandidate list \<Rightarrow> bool" where
  "candidates_scoped scope candidates \<longleftrightarrow> well_scoped scope (map (deref \<circ> cd_clause) candidates)"

definition candidates_bind :: "reorderCandidate list \<Rightarrow> string set" where
  "candidates_bind candidates = (\<Union>c \<in> set candidates. binds (deref (cd_clause c)))"

lemma well_scoped_append:
  "well_scoped scope (xs @ ys) \<longleftrightarrow> well_scoped scope xs \<and> well_scoped (scope \<union> \<Union>(binds ` set xs)) ys"
  by (induction xs arbitrary: scope) (auto simp: Un_assoc)

lemma well_scoped_mono: "well_scoped scope xs \<Longrightarrow> scope \<subseteq> scope' \<Longrightarrow> well_scoped scope' xs"
proof (induction xs arbitrary: scope scope')
  case (Cons x xs)
  from Cons.prems Cons.IH [of "scope \<union> binds x" "scope' \<union> binds x"] show ?case by auto
qed simp

lemma well_scoped_remove:
  "well_scoped scope (xs @ y # ys) \<Longrightarrow> well_scoped (scope \<union> binds y) (xs @ ys)"
  by (simp add: well_scoped_append Un_ac) (blast intro: well_scoped_mono)

lemma best_satisfied:
  "fold (best_step candidates available) xs bestIndex = Some i \<Longrightarrow> bestIndex \<noteq> Some i \<Longrightarrow>
     \<exists>c. (i, c) \<in> set xs \<and> candidateDependenciesSatisfied c available"
proof (induction xs arbitrary: bestIndex)
  case (Cons x xs)
  then show ?case
    by (cases x; cases "best_step candidates available x bestIndex = Some i") (auto simp: best_step_def split: if_splits option.splits)
qed simp

lemma bestSchedulableCandidateIndex_satisfied:
  assumes "bestSchedulableCandidateIndex candidates available = Some i"
  shows "candidateDependenciesSatisfied (candidates ! i) available"
  using best_satisfied [of candidates available "enumerate 0 candidates" None i] assms
  by (auto simp: bestSchedulableCandidateIndex_def in_set_enumerate_eq)

lemma reorderMovableCandidates_step:
  assumes "bestSchedulableCandidateIndex remaining available = Some i"
  obtains before c behind where "remaining = before @ c # behind" "candidateDependenciesSatisfied c available"
    "reorderMovableCandidates remaining available =
       (case reorderMovableCandidates (before @ behind) (available \<union> cd_declarations c) of (cs, av) \<Rightarrow> (c # cs, av))"
proof -
  have i: "i < length remaining" by (rule bestSchedulableCandidateIndex_bound [OF assms])
  show thesis
  proof (rule that)
    show "remaining = take i remaining @ remaining ! i # drop (i + 1) remaining" using i by (simp add: id_take_nth_drop)
    show "candidateDependenciesSatisfied (remaining ! i) available" by (rule bestSchedulableCandidateIndex_satisfied [OF assms])
    show "reorderMovableCandidates remaining available =
        (case reorderMovableCandidates (take i remaining @ drop (i + 1) remaining) (available \<union> cd_declarations (remaining ! i)) of
           (cs, av) \<Rightarrow> (remaining ! i # cs, av))"
      using assms i by (subst reorderMovableCandidates.simps) (auto split: prod.splits)
  qed
qed

lemma reorderMovableCandidates_sound:
  assumes "list_all candidate_ok remaining" "candidates_scoped scope remaining" "available \<subseteq> scope"
    "reorderMovableCandidates remaining available = (reordered, available')"
  shows "mset reordered = mset remaining \<and> candidates_scoped scope reordered \<and> available' \<subseteq> scope \<union> candidates_bind remaining"
  using assms
proof (induction "length remaining" arbitrary: remaining available scope reordered)
  case 0
  then show ?case by (auto simp: reorderMovableCandidates.simps)
next
  case (Suc n)
  show ?case
  proof (cases "bestSchedulableCandidateIndex remaining available")
    case None
    then have "reorderMovableCandidates remaining available = (remaining, available)"
      by (subst reorderMovableCandidates.simps) simp
    with Suc.prems show ?thesis by auto
  next
    case (Some i)
    then obtain before c behind where split: "remaining = before @ c # behind"
      and sat: "candidateDependenciesSatisfied c available"
      and step: "reorderMovableCandidates remaining available =
         (case reorderMovableCandidates (before @ behind) (available \<union> cd_declarations c) of (cs, av) \<Rightarrow> (c # cs, av))"
      by (rule reorderMovableCandidates_step)
    let ?b = "binds (deref (cd_clause c))"
    from step Suc.prems(4) obtain rest where rest:
      "reorderMovableCandidates (before @ behind) (available \<union> cd_declarations c) = (rest, available')" "reordered = c # rest"
      by (auto split: prod.splits)
    have c: "candidate_ok c" and ok: "list_all candidate_ok (before @ behind)" using Suc.prems(1) split by auto
    have "candidates_scoped (scope \<union> ?b) (before @ behind)"
      using Suc.prems(2) by (simp add: split candidates_scoped_def well_scoped_remove)
    moreover have "available \<union> cd_declarations c \<subseteq> scope \<union> ?b" using Suc.prems(3) c by (auto simp: candidate_ok_def)
    ultimately have IH: "mset rest = mset (before @ behind)" "candidates_scoped (scope \<union> ?b) rest"
        "available' \<subseteq> scope \<union> ?b \<union> candidates_bind (before @ behind)"
      using Suc.hyps(1) [OF _ ok _ _ rest(1)] Suc.hyps(2) split by auto
    have "uses (deref (cd_clause c)) \<subseteq> scope \<union> ?b"
      using c sat Suc.prems(3) by (auto simp: candidate_ok_def candidateDependenciesSatisfied_def)
    with IH rest(2) show ?thesis by (auto simp: split candidates_scoped_def candidates_bind_def)
  qed
qed

text \<open>A candidate that is not movable keeps its place.\<close>

definition kept_in_place :: "reorderCandidate list \<Rightarrow> reorderCandidate list \<Rightarrow> bool" where
  "kept_in_place = list_all2 (\<lambda>old new. cd_movable old \<or> new = old)"

definition segment_inv :: "string set \<Rightarrow> reorderCandidate list \<Rightarrow> segment_state \<Rightarrow> bool" where
  "segment_inv scope xs s \<longleftrightarrow>
     (\<exists>ys. xs = ys @ sg_segment s \<and> mset (sg_reordered s) = mset ys \<and> kept_in_place ys (sg_reordered s)) \<and>
     list_all cd_movable (sg_segment s) \<and> list_all candidate_ok xs \<and>
     candidates_scoped scope (sg_reordered s @ sg_segment s) \<and> sg_available s \<subseteq> scope \<union> candidates_bind (sg_reordered s)"

lemma candidates_scoped_Nil [simp]: "candidates_scoped scope []"
  by (simp add: candidates_scoped_def)

lemma candidates_scoped_append:
  "candidates_scoped scope (xs @ ys) \<longleftrightarrow> candidates_scoped scope xs \<and> candidates_scoped (scope \<union> candidates_bind xs) ys"
  by (simp add: candidates_scoped_def candidates_bind_def well_scoped_append image_image)

lemma candidates_bind_append: "candidates_bind (xs @ ys) = candidates_bind xs \<union> candidates_bind ys"
  by (simp add: candidates_bind_def)

lemma candidates_bind_mset: "mset xs = mset ys \<Longrightarrow> candidates_bind xs = candidates_bind ys"
  unfolding candidates_bind_def using mset_eq_setD by blast

lemma kept_in_place_movable: "length xs = length ys \<Longrightarrow> list_all cd_movable xs \<Longrightarrow> kept_in_place xs ys"
  by (auto simp: kept_in_place_def list_all2_conv_all_nth list_all_length)

lemma merge_declarations:
  "list_all candidate_ok cs \<Longrightarrow> available \<subseteq> scope \<Longrightarrow> candidates_bind cs \<subseteq> scope \<Longrightarrow>
     fold (\<lambda>candidate available. available \<union> cd_declarations candidate) cs available \<subseteq> scope"
proof (induction cs arbitrary: available)
  case (Cons c cs)
  from Cons.prems have "available \<union> cd_declarations c \<subseteq> scope" by (auto simp: candidate_ok_def candidates_bind_def)
  with Cons show ?case by (simp add: candidates_bind_def)
qed simp

lemma flushSegment_inv:
  assumes inv: "segment_inv scope xs s"
  shows "segment_inv scope xs (flushSegment s)" "sg_segment (flushSegment s) = []"
proof -
  obtain ys where ys: "xs = ys @ sg_segment s" "mset (sg_reordered s) = mset ys" "kept_in_place ys (sg_reordered s)"
    using inv by (auto simp: segment_inv_def)
  obtain new available where new: "reorderMovableCandidates (sg_segment s) (sg_available s) = (new, available)" by (rule prod.exhaust)
  let ?scope = "scope \<union> candidates_bind (sg_reordered s)"
  have ok: "list_all candidate_ok (sg_segment s)" using inv ys(1) by (simp add: segment_inv_def)
  have "candidates_scoped ?scope (sg_segment s)" "sg_available s \<subseteq> ?scope"
    using inv by (auto simp: segment_inv_def candidates_scoped_append)
  note result = reorderMovableCandidates_sound [OF ok this new]
  then have sound: "mset new = mset (sg_segment s)" "candidates_scoped ?scope new" by simp_all
  have bound: "available \<subseteq> ?scope \<union> candidates_bind new" using result candidates_bind_mset [OF sound(1)] by simp
  have "list_all candidate_ok new" using ok mset_eq_setD [OF sound(1)] by (simp add: list_all_iff)
  then have "fold (\<lambda>candidate available. available \<union> cd_declarations candidate) new available \<subseteq> ?scope \<union> candidates_bind new"
    using bound by (intro merge_declarations) auto
  moreover have "kept_in_place (sg_segment s) new"
    using inv sound(1) by (intro kept_in_place_movable) (auto simp: segment_inv_def dest: mset_eq_length)
  ultimately show "segment_inv scope xs (flushSegment s)"
    using inv ys sound new bound
    by (auto simp: segment_inv_def flushSegment_def candidates_scoped_append candidates_bind_append kept_in_place_def intro!: list_all2_appendI)
  show "sg_segment (flushSegment s) = []" using new by (simp add: flushSegment_def)
qed

lemma segment_inv_bind:
  "segment_inv scope xs s \<Longrightarrow> candidates_bind (sg_reordered s @ sg_segment s) = candidates_bind xs"
  by (auto simp: segment_inv_def candidates_bind_append dest: candidates_bind_mset)

lemma segment_candidate_inv:
  assumes inv: "segment_inv scope xs s" and c: "candidate_ok c" and scoped: "candidates_scoped (scope \<union> candidates_bind xs) [c]"
  shows "segment_inv scope (xs @ [c]) (segment_candidate c s)"
proof (cases "cd_movable c")
  case True
  have "candidates_scoped scope ((sg_reordered s @ sg_segment s) @ [c])"
    unfolding candidates_scoped_append [of scope "sg_reordered s @ sg_segment s"]
    using inv scoped segment_inv_bind [OF inv] by (simp add: segment_inv_def)
  with inv True c show ?thesis by (auto simp: segment_inv_def segment_candidate_def)
next
  case False
  note flushed = flushSegment_inv [OF inv]
  have "candidates_scoped scope (sg_reordered (flushSegment s) @ [c])"
    using flushed scoped segment_inv_bind [OF flushed(1)] by (simp add: candidates_scoped_append segment_inv_def)
  with flushed False c show ?thesis
    by (auto simp: segment_inv_def segment_candidate_def Let_def candidates_bind_append kept_in_place_def candidate_ok_def
        candidates_bind_def intro!: list_all2_appendI)
qed

lemma segments_inv:
  "segment_inv scope xs s \<Longrightarrow> list_all candidate_ok zs \<Longrightarrow> candidates_scoped (scope \<union> candidates_bind xs) zs \<Longrightarrow>
     segment_inv scope (xs @ zs) (fold segment_candidate zs s)"
proof (induction zs arbitrary: xs s)
  case (Cons z zs)
  from Cons.prems have "segment_inv scope (xs @ [z]) (segment_candidate z s)"
    by (intro segment_candidate_inv) (auto simp: candidates_scoped_append [of _ "[z]" zs, simplified])
  from Cons.IH [OF this] Cons.prems show ?case
    using candidates_scoped_append [of _ "[z]" zs] by (simp add: candidates_bind_append Un_assoc)
qed simp

lemma reorderCandidateSegments_sound:
  assumes "list_all candidate_ok candidates" "candidates_scoped scope candidates" "before \<subseteq> scope"
  shows "mset (reorderCandidateSegments candidates before) = mset candidates"
    "candidates_scoped scope (reorderCandidateSegments candidates before)"
    "kept_in_place candidates (reorderCandidateSegments candidates before)"
proof -
  let ?s0 = "\<lparr>sg_reordered = [], sg_available = before, sg_segment = []\<rparr>"
  have "segment_inv scope [] ?s0" using assms(3) by (auto simp: segment_inv_def kept_in_place_def candidates_scoped_def)
  from segments_inv [OF this assms(1)] assms(2) have "segment_inv scope candidates (fold segment_candidate candidates ?s0)"
    by (simp add: candidates_bind_def)
  from flushSegment_inv [OF this] show "mset (reorderCandidateSegments candidates before) = mset candidates"
    "candidates_scoped scope (reorderCandidateSegments candidates before)"
    "kept_in_place candidates (reorderCandidateSegments candidates before)"
    by (auto simp: segment_inv_def reorderCandidateSegments_def)
qed

section \<open>Reordering a region\<close>

text \<open>Pointers with the same address are the same pointer.\<close>

definition coherent :: "clause_ptr list \<Rightarrow> bool" where
  "coherent clauses \<longleftrightarrow> (\<forall>p \<in> set clauses. \<forall>q \<in> set clauses. same_clause p q \<longrightarrow> p = q)"

lemma coherent_addressed: "coherent (addressed clauses)"
  unfolding coherent_def
proof (intro ballI impI)
  fix p q assume "p \<in> set (addressed clauses)" "q \<in> set (addressed clauses)" and same: "same_clause p q"
  then obtain i j where p: "p = map_option (Pair i) (clauses ! i)" and q: "q = map_option (Pair j) (clauses ! j)"
    by (auto simp: addressed_def in_set_enumerate_eq)
  from same p q show "p = q" by (cases "clauses ! i"; cases "clauses ! j") (simp_all add: same_clause_def)
qed

lemma deref_addressed: "map deref (addressed clauses) = clauses"
proof -
  have "deref (map_option (Pair i) c) = c" for i c by (cases c) (simp_all add: deref_def)
  then show ?thesis by (simp add: addressed_def case_prod_beta' o_def)
qed

lemma write_back:
  assumes "length new = length old" "\<forall>p \<in> set (zip old new). same_clause (fst p) (snd p) \<longrightarrow> fst p = snd p"
  shows "map (\<lambda>(c, d). if \<not> same_clause c d then d else c) (zip old new) = new"
    "list_ex (\<lambda>(c, d). \<not> same_clause c d) (zip old new) \<longleftrightarrow> new \<noteq> old"
  using assms
proof (induction old new rule: list_induct2')
  case (4 x xs y ys)
  {
    case 1
    with 4 show ?case by auto
  next
    case 2
    with 4 show ?case by (auto simp: same_clause_def)
  }
qed auto

lemma reorderRegion_write:
  assumes "coherent clauses" "reorderCandidates clauses before = Some candidates"
  defines "new \<equiv> map cd_clause (reorderCandidateSegments candidates before)"
  shows "reorderRegion clauses before = Some (new, new \<noteq> clauses) \<and> reorderRegionWouldApply clauses before = Some (new \<noteq> clauses) \<and>
    mset new = mset clauses"
proof -
  note ok = reorderCandidates_ok [OF assms(2)]
  have UNIV: "well_scoped UNIV xs" for xs by (induction xs) auto
  have "mset (reorderCandidateSegments candidates before) = mset candidates"
    by (rule reorderCandidateSegments_sound [OF ok(2), of UNIV]) (simp_all add: candidates_scoped_def UNIV)
  then have perm: "mset new = mset clauses" unfolding new_def ok(1) [symmetric] by simp
  then have set: "set new = set clauses" and len: "length new = length clauses" by (auto dest: mset_eq_setD mset_eq_length)
  have "\<forall>p \<in> set (zip clauses new). same_clause (fst p) (snd p) \<longrightarrow> fst p = snd p"
    using assms(1) set set_zip_leftD set_zip_rightD unfolding coherent_def by (metis prod.collapse)
  have zip: "zip clauses new = map (\<lambda>(c, d). (c, cd_clause d)) (zip clauses (reorderCandidateSegments candidates before))"
    by (simp add: new_def zip_map2)
  show ?thesis
    using write_back [OF len \<open>\<forall>p \<in> _. _\<close>] perm assms(2)
    by (simp add: reorderRegion_def reorderRegionWouldApply_def Let_def zip list_ex_iff case_prod_beta' o_def cong: if_cong)
qed

lemma reorderRegion_sound:
  assumes "coherent clauses" "reorderRegion clauses before = Some (clauses', applied)"
    "before \<subseteq> scope" "well_scoped scope (map deref clauses)"
  shows "mset clauses' = mset clauses" "well_scoped scope (map deref clauses')" "applied \<longleftrightarrow> clauses' \<noteq> clauses"
proof -
  from assms(2) obtain candidates where c: "reorderCandidates clauses before = Some candidates" by (auto simp: reorderRegion_def)
  note ok = reorderCandidates_ok [OF c] and written = reorderRegion_write [OF assms(1) c]
  have "candidates_scoped scope candidates" using assms(4) by (simp add: candidates_scoped_def flip: ok(1))
  note sound = reorderCandidateSegments_sound(2) [OF ok(2) this assms(3)]
  show "mset clauses' = mset clauses" "applied \<longleftrightarrow> clauses' \<noteq> clauses" using written assms(2) by auto
  show "well_scoped scope (map deref clauses')" using written assms(2) sound by (auto simp: candidates_scoped_def)
qed

section \<open>The rows a list of clauses gives\<close>

text \<open>
  A row maps the variables in scope to values and a table counts how often it has each row. A plain MATCH extends the rows by values
  for the variables it binds: \<open>matches c row\<close> is the number of ways in which the patterns and the predicate of \<open>c\<close> match with the
  values of \<open>row\<close>. What the other clauses do with a table is a parameter.
\<close>

type_synonym 'v row = "string \<rightharpoonup> 'v"
type_synonym 'v table = "'v row \<Rightarrow> nat"

definition match_rows :: "(reading_clause \<Rightarrow> 'v row \<Rightarrow> nat) \<Rightarrow> reading_clause \<Rightarrow> string set \<Rightarrow> 'v table \<Rightarrow> 'v table" where
  "match_rows matches c scope table row = (if dom row = scope \<union> binds c then table (row |` scope) * matches c row else 0)"

definition introduces :: "reading_clause \<Rightarrow> string set" where
  "introduces c = binds c \<union> (case c of Some (ReadingClause _ (Some u)) \<Rightarrow> {variableSymbol (uw_Variable u)} | _ \<Rightarrow> {})"

fun run_clauses :: "(reading_clause \<Rightarrow> 'v row \<Rightarrow> nat) \<Rightarrow> (reading_clause \<Rightarrow> string set \<Rightarrow> 'v table \<Rightarrow> 'v table) \<Rightarrow>
    reading_clause list \<Rightarrow> string set \<times> 'v table \<Rightarrow> string set \<times> 'v table" where
  "run_clauses matches other [] st = st"
| "run_clauses matches other (c # cs) (scope, table) = run_clauses matches other cs
     (scope \<union> introduces c, (if plain_clause c then match_rows matches c else other c) scope table)"

fun query_scoped :: "string set \<Rightarrow> reading_clause list \<Rightarrow> bool" where
  "query_scoped scope [] \<longleftrightarrow> True"
| "query_scoped scope (c # cs) \<longleftrightarrow> (plain_clause c \<longrightarrow> uses c \<subseteq> scope \<union> binds c) \<and> query_scoped (scope \<union> introduces c) cs"

text \<open>How often a MATCH matches depends on the variables it binds and the variables it uses.\<close>

definition matches_own_variables :: "(reading_clause \<Rightarrow> 'v row \<Rightarrow> nat) \<Rightarrow> reading_clause list \<Rightarrow> bool" where
  "matches_own_variables matches clauses \<longleftrightarrow>
     (\<forall>c \<in> set clauses. plain_clause c \<longrightarrow> (\<forall>row. matches c row = matches c (row |` (binds c \<union> uses c))))"

lemma run_clauses_append: "run_clauses matches other (xs @ ys) st = run_clauses matches other ys (run_clauses matches other xs st)"
proof (induction xs arbitrary: st)
  case (Cons x xs)
  then show ?case by (cases st) simp
qed simp

lemma run_clauses_scope: "fst (run_clauses matches other cs st) = fst st \<union> \<Union>(introduces ` set cs)"
proof (induction cs arbitrary: st)
  case (Cons c cs)
  then show ?case by (cases st) (simp add: Un_assoc)
qed simp

lemma query_scoped_append:
  "query_scoped scope (xs @ ys) \<longleftrightarrow> query_scoped scope xs \<and> query_scoped (scope \<union> \<Union>(introduces ` set xs)) ys"
proof (induction xs arbitrary: scope)
  case (Cons x xs)
  then show ?case by (simp add: Un_assoc)
qed simp

lemma plain_introduces: "plain_clause c \<Longrightarrow> introduces c = binds c"
  by (cases c rule: plain_clause.cases) (auto simp: introduces_def)

lemma query_scoped_plain: "list_all plain_clause cs \<Longrightarrow> query_scoped scope cs \<longleftrightarrow> well_scoped scope cs"
proof (induction cs arbitrary: scope)
  case (Cons c cs)
  then show ?case by (simp add: plain_introduces)
qed simp

lemma matches_own_variables_mono: "matches_own_variables matches cs \<Longrightarrow> set cs' \<subseteq> set cs \<Longrightarrow> matches_own_variables matches cs'"
  unfolding matches_own_variables_def by blast

lemma matches_own_variables_row:
  assumes "matches_own_variables matches cs" "c \<in> set cs" "plain_clause c" "binds c \<union> uses c \<subseteq> scope"
  shows "matches c (row |` scope) = matches c row"
proof -
  have own: "matches c row = matches c (row |` (binds c \<union> uses c))" for row
    using assms(1-3) unfolding matches_own_variables_def by blast
  have "row |` scope |` (binds c \<union> uses c) = row |` (binds c \<union> uses c)" using assms(4) by (simp add: Int_absorb1)
  with own [of "row |` scope"] own [of row] show ?thesis by metis
qed

text \<open>Plain clauses in scope filter and multiply: the rows they give do not depend on their order.\<close>

lemma run_plain:
  assumes "list_all plain_clause cs" "well_scoped scope cs" "matches_own_variables matches cs"
  shows "snd (run_clauses matches other cs (scope, table)) row =
    (if cs = [] then table row else if dom row = scope \<union> \<Union>(binds ` set cs)
     then table (row |` scope) * (\<Prod>c \<in># mset cs. matches c row) else 0)"
  using assms
proof (induction cs arbitrary: scope table)
  case (Cons c cs)
  let ?scope = "scope \<union> binds c"
  have c: "plain_clause c" "uses c \<subseteq> ?scope" using Cons.prems by simp_all
  have rest: "list_all plain_clause cs" "well_scoped ?scope cs" using Cons.prems by simp_all
  have own: "matches_own_variables matches cs" by (rule matches_own_variables_mono [OF Cons.prems(3)]) auto
  have IH: "snd (run_clauses matches other cs (?scope, table')) row =
    (if cs = [] then table' row else if dom row = ?scope \<union> \<Union>(binds ` set cs)
     then table' (row |` ?scope) * (\<Prod>c \<in># mset cs. matches c row) else 0)" for table'
    by (rule Cons.IH [OF rest own])
  have "matches c (row |` ?scope) = matches c row"
    by (rule matches_own_variables_row [OF Cons.prems(3)]) (use c in auto)
  then have "dom row = ?scope \<union> X \<Longrightarrow>
      match_rows matches c scope table (row |` ?scope) = table (row |` scope) * matches c row" for X
    by (simp add: match_rows_def Int_absorb2)
  then show ?case
    using IH [of "match_rows matches c scope table"] c(1)
    by (simp add: plain_introduces Un_assoc mult.assoc) (simp add: match_rows_def)
qed simp

lemma run_plain_perm:
  assumes "list_all plain_clause cs" "well_scoped scope cs" "matches_own_variables matches cs"
    "mset cs' = mset cs" "well_scoped scope cs'"
  shows "run_clauses matches other cs' (scope, table) = run_clauses matches other cs (scope, table)"
proof (rule prod_eqI)
  have set: "set cs' = set cs" using assms(4) by (rule mset_eq_setD)
  then show "fst (run_clauses matches other cs' (scope, table)) = fst (run_clauses matches other cs (scope, table))"
    by (simp add: run_clauses_scope)
  have plain: "list_all plain_clause cs'" using assms(1) set by (simp add: list_all_iff)
  have "matches_own_variables matches cs'" by (rule matches_own_variables_mono [OF assms(3)]) (simp add: set)
  from run_plain [OF plain assms(5) this] run_plain [OF assms(1-3)]
  show "snd (run_clauses matches other cs' (scope, table)) = snd (run_clauses matches other cs (scope, table))"
    using set assms(4) by (auto simp: fun_eq_iff)
qed

section \<open>Reordering the clauses of a query part\<close>

lemma slice_split:
  assumes "\<not> region_skipped cs r"
  shows "take (nat (rg_StartClause r)) cs @ region_slice cs r @ drop (nat (rg_EndClause r) + 1) cs = cs"
proof -
  have "nat (rg_StartClause r) \<le> nat (rg_EndClause r) + 1" using assms by (auto simp: region_skipped_def)
  then have "take (nat (rg_StartClause r)) cs @ region_slice cs r = take (nat (rg_EndClause r) + 1) cs"
    unfolding region_slice_def by (metis append_take_drop_id min.absorb1 take_take)
  then show ?thesis by (metis append.assoc append_take_drop_id)
qed

lemma slice_map: "region_slice (map f cs) r = map f (region_slice cs r)"
    "map f (replace_slice cs r xs) = replace_slice (map f cs) r (map f xs)" "region_skipped (map f cs) r = region_skipped cs r"
  by (simp_all add: region_slice_def replace_slice_def region_skipped_def drop_map take_map)

lemma region_slice_plain:
  assumes "region_ok clauses r"
  shows "list_all plain_clause (region_slice clauses r)"
  unfolding list_all_length
proof (intro allI impI)
  fix n assume n: "n < length (region_slice clauses r)"
  let ?j = "nat (rg_StartClause r) + n"
  from n have j: "?j < nat (rg_EndClause r) + 1" "?j < length clauses" by (simp_all add: region_slice_def)
  then have "region_slice clauses r ! n = clauses ! ?j" by (simp add: region_slice_def)
  moreover have "rg_StartClause r \<le> int ?j" "int ?j \<le> rg_EndClause r" using j assms by (auto simp: region_ok_def)
  ultimately show "plain_clause (region_slice clauses r ! n)" using assms by (simp add: region_ok_def)
qed

text \<open>The clauses that are not plain stay where they are, and plain clauses trade places.\<close>

definition barriers_stay :: "clause_ptr list \<Rightarrow> clause_ptr list \<Rightarrow> bool" where
  "barriers_stay = list_all2 (\<lambda>c c'. c' = c \<or> plain_clause (deref c) \<and> plain_clause (deref c'))"

lemma barriers_stay_refl: "barriers_stay cs cs"
  by (simp add: barriers_stay_def list_all2_refl)

lemma barriers_stay_trans: "barriers_stay xs ys \<Longrightarrow> barriers_stay ys zs \<Longrightarrow> barriers_stay xs zs"
  unfolding barriers_stay_def by (rule list_all2_trans) auto

lemma barriers_stay_plain: "barriers_stay cs cs' \<Longrightarrow> map (plain_clause \<circ> deref) cs' = map (plain_clause \<circ> deref) cs"
  unfolding barriers_stay_def by (induction rule: list_all2_induct) auto

lemma region_ok_plain:
  assumes "map plain_clause cs' = map plain_clause cs" "region_ok cs r"
  shows "region_ok cs' r"
proof -
  have "length cs' = length cs" using assms(1) by (metis length_map)
  moreover from this have "plain_clause (cs' ! j) = plain_clause (cs ! j)" if "j < length cs" for j
    using assms(1) that by (metis nth_map)
  ultimately show ?thesis using assms(2) unfolding region_ok_def by (metis int_ops(3) le_less_trans of_nat_less_iff)
qed

lemma coherent_mset: "coherent cs \<Longrightarrow> mset cs' = mset cs \<Longrightarrow> coherent cs'"
  unfolding coherent_def using mset_eq_setD by blast

lemma coherent_sub: "coherent cs \<Longrightarrow> set cs' \<subseteq> set cs \<Longrightarrow> coherent cs'"
  unfolding coherent_def by blast

lemma region_slice_set: "set (region_slice cs r) \<subseteq> set cs"
  unfolding region_slice_def using set_drop_subset set_take_subset by fastforce

lemma plain_slice_stays:
  assumes "list_all (plain_clause \<circ> deref) xs" "mset ys = mset xs"
  shows "barriers_stay xs ys"
proof -
  have "list_all (plain_clause \<circ> deref) ys" using assms mset_eq_setD [OF assms(2)] by (simp add: list_all_iff)
  with assms(1) mset_eq_length [OF assms(2)] show ?thesis by (simp add: barriers_stay_def list_all2_conv_all_nth list_all_length)
qed

lemma replace_slice_stays:
  assumes "\<not> region_skipped cs r" "region_ok (map deref cs) r" "mset xs = mset (region_slice cs r)"
  shows "mset (replace_slice cs r xs) = mset cs" "barriers_stay cs (replace_slice cs r xs)"
proof -
  let ?a = "take (nat (rg_StartClause r)) cs" and ?b = "drop (nat (rg_EndClause r) + 1) cs"
  have split: "cs = ?a @ region_slice cs r @ ?b" using slice_split [OF assms(1)] by simp
  have "mset (replace_slice cs r xs) = mset (?a @ region_slice cs r @ ?b)" using assms(3) by (simp add: replace_slice_def)
  then show "mset (replace_slice cs r xs) = mset cs" by (simp only: split [symmetric])
  have "list_all (plain_clause \<circ> deref) (region_slice cs r)"
    using region_slice_plain [OF assms(2)] by (simp add: slice_map list.pred_map)
  from plain_slice_stays [OF this assms(3)] have "barriers_stay (?a @ region_slice cs r @ ?b) (?a @ xs @ ?b)"
    unfolding barriers_stay_def by (intro list_all2_appendI) (simp_all add: list_all2_refl)
  then show "barriers_stay cs (replace_slice cs r xs)" by (simp only: split [symmetric] replace_slice_def)
qed

lemma declaredBeforeClause_binds:
  assumes "declaredBeforeClause cs i = Some declared"
  shows "declared = \<Union>(binds ` set (map deref (take (nat i) cs)))"
proof -
  have "snd ` set (take (nat i) (indexed cs)) = set (take (nat i) cs)"
    by (metis indexed_snd set_map take_map)
  moreover have "declared = (\<Union>c \<in> snd ` set (take (nat i) (indexed cs)). binds (deref c))"
    using all_symbols_binds [OF assms [unfolded declaredBeforeClause_def]] by (auto simp: case_prod_beta')
  ultimately show ?thesis by (simp add: image_image)
qed


lemma region_step:
  assumes "coherent cs" "\<not> region_skipped cs r" "region_ok (map deref cs) r"
    "declaredBeforeClause cs (rg_StartClause r) = Some declared" "reorderRegion (region_slice cs r) declared = Some (xs, applied)"
  shows "mset xs = mset (region_slice cs r)" "applied \<longleftrightarrow> replace_slice cs r xs \<noteq> cs"
    "reorderRegionWouldApply (region_slice cs r) declared = Some applied"
proof -
  have "coherent (region_slice cs r)" by (rule coherent_sub [OF assms(1) region_slice_set])
  moreover from assms(5) obtain candidates where "reorderCandidates (region_slice cs r) declared = Some candidates"
    by (auto simp: reorderRegion_def)
  ultimately have w: "mset xs = mset (region_slice cs r)" "applied \<longleftrightarrow> xs \<noteq> region_slice cs r"
      "reorderRegionWouldApply (region_slice cs r) declared = Some applied"
    using reorderRegion_write assms(5) by auto
  then show "mset xs = mset (region_slice cs r)" "reorderRegionWouldApply (region_slice cs r) declared = Some applied" by simp_all
  have "replace_slice cs r xs = cs \<longleftrightarrow> xs = region_slice cs r"
  proof
    assume "replace_slice cs r xs = cs"
    then have "replace_slice cs r xs = replace_slice cs r (region_slice cs r)"
      using slice_split [OF assms(2)] by (simp add: replace_slice_def)
    then show "xs = region_slice cs r" by (simp add: replace_slice_def)
  qed (simp add: replace_slice_def slice_split [OF assms(2), simplified])
  with w(2) show "applied \<longleftrightarrow> replace_slice cs r xs \<noteq> cs" by simp
qed

lemma region_step_scoped:
  assumes "coherent cs" "\<not> region_skipped cs r" "region_ok (map deref cs) r"
    "declaredBeforeClause cs (rg_StartClause r) = Some declared" "reorderRegion (region_slice cs r) declared = Some (xs, applied)"
    and scoped: "query_scoped scope (map deref cs)"
  shows "query_scoped scope (map deref (replace_slice cs r xs)) \<and>
    (matches_own_variables matches (map deref cs) \<longrightarrow>
      run_clauses matches other (map deref (replace_slice cs r xs)) (scope, table) = run_clauses matches other (map deref cs) (scope, table))"
proof -
  let ?a = "map deref (take (nat (rg_StartClause r)) cs)" and ?b = "map deref (drop (nat (rg_EndClause r) + 1) cs)"
    and ?x = "map deref (region_slice cs r)" and ?y = "map deref xs"
  let ?scope = "scope \<union> \<Union>(introduces ` set ?a)"
  have split: "map deref cs = ?a @ ?x @ ?b" using slice_split [OF assms(2)] by (metis map_append)
  have new: "map deref (replace_slice cs r xs) = ?a @ ?y @ ?b" by (simp add: replace_slice_def)
  have plain: "list_all plain_clause ?x" using region_slice_plain [OF assms(3)] by (simp add: slice_map)
  have "declared \<subseteq> ?scope" using declaredBeforeClause_binds [OF assms(4)] by (auto simp: introduces_def)
  moreover have parts: "query_scoped scope ?a" "query_scoped ?scope ?x" "query_scoped (?scope \<union> \<Union>(introduces ` set ?x)) ?b"
    using scoped by (simp_all add: split query_scoped_append del: map_map)
  moreover from this have wx: "well_scoped ?scope ?x" using plain by (simp only: query_scoped_plain)
  ultimately have wy: "well_scoped ?scope ?y" "mset xs = mset (region_slice cs r)"
    using reorderRegion_sound [OF coherent_sub [OF assms(1) region_slice_set] assms(5)] by blast+
  then have perm: "mset ?y = mset ?x" by simp
  then have set: "set ?y = set ?x" by (rule mset_eq_setD)
  have plain': "list_all plain_clause ?y" using plain unfolding list_all_iff set .
  have "query_scoped scope (?a @ ?y @ ?b)"
    using parts wy(1) plain' unfolding query_scoped_append set by (simp add: query_scoped_plain)
  moreover have "run_clauses matches other (?a @ ?y @ ?b) (scope, table) = run_clauses matches other (?a @ ?x @ ?b) (scope, table)"
    if own: "matches_own_variables matches (map deref cs)"
  proof -
    have "matches_own_variables matches ?x" by (rule matches_own_variables_mono [OF own]) (use split in auto)
    note same = run_plain_perm [OF plain wx this perm wy(1)]
    obtain table' where "run_clauses matches other ?a (scope, table) = (?scope, table')"
      using run_clauses_scope [of matches other ?a "(scope, table)"] by (metis fst_conv prod.collapse)
    then show ?thesis by (simp only: run_clauses_append same)
  qed
  ultimately show ?thesis unfolding new split by blast
qed

lemma reorderReadingClauses_sound:
  assumes "coherent cs" "list_all (region_ok (map deref cs)) regions" "reorderReadingClauses cs regions = Some (cs', applied)"
  shows "mset cs' = mset cs \<and> barriers_stay cs cs' \<and>
    (query_scoped scope (map deref cs) \<longrightarrow> query_scoped scope (map deref cs') \<and>
     (matches_own_variables matches (map deref cs) \<longrightarrow>
       run_clauses matches other (map deref cs') (scope, table) = run_clauses matches other (map deref cs) (scope, table)))"
  using assms
proof (induction regions arbitrary: cs applied)
  case Nil
  then show ?case by (simp add: barriers_stay_refl)
next
  case (Cons r regions)
  show ?case
  proof (cases "region_skipped cs r")
    case True
    with Cons show ?thesis by simp
  next
    case False
    with Cons.prems(3) obtain declared xs applied1 applied2 where d: "declaredBeforeClause cs (rg_StartClause r) = Some declared"
      and x: "reorderRegion (region_slice cs r) declared = Some (xs, applied1)"
      and rest: "reorderReadingClauses (replace_slice cs r xs) regions = Some (cs', applied2)"
      by (auto simp: bind_eq_Some_conv)
    let ?new = "replace_slice cs r xs"
    have r: "region_ok (map deref cs) r" "list_all (region_ok (map deref cs)) regions" using Cons.prems(2) by simp_all
    note stays = replace_slice_stays [OF False r(1) region_step(1) [OF Cons.prems(1) False r(1) d x]]
    have "map plain_clause (map deref ?new) = map plain_clause (map deref cs)"
      using barriers_stay_plain [OF stays(2)] by simp
    then have ok: "list_all (region_ok (map deref ?new)) regions"
      using r(2) region_ok_plain unfolding list_all_iff by blast
    note IH = Cons.IH [OF coherent_mset [OF Cons.prems(1) stays(1)] ok rest]
    note step = region_step_scoped [OF Cons.prems(1) False r(1) d x]
    show ?thesis
    proof (intro conjI impI)
      show "mset cs' = mset cs" using IH stays(1) by simp
      show "barriers_stay cs cs'" using IH stays(2) by (blast intro: barriers_stay_trans)
      assume scoped: "query_scoped scope (map deref cs)"
      with step have scoped': "query_scoped scope (map deref ?new)" by blast
      with IH show "query_scoped scope (map deref cs')" by blast
      assume own: "matches_own_variables matches (map deref cs)"
      have "matches_own_variables matches (map deref ?new)"
        by (rule matches_own_variables_mono [OF own]) (simp add: mset_eq_setD [OF stays(1)])
      with IH scoped' have "run_clauses matches other (map deref cs') (scope, table) = run_clauses matches other (map deref ?new) (scope, table)"
        by blast
      also have "\<dots> = run_clauses matches other (map deref cs) (scope, table)" using step [OF scoped] own by blast
      finally show "run_clauses matches other (map deref cs') (scope, table) = run_clauses matches other (map deref cs) (scope, table)" .
    qed
  qed
qed

section \<open>Whether a reordering applies\<close>

lemma those_None: "those xs = None \<longleftrightarrow> None \<in> set xs"
proof (induction xs)
  case (Cons x xs)
  then show ?case by (cases x) auto
qed simp

lemma all_symbols_None:
  "all_symbols clauses = None \<longleftrightarrow> (\<exists>(i, c) \<in> set clauses. bindingsForReadingClause 0 (deref c) = None)"
proof -
  have "None = bindingsForReadingClause i c \<longleftrightarrow> bindingsForReadingClause 0 c = None" for i c
    using bindingsForReadingClause_index [of i c 0] by auto
  then show ?thesis by (simp add: all_symbols_def those_None image_iff case_prod_beta')
qed

lemma declaredBeforeClause_set:
  assumes "set (take (nat i) cs) = set (take (nat i) cs')"
  shows "declaredBeforeClause cs i = declaredBeforeClause cs' i"
proof -
  have snd: "snd ` set (take (nat i) (indexed cs)) = set (take (nat i) cs)" for cs :: "clause_ptr list"
    by (metis indexed_snd set_map take_map)
  have "declaredBeforeClause cs i = None \<longleftrightarrow> (\<exists>c \<in> set (take (nat i) cs). bindingsForReadingClause 0 (deref c) = None)" for cs
    unfolding snd [symmetric] by (simp add: declaredBeforeClause_def all_symbols_None case_prod_beta')
  then have "declaredBeforeClause cs i = None \<longleftrightarrow> declaredBeforeClause cs' i = None" using assms by simp
  moreover have "d = d'" if "declaredBeforeClause cs i = Some d" "declaredBeforeClause cs' i = Some d'" for d d'
    using declaredBeforeClause_binds [OF that(1)] declaredBeforeClause_binds [OF that(2)] assms by simp
  ultimately show ?thesis by (metis not_None_eq)
qed

lemma replace_slice_take:
  assumes "\<not> region_skipped cs r" "mset xs = mset (region_slice cs r)" "nat (rg_EndClause r) < n"
  shows "set (take n (replace_slice cs r xs)) = set (take n cs)"
proof -
  let ?a = "take (nat (rg_StartClause r)) cs" and ?b = "drop (nat (rg_EndClause r) + 1) cs"
  have len: "length xs = length (region_slice cs r)" using assms(2) by (rule mset_eq_length)
  have n: "length ?a + length (region_slice cs r) \<le> n" using assms(1,3) by (auto simp: region_slice_def region_skipped_def)
  have prefix: "take n (a @ ys @ b) = a @ ys @ take (n - (length a + length ys)) b"
    if "length a + length ys \<le> n" for a ys b :: "'a list"
    using that by simp
  have "set (take n (?a @ xs @ ?b)) = set (take n (?a @ region_slice cs r @ ?b))"
    unfolding prefix [OF n] prefix [OF n [folded len]] len using mset_eq_setD [OF assms(2)] by (simp only: set_append)
  then show ?thesis by (simp only: replace_slice_def slice_split [OF assms(1)])
qed

lemma replace_slice_slice:
  assumes "\<not> region_skipped cs r" "length xs = length (region_slice cs r)" "rg_EndClause r < rg_StartClause r'"
  shows "region_slice (replace_slice cs r xs) r' = region_slice cs r'" "region_skipped (replace_slice cs r xs) r' = region_skipped cs r'"
proof -
  let ?n = "nat (rg_EndClause r) + 1"
  have a: "length (take (nat (rg_StartClause r)) cs @ region_slice cs r) = ?n"
    using assms(1) by (auto simp: region_slice_def region_skipped_def)
  have n: "?n \<le> nat (rg_StartClause r')" using assms(1,3) by (auto simp: region_skipped_def)
  have "drop ?n (replace_slice cs r xs) = drop ?n cs" using a assms(2) by (simp add: replace_slice_def)
  then have "drop (nat (rg_StartClause r')) (replace_slice cs r xs) = drop (nat (rg_StartClause r')) cs"
    using n by (metis drop_drop le_add_diff_inverse2)
  then show "region_slice (replace_slice cs r xs) r' = region_slice cs r'" by (simp add: region_slice_def drop_take)
  have "length (replace_slice cs r xs) = length cs"
    using arg_cong [OF slice_split [OF assms(1)], of length] assms(2) by (simp add: replace_slice_def)
  then show "region_skipped (replace_slice cs r xs) r' = region_skipped cs r'" by (simp add: region_skipped_def)
qed

lemma would_after_region:
  assumes "\<not> region_skipped cs r" "mset xs = mset (region_slice cs r)"
  shows "list_all (\<lambda>r'. rg_EndClause r < rg_StartClause r') regions \<Longrightarrow>
    readingClausesWouldReorder (replace_slice cs r xs) regions = readingClausesWouldReorder cs regions"
proof (induction regions)
  case (Cons r' regions)
  have later: "rg_EndClause r < rg_StartClause r'" using Cons.prems by simp
  note same = replace_slice_slice [OF assms(1) mset_eq_length [OF assms(2)] later]
  have "nat (rg_EndClause r) < nat (rg_StartClause r')" if "\<not> region_skipped cs r'" using that later assms(1) by (auto simp: region_skipped_def)
  then have "declaredBeforeClause (replace_slice cs r xs) (rg_StartClause r') = declaredBeforeClause cs (rg_StartClause r')"
    if "\<not> region_skipped cs r'" using that by (intro declaredBeforeClause_set replace_slice_take [OF assms]) simp
  with Cons same show ?case by (cases "region_skipped cs r'") (simp_all cong: if_cong)
qed simp

text \<open>What lies before the regions is not touched.\<close>

lemma reorderReadingClauses_take:
  "reorderReadingClauses cs regions = Some (cs', applied) \<Longrightarrow> list_all (\<lambda>r. n \<le> nat (rg_StartClause r)) regions \<Longrightarrow> take n cs' = take n cs"
proof (induction regions arbitrary: cs applied)
  case (Cons r regions)
  then show ?case
  proof (cases "region_skipped cs r")
    case False
    with Cons.prems(1) obtain xs applied2 where rest: "reorderReadingClauses (replace_slice cs r xs) regions = Some (cs', applied2)"
      by (auto simp: bind_eq_Some_conv)
    have "take n (replace_slice cs r xs) = take n cs"
      using False Cons.prems(2) by (auto simp: replace_slice_def region_skipped_def min_absorb1 min_absorb2)
    with Cons.IH [OF rest] Cons.prems(2) show ?thesis by simp
  qed simp
qed simp

lemma reorderReadingClauses_applied:
  assumes "coherent cs" "list_all (region_ok (map deref cs)) regions" "in_order regions"
    "reorderReadingClauses cs regions = Some (cs', applied)"
  shows "readingClausesWouldReorder cs regions = Some applied \<and> (applied \<longleftrightarrow> cs' \<noteq> cs)"
  using assms
proof (induction regions arbitrary: cs applied)
  case (Cons r regions)
  have order: "list_all (\<lambda>r'. rg_EndClause r < rg_StartClause r') regions" "in_order regions"
    using Cons.prems(3) by (simp_all add: in_order_def list_all_iff)
  show ?case
  proof (cases "region_skipped cs r")
    case True
    with Cons order(2) show ?thesis by simp
  next
    case False
    with Cons.prems(4) obtain declared xs applied1 applied2 where d: "declaredBeforeClause cs (rg_StartClause r) = Some declared"
      and x: "reorderRegion (region_slice cs r) declared = Some (xs, applied1)"
      and rest: "reorderReadingClauses (replace_slice cs r xs) regions = Some (cs', applied2)" and applied: "applied = (applied1 \<or> applied2)"
      by (auto simp: bind_eq_Some_conv)
    let ?new = "replace_slice cs r xs" and ?n = "nat (rg_EndClause r) + 1"
    have r: "region_ok (map deref cs) r" "list_all (region_ok (map deref cs)) regions" using Cons.prems(2) by simp_all
    note step = region_step [OF Cons.prems(1) False r(1) d x]
    note stays = replace_slice_stays [OF False r(1) step(1)]
    have "map plain_clause (map deref ?new) = map plain_clause (map deref cs)" using barriers_stay_plain [OF stays(2)] by simp
    then have ok: "list_all (region_ok (map deref ?new)) regions" using r(2) region_ok_plain unfolding list_all_iff by blast
    note IH = Cons.IH [OF coherent_mset [OF Cons.prems(1) stays(1)] ok order(2) rest]
    have would: "readingClausesWouldReorder cs regions = Some applied2" using IH would_after_region [OF False step(1) order(1)] by simp
    have "list_all (\<lambda>r'. ?n \<le> nat (rg_StartClause r')) regions"
      using order(1) False by (auto simp: list_all_iff region_skipped_def)
    then have first: "take ?n cs' = take ?n ?new" by (rule reorderReadingClauses_take [OF rest])
    have "cs' \<noteq> cs" if "?new \<noteq> cs"
    proof
      assume "cs' = cs"
      with first have "take ?n cs = take ?n ?new" by simp
      moreover have "drop ?n ?new = drop ?n cs"
        using False mset_eq_length [OF step(1)] by (auto simp: replace_slice_def region_slice_def region_skipped_def)
      ultimately show False using that by (metis append_take_drop_id)
    qed
    then show ?thesis using False d x step(2,3) IH would applied by (cases applied1) auto
  qed
qed simp

section \<open>Properties\<close>

lemma analyzed_regions:
  assumes "analyzeReadingClauses q clauses = Some (regions, barriers)"
  shows "in_order regions" "list_all (region_ok (map deref (addressed clauses))) regions"
  using analyzeReadingClauses_regions [OF assms] by (simp_all add: deref_addressed)

text \<open>A node pattern, a clause that matches one node, and the predicate \<open>(b)-[]->(a)\<close>.\<close>

definition node_element :: "string \<Rightarrow> string list \<Rightarrow> SyntaxNode PatternElement option" where
  "node_element symbol kinds =
     Some (PatternElement (Some (N_NodePattern (Some (NodePattern (Some (Variable symbol)) (Some (map Some kinds)) None)))))"

definition match_node :: "string \<Rightarrow> string list \<Rightarrow> SyntaxNode Where option \<Rightarrow> reading_clause" where
  "match_node symbol kinds whr =
     Some (ReadingClause (Some (Match False [Some (PatternPart None False False [node_element symbol kinds] False)] whr)) None)"

definition edge_from_b_to_a :: "SyntaxNode Where" where
  "edge_from_b_to_a = Where [Some (N_PatternPredicate (Some (PatternPredicate [node_element ''b'' [],
     Some (PatternElement (Some (N_RelationshipPattern (Some (RelationshipPattern None None DirectionOutbound None None))))),
     node_element ''a'' []])))]"

definition two_matches :: "reading_clause list" where
  "two_matches = [match_node ''a'' [] None, match_node ''b'' [''User''] None]"

definition two_matches_region :: Region where
  "two_matches_region = fst (the (analyzeReadingClauses 0 two_matches)) ! 0"

lemma two_matches_analysis:
  "analyzeReadingClauses 0 two_matches = Some ([two_matches_region], [])"
  "reorderReadingClauses (addressed two_matches) [two_matches_region] = Some (rev (addressed two_matches), True)"
  "query_scoped {} two_matches"
  by code_simp+






end
