(* ===== verification/Opt_Direction.thy ===== *)
theory Opt_Direction
  imports Opt_Selectivity Dg_Digraph
begin

text \<open>
  src/cypher/models/pgsql/optimize/direction.go: a traversal that starts with an unbounded expansion is reversed when its last node is
  at least as selective as its first.

  The code reverses the pattern in place; the model returns the new pattern. The relationship patterns of a part are separate
  allocations, as the parser and \<open>cypher.Copy\<close> build them. \<open>None\<close> is a panic on a nil node or relationship pattern.
\<close>

section \<open>Candidates for a reversal\<close>

definition endpointSelectivity :: "SyntaxNode NodePattern option \<Rightarrow> string \<Rightarrow> string set \<Rightarrow> boundSourceSelectivity" where
  "endpointSelectivity nodePattern symbol searchSymbols =
     (let selectivity = nodePatternSelectivity nodePattern False in
      if symbol \<in> searchSymbols \<and> symbol \<noteq> '''' then mergeSelectivityValue selectivity boundSourceSelectivityPredicate else selectivity)"

definition whereSearchPredicateSymbols :: "SyntaxNode Match \<Rightarrow> string set option" where
  "whereSearchPredicateSymbols match = (case mt_Where match of
     None \<Rightarrow> Some {}
   | Some w \<Rightarrow> fold (\<lambda>expression symbols. Option.bind symbols (addShortestPathSearchPredicateSymbols expression)) (wh_Expressions w) (Some {}))"

text \<open>The test of the leading step: an unbounded range, a direction and no variable.\<close>

definition leading_expansion :: "SyntaxNode RelationshipPattern option \<Rightarrow> bool" where
  "leading_expansion relationship = (case relationship of
     None \<Rightarrow> False
   | Some r \<Rightarrow> (case rp_Range r of None \<Rightarrow> False | Some expansion \<Rightarrow> pr_EndIndex expansion = None) \<and>
       rp_Direction r \<noteq> DirectionBoth \<and> rp_Variable r = None)"

definition inboundTraversalReversalCandidate :: "SyntaxNode PatternPart option \<Rightarrow> string set \<Rightarrow> string set \<Rightarrow> bool option" where
  "inboundTraversalReversalCandidate patternPart declaredSymbols searchSymbols = (case patternPart of
     None \<Rightarrow> Some False
   | Some p \<Rightarrow>
       if pt_ShortestPathPattern p \<or> pt_AllShortestPathsPattern p then Some False
       else (let steps = traversalStepsForPattern patternPart in
         if length steps < 2 then Some False
         else if \<not> leading_expansion (st_Relationship (hd steps)) then Some False
         else do {
           sourceNode \<leftarrow> st_LeftNode (hd steps);
           terminalNode \<leftarrow> st_RightNode (last steps);
           let sourceSymbol = variableSymbol (np_Variable sourceNode);
           let terminalSym = variableSymbol (np_Variable terminalNode);
           Some (\<not> (sourceSymbol \<noteq> '''' \<and> sourceSymbol \<in> declaredSymbols) \<and>
             endpointHasSearchConstraint (Some terminalNode) terminalSym searchSymbols \<and>
             endpointSelectivity (Some terminalNode) terminalSym searchSymbols \<ge> endpointSelectivity (Some sourceNode) sourceSymbol searchSymbols)
         }))"

section \<open>Reversing a pattern\<close>

definition reverse_relationship :: "SyntaxNode RelationshipPattern \<Rightarrow> SyntaxNode RelationshipPattern" where
  "reverse_relationship r =
     RelationshipPattern (rp_Variable r) (rp_Kinds r) (Direction_Reverse (rp_Direction r)) (rp_Range r) (rp_Properties r)"

definition reverse_element :: "SyntaxNode PatternElement option \<Rightarrow> SyntaxNode PatternElement option option" where
  "reverse_element element = (case AsRelationshipPattern element of
     None \<Rightarrow> Some element
   | Some relationshipPattern \<Rightarrow> map_option (\<lambda>r. Some (PatternElement (Some (N_RelationshipPattern (Some (reverse_relationship r)))))) relationshipPattern)"

text \<open>The loop that swaps the elements from both ends.\<close>

function swap_ends :: "nat \<Rightarrow> nat \<Rightarrow> 'a list \<Rightarrow> 'a list" where
  "swap_ends left right elements = (if left < right
     then swap_ends (left + 1) (right - 1) (elements[left := elements ! right, right := elements ! left]) else elements)"
  by auto

termination swap_ends
  by (relation "measure (\<lambda>(left, right, _). right - left)") auto

declare swap_ends.simps [simp del]

definition reversePatternElements :: "SyntaxNode PatternElement option list \<Rightarrow> SyntaxNode PatternElement option list option" where
  "reversePatternElements elements = those (map reverse_element (swap_ends 0 (length elements - 1) elements))"

definition reverseInboundTraversalPatternPart ::
    "SyntaxNode PatternPart option \<Rightarrow> string set \<Rightarrow> string set \<Rightarrow> (SyntaxNode PatternPart option \<times> bool) option" where
  "reverseInboundTraversalPatternPart patternPart declaredSymbols searchSymbols = do {
     candidate \<leftarrow> inboundTraversalReversalCandidate patternPart declaredSymbols searchSymbols;
     if \<not> candidate then Some (patternPart, False)
     else do {
       p \<leftarrow> patternPart;
       elements \<leftarrow> reversePatternElements (pt_PatternElements p);
       Some (Some (PatternPart (pt_Variable p) (pt_ShortestPathPattern p) (pt_AllShortestPathsPattern p) elements
         (\<not> pt_PathDirectionReversed p)), True)
     }
   }"

section \<open>Clauses and queries\<close>

definition reverse_match :: "SyntaxNode Match \<Rightarrow> string set \<Rightarrow> (SyntaxNode Match \<times> bool) option" where
  "reverse_match match declaredSymbols = (if mt_Optional match then Some (match, False) else do {
     searchSymbols \<leftarrow> whereSearchPredicateSymbols match;
     parts \<leftarrow> those (map (\<lambda>patternPart. reverseInboundTraversalPatternPart patternPart declaredSymbols searchSymbols) (mt_Pattern match));
     Some (Match (mt_Optional match) (map fst parts) (mt_Where match), list_ex snd parts)
   })"

definition declare_unwind :: "SyntaxNode Unwind option \<Rightarrow> string set \<Rightarrow> string set" where
  "declare_unwind unwind declared = (case unwind of None \<Rightarrow> declared | Some u \<Rightarrow> addSymbol (variableSymbol (uw_Variable u)) declared)"

text \<open>The clauses after the call, whether one was reversed and the symbols declared by then.\<close>

fun reverseInboundTraversalReadingClauses :: "reading_clause list \<Rightarrow> string set \<Rightarrow> (reading_clause list \<times> bool \<times> string set) option" where
  "reverseInboundTraversalReadingClauses [] declaredSymbols = Some ([], False, declaredSymbols)"
| "reverseInboundTraversalReadingClauses (readingClause # rest) declaredSymbols = (case readingClause of
     None \<Rightarrow> do {
       (clauses, applied, declared) \<leftarrow> reverseInboundTraversalReadingClauses rest declaredSymbols;
       Some (None # clauses, applied, declared)
     }
   | Some (ReadingClause match unwind) \<Rightarrow> do {
       (match', reversed) \<leftarrow> (case match of
          None \<Rightarrow> Some (None, False)
        | Some m \<Rightarrow> map_option (map_prod Some id) (reverse_match m declaredSymbols));
       declared1 \<leftarrow> declareMatchSymbols match' declaredSymbols;
       (clauses, applied, declared) \<leftarrow> reverseInboundTraversalReadingClauses rest (declare_unwind unwind declared1);
       Some (Some (ReadingClause match' unwind) # clauses, reversed \<or> applied, declared)
     })"

fun any_candidate :: "SyntaxNode PatternPart option list \<Rightarrow> string set \<Rightarrow> string set \<Rightarrow> bool option" where
  "any_candidate [] declaredSymbols searchSymbols = Some False"
| "any_candidate (patternPart # rest) declaredSymbols searchSymbols = do {
     candidate \<leftarrow> inboundTraversalReversalCandidate patternPart declaredSymbols searchSymbols;
     if candidate then Some True else any_candidate rest declaredSymbols searchSymbols
   }"

definition match_would_reverse :: "SyntaxNode Match \<Rightarrow> string set \<Rightarrow> bool option" where
  "match_would_reverse match declaredSymbols = (if mt_Optional match then Some False else do {
     searchSymbols \<leftarrow> whereSearchPredicateSymbols match;
     any_candidate (mt_Pattern match) declaredSymbols searchSymbols
   })"

text \<open>The check: whether a pattern would be reversed, and the symbols declared when the loop ends.\<close>

fun readingClausesWouldReverseInboundTraversal :: "reading_clause list \<Rightarrow> string set \<Rightarrow> (bool \<times> string set) option" where
  "readingClausesWouldReverseInboundTraversal [] declaredSymbols = Some (False, declaredSymbols)"
| "readingClausesWouldReverseInboundTraversal (readingClause # rest) declaredSymbols = (case readingClause of
     None \<Rightarrow> readingClausesWouldReverseInboundTraversal rest declaredSymbols
   | Some (ReadingClause match unwind) \<Rightarrow> do {
       would \<leftarrow> (case match of None \<Rightarrow> Some False | Some m \<Rightarrow> match_would_reverse m declaredSymbols);
       if would then Some (True, declaredSymbols)
       else do {
         declared1 \<leftarrow> declareMatchSymbols match declaredSymbols;
         readingClausesWouldReverseInboundTraversal rest (declare_unwind unwind declared1)
       }
     })"

definition carry_symbols :: "SyntaxNode With option \<Rightarrow> string set \<Rightarrow> string set" where
  "carry_symbols wth declared = (case wth of None \<Rightarrow> declared | Some w \<Rightarrow> fst (carryProjectionSelectivity (wt_Projection w) declared (\<lambda>_. 0)))"

definition reverseInboundTraversalSinglePartQuery :: "SyntaxNode SinglePartQuery \<Rightarrow> string set \<Rightarrow> (SyntaxNode SinglePartQuery \<times> bool) option" where
  "reverseInboundTraversalSinglePartQuery query declaredSymbols = map_option (\<lambda>(clauses, applied, _).
     (SinglePartQuery (sp_errors query) clauses (sp_UpdatingClauses query) (sp_Return query), applied))
     (reverseInboundTraversalReadingClauses (sp_ReadingClauses query) declaredSymbols)"

fun reverse_parts :: "SyntaxNode MultiPartQueryPart option list \<Rightarrow> string set \<Rightarrow> (SyntaxNode MultiPartQueryPart option list \<times> bool \<times> string set) option" where
  "reverse_parts [] declaredSymbols = Some ([], False, declaredSymbols)"
| "reverse_parts (part # rest) declaredSymbols = (case part of
     None \<Rightarrow> do {
       (parts, applied, declared) \<leftarrow> reverse_parts rest declaredSymbols;
       Some (None # parts, applied, declared)
     }
   | Some (MultiPartQueryPart readings updates wth) \<Rightarrow> do {
       (clauses, reversed, declared1) \<leftarrow> reverseInboundTraversalReadingClauses readings declaredSymbols;
       (parts, applied, declared) \<leftarrow> reverse_parts rest (carry_symbols wth declared1);
       Some (Some (MultiPartQueryPart clauses updates wth) # parts, reversed \<or> applied, declared)
     })"

definition reverseInboundTraversalMultiPartQuery :: "SyntaxNode MultiPartQuery \<Rightarrow> (SyntaxNode MultiPartQuery \<times> bool) option" where
  "reverseInboundTraversalMultiPartQuery query = (case mq_SinglePartQuery query of
     None \<Rightarrow> Some (query, False)
   | Some finalPart \<Rightarrow> do {
       (parts, applied, declared) \<leftarrow> reverse_parts (mq_Parts query) {};
       (final, finalApplied) \<leftarrow> reverseInboundTraversalSinglePartQuery finalPart declared;
       Some (MultiPartQuery parts (Some final), applied \<or> finalApplied)
     })"

fun parts_would_reverse :: "SyntaxNode MultiPartQueryPart option list \<Rightarrow> string set \<Rightarrow> (bool \<times> string set) option" where
  "parts_would_reverse [] declaredSymbols = Some (False, declaredSymbols)"
| "parts_would_reverse (part # rest) declaredSymbols = (case part of
     None \<Rightarrow> parts_would_reverse rest declaredSymbols
   | Some (MultiPartQueryPart readings updates wth) \<Rightarrow> do {
       (would, declared1) \<leftarrow> readingClausesWouldReverseInboundTraversal readings declaredSymbols;
       if would then Some (True, declared1) else parts_would_reverse rest (carry_symbols wth declared1)
     })"

definition multiPartQueryWouldReverseInboundTraversal :: "SyntaxNode MultiPartQuery \<Rightarrow> bool option" where
  "multiPartQueryWouldReverseInboundTraversal query = (case mq_SinglePartQuery query of
     None \<Rightarrow> Some False
   | Some finalPart \<Rightarrow> do {
       (would, declared) \<leftarrow> parts_would_reverse (mq_Parts query) {};
       if would then Some True
       else map_option fst (readingClausesWouldReverseInboundTraversal (sp_ReadingClauses finalPart) declared)
     })"

definition queryWouldReverseInboundTraversal :: "SyntaxNode RegularQuery option \<Rightarrow> bool option" where
  "queryWouldReverseInboundTraversal query = (case query of
     Some (RegularQuery (Some (SingleQuery singlePart multiPart))) \<Rightarrow>
       (case (singlePart, multiPart) of
          (Some _, Some _) \<Rightarrow> Some False
        | (Some s, None) \<Rightarrow> map_option fst (readingClausesWouldReverseInboundTraversal (sp_ReadingClauses s) {})
        | (None, Some m) \<Rightarrow> multiPartQueryWouldReverseInboundTraversal m
        | (None, None) \<Rightarrow> Some False)
   | _ \<Rightarrow> Some False)"

section \<open>The reversed pattern\<close>

lemma swap_ends_length: "length (swap_ends left right xs) = length xs"
  by (induction left right xs rule: swap_ends.induct) (subst swap_ends.simps, simp)

lemma swap_ends_nth:
  "right < length xs \<Longrightarrow> i < length xs \<Longrightarrow>
     swap_ends left right xs ! i = (if left \<le> i \<and> i \<le> right then xs ! (left + right - i) else xs ! i)"
proof (induction left right xs rule: swap_ends.induct)
  case (1 left right xs)
  show ?case
  proof (cases "left < right")
    case True
    let ?ys = "xs[left := xs ! right, right := xs ! left]"
    have "swap_ends left right xs ! i = swap_ends (left + 1) (right - 1) ?ys ! i" using True by (subst swap_ends.simps) simp
    also have "\<dots> = (if left + 1 \<le> i \<and> i \<le> right - 1 then ?ys ! (left + 1 + (right - 1) - i) else ?ys ! i)"
      using 1 True by simp
    also have "\<dots> = (if left \<le> i \<and> i \<le> right then xs ! (left + right - i) else xs ! i)"
      using True 1(2,3) by (auto simp: nth_list_update)
    finally show ?thesis .
  next
    case False
    then have "swap_ends left right xs = xs" by (subst swap_ends.simps) simp
    moreover have "i = left \<and> i = right" if "left \<le> i" "i \<le> right" using False that by linarith
    ultimately show ?thesis by auto
  qed
qed

lemma swap_ends_rev: "swap_ends 0 (length xs - 1) xs = rev xs"
proof (rule nth_equalityI)
  fix i assume i: "i < length (swap_ends 0 (length xs - 1) xs)"
  then show "swap_ends 0 (length xs - 1) xs ! i = rev xs ! i"
    using swap_ends_nth [of "length xs - 1" xs i 0] by (auto simp: swap_ends_length rev_nth)
qed (simp add: swap_ends_length)

lemma those_Some_map: "those (map f xs) = Some ys \<longleftrightarrow> list_all2 (\<lambda>x y. f x = Some y) xs ys"
proof (induction xs arbitrary: ys)
  case (Cons x xs)
  then show ?case by (cases "f x") (auto simp: list_all2_Cons1)
qed auto

lemma reversePatternElements_rev:
  "reversePatternElements es = Some es' \<longleftrightarrow> list_all2 (\<lambda>e e'. reverse_element e = Some e') (rev es) es'"
  by (simp only: reversePatternElements_def swap_ends_rev those_Some_map)

lemma reverse_relationship_twice: "reverse_relationship (reverse_relationship r) = r"
  by (cases r) (simp add: reverse_relationship_def)

lemma AsRelationshipPattern_Some:
  assumes "AsRelationshipPattern e = Some p"
  shows "e = Some (PatternElement (Some (N_RelationshipPattern p)))"
proof (cases e)
  case None
  with assms show ?thesis by (simp add: AsRelationshipPattern_def)
next
  case (Some pe)
  obtain el where el: "pe = PatternElement el" by (cases pe)
  show ?thesis
  proof (cases el)
    case None
    with assms Some el show ?thesis by (simp add: AsRelationshipPattern_def)
  next
    case node: (Some n)
    from assms Some el node show ?thesis by (cases n) (simp_all add: AsRelationshipPattern_def)
  qed
qed

lemma reverse_element_cases:
  assumes "reverse_element e = Some e'"
  obtains "AsRelationshipPattern e = None" "e' = e"
  | r where "e = Some (PatternElement (Some (N_RelationshipPattern (Some r))))"
      "e' = Some (PatternElement (Some (N_RelationshipPattern (Some (reverse_relationship r)))))"
proof (cases "AsRelationshipPattern e")
  case None
  with assms have "e' = e" by (simp add: reverse_element_def)
  with None show thesis by (rule that(1))
next
  case (Some p)
  with assms obtain r where r: "p = Some r"
    and e': "e' = Some (PatternElement (Some (N_RelationshipPattern (Some (reverse_relationship r)))))"
    by (auto simp: reverse_element_def)
  have "e = Some (PatternElement (Some (N_RelationshipPattern (Some r))))" using AsRelationshipPattern_Some [OF Some] r by simp
  then show thesis using e' by (rule that(2))
qed

lemma reverse_element_twice: "reverse_element e = Some e' \<Longrightarrow> reverse_element e' = Some e"
  by (erule reverse_element_cases) (simp_all add: reverse_element_def AsRelationshipPattern_def reverse_relationship_twice)

lemma reversePatternElements_twice:
  assumes "reversePatternElements es = Some es'"
  shows "reversePatternElements es' = Some es"
proof -
  have "list_all2 (\<lambda>e e'. reverse_element e = Some e') (rev es) es'" using assms by (simp only: reversePatternElements_rev)
  then have "list_all2 (\<lambda>e' e. reverse_element e' = Some e) es' (rev es)"
    by (subst list_all2_conv_all_nth, subst (asm) list_all2_conv_all_nth) (auto intro: reverse_element_twice)
  then have "list_all2 (\<lambda>e' e. reverse_element e' = Some e) (rev es') es" using list_all2_rev [of _ es' "rev es"] by simp
  then show ?thesis by (simp only: reversePatternElements_rev)
qed

section \<open>What a pattern matches\<close>

text \<open>
  A match of a pattern gives every node pattern a node and every relationship pattern a path. Which nodes satisfy a node pattern
  and which paths run from one node to another under the kinds, the range and the properties of a relationship pattern are
  parameters; the direction of the relationship pattern says from which end the path runs.
\<close>

definition outbound :: "SyntaxNode RelationshipPattern \<Rightarrow> SyntaxNode RelationshipPattern" where
  "outbound r = RelationshipPattern (rp_Variable r) (rp_Kinds r) DirectionOutbound (rp_Range r) (rp_Properties r)"

definition connects :: "(SyntaxNode RelationshipPattern \<Rightarrow> 'n \<Rightarrow> 'p \<Rightarrow> 'n \<Rightarrow> bool) \<Rightarrow> SyntaxNode RelationshipPattern \<Rightarrow> 'n \<Rightarrow> 'p \<Rightarrow> 'n \<Rightarrow> bool" where
  "connects runs r left path right = (case rp_Direction r of
     DirectionOutbound \<Rightarrow> runs (outbound r) left path right
   | DirectionInbound \<Rightarrow> runs (outbound r) right path left
   | DirectionBoth \<Rightarrow> runs (outbound r) left path right \<or> runs (outbound r) right path left)"

definition element_matches :: "(SyntaxNode NodePattern \<Rightarrow> 'n \<Rightarrow> bool) \<Rightarrow> (SyntaxNode RelationshipPattern \<Rightarrow> 'n \<Rightarrow> 'p \<Rightarrow> 'n \<Rightarrow> bool) \<Rightarrow>
    SyntaxNode PatternElement option \<Rightarrow> ('n + 'p) option \<Rightarrow> 'n + 'p \<Rightarrow> ('n + 'p) option \<Rightarrow> bool" where
  "element_matches satisfies runs element previous item following = (case AsNodePattern element of
     Some (Some n) \<Rightarrow> (case item of Inl node \<Rightarrow> satisfies n node | Inr _ \<Rightarrow> False)
   | Some None \<Rightarrow> False
   | None \<Rightarrow> (case AsRelationshipPattern element of
       Some (Some r) \<Rightarrow> (case (previous, item, following) of
          (Some (Inl left), Inr path, Some (Inl right)) \<Rightarrow> connects runs r left path right | _ \<Rightarrow> False)
     | _ \<Rightarrow> False))"

definition item_at :: "'a list \<Rightarrow> int \<Rightarrow> 'a option" where
  "item_at items i = (if 0 \<le> i \<and> i < int (length items) then Some (items ! nat i) else None)"

definition pattern_matches :: "(SyntaxNode NodePattern \<Rightarrow> 'n \<Rightarrow> bool) \<Rightarrow> (SyntaxNode RelationshipPattern \<Rightarrow> 'n \<Rightarrow> 'p \<Rightarrow> 'n \<Rightarrow> bool) \<Rightarrow>
    SyntaxNode PatternElement option list \<Rightarrow> ('n + 'p) list \<Rightarrow> bool" where
  "pattern_matches satisfies runs elements items \<longleftrightarrow> length items = length elements \<and>
     (\<forall>i < length elements. element_matches satisfies runs (elements ! i) (item_at items (int i - 1)) (items ! i) (item_at items (int i + 1)))"

lemma item_at_rev: "item_at (rev items) i = item_at items (int (length items) - 1 - i)"
proof -
  have "length items - Suc (nat i) = nat (int (length items) - 1 - i)" if "0 \<le> i" "i < int (length items)" using that by linarith
  then show ?thesis by (auto simp: item_at_def rev_nth)
qed

lemma connects_reverse: "connects runs (reverse_relationship r) left path right = connects runs r right path left"
  by (cases "rp_Direction r") (auto simp: connects_def reverse_relationship_def outbound_def)

lemma element_matches_reverse:
  assumes "reverse_element e = Some e'"
  shows "element_matches satisfies runs e' following item previous = element_matches satisfies runs e previous item following"
  using assms
proof (cases rule: reverse_element_cases)
  case 1
  then show ?thesis by (simp add: element_matches_def split: option.split)
next
  case (2 r)
  then show ?thesis
    by (auto simp: element_matches_def AsNodePattern_def AsRelationshipPattern_def connects_reverse split: option.splits sum.splits)
qed

lemma pattern_matches_reverse_imp:
  assumes "reversePatternElements es = Some es'" "pattern_matches satisfies runs es items"
  shows "pattern_matches satisfies runs es' (rev items)"
proof -
  let ?n = "length es"
  have all2: "list_all2 (\<lambda>e e'. reverse_element e = Some e') (rev es) es'" using assms(1) by (simp only: reversePatternElements_rev)
  then have len: "length es' = ?n" "length items = ?n" using assms(2) by (auto dest: list_all2_lengthD simp: pattern_matches_def)
  have "element_matches satisfies runs (es' ! i) (item_at (rev items) (int i - 1)) (rev items ! i) (item_at (rev items) (int i + 1))"
    if i: "i < ?n" for i
  proof -
    let ?j = "?n - 1 - i"
    have j: "?j < ?n" "int ?j = int ?n - 1 - int i" using i by auto
    have "reverse_element (es ! ?j) = Some (es' ! i)"
      using list_all2_nthD [OF all2, of i] i by (simp add: rev_nth)
    moreover have "element_matches satisfies runs (es ! ?j) (item_at items (int ?j - 1)) (items ! ?j) (item_at items (int ?j + 1))"
      using assms(2) j(1) by (simp add: pattern_matches_def)
    ultimately have "element_matches satisfies runs (es' ! i) (item_at items (int ?j + 1)) (items ! ?j) (item_at items (int ?j - 1))"
      by (simp only: element_matches_reverse)
    moreover have "item_at (rev items) (int i - 1) = item_at items (int ?j + 1)" "item_at (rev items) (int i + 1) = item_at items (int ?j - 1)"
        "rev items ! i = items ! ?j"
      using i j len by (simp_all add: item_at_rev rev_nth algebra_simps)
    ultimately show ?thesis by simp
  qed
  with len show ?thesis by (simp add: pattern_matches_def)
qed

section \<open>The check before the reversal\<close>

lemma any_candidate_applied:
  "those (map (\<lambda>p. reverseInboundTraversalPatternPart p declared search) ps) = Some parts \<Longrightarrow>
     any_candidate ps declared search = Some (list_ex snd parts) \<and> (\<not> list_ex snd parts \<longrightarrow> map fst parts = ps)"
proof (induction ps arbitrary: parts)
  case (Cons p ps)
  then obtain x xs where x: "reverseInboundTraversalPatternPart p declared search = Some x"
    and xs: "those (map (\<lambda>p. reverseInboundTraversalPatternPart p declared search) ps) = Some xs" and parts: "parts = x # xs"
    by (auto split: option.splits)
  from x obtain c where c: "inboundTraversalReversalCandidate p declared search = Some c" "snd x = c" "\<not> c \<longrightarrow> fst x = p"
    by (auto simp: reverseInboundTraversalPatternPart_def bind_eq_Some_conv split: if_splits)
  with Cons.IH [OF xs] parts show ?case by (cases c) auto
qed simp

lemma reverse_match_applied:
  assumes "reverse_match m declared = Some (m', reversed)"
  shows "match_would_reverse m declared = Some reversed \<and> (\<not> reversed \<longrightarrow> m' = m)"
proof (cases "mt_Optional m")
  case True
  with assms show ?thesis by (simp add: reverse_match_def match_would_reverse_def)
next
  case False
  with assms obtain search parts where search: "whereSearchPredicateSymbols m = Some search"
    and parts: "those (map (\<lambda>p. reverseInboundTraversalPatternPart p declared search) (mt_Pattern m)) = Some parts"
    and m': "m' = Match (mt_Optional m) (map fst parts) (mt_Where m)" "reversed = list_ex snd parts"
    by (auto simp: reverse_match_def bind_eq_Some_conv)
  from any_candidate_applied [OF parts] m' False search show ?thesis by (cases m) (simp add: match_would_reverse_def)
qed

lemma reverse_clauses_applied:
  "reverseInboundTraversalReadingClauses cs declared = Some (cs', applied, declared') \<Longrightarrow>
     \<exists>d. readingClausesWouldReverseInboundTraversal cs declared = Some (applied, d) \<and> (\<not> applied \<longrightarrow> cs' = cs \<and> d = declared')"
proof (induction cs arbitrary: declared cs' applied)
  case (Cons c cs)
  show ?case
  proof (cases c)
    case None
    with Cons show ?thesis by (auto simp: bind_eq_Some_conv)
  next
    case (Some rc)
    obtain match unwind where rc: "rc = ReadingClause match unwind" by (cases rc)
    from Cons.prems Some rc obtain match' reversed declared1 clauses rest where
      m: "(case match of None \<Rightarrow> Some (None, False) | Some m \<Rightarrow> map_option (map_prod Some id) (reverse_match m declared)) = Some (match', reversed)"
      and d: "declareMatchSymbols match' declared = Some declared1"
      and r: "reverseInboundTraversalReadingClauses cs (declare_unwind unwind declared1) = Some (clauses, rest, declared')"
      and eq: "cs' = Some (ReadingClause match' unwind) # clauses" "applied = (reversed \<or> rest)"
      by (simp add: bind_eq_Some_conv) blast
    have would: "(case match of None \<Rightarrow> Some False | Some m \<Rightarrow> match_would_reverse m declared) = Some reversed" "\<not> reversed \<longrightarrow> match' = match"
      using m reverse_match_applied by (auto split: option.splits)
    show ?thesis
    proof (cases reversed)
      case True
      with would eq Some rc show ?thesis by simp
    next
      case False
      with would d eq Some rc Cons.IH [OF r] show ?thesis by auto
    qed
  qed
qed simp

section \<open>Properties\<close>

lemma reversed_part:
  assumes "reverseInboundTraversalPatternPart (Some p) declared search = Some (p', True)"
  obtains es where "reversePatternElements (pt_PatternElements p) = Some es"
    "p' = Some (PatternPart (pt_Variable p) (pt_ShortestPathPattern p) (pt_AllShortestPathsPattern p) es (\<not> pt_PathDirectionReversed p))"
  using assms by (auto simp: reverseInboundTraversalPatternPart_def bind_eq_Some_conv split: if_splits)

text \<open>The pattern \<open>(s)-[*0..]->(g)-[]->(d {objectid: ...})\<close>.\<close>

definition traversal_part :: "SyntaxNode PatternPart" where
  "traversal_part = PatternPart None False False
     [Some (PatternElement (Some (N_NodePattern (Some (NodePattern (Some (Variable ''s'')) None None))))),
      Some (PatternElement (Some (N_RelationshipPattern (Some (RelationshipPattern None None DirectionOutbound (Some (PatternRange (Some 0) None)) None))))),
      Some (PatternElement (Some (N_NodePattern (Some (NodePattern (Some (Variable ''g'')) None None))))),
      Some (PatternElement (Some (N_RelationshipPattern (Some (RelationshipPattern None None DirectionOutbound None None))))),
      Some (PatternElement (Some (N_NodePattern (Some (NodePattern (Some (Variable ''d'')) None
        (Some (N_Properties (Some (Properties (Some [(''objectid'', Some (N_Parameter (Some (Parameter ''id'' GoNil))))]) None)))))))))] False"

text \<open>C9. A pattern part that the rule reverses matches exactly the matches of the original part read backwards: its nodes and paths
  come in the opposite order and every path runs from the same node to the same node. The flag \<open>PathDirectionReversed\<close> is flipped and
  the path variable kept, so that the path can be given in the order of the query; reversing again gives the original elements.\<close>

theorem reversed_part_matches:
  assumes "reverseInboundTraversalPatternPart (Some p) declared search = Some (Some p', True)"
  shows "(pattern_matches satisfies runs (pt_PatternElements p') (rev items) \<longleftrightarrow> pattern_matches satisfies runs (pt_PatternElements p) items) \<and>
    reversePatternElements (pt_PatternElements p') = Some (pt_PatternElements p) \<and>
    pt_PathDirectionReversed p' = (\<not> pt_PathDirectionReversed p) \<and> pt_Variable p' = pt_Variable p"
proof -
  from assms obtain es where es: "reversePatternElements (pt_PatternElements p) = Some es"
    and p': "p' = PatternPart (pt_Variable p) (pt_ShortestPathPattern p) (pt_AllShortestPathsPattern p) es (\<not> pt_PathDirectionReversed p)"
    by (rule reversed_part) simp
  note again = reversePatternElements_twice [OF es]
  show ?thesis
    using pattern_matches_reverse_imp [OF es] pattern_matches_reverse_imp [OF again, of satisfies runs "rev items"] again
    by (auto simp: p')
qed

theorem reversed_part_matches_witness:
  "(pattern_matches (\<lambda>n x. x < (3 :: nat)) (\<lambda>r l path r'. path = l + r') (pt_PatternElements
       (the (fst (the (reverseInboundTraversalPatternPart (Some traversal_part) {} {}))))) (rev [Inl 0, Inr 1, Inl 1, Inr 3, Inl 2]) \<longleftrightarrow>
     pattern_matches (\<lambda>n x. x < (3 :: nat)) (\<lambda>r l path r'. path = l + r') (pt_PatternElements traversal_part) [Inl 0, Inr 1, Inl 1, Inr 3, Inl 2]) \<and>
    reversePatternElements (pt_PatternElements (the (fst (the (reverseInboundTraversalPatternPart (Some traversal_part) {} {}))))) =
      Some (pt_PatternElements traversal_part) \<and>
    pt_PathDirectionReversed (the (fst (the (reverseInboundTraversalPatternPart (Some traversal_part) {} {})))) =
      (\<not> pt_PathDirectionReversed traversal_part) \<and>
    pt_Variable (the (fst (the (reverseInboundTraversalPatternPart (Some traversal_part) {} {})))) = pt_Variable traversal_part"
proof (rule reversed_part_matches)
  show "reverseInboundTraversalPatternPart (Some traversal_part) {} {} =
      Some (Some (the (fst (the (reverseInboundTraversalPatternPart (Some traversal_part) {} {})))), True)"
    by code_simp
qed

end
