(* ===== verification/Opt_Plan.thy ===== *)
theory Opt_Plan
  imports Opt_Reorder Opt_Direction
begin

text \<open>
  src/cypher/models/pgsql/optimize/optimizer.go: the plan, the copy of the query before the first rewrite, the rules and the loop that
  applies them, and the \<open>Apply\<close> methods of the rules in reordering.go and direction.go. The lowering plan that follows the loop is not
  modelled and is not a field of the plan.
\<close>

section \<open>Plans\<close>

datatype PredicateAttachmentScope = PredicateAttachmentScopeBinding | PredicateAttachmentScopeRegion

record RuleResult =
  rr_Name :: string
  rr_Applied :: bool

record PredicateAttachment =
  pa_QueryPartIndex :: int
  pa_RegionIndex :: int
  pa_ClauseIndex :: int
  pa_ExpressionIndex :: int
  pa_Scope :: PredicateAttachmentScope
  pa_BindingSymbols :: "string list"
  pa_Dependencies :: "string list"

record Plan =
  pn_Query :: "SyntaxNode RegularQuery option"
  pn_Analysis :: Analysis
  pn_Rules :: "RuleResult list"
  pn_PredicateAttachments :: "PredicateAttachment list"
  pn_queryCopied :: bool

definition EnsureMutable :: "Plan \<Rightarrow> Plan option" where
  "EnsureMutable plan = (if \<not> pn_queryCopied plan \<and> pn_Query plan \<noteq> None
     then (case Copy (N_RegularQuery (pn_Query plan)) of
        Some (N_RegularQuery query) \<Rightarrow> Some (plan\<lparr>pn_Query := query, pn_queryCopied := True\<rparr>)
      | _ \<Rightarrow> None)
     else Some plan)"

section \<open>Attaching predicates\<close>

definition regionBindingSymbols :: "Region \<Rightarrow> string set" where
  "regionBindingSymbols region = bd_Symbol ` set (rg_Bindings region)"

definition predicateBindingSymbols :: "Predicate \<Rightarrow> string set \<Rightarrow> string list" where
  "predicateBindingSymbols predicate regionBindings = filter (\<lambda>dependency. dependency \<in> regionBindings) (pd_Dependencies predicate)"

definition attach_predicate :: "int \<Rightarrow> Region \<Rightarrow> Predicate \<Rightarrow> PredicateAttachment" where
  "attach_predicate regionIndex region predicate =
     (let bindingSymbols = predicateBindingSymbols predicate (regionBindingSymbols region) in
      \<lparr>pa_QueryPartIndex = rg_QueryPartIndex region, pa_RegionIndex = regionIndex, pa_ClauseIndex = pd_ClauseIndex predicate,
       pa_ExpressionIndex = pd_ExpressionIndex predicate,
       pa_Scope = (if length bindingSymbols = 1 \<and> length (pd_Dependencies predicate) = 1
         then PredicateAttachmentScopeBinding else PredicateAttachmentScopeRegion),
       pa_BindingSymbols = bindingSymbols, pa_Dependencies = pd_Dependencies predicate\<rparr>)"

definition AttachPredicates :: "Analysis \<Rightarrow> PredicateAttachment list" where
  "AttachPredicates analysis = concat (map (\<lambda>queryPart. concat (map (\<lambda>(regionIndex, region).
     map (attach_predicate regionIndex region) (rg_Predicates region)) (indexed (qp_Regions queryPart)))) analysis)"

section \<open>Rules\<close>

text \<open>A rule returns an error, or whether it applied and the plan; \<open>None\<close> is a panic.\<close>

record Rule =
  rl_Name :: string
  rl_preservesAnalysis :: bool
  rl_usesLazyCopy :: bool
  rl_Apply :: "Plan \<Rightarrow> (string + bool \<times> Plan) option"

definition reorder_query :: "SyntaxNode RegularQuery option \<Rightarrow> Analysis \<Rightarrow> (SyntaxNode RegularQuery option \<times> bool) option" where
  "reorder_query query analysis = (case query of
     Some (RegularQuery (Some (SingleQuery singlePart multiPart))) \<Rightarrow>
       (case multiPart of
          Some m \<Rightarrow> map_option (\<lambda>(m', applied). (Some (RegularQuery (Some (SingleQuery singlePart (Some m')))), applied)) (reorderMultiPartQuery m analysis)
        | None \<Rightarrow> (case singlePart of
            Some s \<Rightarrow> map_option (\<lambda>(s', applied). (Some (RegularQuery (Some (SingleQuery (Some s') None))), applied)) (reorderSinglePartQuery s analysis 0)
          | None \<Rightarrow> Some (query, False)))
   | _ \<Rightarrow> Some (query, False))"

definition reverse_query :: "SyntaxNode RegularQuery option \<Rightarrow> (SyntaxNode RegularQuery option \<times> bool) option" where
  "reverse_query query = (case query of
     Some (RegularQuery (Some (SingleQuery singlePart multiPart))) \<Rightarrow>
       (case (singlePart, multiPart) of
          (Some _, Some _) \<Rightarrow> Some (query, False)
        | (Some s, None) \<Rightarrow> map_option (\<lambda>(s', applied). (Some (RegularQuery (Some (SingleQuery (Some s') None))), applied))
            (reverseInboundTraversalSinglePartQuery s {})
        | (None, Some m) \<Rightarrow> map_option (\<lambda>(m', applied). (Some (RegularQuery (Some (SingleQuery None (Some m')))), applied))
            (reverseInboundTraversalMultiPartQuery m)
        | (None, None) \<Rightarrow> Some (query, False))
   | _ \<Rightarrow> Some (query, False))"

text \<open>What both rewriting rules do: ask whether a rewrite would apply, make the query mutable, rewrite it.\<close>

definition rewrite :: "bool option \<Rightarrow> (SyntaxNode RegularQuery option \<Rightarrow> (SyntaxNode RegularQuery option \<times> bool) option) \<Rightarrow>
    Plan \<Rightarrow> (string + bool \<times> Plan) option" where
  "rewrite check change plan = do {
     would \<leftarrow> check;
     if \<not> would then Some (Inr (False, plan))
     else do {
       mutable \<leftarrow> EnsureMutable plan;
       (query, applied) \<leftarrow> change (pn_Query mutable);
       Some (Inr (applied, mutable\<lparr>pn_Query := query\<rparr>))
     }
   }"

definition ConservativePatternReorderingRule :: Rule where
  "ConservativePatternReorderingRule = \<lparr>rl_Name = ''ConservativePatternReordering'', rl_preservesAnalysis = False, rl_usesLazyCopy = True,
     rl_Apply = (\<lambda>plan. rewrite (queryWouldReorder (pn_Query plan) (pn_Analysis plan)) (\<lambda>query. reorder_query query (pn_Analysis plan)) plan)\<rparr>"

definition InboundTraversalReversalRule :: Rule where
  "InboundTraversalReversalRule = \<lparr>rl_Name = ''InboundTraversalReversal'', rl_preservesAnalysis = False, rl_usesLazyCopy = True,
     rl_Apply = (\<lambda>plan. rewrite (queryWouldReverseInboundTraversal (pn_Query plan)) reverse_query plan)\<rparr>"

definition PredicateAttachmentRule :: Rule where
  "PredicateAttachmentRule = \<lparr>rl_Name = ''PredicateAttachment'', rl_preservesAnalysis = True, rl_usesLazyCopy = True,
     rl_Apply = (\<lambda>plan. Some (Inr (AttachPredicates (pn_Analysis plan) \<noteq> [],
       plan\<lparr>pn_PredicateAttachments := AttachPredicates (pn_Analysis plan)\<rparr>)))\<rparr>"

definition DefaultRules :: "Rule list" where
  "DefaultRules = [ConservativePatternReorderingRule, InboundTraversalReversalRule, PredicateAttachmentRule]"

fun run_rules :: "Rule list \<Rightarrow> Plan \<Rightarrow> (string + Plan) option" where
  "run_rules [] plan = Some (Inr plan)"
| "run_rules (rule # rules) plan = do {
     plan0 \<leftarrow> (if rl_usesLazyCopy rule then Some plan else EnsureMutable plan);
     result \<leftarrow> rl_Apply rule plan0;
     (case result of
        Inl err \<Rightarrow> Some (Inl err)
      | Inr (applied, plan1) \<Rightarrow> do {
          analysis \<leftarrow> (if applied \<and> \<not> rl_preservesAnalysis rule then Analyze (pn_Query plan1) else Some (pn_Analysis plan1));
          run_rules rules (plan1\<lparr>pn_Rules := pn_Rules plan1 @ [\<lparr>rr_Name = rl_Name rule, rr_Applied = applied\<rparr>], pn_Analysis := analysis\<rparr>)
        })
   }"

text \<open>\<open>Optimizer.optimize\<close> up to the lowering plan.\<close>

definition optimize_rules :: "Rule list \<Rightarrow> SyntaxNode RegularQuery option \<Rightarrow> bool \<Rightarrow> (string + Plan) option" where
  "optimize_rules rules query queryCopied = (if query = None
     then Some (Inr \<lparr>pn_Query = None, pn_Analysis = [], pn_Rules = [], pn_PredicateAttachments = [], pn_queryCopied = False\<rparr>)
     else do {
       analysis \<leftarrow> Analyze query;
       run_rules rules \<lparr>pn_Query = query, pn_Analysis = analysis, pn_Rules = [], pn_PredicateAttachments = [], pn_queryCopied = queryCopied\<rparr>
     })"

definition Optimize :: "Rule list \<Rightarrow> SyntaxNode RegularQuery option \<Rightarrow> (string + Plan) option" where
  "Optimize rules query = (if query = None then optimize_rules rules query False
     else (case Copy (N_RegularQuery query) of
        Some (N_RegularQuery copied) \<Rightarrow> optimize_rules rules copied True
      | _ \<Rightarrow> None))"

definition OptimizeBorrowed :: "Rule list \<Rightarrow> SyntaxNode RegularQuery option \<Rightarrow> (string + Plan) option" where
  "OptimizeBorrowed rules query = optimize_rules rules query False"

section \<open>Rewrites happen exactly when they are announced\<close>

definition part_known :: "Analysis \<Rightarrow> int \<Rightarrow> reading_clause list \<Rightarrow> bool" where
  "part_known analysis index clauses \<longleftrightarrow> (\<forall>part. analysisQueryPart analysis index = Some part \<longrightarrow>
     (\<exists>q barriers. analyzeReadingClauses q clauses = Some (qp_Regions part, barriers)))"

lemma reorder_part_applied:
  assumes "part_known analysis index clauses" "reorder_part analysis index clauses = Some (clauses', applied)"
  shows "part_would_reorder analysis index clauses = Some applied \<and> (\<not> applied \<longrightarrow> clauses' = clauses)"
proof (cases "analysisQueryPart analysis index")
  case None
  with assms show ?thesis by (simp add: reorder_part_def part_would_reorder_def)
next
  case (Some part)
  with assms obtain q barriers cs where a: "analyzeReadingClauses q clauses = Some (qp_Regions part, barriers)"
    and r: "reorderReadingClauses (addressed clauses) (qp_Regions part) = Some (cs, applied)" "clauses' = map deref cs"
    by (auto simp: part_known_def reorder_part_def)
  from reorderReadingClauses_applied [OF coherent_addressed analyzed_regions(2,1) [OF a] r(1)] Some r(2)
  show ?thesis by (auto simp: part_would_reorder_def deref_addressed)
qed

lemma reorder_parts_applied:
  assumes "\<forall>(i, part) \<in> set parts. \<forall>p. part = Some p \<longrightarrow> part_known analysis i (mp_ReadingClauses p)"
    "those (map (reorder_multi_part analysis) parts) = Some results"
  shows "any_would_reorder analysis parts = Some (list_ex snd results) \<and> (\<not> list_ex snd results \<longrightarrow> map fst results = map snd parts)"
  using assms
proof (induction parts arbitrary: results)
  case (Cons x parts)
  obtain i part where x: "x = (i, part)" by (cases x)
  from Cons.prems(2) obtain r rs where r: "reorder_multi_part analysis x = Some r" and rs: "those (map (reorder_multi_part analysis) parts) = Some rs"
    and results: "results = r # rs" by (auto split: option.splits)
  from Cons.prems(1) Cons.IH [OF _ rs] have IH: "any_would_reorder analysis parts = Some (list_ex snd rs)"
    "\<not> list_ex snd rs \<longrightarrow> map fst rs = map snd parts" by auto
  show ?case
  proof (cases part)
    case None
    with r x results IH show ?thesis by (auto simp: reorder_multi_part_def)
  next
    case (Some p)
    with r x obtain clauses where c: "reorder_part analysis i (mp_ReadingClauses p) = Some (clauses, snd r)"
      "fst r = Some (MultiPartQueryPart clauses (mp_UpdatingClauses p) (mp_With p))" by (auto simp: reorder_multi_part_def)
    have "part_known analysis i (mp_ReadingClauses p)" using Cons.prems(1) x Some by auto
    from reorder_part_applied [OF this c(1)] IH Some x results c(2) show ?thesis by (cases p; cases "snd r") auto
  qed
qed simp

lemma indexed_nth: "i < length xs \<Longrightarrow> indexed xs ! i = (int i, xs ! i)"
  by (simp add: indexed_def nth_enumerate_eq)

lemma indexed_length: "length (indexed xs) = length xs"
  by (simp add: indexed_def)

lemma in_set_indexed: "(i, x) \<in> set (indexed xs) \<longleftrightarrow> (\<exists>j < length xs. i = int j \<and> xs ! j = x)"
  by (auto simp: in_set_conv_nth indexed_nth indexed_length)

lemma analysisQueryPart_nth:
  assumes "\<forall>j < length analysis. qp_Index (analysis ! j) = int j" "analysisQueryPart analysis (int i) = Some part"
  shows "i < length analysis \<and> part = analysis ! i"
  using assms by (auto simp: analysisQueryPart_def find_Some_iff)

lemma analyzeSinglePartQuery_part:
  assumes "analyzeSinglePartQuery index kind (Some s) = Some part"
  shows "qp_Index part = index \<and> (\<exists>barriers. analyzeReadingClauses index (sp_ReadingClauses s) = Some (qp_Regions part, barriers))"
  using assms by (cases s) (auto simp: analyzeSinglePartQuery_def Let_def)

lemma analyzeMultiPartQueryPart_part:
  assumes "analyzeMultiPartQueryPart index p = Some part"
  shows "qp_Index part = index \<and> (\<forall>q. p = Some q \<longrightarrow>
    (\<exists>barriers. analyzeReadingClauses index (mp_ReadingClauses q) = Some (qp_Regions part, barriers)))"
proof (cases p)
  case None
  with assms show ?thesis by (auto simp: analyzeMultiPartQueryPart_def)
next
  case (Some q)
  with assms show ?thesis by (cases q) (auto simp: analyzeMultiPartQueryPart_def Let_def)
qed

lemma analyzeMultiPartQuery_parts:
  assumes "analyzeMultiPartQuery m = Some analysis"
  shows "\<forall>(i, part) \<in> set (indexed (mq_Parts m)). \<forall>p. part = Some p \<longrightarrow> part_known analysis i (mp_ReadingClauses p)"
    "mq_SinglePartQuery m = Some s \<Longrightarrow> part_known analysis (int (length (mq_Parts m))) (sp_ReadingClauses s)"
proof -
  let ?n = "length (mq_Parts m)"
  from assms obtain parts final where
    parts: "those (map (\<lambda>(idx, part). analyzeMultiPartQueryPart idx part) (indexed (mq_Parts m))) = Some parts"
    and final: "(if mq_SinglePartQuery m \<noteq> None
       then map_option (\<lambda>p. [p]) (analyzeSinglePartQuery (int ?n) QueryPartKindSingle (mq_SinglePartQuery m)) else Some []) = Some final"
    and analysis: "analysis = parts @ final"
    by (auto simp: analyzeMultiPartQuery_def bind_eq_Some_conv)
  have all2: "list_all2 (\<lambda>(idx, part) r. analyzeMultiPartQueryPart idx part = Some r) (indexed (mq_Parts m)) parts"
    using parts by (simp add: those_Some_map case_prod_beta')
  then have len: "length parts = ?n" using list_all2_lengthD indexed_length by metis
  have each: "analyzeMultiPartQueryPart (int j) (mq_Parts m ! j) = Some (parts ! j)" if "j < ?n" for j
    using list_all2_nthD [OF all2, of j] that by (simp add: indexed_nth indexed_length)
  have last: "mq_SinglePartQuery m = Some s \<and> analyzeSinglePartQuery (int ?n) QueryPartKindSingle (Some s) = Some r" if "final = [r]" "mq_SinglePartQuery m = Some s" for r s
    using final that by auto
  have final_cases: "final = [] \<or> (\<exists>r s. final = [r] \<and> mq_SinglePartQuery m = Some s)" using final by (auto split: if_splits)
  have index: "qp_Index (analysis ! j) = int j" if "j < length analysis" for j
  proof (cases "j < ?n")
    case True
    with analyzeMultiPartQueryPart_part [OF each] len analysis show ?thesis by (simp add: nth_append)
  next
    case False
    with that analysis len final_cases obtain r s where f: "j = ?n" "final = [r]" "mq_SinglePartQuery m = Some s" by auto
    from analyzeSinglePartQuery_part [OF last [OF f(2,3), THEN conjunct2]] f analysis len show ?thesis by (simp add: nth_append)
  qed
  show "\<forall>(i, part) \<in> set (indexed (mq_Parts m)). \<forall>p. part = Some p \<longrightarrow> part_known analysis i (mp_ReadingClauses p)"
  proof clarify
    fix i p assume "(i, Some p) \<in> set (indexed (mq_Parts m))"
    then obtain j where j: "i = int j" "j < ?n" "mq_Parts m ! j = Some p" by (auto simp: in_set_indexed)
    show "part_known analysis i (mp_ReadingClauses p)"
      unfolding part_known_def
    proof (intro allI impI)
      fix part assume "analysisQueryPart analysis i = Some part"
      with analysisQueryPart_nth index j(1) have "part = analysis ! j" by blast
      then have "part = parts ! j" using j(2) len analysis by (simp add: nth_append)
      with each [OF j(2)] j(3) analyzeMultiPartQueryPart_part
      show "\<exists>q barriers. analyzeReadingClauses q (mp_ReadingClauses p) = Some (qp_Regions part, barriers)" by metis
    qed
  qed
  assume s: "mq_SinglePartQuery m = Some s"
  show "part_known analysis (int ?n) (sp_ReadingClauses s)"
    unfolding part_known_def
  proof (intro allI impI)
    fix part assume "analysisQueryPart analysis (int ?n) = Some part"
    with analysisQueryPart_nth index have "?n < length analysis" "part = analysis ! ?n" by blast+
    with analysis len final_cases have "final = [part]" by (auto simp: nth_append)
    with last s have "analyzeSinglePartQuery (int ?n) QueryPartKindSingle (Some s) = Some part" by blast
    with analyzeSinglePartQuery_part show "\<exists>q barriers. analyzeReadingClauses q (sp_ReadingClauses s) = Some (qp_Regions part, barriers)"
      by blast
  qed
qed

lemma reorderSinglePartQuery_applied:
  assumes "part_known analysis i (sp_ReadingClauses s)" "reorderSinglePartQuery s analysis i = Some (s', applied)"
  shows "part_would_reorder analysis i (sp_ReadingClauses s) = Some applied \<and> (\<not> applied \<longrightarrow> s' = s)"
proof -
  from assms(2) obtain clauses where c: "reorder_part analysis i (sp_ReadingClauses s) = Some (clauses, applied)"
    "s' = SinglePartQuery (sp_errors s) clauses (sp_UpdatingClauses s) (sp_Return s)" by (auto simp: reorderSinglePartQuery_def)
  from reorder_part_applied [OF assms(1) c(1)] c(2) show ?thesis by (cases s) auto
qed

lemma query_cases:
  obtains (multi) s m where "query = Some (RegularQuery (Some (SingleQuery s (Some m))))"
  | (single) s where "query = Some (RegularQuery (Some (SingleQuery (Some s) None)))"
  | (none) "query = Some (RegularQuery (Some (SingleQuery None None)))" | (nil) "query = Some (RegularQuery None)" | (empty) "query = None"
  by (metis RegularQuery.exhaust SingleQuery.exhaust option.exhaust)

lemma reorder_query_applied:
  assumes "Analyze query = Some analysis" "reorder_query query analysis = Some (query', applied)"
  shows "queryWouldReorder query analysis = Some applied \<and> (\<not> applied \<longrightarrow> query' = query)"
proof (cases query rule: query_cases)
  case (multi s m)
  with assms(1) have m: "analyzeMultiPartQuery m = Some analysis" by (simp add: Analyze_def)
  from assms(2) multi obtain results final finalApplied where
    r: "those (map (reorder_multi_part analysis) (indexed (mq_Parts m))) = Some results"
    and f: "(case mq_SinglePartQuery m of None \<Rightarrow> Some (None, False)
      | Some s \<Rightarrow> map_option (map_prod Some id) (reorderSinglePartQuery s analysis (int (length (mq_Parts m))))) = Some (final, finalApplied)"
    and q: "query' = Some (RegularQuery (Some (SingleQuery s (Some (MultiPartQuery (map fst results) final)))))"
      "applied = (list_ex snd results \<or> finalApplied)"
    by (simp add: reorder_query_def reorderMultiPartQuery_def bind_eq_Some_conv) blast
  note parts = reorder_parts_applied [OF analyzeMultiPartQuery_parts(1) [OF m] r]
  show ?thesis
  proof (cases "mq_SinglePartQuery m")
    case None
    with parts f q multi indexed_snd [of "mq_Parts m"] show ?thesis by (cases m) (auto simp: queryWouldReorder_def)
  next
    case (Some s')
    with f obtain s'' where s'': "reorderSinglePartQuery s' analysis (int (length (mq_Parts m))) = Some (s'', finalApplied)" "final = Some s''"
      by auto
    from reorderSinglePartQuery_applied [OF analyzeMultiPartQuery_parts(2) [OF m Some] s''(1)] parts q multi Some s''(2)
      indexed_snd [of "mq_Parts m"]
    show ?thesis by (cases m; cases "list_ex snd results") (auto simp: queryWouldReorder_def)
  qed
next
  case (single s)
  with assms(1) obtain part where part: "analyzeSinglePartQuery 0 QueryPartKindSingle (Some s) = Some part" "analysis = [part]"
    by (auto simp: Analyze_def)
  then have known: "part_known analysis 0 (sp_ReadingClauses s)"
    using analyzeSinglePartQuery_part by (fastforce simp: part_known_def analysisQueryPart_def)
  from assms(2) single obtain s' where s': "reorderSinglePartQuery s analysis 0 = Some (s', applied)"
    "query' = Some (RegularQuery (Some (SingleQuery (Some s') None)))" by (auto simp: reorder_query_def)
  from reorderSinglePartQuery_applied [OF known s'(1)] s'(2) single show ?thesis by (auto simp: queryWouldReorder_def)
qed (use assms(2) in \<open>auto simp: reorder_query_def queryWouldReorder_def\<close>)

lemma reverseSinglePartQuery_applied:
  assumes "reverseInboundTraversalSinglePartQuery s declared = Some (s', applied)"
  shows "map_option fst (readingClausesWouldReverseInboundTraversal (sp_ReadingClauses s) declared) = Some applied \<and> (\<not> applied \<longrightarrow> s' = s)"
proof -
  from assms obtain clauses d where c: "reverseInboundTraversalReadingClauses (sp_ReadingClauses s) declared = Some (clauses, applied, d)"
    "s' = SinglePartQuery (sp_errors s) clauses (sp_UpdatingClauses s) (sp_Return s)"
    by (auto simp: reverseInboundTraversalSinglePartQuery_def)
  from reverse_clauses_applied [OF c(1)] c(2) show ?thesis by (cases s) auto
qed

lemma reverse_parts_applied:
  "reverse_parts parts declared = Some (parts', applied, declared') \<Longrightarrow>
     \<exists>d. parts_would_reverse parts declared = Some (applied, d) \<and> (\<not> applied \<longrightarrow> parts' = parts \<and> d = declared')"
proof (induction parts arbitrary: declared parts' applied)
  case (Cons part parts)
  show ?case
  proof (cases part)
    case None
    with Cons show ?thesis by (auto simp: bind_eq_Some_conv)
  next
    case (Some p)
    obtain readings updates wth where p: "p = MultiPartQueryPart readings updates wth" by (cases p)
    from Cons.prems Some p obtain clauses reversed declared1 rest applied' where
      c: "reverseInboundTraversalReadingClauses readings declared = Some (clauses, reversed, declared1)"
      and r: "reverse_parts parts (carry_symbols wth declared1) = Some (rest, applied', declared')"
      and eq: "parts' = Some (MultiPartQueryPart clauses updates wth) # rest" "applied = (reversed \<or> applied')"
      by (simp add: bind_eq_Some_conv) blast
    from reverse_clauses_applied [OF c] Cons.IH [OF r] eq Some p show ?thesis by (cases reversed) auto
  qed
qed simp

lemma reverse_query_applied:
  assumes "reverse_query query = Some (query', applied)"
  shows "queryWouldReverseInboundTraversal query = Some applied \<and> (\<not> applied \<longrightarrow> query' = query)"
proof (cases query rule: query_cases)
  case (multi s m)
  show ?thesis
  proof (cases s)
    case None
    with assms multi obtain m' where m': "reverseInboundTraversalMultiPartQuery m = Some (m', applied)"
      "query' = Some (RegularQuery (Some (SingleQuery None (Some m'))))" by (auto simp: reverse_query_def)
    have "multiPartQueryWouldReverseInboundTraversal m = Some applied \<and> (\<not> applied \<longrightarrow> m' = m)"
    proof (cases "mq_SinglePartQuery m")
      case None
      with m' show ?thesis by (simp add: reverseInboundTraversalMultiPartQuery_def multiPartQueryWouldReverseInboundTraversal_def)
    next
      case (Some f)
      with m'(1) obtain parts a d f' fa where p: "reverse_parts (mq_Parts m) {} = Some (parts, a, d)"
        and f': "reverseInboundTraversalSinglePartQuery f d = Some (f', fa)"
        and eq: "m' = MultiPartQuery parts (Some f')" "applied = (a \<or> fa)"
        by (simp add: reverseInboundTraversalMultiPartQuery_def bind_eq_Some_conv) blast
      from reverse_parts_applied [OF p] reverseSinglePartQuery_applied [OF f'] eq Some
      show ?thesis by (cases a; cases m) (auto simp: multiPartQueryWouldReverseInboundTraversal_def)
    qed
    with multi None m'(2) show ?thesis by (auto simp: queryWouldReverseInboundTraversal_def)
  next
    case (Some t)
    with assms multi show ?thesis by (auto simp: reverse_query_def queryWouldReverseInboundTraversal_def)
  qed
next
  case (single s)
  with assms obtain s' where s': "reverseInboundTraversalSinglePartQuery s {} = Some (s', applied)"
    "query' = Some (RegularQuery (Some (SingleQuery (Some s') None)))" by (auto simp: reverse_query_def)
  from reverseSinglePartQuery_applied [OF s'(1)] s'(2) single show ?thesis by (auto simp: queryWouldReverseInboundTraversal_def)
qed (use assms in \<open>auto simp: reverse_query_def queryWouldReverseInboundTraversal_def\<close>)

section \<open>The plan the default rules give\<close>

lemma EnsureMutable_query:
  assumes "EnsureMutable plan = Some plan'" "pn_Query plan \<noteq> None"
  shows "plan' = plan\<lparr>pn_queryCopied := True\<rparr>"
proof (cases "pn_queryCopied plan")
  case True
  with assms(1) show ?thesis by (simp add: EnsureMutable_def)
next
  case False
  with assms obtain n where n: "Copy (N_RegularQuery (pn_Query plan)) = Some n" by (auto simp: EnsureMutable_def split: option.splits)
  with Copy_eq have "n = N_RegularQuery (pn_Query plan)" by blast
  with n assms False show ?thesis by (simp add: EnsureMutable_def)
qed

text \<open>A rewriting rule either leaves the plan as it is or changes the query and owns it.\<close>

lemma rewrite_plan:
  assumes "rewrite check change plan = Some (Inr (applied, plan'))" "pn_Query plan \<noteq> None"
    and change: "\<And>query applied. change (pn_Query plan) = Some (query, applied) \<Longrightarrow> check = Some applied"
  shows "if applied then \<exists>query. change (pn_Query plan) = Some (query, True) \<and> plan' = plan\<lparr>pn_Query := query, pn_queryCopied := True\<rparr>
    else plan' = plan"
proof -
  from assms(1) obtain would where would: "check = Some would" by (auto simp: rewrite_def bind_eq_Some_conv)
  show ?thesis
  proof (cases would)
    case False
    with assms(1) would show ?thesis by (simp add: rewrite_def)
  next
    case True
    with assms(1) would obtain mutable query where m: "EnsureMutable plan = Some mutable" "change (pn_Query mutable) = Some (query, applied)"
      "plan' = mutable\<lparr>pn_Query := query\<rparr>" by (auto simp: rewrite_def bind_eq_Some_conv)
    note mutable = EnsureMutable_query [OF m(1) assms(2)]
    with m change would True have "applied" by auto
    with m mutable show ?thesis by auto
  qed
qed

lemma rewrite_no_error: "rewrite check change plan \<noteq> Some (Inl err)"
  by (auto simp: rewrite_def bind_eq_Some_conv split: if_splits)

lemma rewrite_query_kept:
  assumes "change query = Some (query', applied)" "query \<noteq> None" "change = (\<lambda>query. reorder_query query analysis) \<or> change = reverse_query"
  shows "query' \<noteq> None"
  using assms by (cases query rule: query_cases)
    (auto simp: reorder_query_def reverse_query_def split: option.splits)

definition plan_current :: "Plan \<Rightarrow> bool" where
  "plan_current plan \<longleftrightarrow> pn_Query plan \<noteq> None \<and> Analyze (pn_Query plan) = Some (pn_Analysis plan)"

lemma run_rewrite_rule:
  assumes "plan_current plan" "run_rules (rule # rules) plan = Some result"
    and rule: "rl_usesLazyCopy rule" "\<not> rl_preservesAnalysis rule" "rl_Apply rule plan = rewrite check change plan"
    and change: "\<And>query applied. change (pn_Query plan) = Some (query, applied) \<Longrightarrow> check = Some applied \<and> query \<noteq> None"
  obtains applied plan' where "plan_current plan'" "run_rules rules plan' = Some result"
    "pn_Rules plan' = pn_Rules plan @ [\<lparr>rr_Name = rl_Name rule, rr_Applied = applied\<rparr>]"
    "pn_queryCopied plan' = (pn_queryCopied plan \<or> applied)" "\<not> applied \<longrightarrow> pn_Query plan' = pn_Query plan"
proof -
  from assms(2) rule obtain r where r: "rewrite check change plan = Some r" by (auto simp: bind_eq_Some_conv)
  with rewrite_no_error obtain applied plan1 where eq: "r = Inr (applied, plan1)" by (cases r) auto
  let ?rules = "pn_Rules plan1 @ [\<lparr>rr_Name = rl_Name rule, rr_Applied = applied\<rparr>]"
  from assms(2) rule r eq obtain analysis where
    a: "(if applied then Analyze (pn_Query plan1) else Some (pn_Analysis plan1)) = Some analysis"
    and run: "run_rules rules (plan1\<lparr>pn_Rules := ?rules, pn_Analysis := analysis\<rparr>) = Some result"
    by (auto simp: bind_eq_Some_conv split: if_splits)
  have "pn_Query plan \<noteq> None" using assms(1) by (simp add: plan_current_def)
  then have w: "if applied then \<exists>query. change (pn_Query plan) = Some (query, True) \<and> plan1 = plan\<lparr>pn_Query := query, pn_queryCopied := True\<rparr>
      else plan1 = plan"
    by (rule rewrite_plan [OF r [unfolded eq]]) (use change in blast)
  show thesis
  proof (rule that [OF _ run])
    show "plan_current (plan1\<lparr>pn_Rules := ?rules, pn_Analysis := analysis\<rparr>)"
      using w a assms(1) change by (cases applied) (auto simp: plan_current_def)
  qed (use w in \<open>auto split: if_splits\<close>)
qed

lemma reorder_query_not_nil: "reorder_query query analysis = Some (query', applied) \<Longrightarrow> query \<noteq> None \<Longrightarrow> query' \<noteq> None"
  using rewrite_query_kept [of "\<lambda>query. reorder_query query analysis"] by blast

lemma reverse_query_not_nil: "reverse_query query = Some (query', applied) \<Longrightarrow> query \<noteq> None \<Longrightarrow> query' \<noteq> None"
  using rewrite_query_kept [of reverse_query] by blast

definition rule_step :: "Plan \<Rightarrow> bool \<Rightarrow> Plan \<Rightarrow> bool" where
  "rule_step plan applied plan' \<longleftrightarrow> plan_current plan' \<and> map rr_Applied (pn_Rules plan') = map rr_Applied (pn_Rules plan) @ [applied] \<and>
     pn_queryCopied plan' = (pn_queryCopied plan \<or> applied) \<and> (\<not> applied \<longrightarrow> pn_Query plan' = pn_Query plan)"

text \<open>The contract of the rewriting rules: the check announces whether the rewrite applies.\<close>

locale rewriting_rule =
  fixes rule :: Rule
    and check :: "SyntaxNode RegularQuery option \<Rightarrow> Analysis \<Rightarrow> bool option"
    and change :: "SyntaxNode RegularQuery option \<Rightarrow> Analysis \<Rightarrow> (SyntaxNode RegularQuery option \<times> bool) option"
  assumes lazy: "rl_usesLazyCopy rule" and changes_analysis: "\<not> rl_preservesAnalysis rule"
    and Apply: "rl_Apply rule plan = rewrite (check (pn_Query plan) (pn_Analysis plan)) (\<lambda>query. change query (pn_Analysis plan)) plan"
    and announced: "Analyze query = Some analysis \<Longrightarrow> change query analysis = Some (query', applied) \<Longrightarrow> check query analysis = Some applied"
    and not_nil: "change query analysis = Some (query', applied) \<Longrightarrow> query \<noteq> None \<Longrightarrow> query' \<noteq> None"
begin

lemma run_step:
  assumes "plan_current plan" "run_rules (rule # rules) plan = Some result"
  shows "\<exists>applied plan'. run_rules rules plan' = Some result \<and> rule_step plan applied plan'"
proof (rule run_rewrite_rule [OF assms lazy changes_analysis Apply])
  fix query applied assume "change (pn_Query plan) (pn_Analysis plan) = Some (query, applied)"
  with assms(1) show "check (pn_Query plan) (pn_Analysis plan) = Some applied \<and> query \<noteq> None"
    using announced not_nil by (auto simp: plan_current_def)
next
  fix applied plan'
  assume "plan_current plan'" "run_rules rules plan' = Some result"
    "pn_Rules plan' = pn_Rules plan @ [\<lparr>rr_Name = rl_Name rule, rr_Applied = applied\<rparr>]"
    "pn_queryCopied plan' = (pn_queryCopied plan \<or> applied)" "\<not> applied \<longrightarrow> pn_Query plan' = pn_Query plan"
  then have "run_rules rules plan' = Some result" "rule_step plan applied plan'" by (simp_all add: rule_step_def)
  then show ?thesis by blast
qed

end

interpretation reordering: rewriting_rule ConservativePatternReorderingRule queryWouldReorder reorder_query
  by unfold_locales (auto simp: ConservativePatternReorderingRule_def dest: reorder_query_applied reorder_query_not_nil)

interpretation reversal: rewriting_rule InboundTraversalReversalRule "\<lambda>query analysis. queryWouldReverseInboundTraversal query" "\<lambda>query analysis. reverse_query query"
  by unfold_locales (auto simp: InboundTraversalReversalRule_def dest: reverse_query_applied reverse_query_not_nil)

lemma run_default_rules:
  assumes "plan_current plan" "run_rules DefaultRules plan = Some result" "pn_Rules plan = []"
  shows "\<exists>plan' reordered reversed. result = Inr plan' \<and> plan_current plan' \<and>
    pn_PredicateAttachments plan' = AttachPredicates (pn_Analysis plan') \<and>
    map rr_Applied (pn_Rules plan') = [reordered, reversed, pn_PredicateAttachments plan' \<noteq> []] \<and>
    pn_queryCopied plan' = (pn_queryCopied plan \<or> reordered \<or> reversed) \<and>
    (\<not> reordered \<and> \<not> reversed \<longrightarrow> pn_Query plan' = pn_Query plan)"
proof -
  from reordering.run_step [OF assms(1) assms(2) [unfolded DefaultRules_def]] obtain reordered plan1 where
    p1: "run_rules [InboundTraversalReversalRule, PredicateAttachmentRule] plan1 = Some result" "rule_step plan reordered plan1" by blast
  from reversal.run_step [OF _ p1(1)] p1(2) obtain reversed plan2 where
    p2: "run_rules [PredicateAttachmentRule] plan2 = Some result" "rule_step plan1 reversed plan2" by (auto simp: rule_step_def)
  let ?attachments = "AttachPredicates (pn_Analysis plan2)"
  let ?plan = "plan2\<lparr>pn_PredicateAttachments := ?attachments,
      pn_Rules := pn_Rules plan2 @ [\<lparr>rr_Name = ''PredicateAttachment'', rr_Applied = ?attachments \<noteq> []\<rparr>]\<rparr>"
  have "result = Inr ?plan" using p2(1) by (simp add: PredicateAttachmentRule_def)
  moreover have "plan_current ?plan" using p2(2) by (simp add: rule_step_def plan_current_def)
  moreover have "map rr_Applied (pn_Rules ?plan) = [reordered, reversed, ?attachments \<noteq> []]"
    using p1(2) p2(2) assms(3) by (simp add: rule_step_def)
  moreover have "pn_queryCopied ?plan = (pn_queryCopied plan \<or> reordered \<or> reversed)" using p1(2) p2(2) by (simp add: rule_step_def)
  moreover have "\<not> reordered \<and> \<not> reversed \<longrightarrow> pn_Query ?plan = pn_Query plan" using p1(2) p2(2) by (simp add: rule_step_def)
  ultimately show ?thesis by (intro exI [of _ ?plan] exI [of _ reordered] exI [of _ reversed]) simp
qed

text \<open>C13. The default rules never fail with an error, and the plan they give is consistent: its analysis is the analysis of its query
  and its attachments are those of that analysis. A query that is only borrowed is copied exactly when the reordering or the reversal
  reports that it applied; otherwise the plan holds the caller's query as it was.\<close>

theorem OptimizeBorrowed_plan:
  assumes "OptimizeBorrowed DefaultRules (Some query) = Some result"
  shows "\<exists>plan reordered reversed. result = Inr plan \<and> Analyze (pn_Query plan) = Some (pn_Analysis plan) \<and>
    pn_PredicateAttachments plan = AttachPredicates (pn_Analysis plan) \<and>
    map rr_Applied (pn_Rules plan) = [reordered, reversed, pn_PredicateAttachments plan \<noteq> []] \<and>
    (pn_queryCopied plan \<longleftrightarrow> reordered \<or> reversed) \<and> (pn_queryCopied plan \<or> pn_Query plan = Some query)"
proof -
  from assms obtain analysis where a: "Analyze (Some query) = Some analysis"
    and run: "run_rules DefaultRules \<lparr>pn_Query = Some query, pn_Analysis = analysis, pn_Rules = [], pn_PredicateAttachments = [],
      pn_queryCopied = False\<rparr> = Some result"
    by (auto simp: OptimizeBorrowed_def optimize_rules_def bind_eq_Some_conv)
  have "plan_current \<lparr>pn_Query = Some query, pn_Analysis = analysis, pn_Rules = [], pn_PredicateAttachments = [], pn_queryCopied = False\<rparr>"
    using a by (simp add: plan_current_def)
  from run_default_rules [OF this run] show ?thesis by (auto simp: plan_current_def)
qed

definition small_query :: "SyntaxNode RegularQuery" where
  "small_query = RegularQuery (Some (SingleQuery (Some (SinglePartQuery [] two_matches [] None)) None))"

theorem OptimizeBorrowed_plan_witness:
  "\<exists>plan reordered reversed. the (OptimizeBorrowed DefaultRules (Some small_query)) = Inr plan \<and> Analyze (pn_Query plan) = Some (pn_Analysis plan) \<and>
    pn_PredicateAttachments plan = AttachPredicates (pn_Analysis plan) \<and>
    map rr_Applied (pn_Rules plan) = [reordered, reversed, pn_PredicateAttachments plan \<noteq> []] \<and>
    (pn_queryCopied plan \<longleftrightarrow> reordered \<or> reversed) \<and> (pn_queryCopied plan \<or> pn_Query plan = Some small_query)"
proof (rule OptimizeBorrowed_plan)
  have "OptimizeBorrowed DefaultRules (Some small_query) \<noteq> None" by code_simp
  then show "OptimizeBorrowed DefaultRules (Some small_query) = Some (the (OptimizeBorrowed DefaultRules (Some small_query)))" by simp
qed

end
