(* ===== verification/Spec2Isabelle.thy ===== *)
theory Spec2Isabelle
  imports Algo_Reach Ct_Traversal Gr_Node Cy_Model Cy_Complete Ut_Atomics Ut_Channels Opt_Plan
begin

text \<open>
  \<^bold>\<open>DAWGS\<close> is a Go library for graph databases: it holds graphs in memory, searches them, represents and rewrites Cypher
  queries, and translates them for PostgreSQL and Neo4j. This development models its in-memory core and the query optimizer, function
  by function, and proves what the functions compute. File names below are relative to src/.

  \<^bold>\<open>Conventions.\<close> A struct is a record or a one-constructor datatype, an enumeration a datatype, \<open>uint64\<close> and \<open>graph.ID\<close> a 64-bit
  word, a pointer or interface value that may be nil an option, a map a partial function or an association list where order or
  evaluation matters, a set of strings a set. A method that changes its receiver returns the changed receiver. A panic (nil
  dereference, index out of range) is \<open>None\<close>; an error is a value of a sum type. A loop whose end is not evident is
  \<open>loop\<close> of \<open>Dawgs_Prelude\<close>, whose value \<open>None\<close> means that it does not return, and the theorems about it include that it
  returns; there is no fuel. The order in which Go ranges over a map, the choices of a \<open>select\<close> and the answers of a context are
  arguments, so the theorems hold for each of them. Goroutines are interleavings of atomic steps given by step relations.
  Third-party packages are parameters: the roaring bitmap (locale \<open>roaring64\<close>) and the deque (locale \<open>deque\<close>), each with the
  laws its documentation states and an instance on lists that satisfies them.

  \<^bold>\<open>Theories.\<close>
  \<^item> \<open>Dawgs_Prelude\<close>: loops, callback loops, the deque interface, shared lemmas. \<open>Go_Std\<close>: varints, decimal numerals, joins and
    writers of the Go standard library.
  \<^item> \<open>Card_Bitmap\<close>: cardinality/roaring64.go, the bitmaps that all containers store their sets in.
  \<^item> \<open>Go_Cache\<close>: cache/. The \<open>Sieve\<close> cache with its list, hand and second chance, and the map cache that refuses new keys when full.
    Every run of operations keeps the structural invariant and the capacity, never panics and never returns a stale value; what
    \<open>evict\<close> removes is characterised.
  \<^item> \<open>Dg_Digraph\<close>, \<open>Dg_Builder\<close>, \<open>Dg_Adjacency\<close>, \<open>Dg_Csr\<close>: container/digraph.go, util/builder.go, adjacencymap.go, csr.go. Graph
    searches terminate and are exact; both implementations satisfy the interface (locale \<open>directed_graph\<close>) and hold exactly the edges
    that were added.
  \<^item> \<open>Algo_Scc\<close>, \<open>Algo_Component\<close>, \<open>Algo_Reach\<close>: algo/scc.go and algo/reach.go. Tarjan's iterative algorithm, the condensation, the
    searches on it and the reachability cache.
  \<^item> \<open>Ct_Segment\<close>, \<open>Ct_Triplestore\<close>, \<open>Ct_Traversal\<close>: container/segment.go, triplestore.go and traversal.go. Binary form of paths, an
    indexed list of edges with deletions and projections, enumeration of paths up to a depth.
  \<^item> \<open>Gr_Kind\<close>, \<open>Gr_Properties\<close>, \<open>Gr_Node\<close>: graph/kind.go, types.go, properties.go, node.go, relationships.go, util.go, graph.go. Kinds,
    tracked changes of nodes, sets of nodes.
  \<^item> \<open>Cy_Syntax\<close>, \<open>Cy_Model\<close>, \<open>Cy_Copy\<close>, \<open>Cy_Complete\<close>: cypher/models/cypher. The syntax tree of Cypher, its constructors and methods
    and its deep copies: a copy equals its argument and exists for every tree without the nil pointers that a copy method reads.
  \<^item> \<open>Cy_Walk\<close>, \<open>Cy_Cursor\<close>: cypher/models/walk. The iterative walk over a tree with its visitors and the cursors of all node
    types: the walk terminates and does what the recursive traversal does.
  \<^item> \<open>Opt_Analysis\<close>, \<open>Opt_Selectivity\<close>, \<open>Opt_Reorder\<close>, \<open>Opt_Direction\<close>, \<open>Opt_Plan\<close>: cypher/models/pgsql/optimize. The regions of a query, the
    selectivity of patterns, the reordering of MATCH clauses, the reversal of traversals, and the rule loop that copies the
    query before it is first changed. The reordering keeps the rows of the query under any meaning of MATCH that depends on the
    variables a clause binds and uses; the reversed pattern matches the same paths; the plan is consistent and the caller's query is
    copied exactly when a rewrite applies (locale \<open>rewriting_rule\<close>, interpreted on both rewriting rules).
  \<^item> \<open>Ut_Atomics\<close>, \<open>Ut_Channels\<close>: util/atomics and util/channels. The lock-free counter, the buffered pipe, pipelines and the limiter,
    under every interleaving.

  \<^bold>\<open>How the parts interact.\<close> \<open>Algo_Component\<close> builds a CSR graph from the components \<open>Algo_Scc\<close> finds on any \<open>directed_graph\<close>;
  \<open>Algo_Reach\<close> searches it with the deque, collects bitmaps and stores them in two \<open>Sieve\<close> caches. \<open>Opt_Analysis\<close> reads queries with the
  walk of \<open>Cy_Cursor\<close>, \<open>Opt_Plan\<close> copies them with \<open>Copy\<close> of \<open>Cy_Copy\<close>, and its analysis feeds \<open>Opt_Reorder\<close>.

  \<^bold>\<open>Not modelled.\<close> Locks: a method that holds its lock for its whole body is one atomic step. Sizes by \<open>unsafe.Sizeof\<close>, JSON and
  reflection. The ANTLR parser (generated) and the listeners on its parse trees. The translation to SQL, the SQL syntax tree and the lowering
  plan, whose correctness is relative to PostgreSQL. Drivers, loaders, the retriever and commands, which are input and output.
\<close>

end
